(* ===== verification/Zip_Prelude.thy ===== *)
theory Zip_Prelude
  imports Main "HOL-Library.Word"
begin

text \<open>
  Shared vocabulary of the libzip model: the machine integer types of \<open>zipconf.h\<close>, the
  constants of \<open>zip.h\<close> and \<open>zipint.h\<close> that several components use, the little-endian
  byte encodings, the malloc oracle, and generic lemmas on lists and words.
\<close>

unbundle bit_operations_syntax

section \<open>Machine integers and byte strings\<close>

type_synonym u8 = "8 word"
type_synonym u16 = "16 word"
type_synonym u32 = "32 word"
type_synonym u64 = "64 word"
type_synonym bytes = "8 word list"

abbreviation ZIP_UINT16_MAX :: nat where "ZIP_UINT16_MAX \<equiv> 0xffff"
abbreviation ZIP_UINT32_MAX :: u64 where "ZIP_UINT32_MAX \<equiv> 0xffffffff"
abbreviation ZIP_INT64_MAX :: u64 where "ZIP_INT64_MAX \<equiv> 0x7fffffffffffffff"
abbreviation ZIP_UINT64_MAX :: u64 where "ZIP_UINT64_MAX \<equiv> 0xffffffffffffffff"

lemma unat_bounds:
  "unat (a :: u8) < 256" "unat (b :: u16) < 65536" "unat (c :: u32) < 4294967296"
  "unat (d :: u64) < 2 ^ 64"
proof -
  have "unat a < 2 ^ LENGTH(8)" "unat b < 2 ^ LENGTH(16)" "unat c < 2 ^ LENGTH(32)"
    "unat d < 2 ^ LENGTH(64)" by (rule unsigned_less)+
  then show "unat a < 256" "unat b < 65536" "unat c < 4294967296" "unat d < 2 ^ 64" by simp_all
qed

lemma unat_widen [simp]:
  "unat (ucast (x :: u16) :: u32) = unat x" "unat (ucast x :: u64) = unat x"
  "unat (ucast (y :: u32) :: u64) = unat y"
  using unat_bounds(2) [of x] unat_bounds(3) [of y]
  by (simp_all add: unsigned_ucast_eq take_bit_nat_eq_self)

lemma ucast_u16_u32_u8 [simp]: "ucast (ucast (x :: u16) :: u32) = (ucast x :: u8)"
  by (rule bit_word_eqI) (auto simp: bit_simps)

section \<open>Fact collections\<close>

named_theorems buf_simps \<open>effect of the buffer primitives inside their bounds\<close>
named_theorems le_simps \<open>lengths and inverses of the little-endian encodings\<close>

section \<open>Allocation\<close>

text \<open>
  Whether \<open>malloc\<close>/\<open>calloc\<close>/\<open>realloc\<close> returns memory is not decided by the program: an
  operation that allocates takes an oracle that says, for each allocation site of the source,
  whether it succeeds. Every theorem is stated for all oracles or for one that never fails.
\<close>

datatype alloc_site =
  A_buffer_data | A_buffer | A_string | A_string_raw | A_cp437 | A_ef | A_ef_data
| A_read_data | A_hash | A_hash_table | A_hash_entry | A_dirent | A_cdir | A_cdir_entry
| A_entries | A_password | A_name | A_source | A_source_ctx | A_fragments | A_offsets
| A_fragment_data | A_archive | A_filelist | A_window | A_crc | A_pkware | A_compress
| A_progress | A_open_source | A_error_string | A_deflate | A_file

type_synonym malloc = "alloc_site \<Rightarrow> bool"

abbreviation malloc_ok :: malloc where "malloc_ok \<equiv> (\<lambda>_. True)"

section \<open>Little-endian encodings\<close>

definition le16 :: "u16 \<Rightarrow> bytes" where
  "le16 x = [ucast x, ucast (drop_bit 8 x)]"

definition le32 :: "u32 \<Rightarrow> bytes" where
  "le32 x = [ucast x, ucast (drop_bit 8 x), ucast (drop_bit 16 x), ucast (drop_bit 24 x)]"

definition le64 :: "u64 \<Rightarrow> bytes" where
  "le64 x = [ucast x, ucast (drop_bit 8 x), ucast (drop_bit 16 x), ucast (drop_bit 24 x),
     ucast (drop_bit 32 x), ucast (drop_bit 40 x), ucast (drop_bit 48 x), ucast (drop_bit 56 x)]"

lemma length_le [simp, le_simps]:
  "length (le16 x) = 2" "length (le32 y) = 4" "length (le64 z) = 8"
  by (simp_all add: le16_def le32_def le64_def)

lemma mask_8_eq: "(0xff :: 'a::len word) = mask 8"
  by (simp add: mask_eq_exp_minus_1)

lemma ucast_and_ff [simp]: "(ucast (x AND 0xff) :: u8) = ucast x" for x :: "'a::len word"
  unfolding mask_8_eq by (rule bit_word_eqI) (auto simp: bit_simps dest: bit_imp_le_length)

text \<open>Reassembling a word from its bytes, with shift-and-add as the readers do.\<close>

lemma ucast_byte: "ucast (ucast x :: u8) = take_bit 8 x" for x :: "'a::len word"
  by (rule bit_word_eqI) (auto simp: bit_simps dest: bit_imp_le_length)

lemma shift_in_byte:
  "push_bit 8 (drop_bit (n + 8) x) + take_bit 8 (drop_bit n x) = drop_bit n x" for x :: "'a::len word"
  using bits_ident [of 8 "drop_bit n x"] by (simp add: add.commute)

lemma take_bit_top:
  "take_bit 8 (drop_bit 8 x) = drop_bit 8 (x :: u16)"
  "take_bit 8 (drop_bit 24 y) = drop_bit 24 (y :: u32)"
  "take_bit 8 (drop_bit 56 z) = drop_bit 56 (z :: u64)"
  by (rule bit_word_eqI, auto simp: bit_simps dest: bit_imp_le_length)+

lemma join16 [le_simps]:
  "ucast (ucast x :: u8) + push_bit 8 (ucast (ucast (drop_bit 8 x) :: u8)) = (x :: u16)"
  using shift_in_byte [of 0 x] by (simp add: ucast_byte take_bit_top add.commute)

lemma join32 [le_simps]:
  "push_bit 8 (push_bit 8 (push_bit 8 (ucast (ucast (drop_bit 24 x) :: u8)) +
     ucast (ucast (drop_bit 16 x) :: u8)) + ucast (ucast (drop_bit 8 x) :: u8)) +
     ucast (ucast x :: u8) = (x :: u32)"
  using shift_in_byte [of 16 x] shift_in_byte [of 8 x] shift_in_byte [of 0 x]
  by (simp add: ucast_byte take_bit_top)

lemma join64 [le_simps]:
  "push_bit 56 (ucast (ucast (drop_bit 56 x) :: u8)) + push_bit 48 (ucast (ucast (drop_bit 48 x) :: u8)) +
   push_bit 40 (ucast (ucast (drop_bit 40 x) :: u8)) + push_bit 32 (ucast (ucast (drop_bit 32 x) :: u8)) +
   push_bit 24 (ucast (ucast (drop_bit 24 x) :: u8)) + push_bit 16 (ucast (ucast (drop_bit 16 x) :: u8)) +
   push_bit 8 (ucast (ucast (drop_bit 8 x) :: u8)) + ucast (ucast x :: u8) = (x :: u64)"
proof -
  have step: "push_bit (n + 8) (drop_bit (n + 8) x) + push_bit n (take_bit 8 (drop_bit n x)) =
      push_bit n (drop_bit n x)" for n
    using arg_cong [OF shift_in_byte [of n x], of "push_bit n"] by (simp add: push_bit_add)
  show ?thesis
    using step [of 48] step [of 40] step [of 32] step [of 24] step [of 16] step [of 8] step [of 0]
    by (simp add: ucast_byte take_bit_top)
qed

end
