(* ===== verification/Zip_Error.thy ===== *)
theory Zip_Error
  imports Zip_Prelude
begin

text \<open>
  Error values: \<open>zip_error.c\<close>, \<open>zip_err_str.c\<close>, \<open>zip_error_strerror.c\<close> and
  \<open>zip_error_to_str.c\<close>. A C function with a \<open>zip_error_t *\<close> argument takes the error
  value and returns the updated one; where the code passes \<open>NULL\<close> the caller drops it.
\<close>

section \<open>Codes\<close>

abbreviation ZIP_ER_OK :: int where "ZIP_ER_OK \<equiv> 0"
abbreviation ZIP_ER_MULTIDISK :: int where "ZIP_ER_MULTIDISK \<equiv> 1"
abbreviation ZIP_ER_SEEK :: int where "ZIP_ER_SEEK \<equiv> 4"
abbreviation ZIP_ER_READ :: int where "ZIP_ER_READ \<equiv> 5"
abbreviation ZIP_ER_WRITE :: int where "ZIP_ER_WRITE \<equiv> 6"
abbreviation ZIP_ER_CRC :: int where "ZIP_ER_CRC \<equiv> 7"
abbreviation ZIP_ER_ZIPCLOSED :: int where "ZIP_ER_ZIPCLOSED \<equiv> 8"
abbreviation ZIP_ER_NOENT :: int where "ZIP_ER_NOENT \<equiv> 9"
abbreviation ZIP_ER_EXISTS :: int where "ZIP_ER_EXISTS \<equiv> 10"
abbreviation ZIP_ER_MEMORY :: int where "ZIP_ER_MEMORY \<equiv> 14"
abbreviation ZIP_ER_CHANGED :: int where "ZIP_ER_CHANGED \<equiv> 15"
abbreviation ZIP_ER_COMPNOTSUPP :: int where "ZIP_ER_COMPNOTSUPP \<equiv> 16"
abbreviation ZIP_ER_EOF :: int where "ZIP_ER_EOF \<equiv> 17"
abbreviation ZIP_ER_INVAL :: int where "ZIP_ER_INVAL \<equiv> 18"
abbreviation ZIP_ER_NOZIP :: int where "ZIP_ER_NOZIP \<equiv> 19"
abbreviation ZIP_ER_INTERNAL :: int where "ZIP_ER_INTERNAL \<equiv> 20"
abbreviation ZIP_ER_INCONS :: int where "ZIP_ER_INCONS \<equiv> 21"
abbreviation ZIP_ER_DELETED :: int where "ZIP_ER_DELETED \<equiv> 23"
abbreviation ZIP_ER_ENCRNOTSUPP :: int where "ZIP_ER_ENCRNOTSUPP \<equiv> 24"
abbreviation ZIP_ER_RDONLY :: int where "ZIP_ER_RDONLY \<equiv> 25"
abbreviation ZIP_ER_NOPASSWD :: int where "ZIP_ER_NOPASSWD \<equiv> 26"
abbreviation ZIP_ER_WRONGPASSWD :: int where "ZIP_ER_WRONGPASSWD \<equiv> 27"
abbreviation ZIP_ER_OPNOTSUPP :: int where "ZIP_ER_OPNOTSUPP \<equiv> 28"
abbreviation ZIP_ER_INUSE :: int where "ZIP_ER_INUSE \<equiv> 29"
abbreviation ZIP_ER_TELL :: int where "ZIP_ER_TELL \<equiv> 30"

text \<open>\<open>errno\<close> values the code names (Linux).\<close>

abbreviation ENOENT :: int where "ENOENT \<equiv> 2"
abbreviation EINTR :: int where "EINTR \<equiv> 4"
abbreviation EFBIG :: int where "EFBIG \<equiv> 27"
abbreviation EOVERFLOW :: int where "EOVERFLOW \<equiv> 75"
abbreviation EOPNOTSUPP :: int where "EOPNOTSUPP \<equiv> 95"

datatype zip_et = ZIP_ET_NONE | ZIP_ET_SYS | ZIP_ET_ZLIB

definition zip_err_strs :: "string list" where
  "zip_err_strs = [
    ''No error'', ''Multi-disk zip archives not supported'', ''Renaming temporary file failed'',
    ''Closing zip archive failed'', ''Seek error'', ''Read error'', ''Write error'', ''CRC error'',
    ''Containing zip archive was closed'', ''No such file'', ''File already exists'',
    ''Can't open file'', ''Failure to create temporary file'', ''Zlib error'', ''Malloc failure'',
    ''Entry has been changed'', ''Compression method not supported'', ''Premature end of file'',
    ''Invalid argument'', ''Not a zip archive'', ''Internal error'', ''Zip archive inconsistent'',
    ''Can't remove file'', ''Entry has been deleted'', ''Encryption method not supported'',
    ''Read-only archive'', ''No password provided'', ''Wrong password provided'',
    ''Operation not supported'', ''Resource still in use'', ''Tell error'',
    ''Compressed data invalid'']"

definition zip_err_type :: "zip_et list" where
  "zip_err_type = (let N = ZIP_ET_NONE; S = ZIP_ET_SYS; Z = ZIP_ET_ZLIB in
    [N, N, S, S, S, S, S, N, N, N, N, S, S, Z, N, N, N, N, N, N, N, N, S, N, N, N, N, N, N, N, S, N])"

definition zip_nerr_str :: int where
  "zip_nerr_str = int (length zip_err_strs)"

section \<open>The error structure\<close>

record zip_error =
  zip_err :: int
  sys_err :: int
  err_str :: "string option"

definition zip_error_init :: zip_error where
  "zip_error_init = \<lparr>zip_err = ZIP_ER_OK, sys_err = 0, err_str = None\<rparr>"

definition zip_error_fini :: "zip_error \<Rightarrow> zip_error" where
  "zip_error_fini e = e\<lparr>err_str := None\<rparr>"

definition zip_error_code_zip :: "zip_error \<Rightarrow> int" where
  "zip_error_code_zip e = zip_err e"

definition zip_error_code_system :: "zip_error \<Rightarrow> int" where
  "zip_error_code_system e = sys_err e"

definition zip_error_set :: "zip_error \<Rightarrow> int \<Rightarrow> int \<Rightarrow> zip_error" where
  "zip_error_set e ze se = e\<lparr>zip_err := ze, sys_err := se\<rparr>"

definition zip_error_clear :: "zip_error \<Rightarrow> zip_error" where
  "zip_error_clear e = e\<lparr>zip_err := ZIP_ER_OK, sys_err := 0\<rparr>"

definition zip_error_copy :: "zip_error \<Rightarrow> zip_error \<Rightarrow> zip_error" where
  "zip_error_copy dst src = dst\<lparr>zip_err := zip_err src, sys_err := sys_err src\<rparr>"

text \<open>\<open>zip_error_get_sys_type\<close> is the deprecated entry point with the same body.\<close>

definition zip_error_get_sys_type :: "int \<Rightarrow> zip_et" where
  "zip_error_get_sys_type ze =
     (if ze < 0 \<or> ze \<ge> zip_nerr_str then ZIP_ET_NONE else zip_err_type ! nat ze)"

definition zip_error_system_type :: "zip_error \<Rightarrow> zip_et" where
  "zip_error_system_type e =
     (if zip_err e < 0 \<or> zip_err e \<ge> zip_nerr_str then ZIP_ET_NONE
      else zip_err_type ! nat (zip_err e))"

definition zip_error_init_with_code :: "int \<Rightarrow> int \<Rightarrow> zip_error" where
  "zip_error_init_with_code errno ze =
     (let e = zip_error_init\<lparr>zip_err := ze\<rparr>
      in case zip_error_system_type e of
           ZIP_ET_SYS \<Rightarrow> e\<lparr>sys_err := errno\<rparr>
         | _ \<Rightarrow> e\<lparr>sys_err := 0\<rparr>)"

definition zip_error_get :: "zip_error \<Rightarrow> int \<times> int" where
  "zip_error_get e =
     (zip_err e, if zip_error_system_type e \<noteq> ZIP_ET_NONE then sys_err e else 0)"

text \<open>\<open>zip_error_to_data\<close> stores two ints (8 bytes) and returns 8, or -1 when they do not fit.\<close>

definition zip_error_to_data :: "zip_error \<Rightarrow> u64 \<Rightarrow> (int \<times> int) option" where
  "zip_error_to_data e len =
     (if len < 8 then None else Some (zip_error_code_zip e, zip_error_code_system e))"

section \<open>Messages\<close>

text \<open>
  \<open>strerror\<close> and zlib's \<open>zError\<close> are parameters. Decimal printing of \<open>%d\<close> is
  \<open>show_int\<close>. A string stored in the error and returned to the caller is a value.
\<close>

fun show_nat :: "nat \<Rightarrow> string" where
  "show_nat n = (if n < 10 then [char_of (48 + n)] else show_nat (n div 10) @ [char_of (48 + n mod 10)])"

definition show_int :: "int \<Rightarrow> string" where
  "show_int i = (if i < 0 then ''-'' @ show_nat (nat (- i)) else show_nat (nat i))"

definition zip_error_strerror ::
  "(int \<Rightarrow> string) \<Rightarrow> (int \<Rightarrow> string option) \<Rightarrow> malloc \<Rightarrow> zip_error \<Rightarrow> string option \<times> zip_error" where
  "zip_error_strerror strerror zError mem err0 =
     (let err = zip_error_fini err0;
          (zs, ss) =
            (if zip_err err < 0 \<or> zip_err err \<ge> zip_nerr_str
             then (None, Some (''Unknown error '' @ show_int (zip_err err)))
             else (Some (zip_err_strs ! nat (zip_err err)),
                   case zip_err_type ! nat (zip_err err) of
                     ZIP_ET_SYS \<Rightarrow> Some (strerror (sys_err err))
                   | ZIP_ET_ZLIB \<Rightarrow> zError (sys_err err)
                   | ZIP_ET_NONE \<Rightarrow> None))
      in case ss of
           None \<Rightarrow> (zs, err)
         | Some s \<Rightarrow>
             if \<not> mem A_error_string then (Some (zip_err_strs ! nat ZIP_ER_MEMORY), err)
             else let r = (case zs of None \<Rightarrow> s | Some z \<Rightarrow> z @ '': '' @ s)
                  in (Some r, err\<lparr>err_str := Some r\<rparr>))"

text \<open>\<open>zip_error_to_str\<close> prints into a buffer of \<open>len\<close> bytes; the result is what
  \<open>snprintf\<close> would print in full and the part it stores.\<close>

definition zip_error_to_str ::
  "(int \<Rightarrow> string) \<Rightarrow> (int \<Rightarrow> string option) \<Rightarrow> nat \<Rightarrow> int \<Rightarrow> int \<Rightarrow> int \<times> string" where
  "zip_error_to_str strerror zError len ze se =
     (let r = (if ze < 0 \<or> ze \<ge> zip_nerr_str then ''Unknown error '' @ show_int ze
               else let zs = zip_err_strs ! nat ze;
                        ss = (case zip_err_type ! nat ze of
                                ZIP_ET_SYS \<Rightarrow> Some (strerror se)
                              | ZIP_ET_ZLIB \<Rightarrow> zError se
                              | ZIP_ET_NONE \<Rightarrow> None)
                    in zs @ (case ss of None \<Rightarrow> '''' | Some _ \<Rightarrow> '': '') @
                       (case ss of None \<Rightarrow> '''' | Some s \<Rightarrow> s))
      in (int (length r), take (len - 1) r))"

section \<open>Facts\<close>

lemma zip_nerr_str_eq [simp]: "zip_nerr_str = 32"
  by (simp add: zip_nerr_str_def zip_err_strs_def)

lemma zip_err_type_length: "int (length zip_err_type) = zip_nerr_str"
  by (simp add: zip_err_type_def)

lemma zip_err_set [simp]:
  "zip_err (zip_error_set e ze se) = ze" "sys_err (zip_error_set e ze se) = se"
  "zip_err (zip_error_clear e) = ZIP_ER_OK"
  by (simp_all add: zip_error_set_def zip_error_clear_def)

text \<open>The two printers agree wherever memory suffices for the allocating one.\<close>

lemma strerror_to_str_agree:
  "mem A_error_string \<Longrightarrow>
   fst (zip_error_strerror st zE mem e) =
     Some (snd (zip_error_to_str st zE (Suc (length (the (fst (zip_error_strerror st zE mem e)))))
       (zip_err e) (sys_err e)))"
  by (auto simp: zip_error_strerror_def zip_error_to_str_def zip_error_fini_def Let_def
      split: zip_et.splits option.splits)

end
