(* ===== verification/Zip_Source.thy ===== *)
theory Zip_Source
  imports Zip_Error
begin

text \<open>
  The generic source operations: \<open>zip_source_*.c\<close> and \<open>zip_stat_init.c\<close>. A source is a
  record with the fields of \<open>struct zip_source\<close>; its callback is a field of function type over
  the user data \<open>'s\<close>, and the lower source of a layered source is reached through the
  operations in \<open>src_src\<close> (\<open>None\<close> is the null pointer). A command carries the arguments C
  packs into \<open>data\<close> and \<open>length\<close>; a reply is the return value and what the callback stored
  through \<open>data\<close>. \<open>zip_int64_t\<close> results are \<open>int\<close>.
\<close>

section \<open>File status\<close>

record zip_stat =
  st_valid :: u64
  st_name :: "bytes option"
  st_index :: u64
  st_size :: u64
  st_comp_size :: u64
  st_mtime :: int
  st_crc :: u32
  st_comp_method :: u16
  st_encryption_method :: u16
  st_flags :: u32

abbreviation ZIP_STAT_NAME :: u64 where "ZIP_STAT_NAME \<equiv> 0x0001"
abbreviation ZIP_STAT_INDEX :: u64 where "ZIP_STAT_INDEX \<equiv> 0x0002"
abbreviation ZIP_STAT_SIZE :: u64 where "ZIP_STAT_SIZE \<equiv> 0x0004"
abbreviation ZIP_STAT_COMP_SIZE :: u64 where "ZIP_STAT_COMP_SIZE \<equiv> 0x0008"
abbreviation ZIP_STAT_MTIME :: u64 where "ZIP_STAT_MTIME \<equiv> 0x0010"
abbreviation ZIP_STAT_CRC :: u64 where "ZIP_STAT_CRC \<equiv> 0x0020"
abbreviation ZIP_STAT_COMP_METHOD :: u64 where "ZIP_STAT_COMP_METHOD \<equiv> 0x0040"
abbreviation ZIP_STAT_ENCRYPTION_METHOD :: u64 where "ZIP_STAT_ENCRYPTION_METHOD \<equiv> 0x0080"
abbreviation ZIP_STAT_FLAGS :: u64 where "ZIP_STAT_FLAGS \<equiv> 0x0100"

text \<open>\<open>zip_stat_init\<close> leaves \<open>flags\<close> as it was.\<close>

definition zip_stat_init :: "zip_stat \<Rightarrow> zip_stat" where
  "zip_stat_init st = st\<lparr>st_valid := 0, st_name := None, st_index := ZIP_UINT64_MAX, st_crc := 0,
     st_mtime := -1, st_size := 0, st_comp_size := 0, st_comp_method := 0,
     st_encryption_method := 0\<rparr>"

definition zip_stat_merge :: "zip_stat \<Rightarrow> zip_stat \<Rightarrow> zip_stat" where
  "zip_stat_merge dst src =
     (let v = (\<lambda>f. st_valid src AND f \<noteq> 0);
          d1 = (if v ZIP_STAT_INDEX then dst\<lparr>st_index := st_index src\<rparr> else dst);
          d2 = (if v ZIP_STAT_SIZE then d1\<lparr>st_size := st_size src\<rparr> else d1);
          d3 = (if v ZIP_STAT_COMP_SIZE then d2\<lparr>st_comp_size := st_comp_size src\<rparr> else d2);
          d4 = (if v ZIP_STAT_MTIME then d3\<lparr>st_mtime := st_mtime src\<rparr> else d3);
          d5 = (if v ZIP_STAT_CRC then d4\<lparr>st_crc := st_crc src\<rparr> else d4);
          d6 = (if v ZIP_STAT_COMP_METHOD then d5\<lparr>st_comp_method := st_comp_method src\<rparr> else d5);
          d7 = (if v ZIP_STAT_ENCRYPTION_METHOD
                then d6\<lparr>st_encryption_method := st_encryption_method src\<rparr> else d6);
          d8 = (if v ZIP_STAT_FLAGS then d7\<lparr>st_flags := st_flags src\<rparr> else d7)
      in d8\<lparr>st_valid := st_valid d8 OR st_valid src\<rparr>)"

section \<open>Commands\<close>

datatype whence = SEEK_SET | SEEK_CUR | SEEK_END | SEEK_other

datatype zip_source_cmd =
  ZIP_SOURCE_OPEN
| ZIP_SOURCE_READ u64
| ZIP_SOURCE_CLOSE
| ZIP_SOURCE_STAT zip_stat
| ZIP_SOURCE_ERROR
| ZIP_SOURCE_FREE
| ZIP_SOURCE_SEEK int whence
| ZIP_SOURCE_TELL
| ZIP_SOURCE_BEGIN_WRITE
| ZIP_SOURCE_COMMIT_WRITE
| ZIP_SOURCE_ROLLBACK_WRITE
| ZIP_SOURCE_WRITE bytes
| ZIP_SOURCE_SEEK_WRITE int whence
| ZIP_SOURCE_TELL_WRITE
| ZIP_SOURCE_SUPPORTS
| ZIP_SOURCE_REMOVE
| ZIP_SOURCE_GET_COMPRESSION_FLAGS
| ZIP_SOURCE_BEGIN_WRITE_CLONING u64

fun cmd_number :: "zip_source_cmd \<Rightarrow> nat" where
  "cmd_number ZIP_SOURCE_OPEN = 0"
| "cmd_number (ZIP_SOURCE_READ _) = 1"
| "cmd_number ZIP_SOURCE_CLOSE = 2"
| "cmd_number (ZIP_SOURCE_STAT _) = 3"
| "cmd_number ZIP_SOURCE_ERROR = 4"
| "cmd_number ZIP_SOURCE_FREE = 5"
| "cmd_number (ZIP_SOURCE_SEEK _ _) = 6"
| "cmd_number ZIP_SOURCE_TELL = 7"
| "cmd_number ZIP_SOURCE_BEGIN_WRITE = 8"
| "cmd_number ZIP_SOURCE_COMMIT_WRITE = 9"
| "cmd_number ZIP_SOURCE_ROLLBACK_WRITE = 10"
| "cmd_number (ZIP_SOURCE_WRITE _) = 11"
| "cmd_number (ZIP_SOURCE_SEEK_WRITE _ _) = 12"
| "cmd_number ZIP_SOURCE_TELL_WRITE = 13"
| "cmd_number ZIP_SOURCE_SUPPORTS = 14"
| "cmd_number ZIP_SOURCE_REMOVE = 15"
| "cmd_number ZIP_SOURCE_GET_COMPRESSION_FLAGS = 16"
| "cmd_number (ZIP_SOURCE_BEGIN_WRITE_CLONING _) = 17"

text \<open>Command bitmaps are 64-bit words; \<open>zip_int64_t\<close> values with the sign bit set are the
  negative ones.\<close>

definition ZIP_SOURCE_MAKE_COMMAND_BITMASK :: "zip_source_cmd \<Rightarrow> u64" where
  "ZIP_SOURCE_MAKE_COMMAND_BITMASK cmd = push_bit (cmd_number cmd) 1"

definition zip_source_make_command_bitmap :: "zip_source_cmd list \<Rightarrow> u64" where
  "zip_source_make_command_bitmap cmds =
     foldl (\<lambda>b c. b OR ZIP_SOURCE_MAKE_COMMAND_BITMASK c) 0 cmds"

abbreviation ZIP_SOURCE_SUPPORTS_READABLE :: u64 where "ZIP_SOURCE_SUPPORTS_READABLE \<equiv> 0x3f"
abbreviation ZIP_SOURCE_SUPPORTS_SEEKABLE :: u64 where "ZIP_SOURCE_SUPPORTS_SEEKABLE \<equiv> 0x40ff"
abbreviation ZIP_SOURCE_SUPPORTS_WRITABLE :: u64 where "ZIP_SOURCE_SUPPORTS_WRITABLE \<equiv> 0xffff"

datatype payload =
  No_data | Read_data bytes | Stat_data zip_stat | Error_data int int

type_synonym reply = "int \<times> payload"

section \<open>The source structure\<close>

datatype zip_source_write_state =
  ZIP_SOURCE_WRITE_CLOSED | ZIP_SOURCE_WRITE_OPEN | ZIP_SOURCE_WRITE_FAILED
| ZIP_SOURCE_WRITE_REMOVED

text \<open>What the generic operations do to the lower source of a layered one.\<close>

record 's lower_ops =
  low_open :: "'s \<Rightarrow> int \<times> 's"
  low_close :: "'s \<Rightarrow> int \<times> 's"
  low_stat :: "'s \<Rightarrow> zip_stat \<Rightarrow> int \<times> zip_stat \<times> 's"
  low_error :: "'s \<Rightarrow> zip_error"
  low_free :: "'s \<Rightarrow> 's"
  low_compression_flags :: "'s \<Rightarrow> int \<times> 's"

record 's zip_source =
  src_src :: "'s lower_ops option"
  src_cb :: "'s \<Rightarrow> zip_source_cmd \<Rightarrow> reply \<times> 's"
  src_ud :: 's
  src_error :: zip_error
  src_supports :: u64
  src_open_count :: u32
  src_write_state :: zip_source_write_state
  src_source_closed :: bool
  src_source_archive :: "nat option"
  src_refcount :: u32
  src_eof :: bool
  src_had_read_error :: bool

definition ZIP_SOURCE_IS_OPEN_READING :: "'s zip_source \<Rightarrow> bool" where
  "ZIP_SOURCE_IS_OPEN_READING src = (src_open_count src > 0)"

definition ZIP_SOURCE_IS_OPEN_WRITING :: "'s zip_source \<Rightarrow> bool" where
  "ZIP_SOURCE_IS_OPEN_WRITING src = (src_write_state src = ZIP_SOURCE_WRITE_OPEN)"

definition src_set_error :: "'s zip_source \<Rightarrow> int \<Rightarrow> int \<Rightarrow> 's zip_source" where
  "src_set_error src ze se = src\<lparr>src_error := zip_error_set (src_error src) ze se\<rparr>"

text \<open>\<open>_zip_error_set_from_source\<close> copies the codes of the source's error.\<close>

definition zip_error_set_from_source :: "zip_error \<Rightarrow> 's zip_source \<Rightarrow> zip_error" where
  "zip_error_set_from_source err src = zip_error_copy err (src_error src)"

definition zip_source_error :: "'s zip_source \<Rightarrow> zip_error" where
  "zip_source_error src = src_error src"

definition zip_source_had_error :: "'s zip_source \<Rightarrow> bool" where
  "zip_source_had_error src = (zip_err (zip_source_error src) \<noteq> ZIP_ER_OK)"

definition zip_source_supports :: "'s zip_source \<Rightarrow> u64" where
  "zip_source_supports src = src_supports src"

definition zip_source_is_deleted :: "'s zip_source \<Rightarrow> bool" where
  "zip_source_is_deleted src = (src_write_state src = ZIP_SOURCE_WRITE_REMOVED)"

definition zip_source_eof :: "'s zip_source \<Rightarrow> bool" where
  "zip_source_eof src = src_eof src"

definition zip_source_keep :: "'s zip_source \<Rightarrow> 's zip_source" where
  "zip_source_keep src = src\<lparr>src_refcount := src_refcount src + 1\<rparr>"

section \<open>Calling the callback\<close>

definition src_can :: "'s zip_source \<Rightarrow> zip_source_cmd \<Rightarrow> bool" where
  "src_can src cmd = (src_supports src AND ZIP_SOURCE_MAKE_COMMAND_BITMASK cmd \<noteq> 0)"

definition src_invoke :: "'s zip_source \<Rightarrow> zip_source_cmd \<Rightarrow> reply \<times> 's zip_source" where
  "src_invoke src cmd =
     (case src_cb src (src_ud src) cmd of (r, ud') \<Rightarrow> (r, src\<lparr>src_ud := ud'\<rparr>))"

text \<open>The nested call for \<open>ZIP_SOURCE_ERROR\<close> never asks for the error of the error, so the
  recursion of \<open>_zip_source_call\<close> is one level deep.\<close>

definition src_fetch_error :: "'s zip_source \<Rightarrow> 's zip_source" where
  "src_fetch_error src =
     (if \<not> src_can src ZIP_SOURCE_ERROR
      then src_set_error (src_set_error src ZIP_ER_OPNOTSUPP 0) ZIP_ER_INTERNAL 0
      else case src_invoke src ZIP_SOURCE_ERROR of
             ((ret, out), src') \<Rightarrow>
               if ret < 0 then src_set_error src' ZIP_ER_INTERNAL 0
               else case out of Error_data ze se \<Rightarrow> src_set_error src' ze se
                    | _ \<Rightarrow> src_set_error src' 0 0)"

definition zip_source_call :: "'s zip_source \<Rightarrow> zip_source_cmd \<Rightarrow> reply \<times> 's zip_source" where
  "zip_source_call src cmd =
     (if \<not> src_can src cmd then ((-1, No_data), src_set_error src ZIP_ER_OPNOTSUPP 0)
      else case src_invoke src cmd of
             ((ret, out), src') \<Rightarrow>
               ((ret, out),
                if ret < 0 \<and> cmd \<noteq> ZIP_SOURCE_ERROR \<and> cmd \<noteq> ZIP_SOURCE_SUPPORTS
                then src_fetch_error src' else src'))"

section \<open>Reading\<close>

definition zip_source_close :: "'s zip_source \<Rightarrow> int \<times> 's zip_source" where
  "zip_source_close src =
     (if \<not> ZIP_SOURCE_IS_OPEN_READING src then (-1, src_set_error src ZIP_ER_INVAL 0)
      else let s1 = src\<lparr>src_open_count := src_open_count src - 1\<rparr>
           in if src_open_count s1 = 0
              then let s2 = snd (zip_source_call s1 ZIP_SOURCE_CLOSE)
                   in case src_src s2 of
                        None \<Rightarrow> (0, s2)
                      | Some low \<Rightarrow>
                          (case low_close low (src_ud s2) of
                             (r, ud') \<Rightarrow>
                               let s3 = s2\<lparr>src_ud := ud'\<rparr>
                               in (0, if r < 0 then src_set_error s3 ZIP_ER_INTERNAL 0 else s3))
              else (0, s1))"

definition src_opened :: "'s zip_source \<Rightarrow> 's zip_source" where
  "src_opened src = src\<lparr>src_eof := False, src_had_read_error := False,
     src_error := zip_error_clear (src_error src), src_open_count := src_open_count src + 1\<rparr>"

definition zip_source_open :: "'s zip_source \<Rightarrow> int \<times> 's zip_source" where
  "zip_source_open src =
     (if src_source_closed src then (-1, src)
      else if src_write_state src = ZIP_SOURCE_WRITE_REMOVED
      then (-1, src_set_error src ZIP_ER_DELETED 0)
      else if ZIP_SOURCE_IS_OPEN_READING src
      then if zip_source_supports src AND ZIP_SOURCE_MAKE_COMMAND_BITMASK (ZIP_SOURCE_SEEK 0 SEEK_SET) = 0
           then (-1, src_set_error src ZIP_ER_INUSE 0)
           else (0, src_opened src)
      else let (lr, s1) =
                 (case src_src src of
                    None \<Rightarrow> (0, src)
                  | Some low \<Rightarrow> (case low_open low (src_ud src) of
                                  (r, ud') \<Rightarrow> (r, src\<lparr>src_ud := ud'\<rparr>)))
           in if lr < 0
              then (-1, s1\<lparr>src_error :=
                          zip_error_copy (src_error s1) (low_error (the (src_src s1)) (src_ud s1))\<rparr>)
              else case zip_source_call s1 ZIP_SOURCE_OPEN of
                     ((r, _), s2) \<Rightarrow>
                       if r < 0
                       then (-1, case src_src s2 of None \<Rightarrow> s2
                                 | Some low \<Rightarrow> s2\<lparr>src_ud := snd (low_close low (src_ud s2))\<rparr>)
                       else (0, src_opened s2))"

text \<open>The read loop: \<open>done\<close> bytes are in the caller's buffer, whose contents are \<open>acc\<close>. The
  counter cannot wrap around, since it stays below \<open>len \<le> ZIP_INT64_MAX\<close> while the loop runs
  and a \<open>zip_int64_t\<close> is added to it.\<close>

function zip_source_read_loop ::
  "'s zip_source \<Rightarrow> bytes \<Rightarrow> nat \<Rightarrow> nat \<Rightarrow> int \<times> bytes \<times> 's zip_source" where
  "zip_source_read_loop src acc bytes_read len =
     (if bytes_read < len
      then case zip_source_call src (ZIP_SOURCE_READ (of_nat (len - bytes_read))) of
             ((n, out), src') \<Rightarrow>
               if n < 0
               then (if bytes_read = 0 then -1 else int bytes_read, acc,
                     src'\<lparr>src_had_read_error := True\<rparr>)
               else if n = 0 then (int bytes_read, acc, src'\<lparr>src_eof := True\<rparr>)
               else zip_source_read_loop src'
                      (acc @ (case out of Read_data d \<Rightarrow> take (nat n) d | _ \<Rightarrow> []))
                      (bytes_read + nat n) len
      else (int bytes_read, acc, src))"
  by pat_completeness auto
termination
  by (relation "measure (\<lambda>(_, _, bytes_read, len). len - bytes_read)") auto

definition zip_source_read :: "'s zip_source \<Rightarrow> u64 \<Rightarrow> int \<times> bytes \<times> 's zip_source" where
  "zip_source_read src len =
     (if src_source_closed src then (-1, [], src)
      else if \<not> ZIP_SOURCE_IS_OPEN_READING src \<or> len > ZIP_INT64_MAX
      then (-1, [], src_set_error src ZIP_ER_INVAL 0)
      else if src_had_read_error src then (-1, [], src)
      else if zip_source_eof src then (0, [], src)
      else if len = 0 then (0, [], src)
      else zip_source_read_loop src [] 0 (unat len))"

definition zip_source_seek :: "'s zip_source \<Rightarrow> int \<Rightarrow> whence \<Rightarrow> int \<times> 's zip_source" where
  "zip_source_seek src offset wh =
     (if src_source_closed src then (-1, src)
      else if \<not> ZIP_SOURCE_IS_OPEN_READING src \<or> wh = SEEK_other
      then (-1, src_set_error src ZIP_ER_INVAL 0)
      else case zip_source_call src (ZIP_SOURCE_SEEK offset wh) of
             ((r, _), src') \<Rightarrow> if r < 0 then (-1, src') else (0, src'\<lparr>src_eof := False\<rparr>))"

text \<open>\<open>zip_source_seek_compute_offset\<close>, with the arguments unpacked. Signed 64-bit sums
  that overflow are undefined in C; the sums here are exact.\<close>

definition zip_source_seek_compute_offset ::
  "u64 \<Rightarrow> u64 \<Rightarrow> int \<Rightarrow> whence \<Rightarrow> zip_error \<Rightarrow> int \<times> zip_error" where
  "zip_source_seek_compute_offset offset len arg wh err =
     (let inval = (-1, zip_error_set err ZIP_ER_INVAL 0);
          check = (\<lambda>new. if new < 0 \<or> new > uint len then inval else (new, err))
      in case wh of
           SEEK_CUR \<Rightarrow> check (uint offset + arg)
         | SEEK_END \<Rightarrow> check (uint len + arg)
         | SEEK_SET \<Rightarrow> check arg
         | SEEK_other \<Rightarrow> inval)"

definition zip_source_tell :: "'s zip_source \<Rightarrow> int \<times> 's zip_source" where
  "zip_source_tell src =
     (if src_source_closed src then (-1, src)
      else if \<not> ZIP_SOURCE_IS_OPEN_READING src then (-1, src_set_error src ZIP_ER_INVAL 0)
      else case zip_source_call src ZIP_SOURCE_TELL of ((r, _), src') \<Rightarrow> (r, src'))"

text \<open>A \<open>NULL\<close> status pointer is the argument \<open>None\<close>.\<close>

definition zip_source_stat ::
  "'s zip_source \<Rightarrow> zip_stat option \<Rightarrow> int \<times> zip_stat option \<times> 's zip_source" where
  "zip_source_stat src st0 =
     (if src_source_closed src then (-1, st0, src)
      else case st0 of
        None \<Rightarrow> (-1, None, src_set_error src ZIP_ER_INVAL 0)
      | Some stv \<Rightarrow>
          let st1 = zip_stat_init stv;
              (lr, st2, s1) =
                (case src_src src of
                   None \<Rightarrow> (0, st1, src)
                 | Some low \<Rightarrow> (case low_stat low (src_ud src) st1 of
                                 (r, st', ud') \<Rightarrow> (r, st', src\<lparr>src_ud := ud'\<rparr>)))
          in if lr < 0
             then (-1, Some st2, s1\<lparr>src_error :=
                     zip_error_copy (src_error s1) (low_error (the (src_src s1)) (src_ud s1))\<rparr>)
             else case zip_source_call s1 (ZIP_SOURCE_STAT st2) of
                    ((r, out), s2) \<Rightarrow>
                      (if r < 0 then -1 else 0,
                       Some (case out of Stat_data st' \<Rightarrow> st' | _ \<Rightarrow> st2), s2))"

definition zip_source_get_compression_flags :: "'s zip_source \<Rightarrow> int \<times> 's zip_source" where
  "zip_source_get_compression_flags src =
     (if src_can src ZIP_SOURCE_GET_COMPRESSION_FLAGS
      then case zip_source_call src ZIP_SOURCE_GET_COMPRESSION_FLAGS of
             ((ret, _), src') \<Rightarrow>
               if ret < 0 then (-1, src')
               else if ret > 3 then (-1, src_set_error src' ZIP_ER_INTERNAL 0)
               else (ret, src')
      else case src_src src of
             None \<Rightarrow> (0, src)
           | Some low \<Rightarrow> (case low_compression_flags low (src_ud src) of
                           (r, ud') \<Rightarrow> (r, src\<lparr>src_ud := ud'\<rparr>)))"

section \<open>Writing\<close>

definition zip_source_begin_write :: "'s zip_source \<Rightarrow> int \<times> 's zip_source" where
  "zip_source_begin_write src =
     (if ZIP_SOURCE_IS_OPEN_WRITING src then (-1, src_set_error src ZIP_ER_INVAL 0)
      else case zip_source_call src ZIP_SOURCE_BEGIN_WRITE of
             ((r, _), src') \<Rightarrow>
               if r < 0 then (-1, src')
               else (0, src'\<lparr>src_write_state := ZIP_SOURCE_WRITE_OPEN\<rparr>))"

definition zip_source_begin_write_cloning :: "'s zip_source \<Rightarrow> u64 \<Rightarrow> int \<times> 's zip_source" where
  "zip_source_begin_write_cloning src offset =
     (if ZIP_SOURCE_IS_OPEN_WRITING src then (-1, src_set_error src ZIP_ER_INVAL 0)
      else case zip_source_call src (ZIP_SOURCE_BEGIN_WRITE_CLONING offset) of
             ((r, _), src') \<Rightarrow>
               if r < 0 then (-1, src')
               else (0, src'\<lparr>src_write_state := ZIP_SOURCE_WRITE_OPEN\<rparr>))"

definition zip_source_write :: "'s zip_source \<Rightarrow> bytes \<Rightarrow> int \<times> 's zip_source" where
  "zip_source_write src data =
     (if \<not> ZIP_SOURCE_IS_OPEN_WRITING src \<or> int (length data) > uint ZIP_INT64_MAX
      then (-1, src_set_error src ZIP_ER_INVAL 0)
      else case zip_source_call src (ZIP_SOURCE_WRITE data) of ((r, _), src') \<Rightarrow> (r, src'))"

definition zip_source_seek_write :: "'s zip_source \<Rightarrow> int \<Rightarrow> whence \<Rightarrow> int \<times> 's zip_source" where
  "zip_source_seek_write src offset wh =
     (if \<not> ZIP_SOURCE_IS_OPEN_WRITING src \<or> wh = SEEK_other
      then (-1, src_set_error src ZIP_ER_INVAL 0)
      else case zip_source_call src (ZIP_SOURCE_SEEK_WRITE offset wh) of
             ((r, _), src') \<Rightarrow> (if r < 0 then -1 else 0, src'))"

definition zip_source_tell_write :: "'s zip_source \<Rightarrow> int \<times> 's zip_source" where
  "zip_source_tell_write src =
     (if \<not> ZIP_SOURCE_IS_OPEN_WRITING src then (-1, src_set_error src ZIP_ER_INVAL 0)
      else case zip_source_call src ZIP_SOURCE_TELL_WRITE of ((r, _), src') \<Rightarrow> (r, src'))"

definition zip_source_commit_write :: "'s zip_source \<Rightarrow> int \<times> 's zip_source" where
  "zip_source_commit_write src =
     (if \<not> ZIP_SOURCE_IS_OPEN_WRITING src then (-1, src_set_error src ZIP_ER_INVAL 0)
      else if src_open_count src > 1 then (-1, src_set_error src ZIP_ER_INUSE 0)
      else let (cr, s1) = (if ZIP_SOURCE_IS_OPEN_READING src then zip_source_close src else (0, src))
           in if cr < 0 then (-1, s1)
              else case zip_source_call s1 ZIP_SOURCE_COMMIT_WRITE of
                     ((r, _), s2) \<Rightarrow>
                       if r < 0 then (-1, s2\<lparr>src_write_state := ZIP_SOURCE_WRITE_FAILED\<rparr>)
                       else (0, s2\<lparr>src_write_state := ZIP_SOURCE_WRITE_CLOSED\<rparr>))"

definition zip_source_rollback_write :: "'s zip_source \<Rightarrow> 's zip_source" where
  "zip_source_rollback_write src =
     (if src_write_state src \<noteq> ZIP_SOURCE_WRITE_OPEN \<and> src_write_state src \<noteq> ZIP_SOURCE_WRITE_FAILED
      then src
      else (snd (zip_source_call src ZIP_SOURCE_ROLLBACK_WRITE))
             \<lparr>src_write_state := ZIP_SOURCE_WRITE_CLOSED\<rparr>)"

definition zip_source_remove :: "'s zip_source \<Rightarrow> int \<times> 's zip_source" where
  "zip_source_remove src =
     (if src_write_state src = ZIP_SOURCE_WRITE_REMOVED then (0, src)
      else let (cr, s1) = (if ZIP_SOURCE_IS_OPEN_READING src then zip_source_close src else (0, src))
           in if cr < 0 then (-1, s1)
              else let s2 = (if src_write_state s1 \<noteq> ZIP_SOURCE_WRITE_CLOSED
                             then zip_source_rollback_write s1 else s1)
                   in case zip_source_call s2 ZIP_SOURCE_REMOVE of
                        ((r, _), s3) \<Rightarrow>
                          if r < 0 then (-1, s3)
                          else (0, s3\<lparr>src_write_state := ZIP_SOURCE_WRITE_REMOVED\<rparr>))"

section \<open>Creating and freeing\<close>

text \<open>The fields \<open>malloc\<close> leaves unset (\<open>supports\<close>) are set by every caller. \<open>src\<close> and
  \<open>cb\<close> are the caller's next assignments.\<close>

definition zip_source_new ::
  "malloc \<Rightarrow> 's lower_ops option \<Rightarrow> ('s \<Rightarrow> zip_source_cmd \<Rightarrow> reply \<times> 's) \<Rightarrow> 's \<Rightarrow> zip_error \<Rightarrow>
   's zip_source option \<times> zip_error" where
  "zip_source_new mem low cb ud err =
     (if \<not> mem A_source then (None, zip_error_set err ZIP_ER_MEMORY 0)
      else (Some \<lparr>src_src = low, src_cb = cb, src_ud = ud, src_error = zip_error_init,
                  src_supports = 0, src_open_count = 0, src_write_state = ZIP_SOURCE_WRITE_CLOSED,
                  src_source_closed = False, src_source_archive = None, src_refcount = 1,
                  src_eof = False, src_had_read_error = False\<rparr>, err))"

text \<open>Asking a fresh source what it supports.\<close>

definition src_query_supports :: "'s zip_source \<Rightarrow> 's zip_source" where
  "src_query_supports zs =
     (case src_cb zs (src_ud zs) ZIP_SOURCE_SUPPORTS of
        ((ret, _), ud') \<Rightarrow>
          zs\<lparr>src_ud := ud',
             src_supports := (if ret < 0 then ZIP_SOURCE_SUPPORTS_READABLE else of_int ret)\<rparr>)"

definition zip_source_function_create ::
  "malloc \<Rightarrow> ('s \<Rightarrow> zip_source_cmd \<Rightarrow> reply \<times> 's) \<Rightarrow> 's \<Rightarrow> zip_error \<Rightarrow>
   's zip_source option \<times> zip_error" where
  "zip_source_function_create mem zcb ud err =
     (case zip_source_new mem None zcb ud err of
        (None, err') \<Rightarrow> (None, err')
      | (Some zs, err') \<Rightarrow> (Some (src_query_supports zs), err'))"

text \<open>\<open>zip_source_free\<close> returns the source when references remain and \<open>None\<close> when it is
  gone, with the user data the last callback left and whether the archive was told.\<close>

definition zip_source_free :: "'s zip_source \<Rightarrow> 's zip_source option \<times> 's \<times> bool" where
  "zip_source_free src =
     (let s1 = (if src_refcount src > 0 then src\<lparr>src_refcount := src_refcount src - 1\<rparr> else src)
      in if src_refcount s1 > 0 then (Some s1, src_ud s1, False)
         else let s2 = (if ZIP_SOURCE_IS_OPEN_READING s1
                        then snd (zip_source_close (s1\<lparr>src_open_count := 1\<rparr>)) else s1);
                  s3 = (if ZIP_SOURCE_IS_OPEN_WRITING s2 then zip_source_rollback_write s2 else s2);
                  dereg = (src_source_archive s3 \<noteq> None \<and> \<not> src_source_closed s3);
                  s4 = snd (zip_source_call s3 ZIP_SOURCE_FREE);
                  ud' = (case src_src s4 of None \<Rightarrow> src_ud s4 | Some low \<Rightarrow> low_free low (src_ud s4))
              in (None, ud', dereg))"

text \<open>A layered source: its user data is the lower source and the layer's own context, and the
  layer's callback works on both. A freed lower source stays as a value nobody reads.\<close>

type_synonym ('l, 'c) layered_callback =
  "'l zip_source \<Rightarrow> 'c \<Rightarrow> zip_source_cmd \<Rightarrow> reply \<times> 'l zip_source \<times> 'c"

definition layer_ops :: "('l zip_source \<times> 'c) lower_ops" where
  "layer_ops = \<lparr>
     low_open = (\<lambda>(l, c). case zip_source_open l of (r, l') \<Rightarrow> (r, (l', c))),
     low_close = (\<lambda>(l, c). case zip_source_close l of (r, l') \<Rightarrow> (r, (l', c))),
     low_stat = (\<lambda>(l, c) st. case zip_source_stat l (Some st) of
                   (r, st', l') \<Rightarrow> (r, the st', (l', c))),
     low_error = (\<lambda>(l, c). src_error l),
     low_free = (\<lambda>(l, c). (case zip_source_free l of
                   (Some l', _, _) \<Rightarrow> (l', c) | (None, ud', _) \<Rightarrow> (l\<lparr>src_ud := ud', src_refcount := 0\<rparr>, c))),
     low_compression_flags = (\<lambda>(l, c). case zip_source_get_compression_flags l of
                   (r, l') \<Rightarrow> (r, (l', c)))\<rparr>"

definition zip_source_layered_create ::
  "malloc \<Rightarrow> 'l zip_source \<Rightarrow> ('l, 'c) layered_callback \<Rightarrow> 'c \<Rightarrow> zip_error \<Rightarrow>
   ('l zip_source \<times> 'c) zip_source option \<times> zip_error" where
  "zip_source_layered_create mem src cb ud err =
     (case zip_source_new mem (Some layer_ops)
             (\<lambda>(l, c) cmd. case cb l c cmd of (r, l', c') \<Rightarrow> (r, (l', c')))
             (zip_source_keep src, ud) err of
        (None, err') \<Rightarrow> (None, err')
      | (Some zs, err') \<Rightarrow> (Some (src_query_supports zs), err'))"

text \<open>The variants with an archive argument only choose where the error goes: \<open>NULL\<close> gives
  \<open>NULL\<close>.\<close>

definition zip_source_function ::
  "malloc \<Rightarrow> zip_error option \<Rightarrow> ('s \<Rightarrow> zip_source_cmd \<Rightarrow> reply \<times> 's) \<Rightarrow> 's \<Rightarrow>
   's zip_source option \<times> zip_error option" where
  "zip_source_function mem za_error zcb ud =
     (case za_error of
        None \<Rightarrow> (None, None)
      | Some e \<Rightarrow> (case zip_source_function_create mem zcb ud e of (zs, e') \<Rightarrow> (zs, Some e')))"

definition zip_source_layered ::
  "malloc \<Rightarrow> zip_error option \<Rightarrow> 'l zip_source \<Rightarrow> ('l, 'c) layered_callback \<Rightarrow> 'c \<Rightarrow>
   ('l zip_source \<times> 'c) zip_source option \<times> zip_error option" where
  "zip_source_layered mem za_error src cb ud =
     (case za_error of
        None \<Rightarrow> (None, None)
      | Some e \<Rightarrow> (case zip_source_layered_create mem src cb ud e of (zs, e') \<Rightarrow> (zs, Some e')))"

section \<open>What a call changes\<close>

lemma src_set_error_fields [simp]:
  "src_src (src_set_error src a b) = src_src src" "src_cb (src_set_error src a b) = src_cb src"
  "src_ud (src_set_error src a b) = src_ud src"
  "src_supports (src_set_error src a b) = src_supports src"
  "src_open_count (src_set_error src a b) = src_open_count src"
  "src_write_state (src_set_error src a b) = src_write_state src"
  "src_source_closed (src_set_error src a b) = src_source_closed src"
  "src_eof (src_set_error src a b) = src_eof src"
  "src_had_read_error (src_set_error src a b) = src_had_read_error src"
  "src_refcount (src_set_error src a b) = src_refcount src"
  "src_source_archive (src_set_error src a b) = src_source_archive src"
  "zip_err (src_error (src_set_error src a b)) = a" "sys_err (src_error (src_set_error src a b)) = b"
  by (simp_all add: src_set_error_def)

text \<open>A call touches the user data and the error, nothing else.\<close>

definition src_same :: "'s zip_source \<Rightarrow> 's zip_source \<Rightarrow> bool" where
  "src_same a b \<longleftrightarrow> (\<exists>ud e. b = a\<lparr>src_ud := ud, src_error := e\<rparr>)"

lemma src_same_refl [simp]: "src_same a a"
  unfolding src_same_def by (intro exI [of _ "src_ud a"] exI [of _ "src_error a"]) simp

lemma src_same_trans: "src_same a b \<Longrightarrow> src_same b c \<Longrightarrow> src_same a c"
  unfolding src_same_def by (elim exE, rule_tac x = uda in exI, rule_tac x = ea in exI) simp

lemma src_same_simps:
  "src_same a (a\<lparr>src_ud := u\<rparr>)" "src_same a (src_set_error a x y)"
  unfolding src_same_def src_set_error_def
  by (intro exI [of _ u] exI [of _ "src_error a"], simp)
    (intro exI [of _ "src_ud a"] exI, simp)

lemma src_same_fields:
  assumes "src_same a b"
  shows "src_src b = src_src a" "src_cb b = src_cb a" "src_supports b = src_supports a"
    "src_open_count b = src_open_count a" "src_write_state b = src_write_state a"
    "src_source_closed b = src_source_closed a" "src_eof b = src_eof a"
    "src_had_read_error b = src_had_read_error a" "src_refcount b = src_refcount a"
    "src_source_archive b = src_source_archive a"
  using assms by (auto simp: src_same_def)

lemma src_invoke_same: "src_invoke src cmd = (r, src') \<Longrightarrow> src_same src src'"
  by (auto simp: src_invoke_def src_same_simps split: prod.splits)

lemma src_same_set_error: "src_same a b \<Longrightarrow> src_same a (src_set_error b x y)"
  by (rule src_same_trans [OF _ src_same_simps(2)])

lemma src_fetch_error_same: "src_same src (src_fetch_error src)"
  by (auto simp: src_fetch_error_def
      intro!: src_same_set_error dest: src_invoke_same split: prod.splits payload.splits)

lemma zip_source_call_same: "zip_source_call src cmd = (r, src') \<Longrightarrow> src_same src src'"
  by (auto simp: zip_source_call_def src_same_simps src_fetch_error_same
      intro: src_same_trans src_invoke_same split: prod.splits if_splits)

section \<open>The contract of a readable source\<close>

text \<open>
  What a reader relies on: a read returns the next bytes, at least one unless none are left.
  \<open>src_delivers good rest src bs\<close> says that an open source will deliver exactly \<open>bs\<close>.
\<close>

definition src_delivers ::
  "('s \<Rightarrow> bool) \<Rightarrow> ('s \<Rightarrow> bytes) \<Rightarrow> 's zip_source \<Rightarrow> bytes \<Rightarrow> bool" where
  "src_delivers good rest src bs \<longleftrightarrow>
     good (src_ud src) \<and> rest (src_ud src) = bs \<and> (src_eof src \<longrightarrow> bs = []) \<and>
     ZIP_SOURCE_IS_OPEN_READING src \<and> \<not> src_source_closed src \<and> \<not> src_had_read_error src \<and>
     src_can src (ZIP_SOURCE_READ 0)"

lemma src_can_read [simp]: "src_can src (ZIP_SOURCE_READ n) \<longleftrightarrow> src_supports src AND 2 \<noteq> 0"
  by (simp add: src_can_def ZIP_SOURCE_MAKE_COMMAND_BITMASK_def)

declare zip_source_read_loop.simps [simp del]

locale byte_source =
  fixes cb :: "'s \<Rightarrow> zip_source_cmd \<Rightarrow> reply \<times> 's"
    and good :: "'s \<Rightarrow> bool"
    and rest :: "'s \<Rightarrow> bytes"
  assumes read_law: "good s \<Longrightarrow> n \<le> ZIP_INT64_MAX \<Longrightarrow> \<exists>d s'.
      cb s (ZIP_SOURCE_READ n) = ((int (length d), Read_data d), s') \<and> good s' \<and>
      rest s = d @ rest s' \<and> length d \<le> unat n \<and> (d = [] \<longrightarrow> n = 0 \<or> rest s = [])"
begin

lemma call_read:
  assumes "src_cb src = cb" "good (src_ud src)" "src_can src (ZIP_SOURCE_READ 0)" "n \<le> ZIP_INT64_MAX"
  obtains d s' where "zip_source_call src (ZIP_SOURCE_READ n) =
        ((int (length d), Read_data d), src\<lparr>src_ud := s'\<rparr>)"
    and "good s'" and "rest (src_ud src) = d @ rest s'" and "length d \<le> unat n"
    and "d = [] \<Longrightarrow> n = 0 \<or> rest (src_ud src) = []"
proof -
  obtain d s' where cb: "cb (src_ud src) (ZIP_SOURCE_READ n) = ((int (length d), Read_data d), s')"
    and d: "good s'" "rest (src_ud src) = d @ rest s'" "length d \<le> unat n"
      "d = [] \<longrightarrow> n = 0 \<or> rest (src_ud src) = []"
    using read_law [OF assms(2,4)] by blast
  have "zip_source_call src (ZIP_SOURCE_READ n) = ((int (length d), Read_data d), src\<lparr>src_ud := s'\<rparr>)"
    using assms(1,3) cb by (simp add: zip_source_call_def src_invoke_def)
  then show ?thesis using that d by blast
qed

lemma read_loop_delivers:
  "src_cb src = cb \<Longrightarrow> src_delivers good rest src bs \<Longrightarrow> \<not> src_eof src \<Longrightarrow>
   len < 2 ^ 63 \<Longrightarrow> br \<le> len \<Longrightarrow>
   \<exists>src'. zip_source_read_loop src acc br len =
       (int (br + length (take (len - br) bs)), acc @ take (len - br) bs, src') \<and>
     src_cb src' = cb \<and> src_delivers good rest src' (drop (len - br) bs) \<and>
     src' = src\<lparr>src_ud := src_ud src', src_eof := src_eof src'\<rparr>"
proof (induction "len - br" arbitrary: src acc br bs rule: less_induct)
  case less
  show ?case
  proof (cases "br < len")
    case False
    then show ?thesis
      using less.prems by (subst zip_source_read_loop.simps) simp
  next
    case True
    let ?n = "of_nat (len - br) :: u64"
    have n: "unat ?n = len - br"
      using less.prems(4) True by (simp only: unat_of_nat) simp
    then have n63: "?n \<le> ZIP_INT64_MAX" and n0: "?n \<noteq> 0"
      using less.prems(4) True by (auto simp: word_le_nat_alt)
    have ready: "good (src_ud src)" "src_can src (ZIP_SOURCE_READ 0)" "rest (src_ud src) = bs"
      using less.prems(2) by (auto simp: src_delivers_def)
    obtain d s' where call: "zip_source_call src (ZIP_SOURCE_READ ?n) =
          ((int (length d), Read_data d), src\<lparr>src_ud := s'\<rparr>)"
      and d: "good s'" "bs = d @ rest s'" "length d \<le> len - br" "d = [] \<Longrightarrow> bs = []"
      using call_read [OF less.prems(1) ready(1,2) n63] n0 n ready(3) by metis
    show ?thesis
    proof (cases "d = []")
      case True
      then show ?thesis
        using call d less.prems \<open>br < len\<close> ready
        by (subst zip_source_read_loop.simps)
          (auto simp: src_delivers_def src_can_def ZIP_SOURCE_IS_OPEN_READING_def)
    next
      case False
      let ?src = "src\<lparr>src_ud := s'\<rparr>"
      have "src_delivers good rest ?src (rest s')"
        using d less.prems(2,3) by (auto simp: src_delivers_def src_can_def ZIP_SOURCE_IS_OPEN_READING_def)
      moreover have "br + length d \<le> len" using d(3) \<open>br < len\<close> by simp
      moreover have "len - (br + length d) < len - br" using False \<open>br < len\<close> by (cases d) auto
      ultimately obtain src' where
        "zip_source_read_loop ?src (acc @ d) (br + length d) len =
          (int (br + length d + length (take (len - (br + length d)) (rest s'))),
           (acc @ d) @ take (len - (br + length d)) (rest s'), src')"
        "src_cb src' = cb" "src_delivers good rest src' (drop (len - (br + length d)) (rest s'))"
        "src' = ?src\<lparr>src_ud := src_ud src', src_eof := src_eof src'\<rparr>"
        using less.hyps [of "br + length d" ?src "rest s'" "acc @ d"] less.prems d(3) \<open>br < len\<close>
        by (simp del: length_take) blast
      then show ?thesis
        using call False d(2,3) \<open>br < len\<close>
        by (subst zip_source_read_loop.simps) (auto simp: min_def)
    qed
  qed
qed

text \<open>A read of \<open>len\<close> bytes delivers the next \<open>len\<close> bytes, or all that are left.\<close>

lemma read_delivers:
  assumes "src_cb src = cb" "src_delivers good rest src bs" "len \<le> ZIP_INT64_MAX"
  shows "\<exists>src'. zip_source_read src len =
      (int (length (take (unat len) bs)), take (unat len) bs, src') \<and>
    src_cb src' = cb \<and> src_delivers good rest src' (drop (unat len) bs) \<and>
    src' = src\<lparr>src_ud := src_ud src', src_eof := src_eof src'\<rparr>"
proof (cases "src_eof src \<or> len = 0")
  case True
  then have "zip_source_read src len = (0, [], src)"
    using assms by (auto simp: zip_source_read_def zip_source_eof_def src_delivers_def)
  moreover have "take (unat len) bs = []" "drop (unat len) bs = bs"
    using True assms(2) by (auto simp: src_delivers_def)
  ultimately show ?thesis using assms(1,2) by auto
next
  case False
  have "unat len < 2 ^ 63" using assms(3) by (simp add: word_le_nat_alt)
  moreover have "zip_source_read src len = zip_source_read_loop src [] 0 (unat len)"
    using False assms(2,3)
    by (auto simp: zip_source_read_def zip_source_eof_def src_delivers_def not_less)
  ultimately show ?thesis
    using read_loop_delivers [OF assms(1,2), of "unat len" 0 "[]"] False by simp
qed

end

end
