(* ===== verification/Zip_Source_Protocol.thy ===== *)
theory Zip_Source_Protocol
  imports Zip_Source
begin

text \<open>
  What a source implementation may rely on. A callback is wrapped so that it records the commands
  it receives; a source is then used in any order through the public operations of
  \<open>zip_source_*.c\<close>. Whatever the caller does, the callback only ever sees commands in an order
  accepted by a small protocol automaton: reads only while open, writes only between a successful
  begin and the commit or rollback that ends it, no commit while open for reading. (A remove may
  reach a source that is open more than once, since \<open>zip_source_remove\<close> closes it once.)
\<close>

section \<open>The protocol\<close>

type_synonym trace = "(zip_source_cmd \<times> int) list"

definition logged ::
  "('s \<Rightarrow> zip_source_cmd \<Rightarrow> reply \<times> 's) \<Rightarrow> 's \<times> trace \<Rightarrow> zip_source_cmd \<Rightarrow> reply \<times> ('s \<times> trace)" where
  "logged cb st cmd =
     (case cb (fst st) cmd of (r, s') \<Rightarrow> (r, (s', snd st @ [(cmd, fst r)])))"

text \<open>The automaton's state: whether the source is open, and its write state. \<open>None\<close> means
  the command is out of order.\<close>

fun proto_step ::
  "bool \<times> zip_source_write_state \<Rightarrow> zip_source_cmd \<times> int \<Rightarrow> (bool \<times> zip_source_write_state) option" where
  "proto_step (rd, w) (ZIP_SOURCE_OPEN, r) = (if rd then None else Some (0 \<le> r, w))"
| "proto_step (rd, w) (ZIP_SOURCE_CLOSE, r) = (if rd then Some (False, w) else None)"
| "proto_step (rd, w) (ZIP_SOURCE_READ n, r) = (if rd \<and> n \<noteq> 0 then Some (rd, w) else None)"
| "proto_step (rd, w) (ZIP_SOURCE_SEEK off wh, r) = (if rd \<and> wh \<noteq> SEEK_other then Some (rd, w) else None)"
| "proto_step (rd, w) (ZIP_SOURCE_TELL, r) = (if rd then Some (rd, w) else None)"
| "proto_step (rd, w) (ZIP_SOURCE_BEGIN_WRITE, r) =
     (if w = ZIP_SOURCE_WRITE_OPEN then None
      else Some (rd, if 0 \<le> r then ZIP_SOURCE_WRITE_OPEN else w))"
| "proto_step (rd, w) (ZIP_SOURCE_BEGIN_WRITE_CLONING off, r) =
     (if w = ZIP_SOURCE_WRITE_OPEN then None
      else Some (rd, if 0 \<le> r then ZIP_SOURCE_WRITE_OPEN else w))"
| "proto_step (rd, w) (ZIP_SOURCE_WRITE d, r) = (if w = ZIP_SOURCE_WRITE_OPEN then Some (rd, w) else None)"
| "proto_step (rd, w) (ZIP_SOURCE_SEEK_WRITE off wh, r) =
     (if w = ZIP_SOURCE_WRITE_OPEN \<and> wh \<noteq> SEEK_other then Some (rd, w) else None)"
| "proto_step (rd, w) (ZIP_SOURCE_TELL_WRITE, r) = (if w = ZIP_SOURCE_WRITE_OPEN then Some (rd, w) else None)"
| "proto_step (rd, w) (ZIP_SOURCE_COMMIT_WRITE, r) =
     (if w = ZIP_SOURCE_WRITE_OPEN \<and> \<not> rd
      then Some (rd, if 0 \<le> r then ZIP_SOURCE_WRITE_CLOSED else ZIP_SOURCE_WRITE_FAILED) else None)"
| "proto_step (rd, w) (ZIP_SOURCE_ROLLBACK_WRITE, r) =
     (if w = ZIP_SOURCE_WRITE_OPEN \<or> w = ZIP_SOURCE_WRITE_FAILED
      then Some (rd, ZIP_SOURCE_WRITE_CLOSED) else None)"
| "proto_step (rd, w) (ZIP_SOURCE_REMOVE, r) =
     (if w = ZIP_SOURCE_WRITE_CLOSED
      then Some (rd, if 0 \<le> r then ZIP_SOURCE_WRITE_REMOVED else w) else None)"
| "proto_step (rd, w) (ZIP_SOURCE_STAT st, r) = Some (rd, w)"
| "proto_step (rd, w) (ZIP_SOURCE_ERROR, r) = Some (rd, w)"
| "proto_step (rd, w) (ZIP_SOURCE_SUPPORTS, r) = Some (rd, w)"
| "proto_step (rd, w) (ZIP_SOURCE_GET_COMPRESSION_FLAGS, r) = Some (rd, w)"
| "proto_step (rd, w) (ZIP_SOURCE_FREE, r) =
     (if \<not> rd \<and> w \<noteq> ZIP_SOURCE_WRITE_OPEN then Some (rd, w) else None)"

definition proto_run :: "trace \<Rightarrow> (bool \<times> zip_source_write_state) option" where
  "proto_run tr = fold (\<lambda>c st. Option.bind st (\<lambda>q. proto_step q c)) tr
     (Some (False, ZIP_SOURCE_WRITE_CLOSED))"

lemma proto_run_snoc: "proto_run (tr @ [c]) = Option.bind (proto_run tr) (\<lambda>q. proto_step q c)"
  by (simp add: proto_run_def)

text \<open>A source that can be opened or written must also support ending what was begun.\<close>

definition coherent :: "u64 \<Rightarrow> bool" where
  "coherent caps \<longleftrightarrow> caps AND 0x1 \<noteq> 0 \<and> caps AND 0x4 \<noteq> 0 \<and>
     (caps AND 0x100 \<noteq> 0 \<or> caps AND 0x20000 \<noteq> 0 \<longrightarrow> caps AND 0x200 \<noteq> 0 \<and> caps AND 0x400 \<noteq> 0)"

section \<open>Using a source\<close>

text \<open>Every source reachable from a fresh function source by the public operations. The open
  counter is 32 bits wide and not checked, so at most \<open>2 ^ 32 - 1\<close> opens may be outstanding.\<close>

inductive src_used ::
  "('s \<Rightarrow> zip_source_cmd \<Rightarrow> reply \<times> 's) \<Rightarrow> ('s \<times> trace) zip_source \<Rightarrow> bool" for cb where
  used_new: "fst (zip_source_function_create mem (logged cb) (s, []) err) = Some src \<Longrightarrow>
     coherent (src_supports src) \<Longrightarrow> src_used cb src"
| used_open: "src_used cb src \<Longrightarrow> src_open_count src \<noteq> - 1 \<Longrightarrow> src_used cb (snd (zip_source_open src))"
| used_close: "src_used cb src \<Longrightarrow> src_used cb (snd (zip_source_close src))"
| used_read: "src_used cb src \<Longrightarrow> src_used cb (snd (snd (zip_source_read src n)))"
| used_seek: "src_used cb src \<Longrightarrow> src_used cb (snd (zip_source_seek src off wh))"
| used_tell: "src_used cb src \<Longrightarrow> src_used cb (snd (zip_source_tell src))"
| used_stat: "src_used cb src \<Longrightarrow> src_used cb (snd (snd (zip_source_stat src st)))"
| used_flags: "src_used cb src \<Longrightarrow> src_used cb (snd (zip_source_get_compression_flags src))"
| used_begin: "src_used cb src \<Longrightarrow> src_used cb (snd (zip_source_begin_write src))"
| used_clone: "src_used cb src \<Longrightarrow> src_used cb (snd (zip_source_begin_write_cloning src off'))"
| used_write: "src_used cb src \<Longrightarrow> src_used cb (snd (zip_source_write src d))"
| used_seek_write: "src_used cb src \<Longrightarrow> src_used cb (snd (zip_source_seek_write src off wh))"
| used_tell_write: "src_used cb src \<Longrightarrow> src_used cb (snd (zip_source_tell_write src))"
| used_commit: "src_used cb src \<Longrightarrow> src_used cb (snd (zip_source_commit_write src))"
| used_rollback: "src_used cb src \<Longrightarrow> src_used cb (zip_source_rollback_write src)"
| used_remove: "src_used cb src \<Longrightarrow> src_used cb (snd (zip_source_remove src))"
| used_keep: "src_used cb src \<Longrightarrow> src_used cb (zip_source_keep src)"

section \<open>The invariant\<close>

definition src_tr :: "('s \<times> trace) zip_source \<Rightarrow> trace" where
  "src_tr src = snd (src_ud src)"

definition src_wired :: "('s \<Rightarrow> zip_source_cmd \<Rightarrow> reply \<times> 's) \<Rightarrow> ('s \<times> trace) zip_source \<Rightarrow> bool" where
  "src_wired cb src \<longleftrightarrow> src_src src = None \<and> src_cb src = logged cb \<and> coherent (src_supports src)"

definition in_proto :: "('s \<Rightarrow> zip_source_cmd \<Rightarrow> reply \<times> 's) \<Rightarrow> ('s \<times> trace) zip_source \<Rightarrow> bool" where
  "in_proto cb src \<longleftrightarrow> src_wired cb src \<and>
     proto_run (src_tr src) = Some (ZIP_SOURCE_IS_OPEN_READING src, src_write_state src)"

text \<open>One call of the callback: the command is logged, and after a failure perhaps a query for
  the error, which does not move the automaton.\<close>

lemma logged_invoke:
  assumes "src_wired cb src" "src_invoke src cmd = (r, src')"
  shows "src_tr src' = src_tr src @ [(cmd, fst r)]"
  using assms by (auto simp: src_wired_def src_invoke_def logged_def src_tr_def split: prod.splits)

lemma fetch_error_proto:
  assumes "src_wired cb src"
  shows "proto_run (src_tr (src_fetch_error src)) = proto_run (src_tr src)"
proof -
  have "proto_run (src_tr src') = proto_run (src_tr src)"
    if "src_invoke src ZIP_SOURCE_ERROR = (r, src')" for r src'
    using logged_invoke [OF assms that] by (cases "proto_run (src_tr src)") (auto simp: proto_run_snoc)
  moreover have "src_tr (src_set_error s a b) = src_tr s" for s :: "('a \<times> trace) zip_source" and a b
    by (simp add: src_tr_def)
  ultimately show ?thesis
    by (auto simp: src_fetch_error_def split: prod.splits payload.splits)
qed

lemma src_wired_same: "src_wired cb src \<Longrightarrow> src_same src src' \<Longrightarrow> src_wired cb src'"
  by (simp add: src_wired_def src_same_fields)

lemma call_proto:
  assumes "src_wired cb src" "zip_source_call src cmd = ((r, out), src')"
  shows "src_wired cb src'" and "src_same src src'"
    and "src_can src cmd \<Longrightarrow>
      proto_run (src_tr src') = Option.bind (proto_run (src_tr src)) (\<lambda>q. proto_step q (cmd, r))"
    and "\<not> src_can src cmd \<Longrightarrow> src_tr src' = src_tr src \<and> r = -1"
proof -
  show same: "src_same src src'" using zip_source_call_same [OF assms(2)] .
  show "src_wired cb src'" using src_wired_same [OF assms(1) same] .
  show "\<not> src_can src cmd \<Longrightarrow> src_tr src' = src_tr src \<and> r = -1"
    using assms(2) by (auto simp: zip_source_call_def src_tr_def)
  assume can: "src_can src cmd"
  obtain src1 where inv: "src_invoke src cmd = ((r, out), src1)"
    and src': "src' = src1 \<or> src' = src_fetch_error src1"
    using assms(2) can by (auto simp: zip_source_call_def split: prod.splits if_splits)
  have "proto_run (src_tr src') = proto_run (src_tr src1)"
    using src' fetch_error_proto [OF src_wired_same [OF assms(1) src_invoke_same [OF inv]]] by auto
  then show "proto_run (src_tr src') = Option.bind (proto_run (src_tr src)) (\<lambda>q. proto_step q (cmd, r))"
    using logged_invoke [OF assms(1) inv] by (simp add: proto_run_snoc)
qed

lemma src_tr_simps [simp]:
  "src_tr (src_set_error src a b) = src_tr src" "src_tr (src\<lparr>src_eof := e\<rparr>) = src_tr src"
  "src_tr (src\<lparr>src_had_read_error := h\<rparr>) = src_tr src"
  "src_tr (src\<lparr>src_write_state := w\<rparr>) = src_tr src"
  "src_tr (src\<lparr>src_open_count := c\<rparr>) = src_tr src"
  "src_tr (src\<lparr>src_refcount := k\<rparr>) = src_tr src"
  by (simp_all add: src_tr_def)

lemma in_proto_updates [simp]:
  "in_proto cb (src_set_error src a b) = in_proto cb src"
  "in_proto cb (src\<lparr>src_eof := e\<rparr>) = in_proto cb src"
  "in_proto cb (src\<lparr>src_had_read_error := h\<rparr>) = in_proto cb src"
  "in_proto cb (src\<lparr>src_refcount := k\<rparr>) = in_proto cb src"
  by (simp_all add: in_proto_def src_wired_def ZIP_SOURCE_IS_OPEN_READING_def)

text \<open>A command the automaton ignores in the source's present state keeps the invariant.\<close>

lemma in_proto_call:
  assumes "in_proto cb src" "zip_source_call src cmd = ((r, out), src')"
    and "src_can src cmd \<Longrightarrow>
      proto_step (ZIP_SOURCE_IS_OPEN_READING src, src_write_state src) (cmd, r) =
        Some (ZIP_SOURCE_IS_OPEN_READING src, src_write_state src)"
  shows "in_proto cb src'"
proof -
  have w: "src_wired cb src" using assms(1) by (simp add: in_proto_def)
  note c = call_proto [OF w assms(2)]
  have same: "ZIP_SOURCE_IS_OPEN_READING src' = ZIP_SOURCE_IS_OPEN_READING src"
    "src_write_state src' = src_write_state src"
    using src_same_fields [OF c(2)] by (simp_all add: ZIP_SOURCE_IS_OPEN_READING_def)
  show ?thesis
    using assms(1,3) c(1,3,4) same by (cases "src_can src cmd") (auto simp: in_proto_def)
qed

text \<open>A command that moves the automaton keeps the invariant with the fields the code sets.\<close>

lemma in_proto_move:
  assumes "in_proto cb src" "zip_source_call src cmd = ((r, out), src')" "src_can src cmd"
    and "proto_step (ZIP_SOURCE_IS_OPEN_READING src, src_write_state src) (cmd, r) = Some (rd, w)"
    and "src_wired cb src'' = src_wired cb src'" "src_tr src'' = src_tr src'"
    and "ZIP_SOURCE_IS_OPEN_READING src'' = rd" "src_write_state src'' = w"
  shows "in_proto cb src''"
  using assms call_proto [of cb src cmd r out src'] by (simp add: in_proto_def)

lemma src_can_coherent:
  "src_wired cb src \<Longrightarrow> src_can src ZIP_SOURCE_OPEN"
  "src_wired cb src \<Longrightarrow> src_can src ZIP_SOURCE_CLOSE"
  "src_wired cb src \<Longrightarrow> src_can src ZIP_SOURCE_BEGIN_WRITE \<or> src_can src (ZIP_SOURCE_BEGIN_WRITE_CLONING n) \<Longrightarrow>
     src_can src ZIP_SOURCE_COMMIT_WRITE \<and> src_can src ZIP_SOURCE_ROLLBACK_WRITE"
  by (auto simp: src_wired_def coherent_def src_can_def ZIP_SOURCE_MAKE_COMMAND_BITMASK_def)

text \<open>A source that was ever in a write can commit and roll back.\<close>

definition write_able :: "'s zip_source \<Rightarrow> bool" where
  "write_able src \<longleftrightarrow> (src_write_state src = ZIP_SOURCE_WRITE_OPEN \<or> src_write_state src = ZIP_SOURCE_WRITE_FAILED \<longrightarrow>
     src_can src ZIP_SOURCE_COMMIT_WRITE \<and> src_can src ZIP_SOURCE_ROLLBACK_WRITE)"

definition src_ok :: "('s \<Rightarrow> zip_source_cmd \<Rightarrow> reply \<times> 's) \<Rightarrow> ('s \<times> trace) zip_source \<Rightarrow> bool" where
  "src_ok cb src \<longleftrightarrow> in_proto cb src \<and> write_able src"

lemma src_can_same: "src_same a b \<Longrightarrow> src_can b c = src_can a c"
  by (simp add: src_can_def src_same_fields)

lemma src_can_updates [simp]:
  "src_can (src_set_error src a b) c = src_can src c" "src_can (src\<lparr>src_eof := e\<rparr>) c = src_can src c"
  "src_can (src\<lparr>src_had_read_error := h\<rparr>) c = src_can src c"
  "src_can (src\<lparr>src_write_state := w\<rparr>) c = src_can src c"
  "src_can (src\<lparr>src_open_count := n\<rparr>) c = src_can src c"
  "src_can (src\<lparr>src_refcount := k\<rparr>) c = src_can src c"
  by (simp_all add: src_can_def)

lemma write_able_updates [simp]:
  "write_able (src_set_error src a b) = write_able src" "write_able (src\<lparr>src_eof := e\<rparr>) = write_able src"
  "write_able (src\<lparr>src_had_read_error := h\<rparr>) = write_able src"
  "write_able (src\<lparr>src_open_count := n\<rparr>) = write_able src"
  "write_able (src\<lparr>src_refcount := k\<rparr>) = write_able src"
  by (simp_all add: write_able_def)

lemma write_able_same: "src_same a b \<Longrightarrow> write_able b = write_able a"
  by (simp add: write_able_def src_can_same src_same_fields)

lemma src_ok_updates [simp]:
  "src_ok cb (src_set_error src a b) = src_ok cb src" "src_ok cb (src\<lparr>src_eof := e\<rparr>) = src_ok cb src"
  "src_ok cb (src\<lparr>src_had_read_error := h\<rparr>) = src_ok cb src"
  "src_ok cb (src\<lparr>src_refcount := k\<rparr>) = src_ok cb src"
  by (simp_all add: src_ok_def)

text \<open>Commands that leave the automaton where it is.\<close>

lemma src_ok_call:
  assumes "src_ok cb src"
    and "\<And>r. proto_step (ZIP_SOURCE_IS_OPEN_READING src, src_write_state src) (cmd, r) =
        Some (ZIP_SOURCE_IS_OPEN_READING src, src_write_state src)"
  shows "src_ok cb (snd (zip_source_call src cmd))"
proof -
  obtain r out src' where c: "zip_source_call src cmd = ((r, out), src')"
    by (metis prod.exhaust)
  then show ?thesis
    using in_proto_call [OF _ c] assms write_able_same [OF zip_source_call_same [OF c]]
    by (auto simp: src_ok_def)
qed

lemma open_after_call:
  assumes "zip_source_call src cmd = (r, src')"
  shows "ZIP_SOURCE_IS_OPEN_READING src' = ZIP_SOURCE_IS_OPEN_READING src"
    "ZIP_SOURCE_IS_OPEN_WRITING src' = ZIP_SOURCE_IS_OPEN_WRITING src"
    "src_open_count src' = src_open_count src" "src_write_state src' = src_write_state src"
  using src_same_fields [OF zip_source_call_same [OF assms]]
  by (simp_all add: ZIP_SOURCE_IS_OPEN_READING_def ZIP_SOURCE_IS_OPEN_WRITING_def)

lemma src_ok_read_loop:
  "src_ok cb src \<Longrightarrow> ZIP_SOURCE_IS_OPEN_READING src \<Longrightarrow> len < 2 ^ 63 \<Longrightarrow>
   src_ok cb (snd (snd (zip_source_read_loop src acc br len)))"
proof (induction src acc br len rule: zip_source_read_loop.induct)
  case (1 src acc br len)
  show ?case
  proof (cases "br < len")
    case False
    then show ?thesis using 1 by (subst zip_source_read_loop.simps) simp
  next
    case True
    let ?cmd = "ZIP_SOURCE_READ (of_nat (len - br))"
    have n0: "(of_nat (len - br) :: u64) \<noteq> 0"
      using 1(4) True by (simp only: of_nat_eq_0_iff word_of_nat_eq_0_iff) (auto dest: dvd_imp_le)
    obtain n out src' where c: "zip_source_call src ?cmd = ((n, out), src')" by (metis prod.exhaust)
    have ok: "src_ok cb src'"
      using src_ok_call [OF 1(2), of ?cmd] 1(3) n0 c by simp
    show ?thesis
      using c ok True "1.IH" [OF True c [symmetric]] open_after_call [OF c] 1
      by (subst zip_source_read_loop.simps) (auto split: prod.splits)
  qed
qed

lemma src_ok_read: "src_ok cb src \<Longrightarrow> src_ok cb (snd (snd (zip_source_read src n)))"
proof -
  assume ok: "src_ok cb src"
  have "n \<le> ZIP_INT64_MAX \<Longrightarrow> unat n < 2 ^ 63" by (simp add: word_le_nat_alt)
  then show ?thesis
    using src_ok_read_loop [OF ok] ok
    by (auto simp: zip_source_read_def not_less)
qed

lemma src_ok_seek: "src_ok cb src \<Longrightarrow> src_ok cb (snd (zip_source_seek src off wh))"
  using src_ok_call [of cb src "ZIP_SOURCE_SEEK off wh"]
  by (auto simp: zip_source_seek_def split: prod.splits)

lemma src_ok_tell: "src_ok cb src \<Longrightarrow> src_ok cb (snd (zip_source_tell src))"
  using src_ok_call [of cb src ZIP_SOURCE_TELL]
  by (auto simp: zip_source_tell_def split: prod.splits)

lemma src_ok_flat: "src_ok cb src \<Longrightarrow> src_src src = None"
  by (simp add: src_ok_def in_proto_def src_wired_def)

lemma src_ok_stat: "src_ok cb src \<Longrightarrow> src_ok cb (snd (snd (zip_source_stat src st)))"
  using src_ok_call [of cb src "ZIP_SOURCE_STAT (zip_stat_init (the st))"] src_ok_flat [of cb src]
  by (auto simp: zip_source_stat_def Let_def split: prod.splits option.splits)

lemma src_ok_flags: "src_ok cb src \<Longrightarrow> src_ok cb (snd (zip_source_get_compression_flags src))"
  using src_ok_call [of cb src ZIP_SOURCE_GET_COMPRESSION_FLAGS] src_ok_flat [of cb src]
  by (auto simp: zip_source_get_compression_flags_def split: prod.splits option.splits)

lemma src_ok_writes:
  assumes "src_ok cb src"
  shows "src_ok cb (snd (zip_source_write src d))" "src_ok cb (snd (zip_source_tell_write src))"
    "src_ok cb (snd (zip_source_seek_write src off wh))"
  using src_ok_call [OF assms, of "ZIP_SOURCE_WRITE d"] src_ok_call [OF assms, of ZIP_SOURCE_TELL_WRITE]
    src_ok_call [OF assms, of "ZIP_SOURCE_SEEK_WRITE off wh"] assms
  by (auto simp: zip_source_write_def zip_source_tell_write_def zip_source_seek_write_def
      ZIP_SOURCE_IS_OPEN_WRITING_def split: prod.splits)

text \<open>Commands that move it: open, close, begin, commit, rollback and remove.\<close>

lemma src_ok_open:
  assumes "src_ok cb src" "src_open_count src \<noteq> - 1"
  shows "src_ok cb (snd (zip_source_open src))"
proof -
  have pos: "0 < src_open_count src + 1"
    using assms(2) by (metis word_neq_0_conv add_eq_0_iff2)
  have opened: "src_ok cb (src_opened s)" if "src_ok cb s" "ZIP_SOURCE_IS_OPEN_READING s"
    "0 < src_open_count s + 1" for s :: "('a \<times> trace) zip_source"
    using that by (simp add: src_ok_def in_proto_def src_wired_def src_opened_def write_able_def
        ZIP_SOURCE_IS_OPEN_READING_def src_tr_def src_can_def)
  show ?thesis
  proof (cases "ZIP_SOURCE_IS_OPEN_READING src")
    case True
    then show ?thesis using opened [OF assms(1) True pos] assms(1) by (simp add: zip_source_open_def)
  next
    case False
    obtain r out src' where c: "zip_source_call src ZIP_SOURCE_OPEN = ((r, out), src')"
      by (metis prod.exhaust)
    note same = zip_source_call_same [OF c]
    note f = src_same_fields [OF same]
    have p: "in_proto cb src" "src_wired cb src" "write_able src'"
      using assms(1) write_able_same [OF same] by (auto simp: src_ok_def in_proto_def)
    have can: "src_can src ZIP_SOURCE_OPEN" using src_can_coherent(1) [OF p(2)] .
    have w': "src_wired cb src'" using src_wired_same [OF p(2) same] .
    have fail: "r < 0 \<Longrightarrow> src_ok cb src'"
      using in_proto_move [OF p(1) c can, of False "src_write_state src" src'] False p f
      by (simp add: src_ok_def ZIP_SOURCE_IS_OPEN_READING_def)
    have win: "0 \<le> r \<Longrightarrow> src_ok cb (src_opened src')"
      using in_proto_move [OF p(1) c can, of True "src_write_state src" "src_opened src'"] False p f pos
      by (simp add: src_ok_def src_opened_def ZIP_SOURCE_IS_OPEN_READING_def src_wired_def src_tr_def
          write_able_def src_can_def)
    show ?thesis
      using False c fail win assms(1) f(1) src_ok_flat [OF assms(1)]
      by (auto simp: zip_source_open_def)
  qed
qed

lemma src_ok_close: "src_ok cb src \<Longrightarrow> src_ok cb (snd (zip_source_close src))"
proof (cases "ZIP_SOURCE_IS_OPEN_READING src \<and> src_open_count src = 1")
  case True
  assume ok: "src_ok cb src"
  let ?s1 = "src\<lparr>src_open_count := 0\<rparr>"
  obtain r out src' where c: "zip_source_call ?s1 ZIP_SOURCE_CLOSE = ((r, out), src')"
    by (metis prod.exhaust)
  have w: "src_wired cb ?s1" and wa: "write_able src'" and p: "in_proto cb src"
    using ok write_able_same [OF zip_source_call_same [OF c]]
    by (auto simp: src_ok_def in_proto_def src_wired_def)
  note cp = call_proto [OF w c] and f = src_same_fields [OF zip_source_call_same [OF c]]
  have "proto_run (src_tr src') = Some (False, src_write_state src)"
    using cp(3) src_can_coherent(2) [OF w] p True by (simp add: in_proto_def)
  then have "src_ok cb src'"
    using wa cp(1) f by (simp add: src_ok_def in_proto_def ZIP_SOURCE_IS_OPEN_READING_def)
  then show ?thesis
    using True c f(1) src_ok_flat [OF ok] by (auto simp: zip_source_close_def)
next
  case False
  assume ok: "src_ok cb src"
  have "src_open_count src \<noteq> 1 \<Longrightarrow> 0 < src_open_count src - 1"
    by (metis right_minus_eq word_neq_0_conv)
  then show ?thesis
    using False ok
    by (auto simp: zip_source_close_def Let_def src_ok_def in_proto_def src_wired_def
        ZIP_SOURCE_IS_OPEN_READING_def word_neq_0_conv)
qed

lemma src_ok_begin:
  assumes "src_ok cb src" "cmd = ZIP_SOURCE_BEGIN_WRITE \<or> cmd = ZIP_SOURCE_BEGIN_WRITE_CLONING n"
    and "\<not> ZIP_SOURCE_IS_OPEN_WRITING src" "zip_source_call src cmd = ((r, out), src')"
  shows "src_ok cb (if r < 0 then src' else src'\<lparr>src_write_state := ZIP_SOURCE_WRITE_OPEN\<rparr>)"
proof -
  note same = zip_source_call_same [OF assms(4)]
  note f = src_same_fields [OF same]
  have p: "in_proto cb src" "src_wired cb src" "write_able src'"
    using assms(1) write_able_same [OF same] by (auto simp: src_ok_def in_proto_def)
  show ?thesis
  proof (cases "src_can src cmd")
    case False
    then show ?thesis
      using call_proto [OF p(2) assms(4)] p f
      by (simp add: src_ok_def in_proto_def ZIP_SOURCE_IS_OPEN_READING_def)
  next
    case True
    then have can: "src_can src' ZIP_SOURCE_COMMIT_WRITE" "src_can src' ZIP_SOURCE_ROLLBACK_WRITE"
      using src_can_coherent(3) [OF p(2), of n] assms(2) src_can_same [OF same] by auto
    show ?thesis
      using in_proto_move [OF p(1) assms(4) True, of _ _ "if r < 0 then src' else src'\<lparr>src_write_state := ZIP_SOURCE_WRITE_OPEN\<rparr>"]
        assms(2,3) p(3) f can
      by (auto simp: src_ok_def ZIP_SOURCE_IS_OPEN_READING_def ZIP_SOURCE_IS_OPEN_WRITING_def
          src_wired_def write_able_def)
  qed
qed

lemma src_ok_begin_write:
  assumes "src_ok cb src"
  shows "src_ok cb (snd (zip_source_begin_write src))"
    "src_ok cb (snd (zip_source_begin_write_cloning src off'))"
  using src_ok_begin [OF assms, of ZIP_SOURCE_BEGIN_WRITE] assms
    src_ok_begin [OF assms, of "ZIP_SOURCE_BEGIN_WRITE_CLONING off'" off']
  by (auto simp: zip_source_begin_write_def zip_source_begin_write_cloning_def split: prod.splits
      if_splits)

lemma src_ok_rollback: "src_ok cb src \<Longrightarrow> src_ok cb (zip_source_rollback_write src)"
proof (cases "src_write_state src = ZIP_SOURCE_WRITE_OPEN \<or> src_write_state src = ZIP_SOURCE_WRITE_FAILED")
  case True
  assume ok: "src_ok cb src"
  obtain r out src' where c: "zip_source_call src ZIP_SOURCE_ROLLBACK_WRITE = ((r, out), src')"
    by (metis prod.exhaust)
  have p: "in_proto cb src" "src_can src ZIP_SOURCE_ROLLBACK_WRITE"
    using ok True by (auto simp: src_ok_def write_able_def)
  show ?thesis
    using in_proto_move [OF p(1) c p(2), of _ _ "src'\<lparr>src_write_state := ZIP_SOURCE_WRITE_CLOSED\<rparr>"]
      True c src_same_fields [OF zip_source_call_same [OF c]]
    by (auto simp: zip_source_rollback_write_def src_ok_def write_able_def src_wired_def
        ZIP_SOURCE_IS_OPEN_READING_def)
next
  case False
  assume "src_ok cb src"
  then show ?thesis using False by (simp add: zip_source_rollback_write_def)
qed

lemma call_same: "src_same src (snd (zip_source_call src cmd))"
  by (cases "zip_source_call src cmd") (simp add: zip_source_call_same)

lemma zip_source_close_flat:
  assumes "src_src src = None" "ZIP_SOURCE_IS_OPEN_READING src"
  shows "zip_source_close src =
    (0, if src_open_count src = 1 then snd (zip_source_call (src\<lparr>src_open_count := 0\<rparr>) ZIP_SOURCE_CLOSE)
        else src\<lparr>src_open_count := src_open_count src - 1\<rparr>)"
  using assms src_same_fields(1) [OF call_same, of "src\<lparr>src_open_count := 0\<rparr>" ZIP_SOURCE_CLOSE]
  by (auto simp: zip_source_close_def Let_def)

lemma zip_source_close_state:
  assumes "src_src src = None"
  shows "src_write_state (snd (zip_source_close src)) = src_write_state src"
    and "\<not> src_open_count src > 1 \<Longrightarrow> \<not> ZIP_SOURCE_IS_OPEN_READING (snd (zip_source_close src))"
    and "ZIP_SOURCE_IS_OPEN_READING src \<Longrightarrow> fst (zip_source_close src) = 0"
proof -
  note f = src_same_fields [OF call_same, of "src\<lparr>src_open_count := 0\<rparr>" ZIP_SOURCE_CLOSE]
  show "src_write_state (snd (zip_source_close src)) = src_write_state src"
    using zip_source_close_flat [OF assms] f
    by (cases "ZIP_SOURCE_IS_OPEN_READING src") (simp_all, simp add: zip_source_close_def)
  have "src_open_count src = 0 \<or> src_open_count src = 1" if "\<not> src_open_count src > 1"
    using that by (simp add: word_less_nat_alt word_unat_eq_iff) arith
  then show "\<not> src_open_count src > 1 \<Longrightarrow> \<not> ZIP_SOURCE_IS_OPEN_READING (snd (zip_source_close src))"
    using zip_source_close_flat [OF assms] f
    by (auto simp: ZIP_SOURCE_IS_OPEN_READING_def zip_source_close_def)
  show "ZIP_SOURCE_IS_OPEN_READING src \<Longrightarrow> fst (zip_source_close src) = 0"
    using zip_source_close_flat [OF assms] by simp
qed

lemma src_ok_commit:
  assumes ok: "src_ok cb src"
  shows "src_ok cb (snd (zip_source_commit_write src))"
proof (cases "ZIP_SOURCE_IS_OPEN_WRITING src \<and> \<not> src_open_count src > 1")
  case True
  define s1 where "s1 = (if ZIP_SOURCE_IS_OPEN_READING src then snd (zip_source_close src) else src)"
  have s1_ok: "src_ok cb s1" using ok src_ok_close [OF ok] by (simp add: s1_def)
  note cs = zip_source_close_state [OF src_ok_flat [OF ok]]
  have s1: "src_write_state s1 = ZIP_SOURCE_WRITE_OPEN" "\<not> ZIP_SOURCE_IS_OPEN_READING s1"
    using True cs by (auto simp: s1_def ZIP_SOURCE_IS_OPEN_WRITING_def)
  obtain r out s2 where c: "zip_source_call s1 ZIP_SOURCE_COMMIT_WRITE = ((r, out), s2)"
    by (metis prod.exhaust)
  have p: "in_proto cb s1" "src_can s1 ZIP_SOURCE_COMMIT_WRITE" "src_can s1 ZIP_SOURCE_ROLLBACK_WRITE"
    using s1_ok s1 by (auto simp: src_ok_def write_able_def)
  let ?w = "if r < 0 then ZIP_SOURCE_WRITE_FAILED else ZIP_SOURCE_WRITE_CLOSED"
  have "src_ok cb (s2\<lparr>src_write_state := ?w\<rparr>)"
    using in_proto_move [OF p(1) c p(2), of False ?w "s2\<lparr>src_write_state := ?w\<rparr>"] s1 p
      src_same_fields [OF zip_source_call_same [OF c]] src_can_same [OF zip_source_call_same [OF c]]
    by (simp add: src_ok_def write_able_def src_wired_def ZIP_SOURCE_IS_OPEN_READING_def)
  moreover have "snd (zip_source_commit_write src) = s2\<lparr>src_write_state := ?w\<rparr>"
    using True c cs(3)
    by (cases "zip_source_close src") (auto simp: zip_source_commit_write_def s1_def)
  ultimately show ?thesis by simp
next
  case False
  then show ?thesis using ok by (auto simp: zip_source_commit_write_def)
qed

lemma zip_source_rollback_state:
  "\<not> ZIP_SOURCE_IS_OPEN_READING src \<Longrightarrow> \<not> ZIP_SOURCE_IS_OPEN_READING (zip_source_rollback_write src)"
  "src_write_state src \<noteq> ZIP_SOURCE_WRITE_REMOVED \<Longrightarrow>
     src_write_state (zip_source_rollback_write src) = ZIP_SOURCE_WRITE_CLOSED"
  using open_after_call [of src ZIP_SOURCE_ROLLBACK_WRITE]
  by (cases "zip_source_call src ZIP_SOURCE_ROLLBACK_WRITE";
      cases "src_write_state src"; simp add: zip_source_rollback_write_def ZIP_SOURCE_IS_OPEN_READING_def)+

lemma src_ok_remove:
  assumes ok: "src_ok cb src"
  shows "src_ok cb (snd (zip_source_remove src))"
proof (cases "src_write_state src = ZIP_SOURCE_WRITE_REMOVED")
  case True
  then show ?thesis using ok by (simp add: zip_source_remove_def)
next
  case False
  define s1 where "s1 = (if ZIP_SOURCE_IS_OPEN_READING src then snd (zip_source_close src) else src)"
  define s2 where "s2 = (if src_write_state s1 \<noteq> ZIP_SOURCE_WRITE_CLOSED then zip_source_rollback_write s1 else s1)"
  have s2_ok: "src_ok cb s2"
    using ok src_ok_close [OF ok] src_ok_rollback [of cb s1] by (auto simp: s1_def s2_def)
  note cs = zip_source_close_state [OF src_ok_flat [OF ok]]
  have w2: "src_write_state s2 = ZIP_SOURCE_WRITE_CLOSED"
    using False cs zip_source_rollback_state(2) by (auto simp: s1_def s2_def)
  obtain r out s3 where c: "zip_source_call s2 ZIP_SOURCE_REMOVE = ((r, out), s3)"
    by (metis prod.exhaust)
  let ?s = "if r < 0 then s3 else s3\<lparr>src_write_state := ZIP_SOURCE_WRITE_REMOVED\<rparr>"
  have eq: "snd (zip_source_remove src) = ?s"
    using False c cs(3)
    by (cases "zip_source_close src") (auto simp: zip_source_remove_def s1_def s2_def Let_def)
  have p: "in_proto cb s2" "src_wired cb s2" "write_able s3"
    using s2_ok write_able_same [OF zip_source_call_same [OF c]] by (auto simp: src_ok_def in_proto_def)
  note f = src_same_fields [OF zip_source_call_same [OF c]]
  have "in_proto cb ?s"
  proof (cases "src_can s2 ZIP_SOURCE_REMOVE")
    case True
    then show ?thesis
      using in_proto_move [OF p(1) c True, of _ _ ?s] w2 f
      by (simp add: ZIP_SOURCE_IS_OPEN_READING_def src_wired_def)
  next
    case False
    then show ?thesis using in_proto_call [OF p(1) c] call_proto(4) [OF p(2) c] by simp
  qed
  then show ?thesis using p(3) w2 f unfolding eq by (auto simp: src_ok_def write_able_def)
qed

section \<open>Every use keeps to the protocol\<close>

lemma src_ok_new:
  assumes "fst (zip_source_function_create mem (logged cb) (s, []) err) = Some src"
    and "coherent (src_supports src)"
  shows "src_ok cb src"
  using assms
  by (auto simp: zip_source_function_create_def zip_source_new_def src_query_supports_def logged_def
      src_ok_def in_proto_def src_wired_def write_able_def src_tr_def proto_run_def
      ZIP_SOURCE_IS_OPEN_READING_def split: if_splits prod.splits)

lemma src_used_ok: "src_used cb src \<Longrightarrow> src_ok cb src"
proof (induction rule: src_used.induct)
  case (used_keep src)
  then show ?case by (simp add: zip_source_keep_def)
qed (simp_all add: src_ok_new src_ok_open src_ok_close src_ok_read src_ok_seek src_ok_tell src_ok_stat
    src_ok_flags src_ok_begin_write src_ok_writes src_ok_commit src_ok_rollback src_ok_remove)

text \<open>C7. However the public operations are called, the callback of a source receives its
  commands in an order the protocol accepts, and the source's open count and write state tell
  exactly where in the protocol it is.\<close>

theorem zip_source_protocol:
  assumes "src_used cb src"
  shows "proto_run (snd (src_ud src)) = Some (ZIP_SOURCE_IS_OPEN_READING src, src_write_state src)"
  using src_used_ok [OF assms] by (simp add: src_ok_def in_proto_def src_tr_def)

text \<open>A small memory-less source to run the statement on: it accepts everything.\<close>

definition yes_source :: "unit \<Rightarrow> zip_source_cmd \<Rightarrow> reply \<times> unit" where
  "yes_source s cmd = ((if cmd = ZIP_SOURCE_SUPPORTS then 0xffff else 0, No_data), s)"

lemma zip_source_protocol_witness:
  "proto_run [(ZIP_SOURCE_SUPPORTS, 0xffff), (ZIP_SOURCE_OPEN, 0), (ZIP_SOURCE_READ 4, 0)] =
     Some (True, ZIP_SOURCE_WRITE_CLOSED)"
proof -
  let ?new = "the (fst (zip_source_function_create malloc_ok (logged yes_source) ((), []) zip_error_init))"
  have new: "src_used yes_source ?new"
    by (rule used_new [where mem = malloc_ok and err = zip_error_init])
      (simp_all add: zip_source_function_create_def zip_source_new_def src_query_supports_def
        logged_def yes_source_def coherent_def)
  have "src_open_count ?new \<noteq> - 1"
    by (simp add: zip_source_function_create_def zip_source_new_def src_query_supports_def
        logged_def yes_source_def)
  note run = used_read [OF used_open [OF new this], of 4]
  show ?thesis
    using zip_source_protocol [OF run]
    by (simp add: zip_source_function_create_def zip_source_new_def src_query_supports_def
        logged_def yes_source_def zip_source_open_def zip_source_read_def zip_source_read_loop.simps
        zip_source_call_def src_invoke_def src_can_def ZIP_SOURCE_MAKE_COMMAND_BITMASK_def
        ZIP_SOURCE_IS_OPEN_READING_def src_opened_def zip_source_eof_def)
qed

end
