(* ===== verification/Zip_Buffer.thy ===== *)
theory Zip_Buffer
  imports Zip_Error
begin

text \<open>
  \<open>zip_buffer.c\<close>: a cursor with bounds checks over a byte array. A pointer into the array
  that C returns (or \<open>NULL\<close>) is an index into \<open>buf_data\<close> (or \<open>None\<close>); an \<open>int\<close> result is
  \<open>0\<close> or \<open>-1\<close>. Memory that \<open>malloc\<close> hands out is modelled as zero bytes.

  The lemmas give two views of a buffer: \<open>buf_written\<close>, what lies before the cursor, and
  \<open>buf_rest\<close>, what lies after it. Each put appends its encoding to the first, each get takes
  its decoding off the second, and an access that does not fit changes nothing but \<open>buf_ok\<close>.
\<close>

section \<open>The structure and its operations\<close>

record zip_buffer =
  buf_ok :: bool
  buf_free_data :: bool
  buf_data :: bytes
  buf_size :: u64
  buf_offset :: u64

definition zip_buffer_data :: "zip_buffer \<Rightarrow> bytes" where
  "zip_buffer_data b = buf_data b"

definition zip_buffer_eof :: "zip_buffer \<Rightarrow> bool" where
  "zip_buffer_eof b = (buf_ok b \<and> buf_offset b = buf_size b)"

definition zip_buffer_peek :: "zip_buffer \<Rightarrow> u64 \<Rightarrow> nat option \<times> zip_buffer" where
  "zip_buffer_peek b len =
     (if \<not> buf_ok b \<or> buf_offset b + len < len \<or> buf_offset b + len > buf_size b
      then (None, b\<lparr>buf_ok := False\<rparr>)
      else (Some (unat (buf_offset b)), b))"

definition zip_buffer_get :: "zip_buffer \<Rightarrow> u64 \<Rightarrow> nat option \<times> zip_buffer" where
  "zip_buffer_get b len =
     (case zip_buffer_peek b len of
        (None, b') \<Rightarrow> (None, b')
      | (Some p, b') \<Rightarrow> (Some p, b'\<lparr>buf_offset := buf_offset b' + len\<rparr>))"

definition zip_buffer_get_8 :: "zip_buffer \<Rightarrow> u8 \<times> zip_buffer" where
  "zip_buffer_get_8 b =
     (case zip_buffer_get b 1 of
        (None, b') \<Rightarrow> (0, b')
      | (Some p, b') \<Rightarrow> (buf_data b' ! p, b'))"

definition zip_buffer_get_16 :: "zip_buffer \<Rightarrow> u16 \<times> zip_buffer" where
  "zip_buffer_get_16 b =
     (case zip_buffer_get b 2 of
        (None, b') \<Rightarrow> (0, b')
      | (Some p, b') \<Rightarrow>
          let d = buf_data b'
          in (ucast (d ! p) + push_bit 8 (ucast (d ! (p + 1))), b'))"

definition zip_buffer_get_32 :: "zip_buffer \<Rightarrow> u32 \<times> zip_buffer" where
  "zip_buffer_get_32 b =
     (case zip_buffer_get b 4 of
        (None, b') \<Rightarrow> (0, b')
      | (Some p, b') \<Rightarrow>
          let d = buf_data b'
          in (push_bit 8 (push_bit 8 (push_bit 8 (ucast (d ! (p + 3))) + ucast (d ! (p + 2))) +
                ucast (d ! (p + 1))) + ucast (d ! p), b'))"

definition zip_buffer_get_64 :: "zip_buffer \<Rightarrow> u64 \<times> zip_buffer" where
  "zip_buffer_get_64 b =
     (case zip_buffer_get b 8 of
        (None, b') \<Rightarrow> (0, b')
      | (Some p, b') \<Rightarrow>
          let d = buf_data b'
          in (push_bit 56 (ucast (d ! (p + 7))) + push_bit 48 (ucast (d ! (p + 6))) +
              push_bit 40 (ucast (d ! (p + 5))) + push_bit 32 (ucast (d ! (p + 4))) +
              push_bit 24 (ucast (d ! (p + 3))) + push_bit 16 (ucast (d ! (p + 2))) +
              push_bit 8 (ucast (d ! (p + 1))) + ucast (d ! p), b'))"

definition zip_buffer_left :: "zip_buffer \<Rightarrow> u64" where
  "zip_buffer_left b = (if buf_ok b then buf_size b - buf_offset b else 0)"

text \<open>The bytes behind a pointer the buffer handed out, as \<open>memcpy\<close> and \<open>memcmp\<close> read them.\<close>

definition buf_bytes :: "zip_buffer \<Rightarrow> nat \<Rightarrow> nat \<Rightarrow> bytes" where
  "buf_bytes b p n = take n (drop p (buf_data b))"

definition zip_buffer_read :: "zip_buffer \<Rightarrow> u64 \<Rightarrow> bytes \<times> zip_buffer" where
  "zip_buffer_read b len0 =
     (let len = (if zip_buffer_left b < len0 then zip_buffer_left b else len0)
      in case zip_buffer_get b len of
           (None, b') \<Rightarrow> ([], b')
         | (Some p, b') \<Rightarrow> (buf_bytes b' p (unat len), b'))"

definition zip_buffer_new :: "malloc \<Rightarrow> bytes option \<Rightarrow> u64 \<Rightarrow> zip_buffer option" where
  "zip_buffer_new mem data sz =
     (let free_data = (data = None)
      in if data = None \<and> \<not> mem A_buffer_data then None
         else if \<not> mem A_buffer then None
         else Some \<lparr>buf_ok = True, buf_free_data = free_data,
                    buf_data = (case data of None \<Rightarrow> replicate (unat sz) 0 | Some d \<Rightarrow> d),
                    buf_size = sz, buf_offset = 0\<rparr>)"

definition zip_buffer_offset :: "zip_buffer \<Rightarrow> u64" where
  "zip_buffer_offset b = (if buf_ok b then buf_offset b else 0)"

definition zip_buffer_ok :: "zip_buffer \<Rightarrow> bool" where
  "zip_buffer_ok b = buf_ok b"

text \<open>\<open>memcpy\<close> to a pointer into the array.\<close>

definition buf_store :: "zip_buffer \<Rightarrow> nat \<Rightarrow> bytes \<Rightarrow> zip_buffer" where
  "buf_store b p bs =
     b\<lparr>buf_data := take p (buf_data b) @ bs @ drop (p + length bs) (buf_data b)\<rparr>"

definition zip_buffer_put :: "zip_buffer \<Rightarrow> bytes \<Rightarrow> int \<times> zip_buffer" where
  "zip_buffer_put b src =
     (case zip_buffer_get b (of_nat (length src)) of
        (None, b') \<Rightarrow> (-1, b')
      | (Some p, b') \<Rightarrow> (0, buf_store b' p src))"

definition zip_buffer_put_8 :: "zip_buffer \<Rightarrow> u8 \<Rightarrow> int \<times> zip_buffer" where
  "zip_buffer_put_8 b i =
     (case zip_buffer_get b 1 of
        (None, b') \<Rightarrow> (-1, b')
      | (Some p, b') \<Rightarrow> (0, buf_store b' p [i]))"

definition zip_buffer_put_16 :: "zip_buffer \<Rightarrow> u16 \<Rightarrow> int \<times> zip_buffer" where
  "zip_buffer_put_16 b i =
     (case zip_buffer_get b 2 of
        (None, b') \<Rightarrow> (-1, b')
      | (Some p, b') \<Rightarrow>
          (0, buf_store b' p [ucast (i AND 0xff), ucast (drop_bit 8 i AND 0xff)]))"

definition zip_buffer_put_32 :: "zip_buffer \<Rightarrow> u32 \<Rightarrow> int \<times> zip_buffer" where
  "zip_buffer_put_32 b i =
     (case zip_buffer_get b 4 of
        (None, b') \<Rightarrow> (-1, b')
      | (Some p, b') \<Rightarrow>
          (0, buf_store b' p [ucast (i AND 0xff), ucast (drop_bit 8 i AND 0xff),
             ucast (drop_bit 16 i AND 0xff), ucast (drop_bit 24 i AND 0xff)]))"

definition zip_buffer_put_64 :: "zip_buffer \<Rightarrow> u64 \<Rightarrow> int \<times> zip_buffer" where
  "zip_buffer_put_64 b i =
     (case zip_buffer_get b 8 of
        (None, b') \<Rightarrow> (-1, b')
      | (Some p, b') \<Rightarrow>
          (0, buf_store b' p [ucast (i AND 0xff), ucast (drop_bit 8 i AND 0xff),
             ucast (drop_bit 16 i AND 0xff), ucast (drop_bit 24 i AND 0xff),
             ucast (drop_bit 32 i AND 0xff), ucast (drop_bit 40 i AND 0xff),
             ucast (drop_bit 48 i AND 0xff), ucast (drop_bit 56 i AND 0xff)]))"

definition zip_buffer_set_offset :: "zip_buffer \<Rightarrow> u64 \<Rightarrow> int \<times> zip_buffer" where
  "zip_buffer_set_offset b offset =
     (if offset > buf_size b then (-1, b\<lparr>buf_ok := False\<rparr>)
      else (0, b\<lparr>buf_ok := True, buf_offset := offset\<rparr>))"

definition zip_buffer_skip :: "zip_buffer \<Rightarrow> u64 \<Rightarrow> int \<times> zip_buffer" where
  "zip_buffer_skip b len =
     (let offset = buf_offset b + len
      in if offset < buf_offset b then (-1, b\<lparr>buf_ok := False\<rparr>)
         else zip_buffer_set_offset b offset)"

definition zip_buffer_size :: "zip_buffer \<Rightarrow> u64" where
  "zip_buffer_size b = buf_size b"

section \<open>The two views\<close>

definition wf_buf :: "zip_buffer \<Rightarrow> bool" where
  "wf_buf b \<longleftrightarrow> length (buf_data b) = unat (buf_size b) \<and> buf_offset b \<le> buf_size b"

definition buf_written :: "zip_buffer \<Rightarrow> bytes" where
  "buf_written b = take (unat (buf_offset b)) (buf_data b)"

definition buf_rest :: "zip_buffer \<Rightarrow> bytes" where
  "buf_rest b = drop (unat (buf_offset b)) (buf_data b)"

lemma add_out_of_bounds:
  "(a + b < b \<or> s < a + b) \<longleftrightarrow> unat s < unat a + unat b" for a b s :: u64
proof (cases "unat a + unat b < 2 ^ 64")
  case True
  then have "unat (a + b) = unat a + unat b"
    by (simp add: unat_word_ariths)
  then show ?thesis by (auto simp: word_less_nat_alt)
next
  case False
  then have "unat (a + b) = unat a + unat b - 2 ^ 64"
    using unat_bounds(4) [of a] unat_bounds(4) [of b]
    by (simp add: unat_word_ariths mod_if)
  moreover have "unat s < unat a + unat b"
    using False unat_bounds(4) [of s] by simp
  moreover have "unat a < 2 ^ 64" using unat_bounds(4) [of a] by simp
  ultimately show ?thesis using False unfolding word_less_nat_alt by arith
qed

lemma wf_buf_lengths:
  assumes "wf_buf b"
  shows "length (buf_written b) = unat (buf_offset b)"
    and "length (buf_rest b) = unat (buf_size b) - unat (buf_offset b)"
    and "unat (buf_offset b) \<le> unat (buf_size b)"
  using assms by (simp_all add: wf_buf_def buf_written_def buf_rest_def word_le_nat_alt)

lemma buf_data_split: "buf_data b = buf_written b @ buf_rest b"
  by (simp add: buf_written_def buf_rest_def)

lemma zip_buffer_left_eq:
  "wf_buf b \<Longrightarrow> unat (zip_buffer_left b) = (if buf_ok b then length (buf_rest b) else 0)"
  by (simp add: zip_buffer_left_def wf_buf_lengths unat_sub wf_buf_def)

lemma zip_buffer_eof_eq:
  "wf_buf b \<Longrightarrow> zip_buffer_eof b \<longleftrightarrow> buf_ok b \<and> buf_rest b = []"
  using wf_buf_lengths(2,3) [of b]
  by (auto simp: zip_buffer_eof_def buf_rest_def wf_buf_def word_unat_eq_iff)

text \<open>The bounds check of \<open>zip_buffer_peek\<close>, including its guard against wrap-around, decides
  exactly whether the bytes are there.\<close>

lemma zip_buffer_get_eq:
  assumes "wf_buf b"
  shows "zip_buffer_get b len =
    (if buf_ok b \<and> unat len \<le> length (buf_rest b)
     then (Some (unat (buf_offset b)), b\<lparr>buf_offset := buf_offset b + len\<rparr>)
     else (None, b\<lparr>buf_ok := False\<rparr>))"
  using add_out_of_bounds [of "buf_offset b" len "buf_size b"] wf_buf_lengths(2,3) [OF assms]
  by (auto simp: zip_buffer_get_def zip_buffer_peek_def)

lemma unat_offset_add:
  assumes "wf_buf b" "unat len \<le> length (buf_rest b)"
  shows "unat (buf_offset b + len) = unat (buf_offset b) + unat len"
proof -
  have "unat (buf_offset b) + unat len < 2 ^ 64"
    using wf_buf_lengths(2,3) [OF assms(1)] assms(2) unat_bounds(4) [of "buf_size b"] by simp
  then show ?thesis by (simp add: unat_word_ariths)
qed

lemma advance_views:
  assumes "wf_buf b" "unat len \<le> length (buf_rest b)"
  shows "wf_buf (b\<lparr>buf_offset := buf_offset b + len\<rparr>)"
    and "buf_written (b\<lparr>buf_offset := buf_offset b + len\<rparr>) = buf_written b @ take (unat len) (buf_rest b)"
    and "buf_rest (b\<lparr>buf_offset := buf_offset b + len\<rparr>) = drop (unat len) (buf_rest b)"
proof -
  note off = unat_offset_add [OF assms]
  show "wf_buf (b\<lparr>buf_offset := buf_offset b + len\<rparr>)"
    using wf_buf_lengths [OF assms(1)] assms off by (simp add: wf_buf_def word_le_nat_alt)
  show "buf_written (b\<lparr>buf_offset := buf_offset b + len\<rparr>) =
      buf_written b @ take (unat len) (buf_rest b)"
    by (simp add: buf_written_def buf_rest_def off take_add)
  show "buf_rest (b\<lparr>buf_offset := buf_offset b + len\<rparr>) = drop (unat len) (buf_rest b)"
    by (simp add: buf_rest_def off) (simp add: add.commute)
qed

text \<open>A store through the pointer just obtained replaces the bytes the get stepped over.\<close>

lemma store_views:
  assumes "wf_buf b" "unat len = length bs" "length bs \<le> length (buf_rest b)"
  defines "b' \<equiv> buf_store (b\<lparr>buf_offset := buf_offset b + len\<rparr>) (unat (buf_offset b)) bs"
  shows "wf_buf b'" and "buf_written b' = buf_written b @ bs"
    and "buf_rest b' = drop (length bs) (buf_rest b)"
    and "buf_ok b' = buf_ok b" and "buf_size b' = buf_size b"
    and "buf_free_data b' = buf_free_data b"
  using wf_buf_lengths [OF assms(1)] unat_offset_add [OF assms(1), of len] assms(1-3)
  by (auto simp: b'_def wf_buf_def buf_written_def buf_rest_def buf_store_def word_le_nat_alt
      min_def add.commute)

definition buf_at :: "zip_buffer \<Rightarrow> bytes \<Rightarrow> nat \<Rightarrow> bool" where
  "buf_at b w n \<longleftrightarrow> wf_buf b \<and> buf_ok b \<and> buf_written b = w \<and> unat (buf_size b) = n"

definition buf_from :: "zip_buffer \<Rightarrow> bytes \<Rightarrow> bool" where
  "buf_from b r \<longleftrightarrow> wf_buf b \<and> buf_ok b \<and> buf_rest b = r"

section \<open>Fixed-width fields\<close>

text \<open>
  What every typed put and get promises, as one interface. A reader of the archive format only
  needs these laws; the round trip and the sequencing lemmas are proved once from them.
\<close>

locale byte_field =
  fixes put :: "zip_buffer \<Rightarrow> 'a \<Rightarrow> int \<times> zip_buffer"
    and get :: "zip_buffer \<Rightarrow> 'a \<times> zip_buffer"
    and enc :: "'a \<Rightarrow> bytes"
    and width :: u64
    and zero :: 'a
  assumes enc_width: "length (enc x) = unat width"
    and put_eq: "put b x = (case zip_buffer_get b width of
          (None, b') \<Rightarrow> (-1, b') | (Some p, b') \<Rightarrow> (0, buf_store b' p (enc x)))"
    and get_short: "zip_buffer_get b width = (None, b') \<Longrightarrow> get b = (zero, b')"
    and get_enc: "wf_buf b \<Longrightarrow> buf_ok b \<Longrightarrow> buf_rest b = enc x @ r \<Longrightarrow>
          get b = (x, b\<lparr>buf_offset := buf_offset b + width\<rparr>)"
begin

lemma put_views:
  assumes "wf_buf b" "buf_ok b" "unat width \<le> length (buf_rest b)"
  shows "fst (put b x) = 0" and "wf_buf (snd (put b x))"
    and "buf_written (snd (put b x)) = buf_written b @ enc x"
    and "buf_rest (snd (put b x)) = drop (unat width) (buf_rest b)"
    and "buf_ok (snd (put b x))" and "buf_size (snd (put b x)) = buf_size b"
  using assms store_views [OF assms(1), of width "enc x"]
  by (simp_all add: put_eq zip_buffer_get_eq enc_width)

lemma put_short:
  assumes "wf_buf b" "\<not> buf_ok b \<or> length (buf_rest b) < unat width"
  shows "put b x = (-1, b\<lparr>buf_ok := False\<rparr>)"
  using assms by (auto simp: put_eq zip_buffer_get_eq)

lemma get_short_eq:
  assumes "wf_buf b" "\<not> buf_ok b \<or> length (buf_rest b) < unat width"
  shows "get b = (zero, b\<lparr>buf_ok := False\<rparr>)"
  using assms by (auto intro: get_short simp: zip_buffer_get_eq)

lemma get_views:
  assumes "wf_buf b" "buf_ok b" "buf_rest b = enc x @ r"
  shows "fst (get b) = x" and "wf_buf (snd (get b))" and "buf_ok (snd (get b))"
    and "buf_rest (snd (get b)) = r" and "buf_size (snd (get b)) = buf_size b"
    and "buf_data (snd (get b)) = buf_data b"
  using get_enc [OF assms] advance_views [OF assms(1), of width] assms
  by (simp_all add: enc_width)

text \<open>The same two facts over descriptions of a buffer that chain: \<open>buf_at b w n\<close> says that
  \<open>w\<close> has been written into the first of \<open>n\<close> bytes, \<open>buf_from b r\<close> that \<open>r\<close> is
  still to be read.\<close>

lemma put_at:
  assumes "buf_at b w n" "length w + unat width \<le> n"
  shows "buf_at (snd (put b x)) (w @ enc x) n"
  using assms put_views [of b x] wf_buf_lengths(1,2) [of b]
  by (auto simp: buf_at_def)

lemma get_from:
  assumes "buf_from b (enc x @ r)"
  shows "fst (get b) = x" and "buf_from (snd (get b)) r"
  using assms get_views [of b x r] by (auto simp: buf_from_def)

text \<open>Writing a field and reading it back from where the cursor was gives the value, and leaves
  the cursor after it.\<close>

lemma put_get:
  assumes "wf_buf b" "buf_ok b" "unat width \<le> length (buf_rest b)"
  shows "fst (get ((snd (put b x))\<lparr>buf_offset := buf_offset b\<rparr>)) = x"
    and "buf_offset (snd (get ((snd (put b x))\<lparr>buf_offset := buf_offset b\<rparr>))) =
           buf_offset (snd (put b x))"
proof -
  let ?b = "snd (put b x)"
  let ?c = "?b\<lparr>buf_offset := buf_offset b\<rparr>"
  have d: "buf_data ?b = buf_written b @ enc x @ drop (unat width) (buf_rest b)"
    using put_views [OF assms] buf_data_split [of ?b] by simp
  have off: "buf_offset ?b = buf_offset b + width"
    using assms by (simp add: put_eq zip_buffer_get_eq buf_store_def)
  have c: "wf_buf ?c" "buf_ok ?c"
    using put_views [OF assms] assms(1) by (simp_all add: wf_buf_def)
  have r: "buf_rest ?c = enc x @ drop (unat width) (buf_rest b)"
    using d wf_buf_lengths(1) [OF assms(1)] by (simp add: buf_rest_def)
  show "fst (get ?c) = x" and "buf_offset (snd (get ?c)) = buf_offset ?b"
    using get_enc [OF c r] off by simp_all
qed

end

lemma rest_nth:
  assumes "wf_buf b" "buf_rest b = e @ r" "i < length e"
  shows "buf_data b ! (unat (buf_offset b) + i) = e ! i"
proof -
  have "buf_data b ! (unat (buf_offset b) + i) = buf_rest b ! i"
    using wf_buf_lengths [OF assms(1)] assms(1) unfolding buf_rest_def wf_buf_def by simp
  then show ?thesis using assms by (simp add: nth_append)
qed

interpretation f8: byte_field zip_buffer_put_8 zip_buffer_get_8 "\<lambda>x. [x]" 1 0
proof (unfold_locales, goal_cases)
  case (4 b x r)
  then show ?case
    using rest_nth [of b "[x]" r 0] by (simp add: zip_buffer_get_8_def zip_buffer_get_eq)
qed (simp_all add: zip_buffer_put_8_def zip_buffer_get_8_def split: option.splits prod.splits)

interpretation f16: byte_field zip_buffer_put_16 zip_buffer_get_16 le16 2 0
proof (unfold_locales, goal_cases)
  case (4 b x r)
  then show ?case
    using rest_nth [of b "le16 x" r 0] rest_nth [of b "le16 x" r 1]
    by (simp add: zip_buffer_get_16_def zip_buffer_get_eq Let_def le16_def join16)
qed (simp_all add: zip_buffer_put_16_def zip_buffer_get_16_def le16_def split: option.splits prod.splits)

interpretation f32: byte_field zip_buffer_put_32 zip_buffer_get_32 le32 4 0
proof (unfold_locales, goal_cases)
  case (4 b x r)
  then show ?case
    using rest_nth [of b "le32 x" r 0] rest_nth [of b "le32 x" r 1]
      rest_nth [of b "le32 x" r 2] rest_nth [of b "le32 x" r 3]
    by (simp add: zip_buffer_get_32_def zip_buffer_get_eq Let_def le32_def join32)
qed (simp_all add: zip_buffer_put_32_def zip_buffer_get_32_def le32_def split: option.splits prod.splits)

interpretation f64: byte_field zip_buffer_put_64 zip_buffer_get_64 le64 8 0
proof (unfold_locales, goal_cases)
  case (4 b x r)
  then show ?case
    using rest_nth [of b "le64 x" r 0] rest_nth [of b "le64 x" r 1]
      rest_nth [of b "le64 x" r 2] rest_nth [of b "le64 x" r 3]
      rest_nth [of b "le64 x" r 4] rest_nth [of b "le64 x" r 5]
      rest_nth [of b "le64 x" r 6] rest_nth [of b "le64 x" r 7]
    by (simp add: zip_buffer_get_64_def zip_buffer_get_eq Let_def le64_def join64)
qed (simp_all add: zip_buffer_put_64_def zip_buffer_get_64_def le64_def split: option.splits prod.splits)

section \<open>Untyped access and the remaining operations\<close>

lemma zip_buffer_put_at:
  assumes "buf_at b w n" "length w + length bs \<le> n"
  shows "buf_at (snd (zip_buffer_put b bs)) (w @ bs) n" and "fst (zip_buffer_put b bs) = 0"
proof -
  have b: "wf_buf b" "buf_ok b" "length bs \<le> length (buf_rest b)"
    using assms wf_buf_lengths(1,2) [of b] by (auto simp: buf_at_def)
  have "length bs < 2 ^ 64"
    using b wf_buf_lengths(2) [of b] unat_bounds(4) [of "buf_size b"] by simp
  then have len: "unat (of_nat (length bs) :: u64) = length bs"
    by (simp add: unsigned_of_nat take_bit_nat_eq_self)
  show "buf_at (snd (zip_buffer_put b bs)) (w @ bs) n" "fst (zip_buffer_put b bs) = 0"
    using assms(1) b store_views [OF b(1) len] len
    by (auto simp: zip_buffer_put_def zip_buffer_get_eq buf_at_def)
qed

lemma zip_buffer_get_from:
  assumes "buf_from b (e @ r)" "unat len = length e"
  shows "fst (zip_buffer_get b len) = Some (unat (buf_offset b))"
    and "buf_from (snd (zip_buffer_get b len)) r"
    and "buf_bytes (snd (zip_buffer_get b len)) (unat (buf_offset b)) (length e) = e"
  using assms advance_views [of b len]
  by (auto simp: buf_from_def zip_buffer_get_eq buf_bytes_def buf_rest_def)

lemma buf_at_offset: "buf_at b w n \<Longrightarrow> zip_buffer_offset b = of_nat (length w)"
  using wf_buf_lengths(1) [of b] by (auto simp: buf_at_def zip_buffer_offset_def)

lemma buf_at_taken: "buf_at b w n \<Longrightarrow> take (length w) (buf_data b) = w"
  using buf_data_split [of b] by (auto simp: buf_at_def)

lemma zip_buffer_new_wf:
  assumes "zip_buffer_new mem data sz = Some b" "\<And>d. data = Some d \<Longrightarrow> length d = unat sz"
  shows "wf_buf b" and "buf_ok b" and "buf_offset b = 0" and "buf_size b = sz"
    and "data = Some d \<Longrightarrow> buf_from b d"
  using assms by (auto simp: zip_buffer_new_def wf_buf_def buf_from_def buf_rest_def
      split: if_splits option.splits)

lemma zip_buffer_new_at:
  "zip_buffer_new mem None sz = Some b \<Longrightarrow> buf_at b [] (unat sz)"
  by (auto simp: zip_buffer_new_def buf_at_def wf_buf_def buf_written_def split: if_splits)

section \<open>Runs of puts\<close>

text \<open>Code that fills a header is a run of put calls whose results are ignored and which is
  followed by one \<open>_zip_buffer_ok\<close>. A run is the list of its calls.\<close>

datatype put_field = P8 u8 | P16 u16 | P32 u32 | P64 u64 | PB bytes

fun put_one :: "zip_buffer \<Rightarrow> put_field \<Rightarrow> zip_buffer" where
  "put_one b (P8 x) = snd (zip_buffer_put_8 b x)"
| "put_one b (P16 x) = snd (zip_buffer_put_16 b x)"
| "put_one b (P32 x) = snd (zip_buffer_put_32 b x)"
| "put_one b (P64 x) = snd (zip_buffer_put_64 b x)"
| "put_one b (PB x) = snd (zip_buffer_put b x)"

definition put_all :: "zip_buffer \<Rightarrow> put_field list \<Rightarrow> zip_buffer" where
  "put_all b fs = foldl put_one b fs"

fun field_enc :: "put_field \<Rightarrow> bytes" where
  "field_enc (P8 x) = [x]"
| "field_enc (P16 x) = le16 x"
| "field_enc (P32 x) = le32 x"
| "field_enc (P64 x) = le64 x"
| "field_enc (PB x) = x"

definition fields_enc :: "put_field list \<Rightarrow> bytes" where
  "fields_enc fs = concat (map field_enc fs)"

lemma fields_enc_simps [simp]: "fields_enc [] = []" "fields_enc (f # fs) = field_enc f @ fields_enc fs"
  "fields_enc (fs @ gs) = fields_enc fs @ fields_enc gs"
  by (simp_all add: fields_enc_def)

lemma put_one_at: "buf_at b w n \<Longrightarrow> length w + length (field_enc f) \<le> n \<Longrightarrow> buf_at (put_one b f) (w @ field_enc f) n"
  by (cases f)
    (auto intro: f8.put_at [of b w n] f16.put_at f32.put_at f64.put_at zip_buffer_put_at(1))

lemma put_all_at:
  "buf_at b w n \<Longrightarrow> length w + length (fields_enc fs) \<le> n \<Longrightarrow> buf_at (put_all b fs) (w @ fields_enc fs) n"
proof (induction fs arbitrary: b w)
  case (Cons f fs)
  then show ?case using put_one_at [of b w n f] Cons.IH [of "put_one b f" "w @ field_enc f"]
    by (simp add: put_all_def)
qed (simp add: put_all_def)

text \<open>No sequence of operations leaves the array: the cursor stays inside it, whatever the
  arguments, and a pointer handed out has the bytes asked for behind it.\<close>

lemma zip_buffer_ops_wf:
  assumes "wf_buf b"
  shows "wf_buf (snd (zip_buffer_get b len))" and "wf_buf (snd (zip_buffer_peek b len))"
    and "wf_buf (snd (zip_buffer_set_offset b len))" and "wf_buf (snd (zip_buffer_skip b len))"
    and "wf_buf (snd (zip_buffer_read b len))"
  using assms advance_views(1) [OF assms]
  by (auto simp: zip_buffer_get_eq zip_buffer_peek_def zip_buffer_set_offset_def zip_buffer_skip_def
      zip_buffer_read_def Let_def wf_buf_def split: option.splits prod.splits)

lemma zip_buffer_get_in_bounds:
  "wf_buf b \<Longrightarrow> zip_buffer_get b len = (Some p, b') \<Longrightarrow>
   p + unat len \<le> length (buf_data b) \<and> buf_data b' = buf_data b"
  using wf_buf_lengths(2,3) [of b] by (auto simp: zip_buffer_get_eq wf_buf_def split: if_splits)

end
