(* ===== verification/Zip_Utf8.thy ===== *)
theory Zip_Utf8
  imports Zip_Error
begin

text \<open>
  \<open>zip_utf-8.c\<close>: guessing whether a string is ASCII, UTF-8 or code page 437, and converting
  code page 437 to UTF-8. A \<open>zip_string_t\<close> holds its \<open>str_length\<close> raw bytes without the
  terminating NUL; \<open>str_converted\<close> is the cached conversion.
\<close>

section \<open>Strings and encodings\<close>

datatype zip_encoding =
  ZIP_ENCODING_UNKNOWN | ZIP_ENCODING_ASCII | ZIP_ENCODING_UTF8_KNOWN | ZIP_ENCODING_UTF8_GUESSED
| ZIP_ENCODING_CP437 | ZIP_ENCODING_ERROR

record zip_string =
  str_raw :: bytes
  str_length :: u16
  str_encoding :: zip_encoding
  str_converted :: "bytes option"
  str_converted_length :: u32

definition cp437_to_unicode :: "u16 list" where
  "cp437_to_unicode = [
    0x0000, 0x263a, 0x263b, 0x2665, 0x2666, 0x2663, 0x2660, 0x2022, 0x25d8, 0x25cb, 0x25d9, 0x2642,
    0x2640, 0x266a, 0x266b, 0x263c, 0x25ba, 0x25c4, 0x2195, 0x203c, 0x00b6, 0x00a7, 0x25ac, 0x21a8,
    0x2191, 0x2193, 0x2192, 0x2190, 0x221f, 0x2194, 0x25b2, 0x25bc, 0x0020, 0x0021, 0x0022, 0x0023,
    0x0024, 0x0025, 0x0026, 0x0027, 0x0028, 0x0029, 0x002a, 0x002b, 0x002c, 0x002d, 0x002e, 0x002f,
    0x0030, 0x0031, 0x0032, 0x0033, 0x0034, 0x0035, 0x0036, 0x0037, 0x0038, 0x0039, 0x003a, 0x003b,
    0x003c, 0x003d, 0x003e, 0x003f, 0x0040, 0x0041, 0x0042, 0x0043, 0x0044, 0x0045, 0x0046, 0x0047,
    0x0048, 0x0049, 0x004a, 0x004b, 0x004c, 0x004d, 0x004e, 0x004f, 0x0050, 0x0051, 0x0052, 0x0053,
    0x0054, 0x0055, 0x0056, 0x0057, 0x0058, 0x0059, 0x005a, 0x005b, 0x005c, 0x005d, 0x005e, 0x005f,
    0x0060, 0x0061, 0x0062, 0x0063, 0x0064, 0x0065, 0x0066, 0x0067, 0x0068, 0x0069, 0x006a, 0x006b,
    0x006c, 0x006d, 0x006e, 0x006f, 0x0070, 0x0071, 0x0072, 0x0073, 0x0074, 0x0075, 0x0076, 0x0077,
    0x0078, 0x0079, 0x007a, 0x007b, 0x007c, 0x007d, 0x007e, 0x2302, 0x00c7, 0x00fc, 0x00e9, 0x00e2,
    0x00e4, 0x00e0, 0x00e5, 0x00e7, 0x00ea, 0x00eb, 0x00e8, 0x00ef, 0x00ee, 0x00ec, 0x00c4, 0x00c5,
    0x00c9, 0x00e6, 0x00c6, 0x00f4, 0x00f6, 0x00f2, 0x00fb, 0x00f9, 0x00ff, 0x00d6, 0x00dc, 0x00a2,
    0x00a3, 0x00a5, 0x20a7, 0x0192, 0x00e1, 0x00ed, 0x00f3, 0x00fa, 0x00f1, 0x00d1, 0x00aa, 0x00ba,
    0x00bf, 0x2310, 0x00ac, 0x00bd, 0x00bc, 0x00a1, 0x00ab, 0x00bb, 0x2591, 0x2592, 0x2593, 0x2502,
    0x2524, 0x2561, 0x2562, 0x2556, 0x2555, 0x2563, 0x2551, 0x2557, 0x255d, 0x255c, 0x255b, 0x2510,
    0x2514, 0x2534, 0x252c, 0x251c, 0x2500, 0x253c, 0x255e, 0x255f, 0x255a, 0x2554, 0x2569, 0x2566,
    0x2560, 0x2550, 0x256c, 0x2567, 0x2568, 0x2564, 0x2565, 0x2559, 0x2558, 0x2552, 0x2553, 0x256b,
    0x256a, 0x2518, 0x250c, 0x2588, 0x2584, 0x258c, 0x2590, 0x2580, 0x03b1, 0x00df, 0x0393, 0x03c0,
    0x03a3, 0x03c3, 0x00b5, 0x03c4, 0x03a6, 0x0398, 0x03a9, 0x03b4, 0x221e, 0x03c6, 0x03b5, 0x2229,
    0x2261, 0x00b1, 0x2265, 0x2264, 0x2320, 0x2321, 0x00f7, 0x2248, 0x00b0, 0x2219, 0x00b7, 0x221a,
    0x207f, 0x00b2, 0x25a0, 0x00a0]"

section \<open>Guessing\<close>

abbreviation UTF_8_LEN_2_MASK :: u8 where "UTF_8_LEN_2_MASK \<equiv> 0xe0"
abbreviation UTF_8_LEN_2_MATCH :: u8 where "UTF_8_LEN_2_MATCH \<equiv> 0xc0"
abbreviation UTF_8_LEN_3_MASK :: u8 where "UTF_8_LEN_3_MASK \<equiv> 0xf0"
abbreviation UTF_8_LEN_3_MATCH :: u8 where "UTF_8_LEN_3_MATCH \<equiv> 0xe0"
abbreviation UTF_8_LEN_4_MASK :: u8 where "UTF_8_LEN_4_MASK \<equiv> 0xf8"
abbreviation UTF_8_LEN_4_MATCH :: u8 where "UTF_8_LEN_4_MATCH \<equiv> 0xf0"
abbreviation UTF_8_CONTINUE_MASK :: u8 where "UTF_8_CONTINUE_MASK \<equiv> 0xc0"
abbreviation UTF_8_CONTINUE_MATCH :: u8 where "UTF_8_CONTINUE_MATCH \<equiv> 0x80"

definition plain_char :: "u8 \<Rightarrow> bool" where
  "plain_char c = ((c > 31 \<and> c < 128) \<or> c = 13 \<or> c = 10 \<or> c = 9)"

definition utf8_ulen :: "u8 \<Rightarrow> nat option" where
  "utf8_ulen c =
     (if c AND UTF_8_LEN_2_MASK = UTF_8_LEN_2_MATCH then Some 1
      else if c AND UTF_8_LEN_3_MASK = UTF_8_LEN_3_MATCH then Some 2
      else if c AND UTF_8_LEN_4_MASK = UTF_8_LEN_4_MATCH then Some 3
      else None)"

definition utf8_cont :: "u8 \<Rightarrow> bool" where
  "utf8_cont c = (c AND UTF_8_CONTINUE_MASK = UTF_8_CONTINUE_MATCH)"

text \<open>The scan over \<open>name[i..]\<close>: \<open>enc\<close> is the verdict so far, and a byte that fits
  neither pattern ends the loop with \<open>ZIP_ENCODING_CP437\<close>.\<close>

function guess_scan :: "bytes \<Rightarrow> zip_encoding \<Rightarrow> zip_encoding" where
  "guess_scan [] enc = enc"
| "guess_scan (c # cs) enc =
     (if plain_char c then guess_scan cs enc
      else case utf8_ulen c of
             None \<Rightarrow> ZIP_ENCODING_CP437
           | Some ulen \<Rightarrow>
               if length cs < ulen then ZIP_ENCODING_CP437
               else if \<not> list_all utf8_cont (take ulen cs) then ZIP_ENCODING_CP437
               else guess_scan (drop ulen cs) ZIP_ENCODING_UTF8_GUESSED)"
  by pat_completeness auto
termination
  by (relation "measure (\<lambda>(cs, enc). length cs)") auto

definition zip_guess_encoding ::
  "zip_string option \<Rightarrow> zip_encoding \<Rightarrow> zip_encoding \<times> zip_string option" where
  "zip_guess_encoding str expected =
     (case str of
        None \<Rightarrow> (ZIP_ENCODING_ASCII, None)
      | Some s \<Rightarrow>
          let enc = (if str_encoding s \<noteq> ZIP_ENCODING_UNKNOWN then str_encoding s
                     else guess_scan (str_raw s) ZIP_ENCODING_ASCII);
              s1 = s\<lparr>str_encoding := enc\<rparr>
          in if expected = ZIP_ENCODING_UNKNOWN then (enc, Some s1)
             else let (enc2, s2) =
                        (if expected = ZIP_ENCODING_UTF8_KNOWN \<and> enc = ZIP_ENCODING_UTF8_GUESSED
                         then (ZIP_ENCODING_UTF8_KNOWN, s1\<lparr>str_encoding := ZIP_ENCODING_UTF8_KNOWN\<rparr>)
                         else (enc, s1))
                  in if expected \<noteq> enc2 \<and> enc2 \<noteq> ZIP_ENCODING_ASCII
                     then (ZIP_ENCODING_ERROR, Some s2)
                     else (enc2, Some s2))"

section \<open>Converting\<close>

definition zip_unicode_to_utf8_len :: "u32 \<Rightarrow> u32" where
  "zip_unicode_to_utf8_len cp =
     (if cp < 0x80 then 1 else if cp < 0x800 then 2 else if cp < 0x10000 then 3 else 4)"

text \<open>The bytes stored at \<open>buf\<close>; their number is the value returned.\<close>

definition zip_unicode_to_utf8 :: "u32 \<Rightarrow> bytes" where
  "zip_unicode_to_utf8 cp =
     (if cp < 0x80 then [ucast (cp AND 0xff)]
      else if cp < 0x800 then
        [UTF_8_LEN_2_MATCH OR ucast (drop_bit 6 cp AND 0x1f),
         UTF_8_CONTINUE_MATCH OR ucast (cp AND 0x3f)]
      else if cp < 0x10000 then
        [UTF_8_LEN_3_MATCH OR ucast (drop_bit 12 cp AND 0x0f),
         UTF_8_CONTINUE_MATCH OR ucast (drop_bit 6 cp AND 0x3f),
         UTF_8_CONTINUE_MATCH OR ucast (cp AND 0x3f)]
      else
        [UTF_8_LEN_4_MATCH OR ucast (drop_bit 18 cp AND 0x07),
         UTF_8_CONTINUE_MATCH OR ucast (drop_bit 12 cp AND 0x3f),
         UTF_8_CONTINUE_MATCH OR ucast (drop_bit 6 cp AND 0x3f),
         UTF_8_CONTINUE_MATCH OR ucast (cp AND 0x3f)])"

definition cp437_char :: "u8 \<Rightarrow> u32" where
  "cp437_char c = ucast (cp437_to_unicode ! unat c)"

text \<open>The first loop: the size of the buffer to allocate, with the final NUL.\<close>

definition cp437_buflen :: "bytes \<Rightarrow> u32" where
  "cp437_buflen cs = foldl (\<lambda>n c. n + zip_unicode_to_utf8_len (cp437_char c)) 1 cs"

text \<open>The second loop fills a fresh buffer from offset 0; \<open>None\<close> is the null pointer. The
  result holds the text without its final NUL, and the length stored through \<open>utf8_lenp\<close>.\<close>

fun cp437_fill :: "bytes \<Rightarrow> bytes" where
  "cp437_fill [] = []"
| "cp437_fill (c # cs) = zip_unicode_to_utf8 (cp437_char c) @ cp437_fill cs"

definition zip_cp437_to_utf8 ::
  "malloc \<Rightarrow> bytes \<Rightarrow> zip_error \<Rightarrow> (bytes \<times> u32) option \<times> zip_error" where
  "zip_cp437_to_utf8 mem cs err =
     (if cs = [] then (None, err)
      else if \<not> mem A_cp437 then (None, zip_error_set err ZIP_ER_MEMORY 0)
      else (Some (cp437_fill cs, cp437_buflen cs - 1), err))"

section \<open>The conversion is sound\<close>

text \<open>The masks as bit patterns, for the bit-level proofs.\<close>

lemma utf8_masks:
  "(0x1f :: 'a::len word) = mask 5" "(0x3f :: 'a::len word) = mask 6"
  "(0x0f :: 'a::len word) = mask 4" "(0x07 :: 'a::len word) = mask 3"
  "(0xff :: 'a::len word) = mask 8"
  by (simp_all add: mask_eq_exp_minus_1)

lemma utf8_marks:
  "(0xc0 :: u8) = push_bit 6 (mask 2)" "(0xe0 :: u8) = push_bit 5 (mask 3)"
  "(0xf0 :: u8) = push_bit 4 (mask 4)" "(0xf8 :: u8) = push_bit 3 (mask 5)"
  by (simp_all add: mask_eq_exp_minus_1)

lemma bit_0x80 [simp]: "bit (0x80 :: int) n \<longleftrightarrow> n = 7"
proof -
  have "(0x80 :: int) = 2 ^ 7" by simp
  then show ?thesis by (simp only: bit_exp_iff) auto
qed

lemma zip_unicode_to_utf8_length:
  "length (zip_unicode_to_utf8 cp) = unat (zip_unicode_to_utf8_len cp)"
  by (simp add: zip_unicode_to_utf8_def zip_unicode_to_utf8_len_def)

lemma utf8_cont_byte: "utf8_cont (UTF_8_CONTINUE_MATCH OR ucast (x AND 0x3f))" for x :: u32
  unfolding utf8_cont_def utf8_masks utf8_marks
  by (rule bit_word_eqI) (auto simp: bit_simps)

lemma utf8_lead_bytes:
  "(UTF_8_LEN_2_MATCH OR ucast (x AND 0x1f)) AND UTF_8_LEN_2_MASK = UTF_8_LEN_2_MATCH"
  "(UTF_8_LEN_3_MATCH OR ucast (x AND 0x0f)) AND UTF_8_LEN_3_MASK = UTF_8_LEN_3_MATCH"
  "(UTF_8_LEN_4_MATCH OR ucast (x AND 0x07)) AND UTF_8_LEN_4_MASK = UTF_8_LEN_4_MATCH"
  for x :: u32
  unfolding utf8_masks utf8_marks by (rule bit_word_eqI, auto simp: bit_simps)+

lemma utf8_lead_not_plain: "c AND 0xc0 = 0xc0 \<Longrightarrow> \<not> plain_char c"
proof
  assume c: "c AND 0xc0 = 0xc0" "plain_char c"
  have "0xc0 \<le> c" using word_and_le2 [of c "0xc0"] c(1) by simp
  then show False using c(2) by (auto simp: plain_char_def word_less_nat_alt word_le_nat_alt)
qed

lemma utf8_lead_class:
  "(UTF_8_LEN_2_MATCH OR ucast (x AND 0x1f)) AND 0xc0 = 0xc0"
  "(UTF_8_LEN_3_MATCH OR ucast (x AND 0x0f)) AND 0xc0 = 0xc0"
  "(UTF_8_LEN_4_MATCH OR ucast (x AND 0x07)) AND 0xc0 = 0xc0"
  "(UTF_8_LEN_3_MATCH OR ucast (x AND 0x0f)) AND UTF_8_LEN_2_MASK = 0xe0"
  "(UTF_8_LEN_4_MATCH OR ucast (x AND 0x07)) AND UTF_8_LEN_2_MASK = 0xe0"
  "(UTF_8_LEN_4_MATCH OR ucast (x AND 0x07)) AND UTF_8_LEN_3_MASK = 0xf0"
  for x :: u32
  unfolding utf8_masks utf8_marks by (rule bit_word_eqI, auto simp: bit_simps)+

lemma utf8_ulen_lead:
  "utf8_ulen (UTF_8_LEN_2_MATCH OR ucast (x AND 0x1f)) = Some 1"
  "utf8_ulen (UTF_8_LEN_3_MATCH OR ucast (x AND 0x0f)) = Some 2"
  "utf8_ulen (UTF_8_LEN_4_MATCH OR ucast (x AND 0x07)) = Some 3"
  for x :: u32
  by (simp_all only: utf8_ulen_def utf8_lead_bytes utf8_lead_class) simp_all

text \<open>An encoded character beyond ASCII is one step of the scan.\<close>

lemma guess_scan_encoded:
  assumes "0x80 \<le> cp"
  shows "guess_scan (zip_unicode_to_utf8 cp @ r) e = guess_scan r ZIP_ENCODING_UTF8_GUESSED"
proof -
  note lead = utf8_ulen_lead utf8_lead_class(1-3) [THEN utf8_lead_not_plain]
  from assms have "\<not> cp < 0x80" by simp
  then show ?thesis
    by (simp add: zip_unicode_to_utf8_def lead utf8_cont_byte numeral_2_eq_2 numeral_3_eq_3)
qed

text \<open>Every entry of the table past NUL is an ASCII character printed as itself or lies beyond
  ASCII.\<close>

lemma cp437_table:
  "length cp437_to_unicode = 256"
  "list_all (\<lambda>u. plain_char (ucast u) \<and> u < 0x80 \<or> 0x80 \<le> u) (tl cp437_to_unicode)"
  unfolding cp437_to_unicode_def plain_char_def by simp_all

lemma cp437_char_cases:
  assumes "c \<noteq> 0"
  obtains "plain_char (ucast (cp437_char c))" "cp437_char c < 0x80" | "0x80 \<le> cp437_char c"
proof -
  have "unat c < 256" "unat c \<noteq> 0"
    using unsigned_less [of c] assms by (auto simp: unat_eq_zero)
  then obtain k where k: "unat c = Suc k" "k < length (tl cp437_to_unicode)"
    using cp437_table(1) by (cases "unat c") auto
  then have "cp437_to_unicode ! unat c \<in> set (tl cp437_to_unicode)"
    using nth_tl [OF k(2)] nth_mem [OF k(2)] by simp
  then have "plain_char (ucast (cp437_to_unicode ! unat c)) \<and> cp437_to_unicode ! unat c < 0x80
      \<or> 0x80 \<le> cp437_to_unicode ! unat c"
    using cp437_table(2) by (auto simp: list_all_iff)
  then show ?thesis
    using that by (auto simp: cp437_char_def word_less_nat_alt word_le_nat_alt)
qed

lemma guess_scan_converted:
  "0 \<notin> set cs \<Longrightarrow> guess_scan (cp437_fill cs) e \<in> {e, ZIP_ENCODING_UTF8_GUESSED}"
proof (induction cs arbitrary: e)
  case (Cons c cs)
  then have "c \<noteq> 0" by auto
  then show ?case
  proof (cases rule: cp437_char_cases)
    case 1
    then have "zip_unicode_to_utf8 (cp437_char c) = [ucast (cp437_char c)]"
      by (simp add: zip_unicode_to_utf8_def)
    with 1 Cons show ?thesis by simp
  next
    case 2
    with Cons show ?thesis by (auto simp: guess_scan_encoded)
  qed
qed simp

section \<open>Text as the scan sees it\<close>

text \<open>The strings of complete characters: plain bytes, and a lead byte with its continuation
  bytes. \<open>utf8_text bs m\<close> also says whether a multi-byte character occurs.\<close>

inductive utf8_text :: "bytes \<Rightarrow> bool \<Rightarrow> bool" where
  text_empty: "utf8_text [] False"
| text_plain: "plain_char c \<Longrightarrow> utf8_text cs m \<Longrightarrow> utf8_text (c # cs) m"
| text_multi: "\<not> plain_char c \<Longrightarrow> utf8_ulen c = Some n \<Longrightarrow> length us = n \<Longrightarrow> list_all utf8_cont us \<Longrightarrow>
    utf8_text cs m \<Longrightarrow> utf8_text (c # us @ cs) True"

inductive_cases utf8_text_ConsE: "utf8_text (c # cs) m"

lemma guess_scan_text:
  "utf8_text cs m \<Longrightarrow> guess_scan cs e = (if m then ZIP_ENCODING_UTF8_GUESSED else e)"
  by (induction arbitrary: e rule: utf8_text.induct) auto

lemma guess_scan_complete:
  "guess_scan cs e = ZIP_ENCODING_CP437 \<or>
   (\<exists>m. utf8_text cs m \<and> guess_scan cs e = (if m then ZIP_ENCODING_UTF8_GUESSED else e))"
proof (induction cs e rule: guess_scan.induct)
  case (1 e)
  show ?case using text_empty by (intro disjI2 exI [of _ False]) simp
next
  case (2 c cs e)
  show ?case
  proof (cases "plain_char c")
    case True
    then show ?thesis using "2.IH"(1) by (simp only: guess_scan.simps if_True) (blast intro: text_plain)
  next
    case np: False
    show ?thesis
    proof (cases "utf8_ulen c")
      case None
      with np show ?thesis by simp
    next
      case (Some n)
      show ?thesis
      proof (cases "length cs < n \<or> \<not> list_all utf8_cont (take n cs)")
        case True
        with np Some show ?thesis by auto
      next
        case False
        then have multi: "\<not> length cs < n" "list_all utf8_cont (take n cs)" by simp_all
        have eq: "guess_scan (c # cs) e = guess_scan (drop n cs) ZIP_ENCODING_UTF8_GUESSED"
          using np Some multi by simp
        have IH: "guess_scan (drop n cs) ZIP_ENCODING_UTF8_GUESSED = ZIP_ENCODING_CP437 \<or>
            (\<exists>m. utf8_text (drop n cs) m \<and>
              guess_scan (drop n cs) ZIP_ENCODING_UTF8_GUESSED = ZIP_ENCODING_UTF8_GUESSED)"
          using "2.IH"(2) [OF np Some multi(1)] multi(2) by (simp cong: conj_cong)
        have "utf8_text (drop n cs) m \<Longrightarrow> utf8_text (c # cs) True" for m
          using text_multi [OF np Some, of "take n cs" "drop n cs" m] multi by simp
        then show ?thesis using IH unfolding eq by auto
      qed
    qed
  qed
qed

lemma guess_scan_iff:
  "guess_scan cs ZIP_ENCODING_ASCII = ZIP_ENCODING_ASCII \<longleftrightarrow> list_all plain_char cs"
  "guess_scan cs ZIP_ENCODING_ASCII = ZIP_ENCODING_UTF8_GUESSED \<longleftrightarrow> utf8_text cs True"
  "guess_scan cs ZIP_ENCODING_ASCII = ZIP_ENCODING_CP437 \<longleftrightarrow> (\<forall>m. \<not> utf8_text cs m)"
proof -
  have plain: "list_all plain_char cs = utf8_text cs False"
  proof
    show "list_all plain_char cs \<Longrightarrow> utf8_text cs False"
      by (induction cs) (auto intro: utf8_text.intros)
    have "utf8_text cs m \<Longrightarrow> \<not> m \<Longrightarrow> list_all plain_char cs" for m
      by (induction rule: utf8_text.induct) auto
    then show "utf8_text cs False \<Longrightarrow> list_all plain_char cs" by blast
  qed
  show "guess_scan cs ZIP_ENCODING_ASCII = ZIP_ENCODING_ASCII \<longleftrightarrow> list_all plain_char cs"
    "guess_scan cs ZIP_ENCODING_ASCII = ZIP_ENCODING_UTF8_GUESSED \<longleftrightarrow> utf8_text cs True"
    "guess_scan cs ZIP_ENCODING_ASCII = ZIP_ENCODING_CP437 \<longleftrightarrow> (\<forall>m. \<not> utf8_text cs m)"
    using guess_scan_complete [of cs ZIP_ENCODING_ASCII]
      guess_scan_text [of cs True ZIP_ENCODING_ASCII] guess_scan_text [of cs False ZIP_ENCODING_ASCII]
    unfolding plain by (metis (full_types) zip_encoding.distinct)+
qed

section \<open>The buffer is exactly large enough\<close>

lemma cp437_buflen_fold:
  "length cs < 2 ^ 29 \<Longrightarrow> unat n + 4 * length cs < 2 ^ 32 \<Longrightarrow>
   unat (foldl (\<lambda>n c. n + zip_unicode_to_utf8_len (cp437_char c)) n cs) = unat n + length (cp437_fill cs)"
proof (induction cs arbitrary: n)
  case (Cons c cs)
  let ?l = "zip_unicode_to_utf8_len (cp437_char c)"
  have l: "unat ?l \<le> 4" by (simp add: zip_unicode_to_utf8_len_def)
  have n: "unat (n + ?l) = unat n + unat ?l"
    using l Cons.prems by (simp add: unat_word_ariths)
  then show ?case
    using Cons.IH [of "n + ?l"] Cons.prems l by (simp add: zip_unicode_to_utf8_length)
qed simp

lemma cp437_buflen_exact:
  assumes "length cs < 2 ^ 29"
  shows "unat (cp437_buflen cs) = Suc (length (cp437_fill cs))"
    and "unat (cp437_buflen cs - 1) = length (cp437_fill cs)"
proof -
  show b: "unat (cp437_buflen cs) = Suc (length (cp437_fill cs))"
    using cp437_buflen_fold [of cs 1] assms by (simp add: cp437_buflen_def)
  then have "1 \<le> cp437_buflen cs" by (simp add: word_le_nat_alt)
  then show "unat (cp437_buflen cs - 1) = length (cp437_fill cs)"
    using b by (simp add: unat_sub)
qed

section \<open>The conversion loses nothing\<close>

text \<open>A UTF-8 decoder for the characters the encoder produces, as a specification.\<close>

function utf8_decode :: "bytes \<Rightarrow> u32 list" where
  "utf8_decode [] = []"
| "utf8_decode (c # cs) =
     (case utf8_ulen c of
        None \<Rightarrow> ucast c # utf8_decode cs
      | Some n \<Rightarrow>
          foldl (\<lambda>v u. push_bit 6 v OR (ucast u AND 0x3f)) (ucast c AND mask (6 - n)) (take n cs)
            # utf8_decode (drop n cs))"
  by pat_completeness auto
termination
  by (relation "measure length") auto

lemma utf8_ulen_ascii: "c < 0x80 \<Longrightarrow> utf8_ulen c = None"
proof -
  assume c: "c < 0x80"
  have "c AND m = 0xc0 \<or> c AND m = 0xe0 \<or> c AND m = 0xf0 \<Longrightarrow> 0x80 \<le> c" for m
    using word_and_le2 [of c m] by (auto simp: word_le_nat_alt)
  then show ?thesis using c by (auto simp: utf8_ulen_def word_le_nat_alt word_less_nat_alt)
qed

lemma bit_less: "x < 2 ^ k \<Longrightarrow> bit x n \<Longrightarrow> n < k" for x :: "'a::len word"
  by (metis bit_take_bit_iff less_mask_eq take_bit_eq_mask)

text \<open>Each byte yields the bits it was made from, and the pieces join to the code point.\<close>

lemma utf8_payload:
  "ucast (UTF_8_LEN_2_MATCH OR ucast (y AND 0x1f)) AND mask 5 = y AND mask 5"
  "ucast (UTF_8_LEN_3_MATCH OR ucast (y AND 0x0f)) AND mask 4 = y AND mask 4"
  "ucast (UTF_8_CONTINUE_MATCH OR ucast (y AND 0x3f)) AND 0x3f = y AND mask 6"
  for y :: u32
  unfolding utf8_masks utf8_marks by (rule bit_word_eqI, auto simp: bit_simps)+

lemma utf8_shift_join:
  "push_bit 6 (drop_bit (k + 6) x) OR (drop_bit k x AND mask 6) = drop_bit k x" for x :: "'a::len word"
proof (rule bit_word_eqI)
  fix n assume "n < LENGTH('a)"
  then show "bit (push_bit 6 (drop_bit (k + 6) x) OR (drop_bit k x AND mask 6)) n \<longleftrightarrow> bit (drop_bit k x) n"
    by (cases "n < 6") (auto simp: bit_simps not_less dest!: le_Suc_ex)
qed

lemma utf8_top: "x < 2 ^ (k + m) \<Longrightarrow> drop_bit k x AND mask m = drop_bit k x" for x :: "'a::len word"
  by (rule bit_word_eqI) (auto simp: bit_simps dest: bit_less)

lemma utf8_join2:
  assumes "cp < 2 ^ 11"
  shows "push_bit 6 (ucast (UTF_8_LEN_2_MATCH OR ucast (drop_bit 6 cp AND 0x1f)) AND mask 5)
     OR (ucast (UTF_8_CONTINUE_MATCH OR ucast (cp AND 0x3f)) AND 0x3f) = (cp :: u32)"
  unfolding utf8_payload
  using utf8_top [of cp 6 5] utf8_shift_join [of 0 cp] assms by simp

lemma utf8_join3:
  assumes "cp < 2 ^ 16"
  shows "push_bit 6 (push_bit 6 (ucast (UTF_8_LEN_3_MATCH OR ucast (drop_bit 12 cp AND 0x0f)) AND mask 4)
     OR (ucast (UTF_8_CONTINUE_MATCH OR ucast (drop_bit 6 cp AND 0x3f)) AND 0x3f))
     OR (ucast (UTF_8_CONTINUE_MATCH OR ucast (cp AND 0x3f)) AND 0x3f) = (cp :: u32)"
proof -
  have "drop_bit 12 cp AND mask 4 = drop_bit 12 cp" using utf8_top [of cp 12 4] assms by simp
  then show ?thesis
    unfolding utf8_payload
    using utf8_shift_join [of 6 cp] utf8_shift_join [of 0 cp] by (simp only:) simp
qed

lemma utf8_join1:
  assumes "cp < 0x80"
  shows "(ucast cp :: u8) < 0x80" and "ucast (ucast cp :: u8) = (cp :: u32)"
proof -
  have small: "bit cp n \<Longrightarrow> n < 7" for n using bit_less [of cp 7] assms by simp
  show again: "ucast (ucast cp :: u8) = cp"
    by (rule bit_word_eqI) (use small in \<open>auto simp: bit_simps intro: less_trans\<close>)
  have "unat (ucast cp :: u8) = unat (ucast (ucast cp :: u8) :: u32)"
    by (simp add: unsigned_ucast_eq unsigned_take_bit_eq)
  then show "(ucast cp :: u8) < 0x80" using assms unfolding again by (simp add: word_less_nat_alt)
qed

lemma utf8_decode_encode:
  assumes "cp < 0x10000"
  shows "utf8_decode (zip_unicode_to_utf8 cp @ r) = cp # utf8_decode r"
proof -
  consider "cp < 0x80" | "\<not> cp < 0x80" "cp < 0x800" | "\<not> cp < 0x80" "\<not> cp < 0x800" by blast
  then show ?thesis
  proof cases
    case 1
    then show ?thesis
      by (simp add: zip_unicode_to_utf8_def utf8_ulen_ascii utf8_join1)
  next
    case 2
    then have "zip_unicode_to_utf8 cp = [UTF_8_LEN_2_MATCH OR ucast (drop_bit 6 cp AND 0x1f),
         UTF_8_CONTINUE_MATCH OR ucast (cp AND 0x3f)]"
      by (simp add: zip_unicode_to_utf8_def)
    then show ?thesis
      using utf8_join2 [of cp] 2(2) by (simp only: utf8_decode.simps append.simps utf8_ulen_lead option.case)
        (simp only: One_nat_def take_Suc_Cons take0 drop_Suc_Cons drop0 foldl.simps
          diff_Suc_1 list.inject simp_thms, simp)
  next
    case 3
    then have "zip_unicode_to_utf8 cp = [UTF_8_LEN_3_MATCH OR ucast (drop_bit 12 cp AND 0x0f),
         UTF_8_CONTINUE_MATCH OR ucast (drop_bit 6 cp AND 0x3f),
         UTF_8_CONTINUE_MATCH OR ucast (cp AND 0x3f)]"
      using assms by (simp add: zip_unicode_to_utf8_def)
    then show ?thesis
      using utf8_join3 [of cp] assms by (simp only: utf8_decode.simps append.simps utf8_ulen_lead option.case)
        (simp only: numeral_2_eq_2 take_Suc_Cons take0 drop_Suc_Cons drop0 foldl.simps
          list.inject simp_thms, simp)
  qed
qed

lemma utf8_decode_converted: "utf8_decode (cp437_fill cs) = map cp437_char cs"
proof (induction cs)
  case (Cons c cs)
  have "cp437_char c < 0x10000"
    using unat_bounds(2) [of "cp437_to_unicode ! unat c"] by (simp add: cp437_char_def word_less_nat_alt)
  then show ?case by (simp add: utf8_decode_encode Cons)
qed simp

section \<open>What the component promises\<close>

text \<open>C5. Converting a code page 437 string to UTF-8 computes the buffer size exactly, stays
  inside it, loses no character, and yields text that the guesser accepts as ASCII or UTF-8.\<close>

theorem zip_cp437_to_utf8_sound:
  assumes "zip_cp437_to_utf8 mem cs err = (Some (u, len), err')"
    and "0 \<notin> set cs" and "length cs < 2 ^ 29"
  shows "length u = unat len \<and> utf8_decode u = map cp437_char cs \<and>
    guess_scan u ZIP_ENCODING_ASCII \<in> {ZIP_ENCODING_ASCII, ZIP_ENCODING_UTF8_GUESSED}"
proof -
  from assms(1) have "u = cp437_fill cs" "len = cp437_buflen cs - 1"
    by (auto simp: zip_cp437_to_utf8_def split: if_splits)
  then show ?thesis
    using cp437_buflen_exact(2) [OF assms(3)] guess_scan_converted [OF assms(2), of ZIP_ENCODING_ASCII]
    by (simp add: utf8_decode_converted)
qed

lemma zip_cp437_to_utf8_sound_witness:
  "length (cp437_fill [0x41, 0x80]) = 3 \<and> utf8_decode [0x41, 0xc3, 0x87] = [0x41, 0xc7] \<and>
   guess_scan [0x41, 0xc3, 0x87] ZIP_ENCODING_ASCII \<in> {ZIP_ENCODING_ASCII, ZIP_ENCODING_UTF8_GUESSED}"
proof -
  have v: "zip_cp437_to_utf8 malloc_ok [0x41, 0x80] zip_error_init =
      (Some ([0x41, 0xc3, 0x87], 3), zip_error_init)" "map cp437_char [0x41, 0x80] = [0x41, 0xc7]"
    by (simp_all add: zip_cp437_to_utf8_def cp437_buflen_def cp437_char_def cp437_to_unicode_def
      zip_unicode_to_utf8_def zip_unicode_to_utf8_len_def)
  show ?thesis
    using zip_cp437_to_utf8_sound [OF v(1)] v
    by (simp add: zip_cp437_to_utf8_def)
qed

text \<open>C6. On a string whose encoding is not known yet the guess is a decision procedure: ASCII
  exactly for printable bytes and line breaks, UTF-8 exactly for complete multi-byte text, and
  code page 437 exactly for everything else.\<close>

theorem zip_guess_encoding_decides:
  assumes "str_encoding s = ZIP_ENCODING_UNKNOWN"
  shows "(fst (zip_guess_encoding (Some s) ZIP_ENCODING_UNKNOWN) = ZIP_ENCODING_ASCII
      \<longleftrightarrow> list_all plain_char (str_raw s)) \<and>
    (fst (zip_guess_encoding (Some s) ZIP_ENCODING_UNKNOWN) = ZIP_ENCODING_UTF8_GUESSED
      \<longleftrightarrow> utf8_text (str_raw s) True) \<and>
    (fst (zip_guess_encoding (Some s) ZIP_ENCODING_UNKNOWN) = ZIP_ENCODING_CP437
      \<longleftrightarrow> (\<forall>m. \<not> utf8_text (str_raw s) m))"
proof -
  have "fst (zip_guess_encoding (Some s) ZIP_ENCODING_UNKNOWN) = guess_scan (str_raw s) ZIP_ENCODING_ASCII"
    using assms by (simp add: zip_guess_encoding_def Let_def)
  then show ?thesis by (simp only: guess_scan_iff simp_thms)
qed

lemma zip_guess_encoding_decides_witness:
  "utf8_text [0xc3, 0x87] True"
proof -
  let ?s = "\<lparr>str_raw = [0xc3, 0x87], str_length = 2, str_encoding = ZIP_ENCODING_UNKNOWN,
      str_converted = None, str_converted_length = 0\<rparr>"
  have "fst (zip_guess_encoding (Some ?s) ZIP_ENCODING_UNKNOWN) = ZIP_ENCODING_UTF8_GUESSED"
    by (simp add: zip_guess_encoding_def plain_char_def utf8_ulen_def utf8_cont_def)
  then show ?thesis using zip_guess_encoding_decides [of ?s] by simp
qed

end
