(* ===== verification/Zip_Io.thy ===== *)
theory Zip_Io
  imports Zip_Source Zip_Buffer Zip_Utf8
begin

text \<open>
  \<open>zip_string.c\<close>, \<open>zip_io_util.c\<close>, \<open>zip_memdup.c\<close> and
  \<open>_zip_buffer_new_from_source\<close>: strings with their cached conversions, and reading and
  writing whole items. A null string is \<open>None\<close>. Of the archive these functions only use the
  source and the error, which are passed as a pair (\<open>writer\<close>). zlib's \<open>crc32\<close> is a parameter.
\<close>

section \<open>Flags\<close>

abbreviation ZIP_FL_NOCASE :: u32 where "ZIP_FL_NOCASE \<equiv> 1"
abbreviation ZIP_FL_NODIR :: u32 where "ZIP_FL_NODIR \<equiv> 2"
abbreviation ZIP_FL_COMPRESSED :: u32 where "ZIP_FL_COMPRESSED \<equiv> 4"
abbreviation ZIP_FL_UNCHANGED :: u32 where "ZIP_FL_UNCHANGED \<equiv> 8"
abbreviation ZIP_FL_RECOMPRESS :: u32 where "ZIP_FL_RECOMPRESS \<equiv> 16"
abbreviation ZIP_FL_ENCRYPTED :: u32 where "ZIP_FL_ENCRYPTED \<equiv> 32"
abbreviation ZIP_FL_ENC_GUESS :: u32 where "ZIP_FL_ENC_GUESS \<equiv> 0"
abbreviation ZIP_FL_ENC_RAW :: u32 where "ZIP_FL_ENC_RAW \<equiv> 64"
abbreviation ZIP_FL_ENC_STRICT :: u32 where "ZIP_FL_ENC_STRICT \<equiv> 128"
abbreviation ZIP_FL_LOCAL :: u32 where "ZIP_FL_LOCAL \<equiv> 256"
abbreviation ZIP_FL_CENTRAL :: u32 where "ZIP_FL_CENTRAL \<equiv> 512"
abbreviation ZIP_FL_ENC_UTF_8 :: u32 where "ZIP_FL_ENC_UTF_8 \<equiv> 2048"
abbreviation ZIP_FL_ENC_CP437 :: u32 where "ZIP_FL_ENC_CP437 \<equiv> 4096"
abbreviation ZIP_FL_OVERWRITE :: u32 where "ZIP_FL_OVERWRITE \<equiv> 8192"
abbreviation ZIP_FL_ENCODING_ALL :: u32 where "ZIP_FL_ENCODING_ALL \<equiv> 6144"

section \<open>Strings\<close>

definition zip_string_crc32 :: "(u32 \<Rightarrow> bytes \<Rightarrow> u32) \<Rightarrow> zip_string option \<Rightarrow> u32" where
  "zip_string_crc32 crc32 s =
     (let crc = crc32 0 [] in case s of None \<Rightarrow> crc | Some str \<Rightarrow> crc32 crc (str_raw str))"

definition zip_string_equal :: "zip_string option \<Rightarrow> zip_string option \<Rightarrow> bool" where
  "zip_string_equal a b =
     (case (a, b) of
        (Some x, Some y) \<Rightarrow> str_length x = str_length y \<and> str_raw x = str_raw y
      | (None, None) \<Rightarrow> True
      | _ \<Rightarrow> False)"

text \<open>The result is the text and the length stored through \<open>lenp\<close>, or \<open>None\<close> for \<open>NULL\<close>.\<close>

definition zip_string_get ::
  "malloc \<Rightarrow> zip_string option \<Rightarrow> u32 \<Rightarrow> zip_error \<Rightarrow>
   (bytes \<times> u32) option \<times> zip_string option \<times> zip_error" where
  "zip_string_get mem string flags err =
     (case string of
        None \<Rightarrow> (Some ([], 0), None, err)
      | Some s \<Rightarrow>
          let raw = (\<lambda>s. (Some (str_raw s, ucast (str_length s)), Some s, err))
          in if flags AND ZIP_FL_ENC_RAW = 0
             then let s1 = (if str_encoding s = ZIP_ENCODING_UNKNOWN
                            then the (snd (zip_guess_encoding (Some s) ZIP_ENCODING_UNKNOWN)) else s)
                  in if flags AND ZIP_FL_ENC_STRICT \<noteq> 0 \<and> str_encoding s1 \<noteq> ZIP_ENCODING_ASCII \<and>
                          str_encoding s1 \<noteq> ZIP_ENCODING_UTF8_KNOWN \<or>
                        str_encoding s1 = ZIP_ENCODING_CP437
                     then case str_converted s1 of
                            Some c \<Rightarrow> (Some (c, str_converted_length s1), Some s1, err)
                          | None \<Rightarrow>
                              (case zip_cp437_to_utf8 mem (str_raw s1) err of
                                 (None, err') \<Rightarrow> (None, Some s1, err')
                               | (Some (c, n), err') \<Rightarrow>
                                   (Some (c, n),
                                    Some (s1\<lparr>str_converted := Some c, str_converted_length := n\<rparr>), err'))
                     else raw s1
             else raw s)"

definition zip_string_length :: "zip_string option \<Rightarrow> u16" where
  "zip_string_length s = (case s of None \<Rightarrow> 0 | Some str \<Rightarrow> str_length str)"

text \<open>The encoding asked for; \<open>None\<close> for contradictory flags.\<close>

definition expected_encoding :: "u32 \<Rightarrow> zip_encoding option" where
  "expected_encoding flags =
     (let f = flags AND ZIP_FL_ENCODING_ALL
      in if f = ZIP_FL_ENC_GUESS then Some ZIP_ENCODING_UNKNOWN
         else if f = ZIP_FL_ENC_UTF_8 then Some ZIP_ENCODING_UTF8_KNOWN
         else if f = ZIP_FL_ENC_CP437 then Some ZIP_ENCODING_CP437
         else None)"

definition zip_string_new ::
  "malloc \<Rightarrow> bytes \<Rightarrow> u16 \<Rightarrow> u32 \<Rightarrow> zip_error \<Rightarrow> zip_string option \<times> zip_error" where
  "zip_string_new mem raw len flags err =
     (if len = 0 then (None, err)
      else case expected_encoding flags of
        None \<Rightarrow> (None, zip_error_set err ZIP_ER_INVAL 0)
      | Some expected \<Rightarrow>
          if \<not> mem A_string then (None, zip_error_set err ZIP_ER_MEMORY 0)
          else if \<not> mem A_string_raw then (None, err)
          else let s = \<lparr>str_raw = take (unat len) raw, str_length = len,
                        str_encoding = ZIP_ENCODING_UNKNOWN, str_converted = None,
                        str_converted_length = 0\<rparr>
               in if expected \<noteq> ZIP_ENCODING_UNKNOWN
                  then case zip_guess_encoding (Some s) expected of
                         (e, s') \<Rightarrow>
                           if e = ZIP_ENCODING_ERROR then (None, zip_error_set err ZIP_ER_INVAL 0)
                           else (s', err)
                  else (Some s, err))"

definition zip_memdup :: "malloc \<Rightarrow> alloc_site \<Rightarrow> bytes \<Rightarrow> zip_error \<Rightarrow> bytes option \<times> zip_error" where
  "zip_memdup mem site data err =
     (if data = [] then (None, err)
      else if \<not> mem site then (None, zip_error_set err ZIP_ER_MEMORY 0)
      else (Some data, err))"

section \<open>Reading whole items\<close>

definition zip_read :: "'s zip_source \<Rightarrow> u64 \<Rightarrow> zip_error \<Rightarrow> int \<times> bytes \<times> 's zip_source \<times> zip_error" where
  "zip_read src len err =
     (if len > ZIP_INT64_MAX then (-1, [], src, zip_error_set err ZIP_ER_INTERNAL 0)
      else case zip_source_read src len of
             (n, b, src') \<Rightarrow>
               if n < 0 then (-1, b, src', zip_error_set_from_source err src')
               else if n < uint len then (-1, b, src', zip_error_set err ZIP_ER_EOF 0)
               else (0, b, src', err))"

text \<open>Replacing in-string NUL characters with spaces.\<close>

definition nul_to_space :: "bytes \<Rightarrow> bytes" where
  "nul_to_space bs = map (\<lambda>c. if c = 0 then 0x20 else c) bs"

text \<open>Exactly one of buffer and source is used: the buffer when there is one. The terminating
  NUL that \<open>nulp\<close> asks for is not part of the result.\<close>

definition zip_read_data ::
  "malloc \<Rightarrow> zip_buffer option \<Rightarrow> 's zip_source \<Rightarrow> u64 \<Rightarrow> bool \<Rightarrow> zip_error \<Rightarrow>
   bytes option \<times> zip_buffer option \<times> 's zip_source \<times> zip_error" where
  "zip_read_data mem buffer src len nulp err =
     (if len = 0 \<and> \<not> nulp then (None, buffer, src, err)
      else if \<not> mem A_read_data then (None, buffer, src, zip_error_set err ZIP_ER_MEMORY 0)
      else let fin = (\<lambda>r. if nulp then nul_to_space r else r)
           in case buffer of
             Some b \<Rightarrow>
               (case zip_buffer_get b len of
                  (None, b') \<Rightarrow> (None, Some b', src, zip_error_set err ZIP_ER_MEMORY 0)
                | (Some p, b') \<Rightarrow> (Some (fin (buf_bytes b' p (unat len))), Some b', src, err))
           | None \<Rightarrow>
               (case zip_read src len err of
                  (r, d, src', err') \<Rightarrow>
                    if r < 0 then (None, None, src', err') else (Some (fin d), None, src', err')))"

definition zip_read_string ::
  "malloc \<Rightarrow> zip_buffer option \<Rightarrow> 's zip_source \<Rightarrow> u16 \<Rightarrow> bool \<Rightarrow> zip_error \<Rightarrow>
   zip_string option \<times> zip_buffer option \<times> 's zip_source \<times> zip_error" where
  "zip_read_string mem buffer src len nulp err =
     (case zip_read_data mem buffer src (ucast len) nulp err of
        (None, b', src', err') \<Rightarrow> (None, b', src', err')
      | (Some raw, b', src', err') \<Rightarrow>
          (case zip_string_new mem raw len ZIP_FL_ENC_GUESS err' of
             (s, err'') \<Rightarrow> (s, b', src', err'')))"

definition zip_buffer_new_from_source ::
  "malloc \<Rightarrow> 's zip_source \<Rightarrow> u64 \<Rightarrow> bytes option \<Rightarrow> zip_error \<Rightarrow>
   zip_buffer option \<times> 's zip_source \<times> zip_error" where
  "zip_buffer_new_from_source mem src sz buf err =
     (case zip_buffer_new mem buf sz of
        None \<Rightarrow> (None, src, zip_error_set err ZIP_ER_MEMORY 0)
      | Some b \<Rightarrow>
          (case zip_read src sz err of
             (r, d, src', err') \<Rightarrow>
               if r < 0 then (None, src', err') else (Some (b\<lparr>buf_data := d\<rparr>), src', err')))"

section \<open>Writing whole items\<close>

type_synonym 's writer = "'s zip_source \<times> zip_error"

definition zip_write :: "'s writer \<Rightarrow> bytes \<Rightarrow> int \<times> 's writer" where
  "zip_write za data =
     (case za of (src, err) \<Rightarrow>
        (case zip_source_write src data of
           (n, src') \<Rightarrow>
             if n < 0 then (-1, (src', zip_error_set_from_source err src'))
             else if n \<noteq> int (length data) then (-1, (src', zip_error_set err ZIP_ER_WRITE EINTR))
             else (0, (src', err))))"

definition zip_string_write :: "'s writer \<Rightarrow> zip_string option \<Rightarrow> int \<times> 's writer" where
  "zip_string_write za s = (case s of None \<Rightarrow> (0, za) | Some str \<Rightarrow> zip_write za (str_raw str))"

section \<open>Reading from a source that keeps its contract\<close>

context byte_source begin

lemma zip_read_delivers:
  assumes "src_cb src = cb" "src_delivers good rest src bs" "len \<le> ZIP_INT64_MAX" "unat len \<le> length bs"
  shows "\<exists>src'. zip_read src len err = (0, take (unat len) bs, src', err) \<and> src_cb src' = cb \<and>
    src_delivers good rest src' (drop (unat len) bs)"
proof -
  have "uint len = int (unat len)" by simp
  then show ?thesis
    using read_delivers [OF assms(1-3)] assms(3,4) by (auto simp: zip_read_def min_def not_less)
qed

lemma zip_read_short:
  assumes "src_cb src = cb" "src_delivers good rest src bs" "len \<le> ZIP_INT64_MAX" "length bs < unat len"
  shows "\<exists>src'. zip_read src len err = (-1, bs, src', zip_error_set err ZIP_ER_EOF 0)"
proof -
  have "int (length bs) < uint len" using assms(4) by (metis of_nat_less_iff uint_nat)
  then show ?thesis
    using read_delivers [OF assms(1-3)] assms(3,4) by (auto simp: zip_read_def min_def not_less)
qed

lemma zip_read_data_delivers:
  assumes "src_cb src = cb" "src_delivers good rest src bs" "mem A_read_data"
    and "unat len \<le> length bs" "len \<le> ZIP_INT64_MAX" "len \<noteq> 0 \<or> nulp"
  shows "\<exists>src'. zip_read_data mem None src len nulp err =
      (Some (if nulp then nul_to_space (take (unat len) bs) else take (unat len) bs), None, src', err) \<and>
    src_cb src' = cb \<and> src_delivers good rest src' (drop (unat len) bs)"
  using zip_read_delivers [OF assms(1,2,5,4), of err] assms(3,6) by (auto simp: zip_read_data_def)

end

text \<open>The same from a buffer.\<close>

lemma zip_read_data_buffer:
  assumes "buf_from b bs" "mem A_read_data" "unat len \<le> length bs" "len \<noteq> 0 \<or> nulp"
  shows "\<exists>b'. zip_read_data mem (Some b) src len nulp err =
      (Some (if nulp then nul_to_space (take (unat len) bs) else take (unat len) bs), Some b', src, err) \<and>
    buf_from b' (drop (unat len) bs)"
  using assms advance_views(1,3) [of b len]
  by (auto simp: zip_read_data_def zip_buffer_get_eq buf_from_def buf_bytes_def buf_rest_def take_drop)

section \<open>The contract of a writable source\<close>

text \<open>
  What a writer of archive structures relies on: in append mode a write of up to \<open>room\<close> bytes in
  total stores all of them after what was written before.
\<close>

definition src_sinks ::
  "('s \<Rightarrow> bool) \<Rightarrow> ('s \<Rightarrow> bytes) \<Rightarrow> 's zip_source \<Rightarrow> bytes \<Rightarrow> bool" where
  "src_sinks good out src bs \<longleftrightarrow> good (src_ud src) \<and> out (src_ud src) = bs \<and>
     ZIP_SOURCE_IS_OPEN_WRITING src \<and> src_can src (ZIP_SOURCE_WRITE [])"

locale byte_sink =
  fixes cb :: "'s \<Rightarrow> zip_source_cmd \<Rightarrow> reply \<times> 's"
    and good :: "'s \<Rightarrow> bool"
    and out :: "'s \<Rightarrow> bytes"
    and room :: nat
  assumes write_law: "good s \<Longrightarrow> length (out s) + length d < room \<Longrightarrow>
      \<exists>s'. cb s (ZIP_SOURCE_WRITE d) = ((int (length d), No_data), s') \<and> good s' \<and> out s' = out s @ d"
    and room_law: "room < 2 ^ 63"
begin

lemma zip_source_write_appends:
  assumes "src_cb src = cb" "src_sinks good out src bs" "length bs + length d < room"
  shows "\<exists>src'. zip_source_write src d = (int (length d), src') \<and> src_cb src' = cb \<and>
    src_sinks good out src' (bs @ d)"
proof -
  have can: "src_can src (ZIP_SOURCE_WRITE d)"
    using assms(2) by (simp add: src_sinks_def src_can_def ZIP_SOURCE_MAKE_COMMAND_BITMASK_def)
  have "\<not> int (length d) > uint ZIP_INT64_MAX" using assms(3) room_law by simp
  moreover obtain s' where "cb (src_ud src) (ZIP_SOURCE_WRITE d) = ((int (length d), No_data), s')"
    "good s'" "out s' = bs @ d"
    using write_law [of "src_ud src" d] assms(2,3) by (auto simp: src_sinks_def)
  ultimately show ?thesis
    using assms(1,2) can
    by (auto simp: zip_source_write_def zip_source_call_def src_invoke_def src_sinks_def src_can_def
        ZIP_SOURCE_IS_OPEN_WRITING_def)
qed

text \<open>The writer pair: appended so far.\<close>

definition sinks :: "'s writer \<Rightarrow> bytes \<Rightarrow> bool" where
  "sinks za bs \<longleftrightarrow> src_cb (fst za) = cb \<and> src_sinks good out (fst za) bs"

lemma zip_write_appends:
  assumes "sinks za bs" "length bs + length d < room"
  shows "\<exists>za'. zip_write za d = (0, za') \<and> sinks za' (bs @ d) \<and> snd za' = snd za"
  using zip_source_write_appends [of "fst za" bs d] assms
  by (cases za) (auto simp: sinks_def zip_write_def)

lemma zip_string_write_appends:
  assumes "sinks za bs" "length bs + length (case s of None \<Rightarrow> [] | Some str \<Rightarrow> str_raw str) < room"
  shows "\<exists>za'. zip_string_write za s = (0, za') \<and>
    sinks za' (bs @ (case s of None \<Rightarrow> [] | Some str \<Rightarrow> str_raw str)) \<and> snd za' = snd za"
  using assms zip_write_appends by (cases s) (auto simp: zip_string_write_def)

end

end
