(* ===== verification/Zip_Source_Buffer.thy ===== *)
theory Zip_Source_Buffer
  imports Zip_Source_Protocol
begin

text \<open>
  \<open>zip_source_buffer.c\<close>: a source kept in memory as a list of fragments, which can be
  rewritten and can share fragments with the copy being written.

  Fragment data lives in a heap of byte blocks, so that sharing between the buffer being read and
  the clone being written is visible: a fragment names its block. \<open>rd_freed\<close> lists the blocks
  given to \<open>free\<close>. Array entries that \<open>realloc\<close> leaves unset hold the parameter \<open>junk\<close>.
  An access outside an array is undefined in C; the model records it in \<open>rd_fault\<close>.
\<close>

section \<open>The structures\<close>

record fragment =
  frag_data :: nat
  frag_length :: u64

record buffer =
  bu_fragments :: "fragment list"
  bu_fragment_offsets :: "u64 list"
  bu_fragments_capacity :: nat
  bu_first_owned_fragment :: nat
  bu_shared_fragments :: nat
  bu_shared_buffer :: bool
  bu_size :: u64
  bu_offset :: u64
  bu_current_fragment :: nat

record read_data =
  rd_error :: zip_error
  rd_mtime :: int
  rd_in :: buffer
  rd_out :: "buffer option"
  rd_heap :: "bytes list"
  rd_freed :: "nat list"
  rd_fault :: bool

abbreviation bu_nfragments :: "buffer \<Rightarrow> nat" where
  "bu_nfragments b \<equiv> length (bu_fragments b)"

abbreviation WRITE_FRAGMENT_SIZE :: u64 where "WRITE_FRAGMENT_SIZE \<equiv> 0x10000"

definition arr :: "'a list \<Rightarrow> nat \<Rightarrow> 'a option" where
  "arr xs i = (if i < length xs then Some (xs ! i) else None)"

section \<open>Fragments\<close>

definition buffer_empty :: buffer where
  "buffer_empty = \<lparr>bu_fragments = [], bu_fragment_offsets = [], bu_fragments_capacity = 0,
     bu_first_owned_fragment = 0, bu_shared_fragments = 0, bu_shared_buffer = False,
     bu_size = 0, bu_offset = 0, bu_current_fragment = 0\<rparr>"

definition buffer_grow_fragments ::
  "malloc \<Rightarrow> u64 \<Rightarrow> buffer \<Rightarrow> nat \<Rightarrow> zip_error \<Rightarrow> bool \<times> buffer \<times> zip_error" where
  "buffer_grow_fragments mem junk b capacity err =
     (if capacity < bu_fragments_capacity b then (True, b, err)
      else if \<not> mem A_fragments then (False, b, zip_error_set err ZIP_ER_MEMORY 0)
      else if \<not> mem A_offsets then (False, b, zip_error_set err ZIP_ER_MEMORY 0)
      else (True,
        b\<lparr>bu_fragment_offsets := take (capacity + 1) (bu_fragment_offsets b) @
               replicate (capacity + 1 - length (bu_fragment_offsets b)) junk,
          bu_fragments_capacity := capacity\<rparr>, err))"

text \<open>The loop of \<open>buffer_new\<close> over the caller's fragments from index \<open>i\<close>: a fragment is its
  block (\<open>None\<close> for a null pointer) and its length. Empty ones are skipped, but the offset is
  stored at the caller's index \<open>i\<close>, not at the fragment's own.\<close>

fun buffer_new_loop ::
  "(nat option \<times> u64) list \<Rightarrow> nat \<Rightarrow> fragment list \<Rightarrow> u64 list \<Rightarrow> u64 \<Rightarrow>
   (fragment list \<times> u64 list \<times> u64) option" where
  "buffer_new_loop [] i frs offs offset = Some (frs, offs, offset)"
| "buffer_new_loop ((d, len) # fs) i frs offs offset =
     (if len = 0 then buffer_new_loop fs (Suc i) frs offs offset
      else case d of
             None \<Rightarrow> None
           | Some blk \<Rightarrow> buffer_new_loop fs (Suc i) (frs @ [\<lparr>frag_data = blk, frag_length = len\<rparr>])
                           (offs[i := offset]) (offset + len))"

definition buffer_new ::
  "malloc \<Rightarrow> u64 \<Rightarrow> (nat option \<times> u64) list \<Rightarrow> bool \<Rightarrow> zip_error \<Rightarrow> buffer option \<times> zip_error" where
  "buffer_new mem junk fragments free_data err =
     (if \<not> mem A_buffer then (None, err)
      else if fragments = []
      then if \<not> mem A_offsets then (None, zip_error_set err ZIP_ER_MEMORY 0)
           else (Some (buffer_empty\<lparr>bu_fragment_offsets := [0]\<rparr>), err)
      else case buffer_grow_fragments mem junk buffer_empty (length fragments) err of
             (False, _, _) \<Rightarrow> (None, zip_error_set err ZIP_ER_MEMORY 0)
           | (True, b, _) \<Rightarrow>
               (case buffer_new_loop fragments 0 [] (bu_fragment_offsets b) 0 of
                  None \<Rightarrow> (None, zip_error_set err ZIP_ER_INVAL 0)
                | Some (frs, offs, offset) \<Rightarrow>
                    (Some (b\<lparr>bu_fragments := frs,
                       bu_first_owned_fragment := (if free_data then 0 else length frs),
                       bu_fragment_offsets := offs[length fragments := offset],
                       bu_size := offset\<rparr>), err)))"

text \<open>The binary search of \<open>buffer_find_fragment\<close>. \<open>None\<close> is an access outside the offsets:
  when \<open>high\<close> would wrap below 0, the next probe is at an index near \<open>2 ^ 63\<close>.\<close>

function find_fragment_loop :: "u64 list \<Rightarrow> nat \<Rightarrow> u64 \<Rightarrow> nat \<Rightarrow> nat \<Rightarrow> nat option" where
  "find_fragment_loop offs nfragments offset low high =
     (if low < high
      then let mid = (high - low) div 2 + low
           in case arr offs mid of
                None \<Rightarrow> None
              | Some o1 \<Rightarrow>
                  if o1 > offset
                  then (if mid = 0 then None else find_fragment_loop offs nfragments offset low (mid - 1))
                  else if mid = nfragments then Some mid
                  else case arr offs (mid + 1) of
                         None \<Rightarrow> None
                       | Some o2 \<Rightarrow> if o2 > offset then Some mid
                                    else find_fragment_loop offs nfragments offset (mid + 1) high
      else Some low)"
  by pat_completeness auto
termination
  by (relation "measure (\<lambda>(_, _, _, low, high). high - low)") auto

definition buffer_find_fragment :: "buffer \<Rightarrow> u64 \<Rightarrow> nat option" where
  "buffer_find_fragment b offset =
     (if bu_nfragments b = 0 then None
      else find_fragment_loop (bu_fragment_offsets b) (bu_nfragments b) offset 0 (bu_nfragments b - 1))"

section \<open>Cloning and freeing\<close>

text \<open>\<open>buffer_clone\<close> returns the clone and the updated original; the flag reports a fault.\<close>

definition buffer_clone ::
  "malloc \<Rightarrow> u64 \<Rightarrow> buffer \<Rightarrow> u64 \<Rightarrow> zip_error \<Rightarrow> buffer option \<times> buffer \<times> zip_error \<times> bool" where
  "buffer_clone mem junk b offset err =
     (if offset = 0
      then (case buffer_new mem junk [] True err of (c, err') \<Rightarrow> (c, b, err', False))
      else if offset > bu_size b then (None, b, zip_error_set err ZIP_ER_INVAL 0, False)
      else if bu_shared_buffer b then (None, b, zip_error_set err ZIP_ER_INUSE 0, False)
      else case buffer_find_fragment b offset of
             None \<Rightarrow> (None, b, err, True)
           | Some fr0 \<Rightarrow>
          (case arr (bu_fragment_offsets b) fr0 of
             None \<Rightarrow> (None, b, err, True)
           | Some o0 \<Rightarrow>
          let fo0 = offset - o0
          in if fo0 = 0 \<and> fr0 = 0 then (None, b, err, True)
             else let fragment = (if fo0 = 0 then fr0 - 1 else fr0)
          in case arr (bu_fragments b) fragment of
             None \<Rightarrow> (None, b, err, True)
           | Some fg \<Rightarrow>
          let fragment_offset = (if fo0 = 0 then frag_length fg else fo0);
              waste = frag_length fg - fragment_offset
          in if waste > offset then (None, b, zip_error_set err ZIP_ER_OPNOTSUPP 0, False)
             else case buffer_new mem junk
                    (map (\<lambda>f. (Some (frag_data f), frag_length f)) (take (fragment + 1) (bu_fragments b)))
                    False err of
                    (None, err') \<Rightarrow> (None, b, err', False)
                  | (Some c, err') \<Rightarrow>
                      let n = bu_nfragments c;
                          c1 = c\<lparr>bu_fragments := (bu_fragments c)[n - 1 :=
                                   (bu_fragments c ! (n - 1))\<lparr>frag_length := fragment_offset\<rparr>],
                                 bu_fragment_offsets := (bu_fragment_offsets c)[n := offset],
                                 bu_size := offset,
                                 bu_first_owned_fragment := min (bu_first_owned_fragment b) (n - 1),
                                 bu_shared_buffer := True,
                                 bu_shared_fragments := fragment + 1\<rparr>
                      in (Some c1, b\<lparr>bu_shared_buffer := True, bu_shared_fragments := n\<rparr>, err', False)))"

text \<open>\<open>buffer_free\<close>: the blocks given to \<open>free\<close>, and what happens to the buffer it is shared
  with.\<close>

definition buffer_free :: "buffer option \<Rightarrow> nat list" where
  "buffer_free bo =
     (case bo of
        None \<Rightarrow> []
      | Some b \<Rightarrow>
          let first = (if bu_shared_buffer b
                       then max (bu_first_owned_fragment b) (bu_shared_fragments b)
                       else bu_first_owned_fragment b)
          in map frag_data (drop first (bu_fragments b)))"

definition buffer_unshare :: "buffer option \<Rightarrow> buffer \<Rightarrow> buffer" where
  "buffer_unshare freed other =
     (case freed of
        Some b \<Rightarrow> if bu_shared_buffer b
                   then other\<lparr>bu_shared_buffer := False, bu_shared_fragments := 0\<rparr> else other
      | None \<Rightarrow> other)"

section \<open>Reading, seeking, writing\<close>

text \<open>The copy loop from fragment \<open>i\<close>: the bytes read and the fragment the loop ends in. Copying
  beyond a block, or from an offset beyond its fragment (where \<open>length - fragment_offset\<close> would
  wrap around), is a fault.\<close>

function buffer_read_loop ::
  "bytes list \<Rightarrow> fragment list \<Rightarrow> nat \<Rightarrow> nat \<Rightarrow> nat \<Rightarrow> (bytes \<times> nat) option" where
  "buffer_read_loop heap frs i fragment_offset rem =
     (if rem = 0 then Some ([], i)
      else case arr frs i of
             None \<Rightarrow> None
           | Some f \<Rightarrow>
               let here = unat (frag_length f) - fragment_offset;
                   left = min rem here
               in case arr heap (frag_data f) of
                    None \<Rightarrow> None
                  | Some d \<Rightarrow>
                      if unat (frag_length f) < fragment_offset \<or> length d < fragment_offset + left
                      then None
                      else case buffer_read_loop heap frs (if left = here then i + 1 else i) 0 (rem - left) of
                             None \<Rightarrow> None
                           | Some (r, j) \<Rightarrow> Some (take left (drop fragment_offset d) @ r, j))"
  by pat_completeness auto
termination
  by (relation "measure (\<lambda>(_, frs, i, _, rem). rem + (length frs - i))")
    (auto simp: arr_def min_def split: if_splits)

text \<open>\<open>buffer_read\<close>: the return value, the bytes stored, the buffer; \<open>None\<close> for a fault.\<close>

definition buffer_read :: "bytes list \<Rightarrow> buffer \<Rightarrow> u64 \<Rightarrow> (int \<times> bytes \<times> buffer) option" where
  "buffer_read heap b len0 =
     (let len = (if len0 < bu_size b - bu_offset b then len0 else bu_size b - bu_offset b)
      in if len = 0 then Some (0, [], b)
         else if len > ZIP_INT64_MAX then Some (-1, [], b)
         else case arr (bu_fragment_offsets b) (bu_current_fragment b) of
                None \<Rightarrow> None
              | Some o1 \<Rightarrow>
                  (case buffer_read_loop heap (bu_fragments b) (bu_current_fragment b)
                          (unat (bu_offset b - o1)) (unat len) of
                     None \<Rightarrow> None
                   | Some (r, i) \<Rightarrow>
                       Some (int (unat len), r,
                             b\<lparr>bu_offset := bu_offset b + len, bu_current_fragment := i\<rparr>)))"

text \<open>\<open>buffer_seek\<close>: the return value, the buffer and the error; \<open>None\<close> for a fault.\<close>

definition buffer_seek ::
  "buffer \<Rightarrow> int \<Rightarrow> whence \<Rightarrow> zip_error \<Rightarrow> (int \<times> buffer \<times> zip_error) option" where
  "buffer_seek b arg wh err =
     (case zip_source_seek_compute_offset (bu_offset b) (bu_size b) arg wh err of
        (new_offset, err') \<Rightarrow>
          if new_offset < 0 then Some (-1, b, err')
          else let b1 = b\<lparr>bu_offset := of_int new_offset\<rparr>
               in case buffer_find_fragment b1 (bu_offset b1) of
                    None \<Rightarrow> None
                  | Some i \<Rightarrow> Some (0, b1\<lparr>bu_current_fragment := i\<rparr>, err'))"

function grow_capacity :: "nat \<Rightarrow> nat \<Rightarrow> nat" where
  "grow_capacity c needed = (if 0 < c \<and> c < needed then grow_capacity (c * 2) needed else c)"
  by pat_completeness auto
termination
  by (relation "measure (\<lambda>(c, needed). needed - c)") auto

text \<open>The allocation loop: \<open>k\<close> fragments of \<open>WRITE_FRAGMENT_SIZE\<close> are still needed.\<close>

fun add_fragments ::
  "malloc \<Rightarrow> nat \<Rightarrow> bytes list \<Rightarrow> buffer \<Rightarrow> u64 \<Rightarrow> bool \<times> bytes list \<times> buffer" where
  "add_fragments mem 0 heap b capacity = (True, heap, b)"
| "add_fragments mem (Suc k) heap b capacity =
     (if \<not> mem A_fragment_data then (False, heap, b)
      else let capacity' = capacity + WRITE_FRAGMENT_SIZE;
               n = Suc (bu_nfragments b)
           in add_fragments mem k (heap @ [replicate (unat WRITE_FRAGMENT_SIZE) 0])
                (b\<lparr>bu_fragments := bu_fragments b @
                      [\<lparr>frag_data = length heap, frag_length = WRITE_FRAGMENT_SIZE\<rparr>],
                   bu_fragment_offsets := (bu_fragment_offsets b)[n := capacity']\<rparr>)
                capacity')"

definition buffer_capacity :: "buffer \<Rightarrow> u64 option" where
  "buffer_capacity b = arr (bu_fragment_offsets b) (bu_nfragments b)"

text \<open>Making room for \<open>len\<close> bytes at the offset. The result says whether memory sufficed.\<close>

definition buffer_make_room ::
  "malloc \<Rightarrow> u64 \<Rightarrow> bytes list \<Rightarrow> buffer \<Rightarrow> u64 \<Rightarrow> u64 \<Rightarrow> zip_error \<Rightarrow>
   bool \<times> bytes list \<times> buffer \<times> zip_error" where
  "buffer_make_room mem junk heap b len capacity err =
     (if bu_offset b + len > capacity
      then let needed = bu_nfragments b +
                 unat ((len - (capacity - bu_offset b) + WRITE_FRAGMENT_SIZE - 1) div WRITE_FRAGMENT_SIZE);
               (ok, b1, err1) =
                 (if needed > bu_fragments_capacity b
                  then let start = (if bu_fragments_capacity b = 0 then 16 else bu_fragments_capacity b)
                       in case buffer_grow_fragments mem junk b (grow_capacity start needed) err of
                            (g, b', _) \<Rightarrow> (g, b', if g then err else zip_error_set err ZIP_ER_MEMORY 0)
                  else (True, b, err))
           in if \<not> ok then (False, heap, b1, err1)
              else case add_fragments mem (needed - bu_nfragments b1) heap b1 capacity of
                     (True, heap', b2) \<Rightarrow> (True, heap', b2, err1)
                   | (False, heap', b2) \<Rightarrow> (False, heap', b2, zip_error_set err1 ZIP_ER_MEMORY 0)
      else (True, heap, b, err))"

definition heap_store :: "bytes list \<Rightarrow> nat \<Rightarrow> nat \<Rightarrow> bytes \<Rightarrow> bytes list" where
  "heap_store heap i p bs = heap[i := take p (heap ! i) @ bs @ drop (p + length bs) (heap ! i)]"

function buffer_write_loop ::
  "bytes list \<Rightarrow> fragment list \<Rightarrow> nat \<Rightarrow> nat \<Rightarrow> bytes \<Rightarrow> (bytes list \<times> nat) option" where
  "buffer_write_loop heap frs i fragment_offset data =
     (if data = [] then Some (heap, i)
      else case arr frs i of
             None \<Rightarrow> None
           | Some f \<Rightarrow>
               let here = unat (frag_length f) - fragment_offset;
                   left = min (length data) here
               in case arr heap (frag_data f) of
                    None \<Rightarrow> None
                  | Some d \<Rightarrow>
                      if unat (frag_length f) < fragment_offset \<or> length d < fragment_offset + left
                      then None
                      else buffer_write_loop
                             (heap_store heap (frag_data f) fragment_offset (take left data)) frs
                             (if left = here then i + 1 else i) 0 (drop left data))"
  by pat_completeness auto
termination
  by (relation "measure (\<lambda>(_, frs, i, _, data). length data + (length frs - i))")
    (auto simp: arr_def min_def split: if_splits)

definition buffer_write ::
  "malloc \<Rightarrow> u64 \<Rightarrow> bytes list \<Rightarrow> buffer \<Rightarrow> bytes \<Rightarrow> zip_error \<Rightarrow>
   (int \<times> bytes list \<times> buffer \<times> zip_error) option" where
  "buffer_write mem junk heap b data err =
     (let len = of_nat (length data)
      in if bu_offset b + len + WRITE_FRAGMENT_SIZE - 1 < len
         then Some (-1, heap, b, zip_error_set err ZIP_ER_INVAL 0)
         else case buffer_capacity b of
                None \<Rightarrow> None
              | Some capacity \<Rightarrow>
                  (case buffer_make_room mem junk heap b len capacity err of
                     (False, heap1, b1, err1) \<Rightarrow> Some (-1, heap1, b1, err1)
                   | (True, heap1, b1, err1) \<Rightarrow>
                       (case arr (bu_fragment_offsets b1) (bu_current_fragment b1) of
                          None \<Rightarrow> None
                        | Some o1 \<Rightarrow>
                            (case buffer_write_loop heap1 (bu_fragments b1) (bu_current_fragment b1)
                                    (unat (bu_offset b1 - o1)) data of
                               None \<Rightarrow> None
                             | Some (heap2, i) \<Rightarrow>
                                 let offset' = bu_offset b1 + len
                                 in Some (int (length data), heap2,
                                      b1\<lparr>bu_offset := offset', bu_current_fragment := i,
                                         bu_size := (if offset' > bu_size b1 then offset'
                                                     else bu_size b1)\<rparr>, err1)))))"

section \<open>The callback\<close>

definition rd_fail :: "read_data \<Rightarrow> int \<Rightarrow> int \<Rightarrow> reply \<times> read_data" where
  "rd_fail ctx ze se = ((-1, No_data), ctx\<lparr>rd_error := zip_error_set (rd_error ctx) ze se\<rparr>)"

definition rd_faulted :: "read_data \<Rightarrow> reply \<times> read_data" where
  "rd_faulted ctx = ((-1, No_data), ctx\<lparr>rd_fault := True\<rparr>)"

text \<open>\<open>ctx->out\<close> is dereferenced only while a write is open; a null pointer there faults.\<close>

fun read_data_cb :: "malloc \<Rightarrow> u64 \<Rightarrow> read_data \<Rightarrow> zip_source_cmd \<Rightarrow> reply \<times> read_data" where
  "read_data_cb mem junk ctx ZIP_SOURCE_BEGIN_WRITE =
     (case buffer_new mem junk [] False (rd_error ctx) of
        (None, e) \<Rightarrow> ((-1, No_data), ctx\<lparr>rd_out := None, rd_error := e\<rparr>)
      | (Some b, e) \<Rightarrow>
          ((0, No_data), ctx\<lparr>rd_out := Some (b\<lparr>bu_offset := 0, bu_current_fragment := 0\<rparr>), rd_error := e\<rparr>))"
| "read_data_cb mem junk ctx (ZIP_SOURCE_BEGIN_WRITE_CLONING len) =
     (case buffer_clone mem junk (rd_in ctx) len (rd_error ctx) of
        (_, _, _, True) \<Rightarrow> rd_faulted ctx
      | (None, b, e, False) \<Rightarrow> ((-1, No_data), ctx\<lparr>rd_out := None, rd_in := b, rd_error := e\<rparr>)
      | (Some c, b, e, False) \<Rightarrow>
          ((0, No_data), ctx\<lparr>rd_in := b, rd_error := e,
             rd_out := Some (c\<lparr>bu_offset := len, bu_current_fragment := bu_nfragments c\<rparr>)\<rparr>))"
| "read_data_cb mem junk ctx ZIP_SOURCE_CLOSE = ((0, No_data), ctx)"
| "read_data_cb mem junk ctx ZIP_SOURCE_COMMIT_WRITE =
     (case rd_out ctx of
        None \<Rightarrow> rd_faulted ctx
      | Some b \<Rightarrow>
          ((0, No_data), ctx\<lparr>rd_freed := rd_freed ctx @ buffer_free (Some (rd_in ctx)),
             rd_in := buffer_unshare (Some (rd_in ctx)) b, rd_out := None\<rparr>))"
| "read_data_cb mem junk ctx ZIP_SOURCE_ERROR =
     ((8, Error_data (zip_err (rd_error ctx)) (sys_err (rd_error ctx))), ctx)"
| "read_data_cb mem junk ctx ZIP_SOURCE_FREE =
     ((0, No_data), ctx\<lparr>rd_freed := rd_freed ctx @ buffer_free (Some (rd_in ctx)) @
        buffer_free (map_option (buffer_unshare (Some (rd_in ctx))) (rd_out ctx))\<rparr>)"
| "read_data_cb mem junk ctx ZIP_SOURCE_OPEN =
     ((0, No_data), ctx\<lparr>rd_in := (rd_in ctx)\<lparr>bu_offset := 0, bu_current_fragment := 0\<rparr>\<rparr>)"
| "read_data_cb mem junk ctx (ZIP_SOURCE_READ len) =
     (if len > ZIP_INT64_MAX then rd_fail ctx ZIP_ER_INVAL 0
      else case buffer_read (rd_heap ctx) (rd_in ctx) len of
             None \<Rightarrow> rd_faulted ctx
           | Some (n, d, b) \<Rightarrow> ((n, Read_data d), ctx\<lparr>rd_in := b\<rparr>))"
| "read_data_cb mem junk ctx ZIP_SOURCE_REMOVE =
     (case buffer_new mem junk [] False (rd_error ctx) of
        (None, e) \<Rightarrow> ((-1, No_data), ctx\<lparr>rd_error := e\<rparr>)
      | (Some b, e) \<Rightarrow>
          ((0, No_data), ctx\<lparr>rd_freed := rd_freed ctx @ buffer_free (Some (rd_in ctx)),
             rd_out := map_option (buffer_unshare (Some (rd_in ctx))) (rd_out ctx),
             rd_in := b, rd_error := e\<rparr>))"
| "read_data_cb mem junk ctx ZIP_SOURCE_ROLLBACK_WRITE =
     ((0, No_data), ctx\<lparr>rd_freed := rd_freed ctx @ buffer_free (rd_out ctx),
        rd_in := buffer_unshare (rd_out ctx) (rd_in ctx), rd_out := None\<rparr>)"
| "read_data_cb mem junk ctx (ZIP_SOURCE_SEEK off wh) =
     (case buffer_seek (rd_in ctx) off wh (rd_error ctx) of
        None \<Rightarrow> rd_faulted ctx
      | Some (r, b, e) \<Rightarrow> ((r, No_data), ctx\<lparr>rd_in := b, rd_error := e\<rparr>))"
| "read_data_cb mem junk ctx (ZIP_SOURCE_SEEK_WRITE off wh) =
     (case rd_out ctx of
        None \<Rightarrow> rd_faulted ctx
      | Some b0 \<Rightarrow>
          (case buffer_seek b0 off wh (rd_error ctx) of
             None \<Rightarrow> rd_faulted ctx
           | Some (r, b, e) \<Rightarrow> ((r, No_data), ctx\<lparr>rd_out := Some b, rd_error := e\<rparr>)))"
| "read_data_cb mem junk ctx (ZIP_SOURCE_STAT st) =
     ((1, Stat_data ((zip_stat_init st)\<lparr>st_mtime := rd_mtime ctx, st_size := bu_size (rd_in ctx),
        st_comp_size := bu_size (rd_in ctx), st_comp_method := 0, st_encryption_method := 0,
        st_valid := ZIP_STAT_MTIME OR ZIP_STAT_SIZE OR ZIP_STAT_COMP_SIZE OR ZIP_STAT_COMP_METHOD OR
          ZIP_STAT_ENCRYPTION_METHOD\<rparr>)), ctx)"
| "read_data_cb mem junk ctx ZIP_SOURCE_SUPPORTS = ((0x2bfff, No_data), ctx)"
| "read_data_cb mem junk ctx ZIP_SOURCE_TELL =
     (if bu_offset (rd_in ctx) > ZIP_INT64_MAX then rd_fail ctx ZIP_ER_TELL EOVERFLOW
      else ((uint (bu_offset (rd_in ctx)), No_data), ctx))"
| "read_data_cb mem junk ctx ZIP_SOURCE_TELL_WRITE =
     (case rd_out ctx of
        None \<Rightarrow> rd_faulted ctx
      | Some b \<Rightarrow>
          if bu_offset b > ZIP_INT64_MAX then rd_fail ctx ZIP_ER_TELL EOVERFLOW
          else ((uint (bu_offset b), No_data), ctx))"
| "read_data_cb mem junk ctx (ZIP_SOURCE_WRITE data) =
     (if int (length data) > uint ZIP_INT64_MAX then rd_fail ctx ZIP_ER_INVAL 0
      else case rd_out ctx of
        None \<Rightarrow> rd_faulted ctx
      | Some b0 \<Rightarrow>
          (case buffer_write mem junk (rd_heap ctx) b0 data (rd_error ctx) of
             None \<Rightarrow> rd_faulted ctx
           | Some (n, heap, b, e) \<Rightarrow>
               ((n, No_data), ctx\<lparr>rd_heap := heap, rd_out := Some b, rd_error := e\<rparr>)))"
| "read_data_cb mem junk ctx ZIP_SOURCE_GET_COMPRESSION_FLAGS = rd_fail ctx ZIP_ER_OPNOTSUPP 0"

section \<open>Creating\<close>

text \<open>The caller's fragments: the data behind each pointer and its length. Their blocks form
  the initial heap. A null fragment array is \<open>None\<close>; \<open>nfragments\<close> is otherwise the length of
  the array. \<open>now\<close> is \<open>time(NULL)\<close>.\<close>

definition frag_args :: "(bytes option \<times> u64) list \<Rightarrow> (nat option \<times> u64) list" where
  "frag_args fs = map (\<lambda>(i, d, len). (map_option (\<lambda>_. i) d, len)) (zip [0..<length fs] fs)"

definition frag_heap :: "(bytes option \<times> u64) list \<Rightarrow> bytes list" where
  "frag_heap fs = map (\<lambda>(d, len). case d of None \<Rightarrow> [] | Some bs \<Rightarrow> bs) fs"

definition zip_source_buffer_fragment_create ::
  "malloc \<Rightarrow> u64 \<Rightarrow> int \<Rightarrow> (bytes option \<times> u64) list option \<Rightarrow> u64 \<Rightarrow> bool \<Rightarrow> zip_error \<Rightarrow>
   read_data zip_source option \<times> zip_error" where
  "zip_source_buffer_fragment_create mem junk now fragments nfragments freep err =
     (if fragments = None \<and> nfragments > 0 then (None, zip_error_set err ZIP_ER_INVAL 0)
      else case buffer_new mem junk (frag_args (case fragments of None \<Rightarrow> [] | Some fs \<Rightarrow> fs)) freep err of
        (None, e) \<Rightarrow> (None, e)
      | (Some b, e) \<Rightarrow>
          if \<not> mem A_source_ctx then (None, zip_error_set e ZIP_ER_MEMORY 0)
          else zip_source_function_create mem (read_data_cb mem junk)
                 \<lparr>rd_error = zip_error_init, rd_mtime = now, rd_in = b, rd_out = None,
                  rd_heap = frag_heap (case fragments of None \<Rightarrow> [] | Some fs \<Rightarrow> fs),
                  rd_freed = [], rd_fault = False\<rparr> e)"

definition zip_source_buffer_create ::
  "malloc \<Rightarrow> u64 \<Rightarrow> int \<Rightarrow> bytes option \<Rightarrow> u64 \<Rightarrow> bool \<Rightarrow> zip_error \<Rightarrow>
   read_data zip_source option \<times> zip_error" where
  "zip_source_buffer_create mem junk now data len freep err =
     (if data = None \<and> len > 0 then (None, zip_error_set err ZIP_ER_INVAL 0)
      else zip_source_buffer_fragment_create mem junk now (Some [(data, len)]) 1 freep err)"

definition zip_source_buffer ::
  "malloc \<Rightarrow> u64 \<Rightarrow> int \<Rightarrow> zip_error option \<Rightarrow> bytes option \<Rightarrow> u64 \<Rightarrow> bool \<Rightarrow>
   read_data zip_source option \<times> zip_error option" where
  "zip_source_buffer mem junk now za_error data len freep =
     (case za_error of
        None \<Rightarrow> (None, None)
      | Some e \<Rightarrow> (case zip_source_buffer_create mem junk now data len freep e of
                     (zs, e') \<Rightarrow> (zs, Some e')))"

definition zip_source_buffer_fragment ::
  "malloc \<Rightarrow> u64 \<Rightarrow> int \<Rightarrow> zip_error option \<Rightarrow> (bytes option \<times> u64) list option \<Rightarrow> u64 \<Rightarrow> bool \<Rightarrow>
   read_data zip_source option \<times> zip_error option" where
  "zip_source_buffer_fragment mem junk now za_error fragments nfragments freep =
     (case za_error of
        None \<Rightarrow> (None, None)
      | Some e \<Rightarrow> (case zip_source_buffer_fragment_create mem junk now fragments nfragments freep e of
                     (zs, e') \<Rightarrow> (zs, Some e')))"

section \<open>The buffer as a byte stream\<close>

declare buffer_read_loop.simps [simp del] buffer_write_loop.simps [simp del]
  find_fragment_loop.simps [simp del] grow_capacity.simps [simp del]

definition frag_bytes :: "bytes list \<Rightarrow> fragment \<Rightarrow> bytes" where
  "frag_bytes heap f = take (unat (frag_length f)) (heap ! frag_data f)"

definition frag_stream :: "bytes list \<Rightarrow> fragment list \<Rightarrow> bytes" where
  "frag_stream heap frs = concat (map (frag_bytes heap) frs)"

definition frag_start :: "fragment list \<Rightarrow> nat \<Rightarrow> nat" where
  "frag_start frs i = sum_list (map (\<lambda>f. unat (frag_length f)) (take i frs))"

definition frags_ok :: "bytes list \<Rightarrow> fragment list \<Rightarrow> bool" where
  "frags_ok heap frs \<longleftrightarrow> (\<forall>f \<in> set frs. frag_data f < length heap \<and>
     unat (frag_length f) \<le> length (heap ! frag_data f))"

definition at_pos :: "fragment list \<Rightarrow> nat \<Rightarrow> nat \<Rightarrow> bool" where
  "at_pos frs j p \<longleftrightarrow> j \<le> length frs \<and> frag_start frs j \<le> p \<and>
     (if j < length frs then p \<le> frag_start frs (Suc j) else p = frag_start frs j)"

definition wf_buffer :: "bytes list \<Rightarrow> buffer \<Rightarrow> bool" where
  "wf_buffer heap b \<longleftrightarrow> frags_ok heap (bu_fragments b) \<and>
     bu_nfragments b < length (bu_fragment_offsets b) \<and>
     (\<forall>i \<le> bu_nfragments b. unat (bu_fragment_offsets b ! i) = frag_start (bu_fragments b) i) \<and>
     unat (bu_size b) \<le> frag_start (bu_fragments b) (bu_nfragments b) \<and>
     bu_offset b \<le> bu_size b \<and>
     at_pos (bu_fragments b) (bu_current_fragment b) (unat (bu_offset b))"

definition buffer_content :: "bytes list \<Rightarrow> buffer \<Rightarrow> bytes" where
  "buffer_content heap b = take (unat (bu_size b)) (frag_stream heap (bu_fragments b))"

definition buffer_rest :: "bytes list \<Rightarrow> buffer \<Rightarrow> bytes" where
  "buffer_rest heap b = drop (unat (bu_offset b)) (buffer_content heap b)"

lemma arr_Some [simp]: "i < length xs \<Longrightarrow> arr xs i = Some (xs ! i)"
  by (simp add: arr_def)

lemma frag_start_Suc:
  "i < length frs \<Longrightarrow> frag_start frs (Suc i) = frag_start frs i + unat (frag_length (frs ! i))"
  by (simp add: frag_start_def take_Suc_conv_app_nth)

lemma frag_start_0 [simp]: "frag_start frs 0 = 0"
  by (simp add: frag_start_def)

lemma frags_ok_nth:
  "frags_ok heap frs \<Longrightarrow> i < length frs \<Longrightarrow> frag_data (frs ! i) < length heap"
  "frags_ok heap frs \<Longrightarrow> i < length frs \<Longrightarrow>
     unat (frag_length (frs ! i)) \<le> length (heap ! frag_data (frs ! i))"
  by (simp_all add: frags_ok_def)

lemma frag_stream_Nil [simp]: "frag_stream heap [] = []"
  by (simp add: frag_stream_def)

lemma frag_stream_Cons: "frag_stream heap (f # fs) = frag_bytes heap f @ frag_stream heap fs"
  by (simp add: frag_stream_def)

lemma frag_stream_append: "frag_stream heap (fs @ gs) = frag_stream heap fs @ frag_stream heap gs"
  by (simp add: frag_stream_def)

lemma frag_start_Cons: "frag_start (f # fs) (Suc i) = unat (frag_length f) + frag_start fs i"
  by (simp add: frag_start_def)

lemma frag_stream_split:
  "frags_ok heap frs \<Longrightarrow> i \<le> length frs \<Longrightarrow>
   frag_stream heap (drop i frs) = drop (frag_start frs i) (frag_stream heap frs) \<and>
   length (frag_stream heap (take i frs)) = frag_start frs i"
proof (induction frs arbitrary: i)
  case (Cons f frs)
  have "length (frag_bytes heap f) = unat (frag_length f)" "frags_ok heap frs"
    using Cons.prems(1) by (auto simp: frags_ok_def frag_bytes_def)
  then show ?case
    using Cons.IH [of "i - 1"] Cons.prems(2)
    by (cases i) (simp_all add: frag_stream_Cons frag_start_Cons)
qed (simp add: frag_stream_def frag_start_def)

lemma frag_stream_length:
  "frags_ok heap frs \<Longrightarrow> length (frag_stream heap frs) = frag_start frs (length frs)"
  using frag_stream_split [of heap frs "length frs"] by simp

lemma frag_stream_nth:
  "i < length frs \<Longrightarrow>
   frag_stream heap (drop i frs) = frag_bytes heap (frs ! i) @ frag_stream heap (drop (Suc i) frs)"
  by (simp add: frag_stream_Cons flip: Cons_nth_drop_Suc)

section \<open>Reading delivers the stream\<close>

lemma buffer_read_loop_stream:
  assumes "frags_ok heap frs"
  shows "i \<le> length frs \<Longrightarrow> (if i < length frs then fo \<le> unat (frag_length (frs ! i)) else fo = 0) \<Longrightarrow>
    rem + fo \<le> length (frag_stream heap (drop i frs)) \<Longrightarrow>
    \<exists>j. buffer_read_loop heap frs i fo rem =
        Some (take rem (drop fo (frag_stream heap (drop i frs))), j) \<and>
      at_pos frs j (frag_start frs i + fo + rem)"
proof (induction "rem + (length frs - i)" arbitrary: i fo rem rule: less_induct)
  case less
  show ?case
  proof (cases "rem = 0")
    case True
    then show ?thesis
      using less.prems by (subst buffer_read_loop.simps)
        (auto simp: at_pos_def frag_start_Suc split: if_splits)
  next
    case False
    have i: "i < length frs"
      using less.prems(1,3) False by (cases "i = length frs") (auto simp: frag_stream_def)
    let ?f = "frs ! i" and ?here = "unat (frag_length (frs ! i)) - fo"
    have fb: "frag_stream heap (drop i frs) = frag_bytes heap ?f @ frag_stream heap (drop (Suc i) frs)"
      using frag_stream_nth [OF i] .
    have lb: "length (frag_bytes heap ?f) = unat (frag_length ?f)"
      using frags_ok_nth(2) [OF assms i] by (simp add: frag_bytes_def)
    have fo: "fo \<le> unat (frag_length ?f)" using less.prems(2) i by simp
    have d: "frag_data ?f < length heap" "unat (frag_length ?f) \<le> length (heap ! frag_data ?f)"
      using frags_ok_nth [OF assms i] .
    have copy: "take n (drop fo (heap ! frag_data ?f)) = take n (drop fo (frag_bytes heap ?f))"
      if "n \<le> ?here" for n
      using that fo by (simp add: frag_bytes_def drop_take min_def)
    show ?thesis
    proof (cases "rem < ?here")
      case True
      have "at_pos frs i (frag_start frs i + fo + rem)"
        using i True by (auto simp: at_pos_def frag_start_Suc)
      then show ?thesis
        using False True i d copy [of rem] fb lb
        by (subst buffer_read_loop.simps)
          (auto simp: Let_def min_def buffer_read_loop.simps [of heap frs i 0 0])
    next
      case ge: False
      have "rem - ?here + (length frs - Suc i) < rem + (length frs - i)" using i by linarith
      moreover have "rem - ?here + 0 \<le> length (frag_stream heap (drop (Suc i) frs))"
        using less.prems(3) fb lb ge by simp
      ultimately have "\<exists>j. buffer_read_loop heap frs (Suc i) 0 (rem - ?here) =
          Some (take (rem - ?here) (drop 0 (frag_stream heap (drop (Suc i) frs))), j) \<and>
          at_pos frs j (frag_start frs (Suc i) + 0 + (rem - ?here))"
        using i by (intro less.hyps) simp_all
      then obtain j where j: "buffer_read_loop heap frs (Suc i) 0 (rem - ?here) =
          Some (take (rem - ?here) (frag_stream heap (drop (Suc i) frs)), j)"
        "at_pos frs j (frag_start frs (Suc i) + (rem - ?here))" by auto
      have "frag_start frs (Suc i) + (rem - ?here) = frag_start frs i + fo + rem"
        using frag_start_Suc [OF i] fo ge by simp
      then show ?thesis
        using False ge i d copy [of ?here] fb lb j fo
        by (subst buffer_read_loop.simps) (auto simp: Let_def min_def)
    qed
  qed
qed

lemma wf_buffer_sizes:
  assumes "wf_buffer heap b"
  shows "length (buffer_content heap b) = unat (bu_size b)"
    and "unat (bu_offset b) \<le> unat (bu_size b)"
    and "length (buffer_rest heap b) = unat (bu_size b - bu_offset b)"
proof -
  show c: "length (buffer_content heap b) = unat (bu_size b)"
    using assms frag_stream_length by (simp add: wf_buffer_def buffer_content_def)
  show "unat (bu_offset b) \<le> unat (bu_size b)"
    using assms by (simp add: wf_buffer_def word_le_nat_alt)
  show "length (buffer_rest heap b) = unat (bu_size b - bu_offset b)"
    using assms c by (simp add: wf_buffer_def buffer_rest_def unat_sub)
qed

text \<open>The offset inside the current fragment, and what lies after it.\<close>

lemma wf_buffer_current:
  assumes "wf_buffer heap b"
  defines "i \<equiv> bu_current_fragment b"
  shows "arr (bu_fragment_offsets b) i = Some (bu_fragment_offsets b ! i)"
    and "frag_start (bu_fragments b) i + unat (bu_offset b - bu_fragment_offsets b ! i) = unat (bu_offset b)"
    and "if i < bu_nfragments b
         then unat (bu_offset b - bu_fragment_offsets b ! i) \<le> unat (frag_length (bu_fragments b ! i))
         else unat (bu_offset b - bu_fragment_offsets b ! i) = 0"
    and "i \<le> bu_nfragments b"
    and "drop (unat (bu_offset b - bu_fragment_offsets b ! i)) (frag_stream heap (drop i (bu_fragments b))) =
         drop (unat (bu_offset b)) (frag_stream heap (bu_fragments b))"
proof -
  have pos: "at_pos (bu_fragments b) i (unat (bu_offset b))" and i: "i \<le> bu_nfragments b"
    and offs: "unat (bu_fragment_offsets b ! i) = frag_start (bu_fragments b) i"
    and len: "bu_nfragments b < length (bu_fragment_offsets b)"
    and fr: "frags_ok heap (bu_fragments b)"
    using assms(1) by (auto simp: wf_buffer_def at_pos_def i_def)
  show "i \<le> bu_nfragments b" by (rule i)
  show "arr (bu_fragment_offsets b) i = Some (bu_fragment_offsets b ! i)"
    using i len by simp
  have "bu_fragment_offsets b ! i \<le> bu_offset b"
    using pos offs by (simp add: at_pos_def word_le_nat_alt)
  then have d: "unat (bu_offset b - bu_fragment_offsets b ! i) =
      unat (bu_offset b) - frag_start (bu_fragments b) i"
    using offs by (simp add: unat_sub)
  show sum: "frag_start (bu_fragments b) i + unat (bu_offset b - bu_fragment_offsets b ! i) =
      unat (bu_offset b)"
    using d pos by (simp add: at_pos_def)
  show "if i < bu_nfragments b
        then unat (bu_offset b - bu_fragment_offsets b ! i) \<le> unat (frag_length (bu_fragments b ! i))
        else unat (bu_offset b - bu_fragment_offsets b ! i) = 0"
    using d pos by (auto simp: at_pos_def frag_start_Suc split: if_splits)
  show "drop (unat (bu_offset b - bu_fragment_offsets b ! i)) (frag_stream heap (drop i (bu_fragments b))) =
      drop (unat (bu_offset b)) (frag_stream heap (bu_fragments b))"
    using frag_stream_split [OF fr i] sum by simp (metis add.commute)
qed

lemma buffer_read_eq:
  assumes "wf_buffer heap b" "len0 \<le> ZIP_INT64_MAX"
  shows "\<exists>b'. buffer_read heap b len0 =
      Some (int (length (take (unat len0) (buffer_rest heap b))), take (unat len0) (buffer_rest heap b), b') \<and>
    wf_buffer heap b' \<and> buffer_rest heap b' = drop (unat len0) (buffer_rest heap b) \<and>
    buffer_content heap b' = buffer_content heap b"
proof -
  define len where "len = (if len0 < bu_size b - bu_offset b then len0 else bu_size b - bu_offset b)"
  note sz = wf_buffer_sizes [OF assms(1)] and cur = wf_buffer_current [OF assms(1)]
  have ulen: "unat len = min (unat len0) (length (buffer_rest heap b))"
    unfolding len_def sz(3) by (auto simp: word_less_nat_alt min_def)
  have len63: "len \<le> ZIP_INT64_MAX"
    using assms(2) ulen by (simp add: word_le_nat_alt)
  show ?thesis
  proof (cases "len = 0")
    case True
    then have "unat len0 = 0 \<or> buffer_rest heap b = []"
      using ulen by (auto simp: min_def split: if_splits)
    then show ?thesis
      using True assms(1) by (auto simp: buffer_read_def len_def [symmetric] Let_def)
  next
    case False
    let ?i = "bu_current_fragment b" and ?frs = "bu_fragments b"
    let ?fo = "unat (bu_offset b - bu_fragment_offsets b ! ?i)"
    have fr: "frags_ok heap ?frs" using assms(1) by (simp add: wf_buffer_def)
    have cont: "buffer_rest heap b = take (unat (bu_size b) - unat (bu_offset b))
        (drop ?fo (frag_stream heap (drop ?i ?frs)))"
      unfolding cur(5) by (simp add: buffer_rest_def buffer_content_def drop_take)
    have room: "unat len + ?fo \<le> length (frag_stream heap (drop ?i ?frs))"
    proof -
      have "0 < unat len" using False by (simp add: word_neq_0_conv word_less_nat_alt)
      moreover have "unat len \<le> length (drop ?fo (frag_stream heap (drop ?i ?frs)))"
        using ulen cont by (simp add: min_le_iff_disj)
      ultimately show ?thesis by simp
    qed
    obtain j where j: "buffer_read_loop heap ?frs ?i ?fo (unat len) =
          Some (take (unat len) (drop ?fo (frag_stream heap (drop ?i ?frs))), j)"
        "at_pos ?frs j (frag_start ?frs ?i + ?fo + unat len)"
      using buffer_read_loop_stream [OF fr cur(4,3) room] by blast
    let ?b' = "b\<lparr>bu_offset := bu_offset b + len, bu_current_fragment := j\<rparr>"
    have off': "unat (bu_offset b + len) = unat (bu_offset b) + unat len"
      using ulen sz unat_bounds(4) [of "bu_size b"] wf_buffer_sizes(3) [OF assms(1)]
      by (subst unat_add_lem [THEN iffD1]) (auto simp: buffer_rest_def)
    have bytes: "take (unat len) (drop ?fo (frag_stream heap (drop ?i ?frs))) =
        take (unat len0) (buffer_rest heap b)"
    proof -
      have "unat len = min (unat len0) (unat (bu_size b) - unat (bu_offset b))"
        using ulen sz(1) by (simp add: buffer_rest_def)
      then show ?thesis unfolding cont by simp
    qed
    have "wf_buffer heap ?b'"
      using assms(1) j(2) off' cur(2) ulen sz
      by (simp add: wf_buffer_def word_le_nat_alt buffer_rest_def)
    moreover have "buffer_rest heap ?b' = drop (unat len0) (buffer_rest heap b)"
      using off' ulen by (simp add: buffer_rest_def buffer_content_def min_def add.commute)
    moreover have "buffer_content heap ?b' = buffer_content heap b"
      by (simp add: buffer_content_def)
    ultimately show ?thesis
      using False len63 j(1) cur(1) bytes ulen
      by (simp add: buffer_read_def len_def [symmetric] Let_def min_def)
  qed
qed

text \<open>The buffer source honours the contract of a readable source.\<close>

definition rd_good :: "read_data \<Rightarrow> bool" where
  "rd_good ctx \<longleftrightarrow> wf_buffer (rd_heap ctx) (rd_in ctx) \<and> \<not> rd_fault ctx"

definition rd_rest :: "read_data \<Rightarrow> bytes" where
  "rd_rest ctx = buffer_rest (rd_heap ctx) (rd_in ctx)"

interpretation buf_src: byte_source "read_data_cb mem junk" rd_good rd_rest for mem junk
proof unfold_locales
  fix s n assume s: "rd_good s" and n: "n \<le> ZIP_INT64_MAX"
  let ?d = "take (unat n) (rd_rest s)"
  obtain b' where b': "buffer_read (rd_heap s) (rd_in s) n = Some (int (length ?d), ?d, b')"
    "wf_buffer (rd_heap s) b'" "buffer_rest (rd_heap s) b' = drop (unat n) (rd_rest s)"
    using buffer_read_eq [of "rd_heap s" "rd_in s" n] s n by (auto simp: rd_good_def rd_rest_def)
  have "read_data_cb mem junk s (ZIP_SOURCE_READ n) =
      ((int (length ?d), Read_data ?d), s\<lparr>rd_in := b'\<rparr>)"
    using b'(1) n by (simp add: not_less [THEN iffD2])
  moreover have "rd_good (s\<lparr>rd_in := b'\<rparr>)" "rd_rest s = ?d @ rd_rest (s\<lparr>rd_in := b'\<rparr>)"
    using b' s by (simp_all add: rd_good_def rd_rest_def)
  moreover have "?d = [] \<longrightarrow> n = 0 \<or> rd_rest s = []" by (auto simp: unat_eq_0)
  ultimately show "\<exists>d s'. read_data_cb mem junk s (ZIP_SOURCE_READ n) =
      ((int (length d), Read_data d), s') \<and> rd_good s' \<and> rd_rest s = d @ rd_rest s' \<and>
      length d \<le> unat n \<and> (d = [] \<longrightarrow> n = 0 \<or> rd_rest s = [])"
    by (intro exI [of _ ?d] exI [of _ "s\<lparr>rd_in := b'\<rparr>"]) auto
qed

section \<open>Finding the fragment of an offset\<close>

lemma frag_start_mono: "i \<le> j \<Longrightarrow> frag_start frs i \<le> frag_start frs j"
proof (induction j)
  case (Suc j)
  then show ?case
    by (cases "j < length frs") (auto simp: frag_start_Suc le_Suc_eq, simp_all add: frag_start_def)
qed simp

lemma find_fragment_loop_at:
  "frag_offs = (\<lambda>i. unat (offs ! i)) \<Longrightarrow> nf < length offs \<Longrightarrow>
   frag_offs low \<le> unat offset \<Longrightarrow> unat offset \<le> frag_offs (Suc high) \<Longrightarrow>
   low \<le> high \<Longrightarrow> high < nf \<Longrightarrow> frag_offs 0 = 0 \<Longrightarrow>
   \<exists>j. find_fragment_loop offs nf offset low high = Some j \<and> j < nf \<and>
     frag_offs j \<le> unat offset \<and> unat offset \<le> frag_offs (Suc j)"
proof (induction offs nf offset low high rule: find_fragment_loop.induct)
  case (1 offs nf offset low high)
  show ?case
  proof (cases "low < high")
    case False
    then show ?thesis using 1 by (subst find_fragment_loop.simps) auto
  next
    case True
    define mid where "mid = (high - low) div 2 + low"
    have mid: "low \<le> mid" "mid < high" using True by (auto simp: mid_def)
    show ?thesis
    proof (cases "offset < offs ! mid")
      case gt: True
      then have "frag_offs mid > unat offset" using "1.prems"(1) by (simp add: word_less_nat_alt)
      then have "mid \<noteq> 0" "mid \<noteq> low"
        using "1.prems"(3,7) by (metis not_less0, metis not_less)
      with gt mid have prem: "low \<le> mid - 1" "mid - 1 < nf" "unat offset \<le> frag_offs (Suc (mid - 1))"
        using "1.prems"(1,6) by (auto simp: word_less_nat_alt)
      have arr: "arr offs mid = Some (offs ! mid)" using mid "1.prems"(2,6) by simp
      show ?thesis
        using "1.IH"(1) [OF True mid_def arr gt \<open>mid \<noteq> 0\<close> "1.prems"(1,2,3) prem(3,1,2) "1.prems"(7)]
          True gt arr \<open>mid \<noteq> 0\<close>
        by (subst find_fragment_loop.simps) (simp add: Let_def flip: mid_def)
    next
      case le: False
      have arr: "arr offs mid = Some (offs ! mid)" "arr offs (mid + 1) = Some (offs ! (mid + 1))"
        "mid \<noteq> nf"
        using mid "1.prems"(2,6) by simp_all
      show ?thesis
      proof (cases "offset < offs ! (mid + 1)")
        case stop: True
        then show ?thesis
          using True le arr mid "1.prems"(1,6)
          by (subst find_fragment_loop.simps) (auto simp: Let_def word_less_nat_alt simp flip: mid_def)
      next
        case go: False
        then have prem: "frag_offs (mid + 1) \<le> unat offset" "mid + 1 \<le> high"
          using "1.prems"(1) mid by (simp_all add: word_less_nat_alt)
        show ?thesis
          using "1.IH"(2) [OF True mid_def arr(1) le arr(3,2) go "1.prems"(1,2) prem(1) "1.prems"(4) prem(2) "1.prems"(6,7)]
            True le go arr
          by (subst find_fragment_loop.simps) (simp add: Let_def flip: mid_def)
      qed
    qed
  qed
qed

lemma buffer_find_fragment_at:
  assumes "wf_buffer heap b" "bu_fragments b \<noteq> []"
    and "unat offset \<le> frag_start (bu_fragments b) (bu_nfragments b)"
  shows "\<exists>j. buffer_find_fragment b offset = Some j \<and> at_pos (bu_fragments b) j (unat offset)"
proof -
  let ?n = "bu_nfragments b"
  have offs: "?n < length (bu_fragment_offsets b)"
    "i \<le> ?n \<Longrightarrow> unat (bu_fragment_offsets b ! i) = frag_start (bu_fragments b) i" for i
    using assms(1) by (auto simp: wf_buffer_def)
  have n: "Suc (?n - 1) = ?n" using assms(2) by (cases "bu_fragments b") auto
  obtain j where j: "find_fragment_loop (bu_fragment_offsets b) ?n offset 0 (?n - 1) = Some j"
    "j < ?n" "unat (bu_fragment_offsets b ! j) \<le> unat offset"
    "unat offset \<le> unat (bu_fragment_offsets b ! Suc j)"
    using find_fragment_loop_at [OF refl offs(1), of 0 offset "?n - 1"] offs(2) assms(2,3) n by auto
  then show ?thesis
    using assms(2) offs(2) by (auto simp: buffer_find_fragment_def at_pos_def)
qed

text \<open>Seeking in a buffer with at least one fragment.\<close>

lemma buffer_seek_at:
  assumes "wf_buffer heap b" "bu_fragments b \<noteq> []"
    and "zip_source_seek_compute_offset (bu_offset b) (bu_size b) arg wh err = (off, err')" "0 \<le> off"
  shows "\<exists>b'. buffer_seek b arg wh err = Some (0, b', err') \<and> wf_buffer heap b' \<and>
    uint (bu_offset b') = off \<and> off \<le> uint (bu_size b) \<and> buffer_content heap b' = buffer_content heap b \<and>
    bu_fragments b' = bu_fragments b"
proof -
  have off: "off \<le> uint (bu_size b)"
    using assms(3,4)
    by (auto simp: zip_source_seek_compute_offset_def Let_def split: whence.splits if_splits)
  then have u: "uint (of_int off :: u64) = off"
    using assms(4) uint_bounded [of "bu_size b"] by (simp add: uint_word_of_int)
  then have nat: "unat (of_int off :: u64) \<le> unat (bu_size b)"
    using off by (metis nat_mono unat_eq_nat_uint)
  have "unat (bu_size b) \<le> frag_start (bu_fragments b) (bu_nfragments b)"
    using assms(1) by (simp add: wf_buffer_def)
  then obtain j where j: "buffer_find_fragment b (of_int off) = Some j"
    "at_pos (bu_fragments b) j (unat (of_int off :: u64))"
    using buffer_find_fragment_at [OF assms(1,2), of "of_int off"] nat by fastforce
  have "buffer_find_fragment (b\<lparr>bu_offset := of_int off\<rparr>) (of_int off) = Some j"
    using j(1) by (simp add: buffer_find_fragment_def split: if_splits)
  then show ?thesis
    using assms(1,3,4) j(2) u off nat
    by (simp add: buffer_seek_def wf_buffer_def word_le_nat_alt buffer_content_def)
qed

end
