(* ===== verification/Zip_Source_Buffer_File.thy ===== *)
theory Zip_Source_Buffer_File
  imports Zip_Source_Buffer
begin

text \<open>
  The memory buffer source as a file. The abstract file is its bytes and a position; the lemmas
  show that creating, writing and seeking in a buffer source act on its fragments exactly as they
  act on the abstract file, and that what is written before a commit is what is read after it.
\<close>

section \<open>Fresh buffers\<close>

text \<open>A caller's fragment that carries as many bytes as it says, and at least one.\<close>

definition frag_arg_ok :: "bytes option \<times> u64 \<Rightarrow> bool" where
  "frag_arg_ok fa = (case fa of (None, _) \<Rightarrow> False
     | (Some bs, len) \<Rightarrow> length bs = unat len \<and> len \<noteq> 0)"

lemma frag_start_append:
  "i \<le> length frs \<Longrightarrow> frag_start (frs @ gs) i = frag_start frs i"
  by (simp add: frag_start_def)

lemma frag_start_snoc:
  "frag_start (frs @ [f]) (Suc (length frs)) = frag_start frs (length frs) + unat (frag_length f)"
  by (simp add: frag_start_def)

lemma buffer_new_loop_offsets:
  "\<forall>(d, len) \<in> set fs. d \<noteq> None \<and> len \<noteq> 0 \<Longrightarrow> length frs = i \<Longrightarrow>
   i + length fs \<le> length offs \<Longrightarrow> unat offset = frag_start frs i \<Longrightarrow>
   \<forall>k<i. unat (offs ! k) = frag_start frs k \<Longrightarrow>
   unat offset + sum_list (map (\<lambda>(d, len). unat len) fs) < 2 ^ 64 \<Longrightarrow>
   \<exists>offs' o'. buffer_new_loop fs i frs offs offset =
       Some (frs @ map (\<lambda>(d, len). \<lparr>frag_data = the d, frag_length = len\<rparr>) fs, offs', o') \<and>
     length offs' = length offs \<and>
     (let frs' = frs @ map (\<lambda>(d, len). \<lparr>frag_data = the d, frag_length = len\<rparr>) fs
      in unat o' = frag_start frs' (length frs') \<and>
         (\<forall>k<length frs'. unat (offs' ! k) = frag_start frs' k))"
proof (induction fs arbitrary: i frs offs offset)
  case Nil
  then show ?case by simp
next
  case (Cons a fs)
  obtain blk len where a: "a = (Some blk, len)" "len \<noteq> 0"
    using Cons.prems(1) by (cases a) auto
  let ?f = "\<lparr>frag_data = blk, frag_length = len\<rparr>"
  have o: "unat (offset + len) = unat offset + unat len"
    using Cons.prems(6) a by (simp add: unat_word_ariths)
  have st: "frag_start (frs @ [?f]) (Suc i) = frag_start frs i + unat len"
    using frag_start_snoc [of frs ?f] Cons.prems(2) by simp
  have k: "\<forall>k<Suc i. unat (offs[i := offset] ! k) = frag_start (frs @ [?f]) k"
    using Cons.prems(2-5) by (auto simp: less_Suc_eq nth_list_update frag_start_append)
  show ?case
    using Cons.IH [of "frs @ [?f]" "Suc i" "offs[i := offset]" "offset + len"] Cons.prems a o st k
    by simp
qed

lemma frag_args_ok:
  "list_all frag_arg_ok fs \<Longrightarrow> \<forall>(d, len) \<in> set (frag_args fs). d \<noteq> None \<and> len \<noteq> 0"
  by (fastforce simp: frag_args_def list_all_iff frag_arg_ok_def dest: set_zip_rightD split: option.splits)

lemma frag_args_fragments:
  assumes "list_all frag_arg_ok fs"
  defines "frs \<equiv> map (\<lambda>(d, len). \<lparr>frag_data = the d, frag_length = len\<rparr>) (frag_args fs)"
  shows "frs = map (\<lambda>i. \<lparr>frag_data = i, frag_length = snd (fs ! i)\<rparr>) [0..<length fs]"
    and "frags_ok (frag_heap fs) frs" and "distinct (map frag_data frs)"
    and "frag_stream (frag_heap fs) frs = concat (map (the \<circ> fst) fs)"
    and "sum_list (map (\<lambda>(d, len). unat len) (frag_args fs)) = length (concat (map (the \<circ> fst) fs))"
proof -
  have ok: "fst (fs ! i) = Some (the (fst (fs ! i)))" "length (the (fst (fs ! i))) = unat (snd (fs ! i))"
    if "i < length fs" for i
    using assms(1) that by (cases "fs ! i"; force simp: list_all_length frag_arg_ok_def split: option.splits)+
  have args: "frag_args fs ! i = (Some i, snd (fs ! i))" if "i < length fs" for i
  proof -
    have "frag_args fs ! i = (map_option (\<lambda>_. i) (fst (fs ! i)), snd (fs ! i))"
      using that by (simp add: frag_args_def split: prod.splits)
    then show ?thesis by (subst (asm) ok(1) [OF that]) simp
  qed
  have heap: "frag_heap fs ! i = the (fst (fs ! i))" if "i < length fs" for i
    using ok(1) [OF that] that by (cases "fs ! i"; cases "fst (fs ! i)") (auto simp: frag_heap_def)
  have n: "length (frag_args fs) = length fs" "length (frag_heap fs) = length fs"
    by (simp_all add: frag_args_def frag_heap_def)
  show eq: "frs = map (\<lambda>i. \<lparr>frag_data = i, frag_length = snd (fs ! i)\<rparr>) [0..<length fs]"
    unfolding frs_def by (rule nth_equalityI) (simp_all add: n args)
  show "frags_ok (frag_heap fs) frs"
    unfolding eq frags_ok_def by (auto simp: n heap ok(2))
  show "distinct (map frag_data frs)" unfolding eq by (simp add: comp_def)
  have "map (frag_bytes (frag_heap fs)) frs = map (the \<circ> fst) fs"
    unfolding eq by (rule nth_equalityI) (simp_all add: frag_bytes_def heap ok(2) [symmetric])
  then show "frag_stream (frag_heap fs) frs = concat (map (the \<circ> fst) fs)"
    by (simp add: frag_stream_def)
  have "map (\<lambda>(d, len). unat len) (frag_args fs) = map (length \<circ> (the \<circ> fst)) fs"
    by (rule nth_equalityI) (simp_all add: n args ok(2))
  then show "sum_list (map (\<lambda>(d, len). unat len) (frag_args fs)) = length (concat (map (the \<circ> fst) fs))"
    by (simp add: length_concat)
qed

text \<open>A buffer the constructor accepts holds the concatenation of the caller's fragments.\<close>

lemma buffer_new_fresh:
  assumes "list_all frag_arg_ok fs" "length (concat (map (the \<circ> fst) fs)) < 2 ^ 64"
    and "buffer_new mem junk (frag_args fs) freep err = (Some b, err')"
  shows "wf_buffer (frag_heap fs) b" "buffer_content (frag_heap fs) b = concat (map (the \<circ> fst) fs)"
    "bu_offset b = 0" "bu_nfragments b = length fs" "distinct (map frag_data (bu_fragments b))"
    "length (bu_fragment_offsets b) = bu_fragments_capacity b + 1" "length fs = bu_fragments_capacity b"
proof -
  define frs where "frs = map (\<lambda>(d, len). \<lparr>frag_data = the d, frag_length = len\<rparr>) (frag_args fs)"
  note fr = frag_args_fragments [OF assms(1), folded frs_def]
  have n: "length (frag_args fs) = length fs" "length frs = length fs"
    by (simp_all add: frag_args_def frs_def)
  have st: "frag_start frs (length frs) = length (concat (map (the \<circ> fst) fs))"
    using frag_stream_length [OF fr(2)] fr(4) by simp
  obtain offs' o' where loop: "buffer_new_loop (frag_args fs) 0 [] (replicate (Suc (length fs)) junk) 0 =
      Some (frs, offs', o')" and len: "length offs' = Suc (length fs)"
    and o': "unat o' = frag_start frs (length frs)"
    and offs: "\<forall>k<length frs. unat (offs' ! k) = frag_start frs k"
    using buffer_new_loop_offsets [OF frag_args_ok [OF assms(1)], of "[]" 0 "replicate (Suc (length fs)) junk" 0]
      assms(2) fr(5) n by (auto simp: frs_def Let_def)
  have all: "wf_buffer (frag_heap fs) b \<and> buffer_content (frag_heap fs) b = concat (map (the \<circ> fst) fs) \<and>
     bu_offset b = 0 \<and> bu_nfragments b = length fs \<and> distinct (map frag_data (bu_fragments b)) \<and>
     length (bu_fragment_offsets b) = bu_fragments_capacity b + 1 \<and> length fs = bu_fragments_capacity b"
  proof (cases "fs = []")
    case True
    then have "b = buffer_empty\<lparr>bu_fragment_offsets := [0]\<rparr>"
      using assms(3) by (auto simp: buffer_new_def frag_args_def split: if_splits)
    then show ?thesis
      using True by (simp add: wf_buffer_def buffer_empty_def frags_ok_def buffer_content_def at_pos_def)
  next
    case False
    then have ne: "frag_args fs \<noteq> []" using n by auto
    have grow: "mem A_fragments" "mem A_offsets"
      using assms(3) ne by (auto simp: buffer_new_def buffer_grow_fragments_def buffer_empty_def
          split: if_splits)
    have b: "b = buffer_empty\<lparr>bu_fragments_capacity := length fs, bu_fragments := frs,
        bu_first_owned_fragment := (if freep then 0 else length frs),
        bu_fragment_offsets := offs'[length fs := o'], bu_size := o'\<rparr>"
      using assms(3) ne loop grow n
      by (auto simp: buffer_new_def buffer_grow_fragments_def buffer_empty_def split: if_splits)
    have "at_pos frs 0 0" using False n by (auto simp: at_pos_def)
    moreover have "\<forall>i\<le>length frs. unat (offs'[length fs := o'] ! i) = frag_start frs i"
      using offs o' len n by (auto simp: nth_list_update le_less)
    ultimately show ?thesis
      unfolding b using fr len n o' st frag_stream_length [OF fr(2)]
      by (simp add: wf_buffer_def buffer_content_def buffer_empty_def)
  qed
  show "wf_buffer (frag_heap fs) b" "buffer_content (frag_heap fs) b = concat (map (the \<circ> fst) fs)"
    "bu_offset b = 0" "bu_nfragments b = length fs" "distinct (map frag_data (bu_fragments b))"
    "length (bu_fragment_offsets b) = bu_fragments_capacity b + 1" "length fs = bu_fragments_capacity b"
    using all by simp_all
qed

text \<open>What an open buffer source delivers, and where a seek takes it.\<close>

lemma src_can_buffer [simp]:
  "src_supports src = 0x2bfff \<Longrightarrow> src_can src cmd \<longleftrightarrow>
     cmd \<noteq> ZIP_SOURCE_SUPPORTS \<and> cmd \<noteq> ZIP_SOURCE_GET_COMPRESSION_FLAGS"
  by (cases cmd) (simp_all add: src_can_def ZIP_SOURCE_MAKE_COMMAND_BITMASK_def)

definition buf_source :: "malloc \<Rightarrow> u64 \<Rightarrow> read_data zip_source \<Rightarrow> bool" where
  "buf_source mem junk src \<longleftrightarrow> src_cb src = read_data_cb mem junk \<and> src_src src = None \<and>
     src_supports src = 0x2bfff \<and> \<not> src_source_closed src \<and>
     src_write_state src \<noteq> ZIP_SOURCE_WRITE_REMOVED"

lemma buffer_source_created:
  assumes "zip_source_buffer_fragment_create mem junk now (Some fs) n freep err = (Some src, err')"
    and "list_all frag_arg_ok fs" "length (concat (map (the \<circ> fst) fs)) < 2 ^ 64"
  shows "buf_source mem junk src" "src_write_state src = ZIP_SOURCE_WRITE_CLOSED"
    "src_open_count src = 0" "rd_good (src_ud src)" "rd_out (src_ud src) = None"
    "buffer_content (rd_heap (src_ud src)) (rd_in (src_ud src)) = concat (map (the \<circ> fst) fs)"
    "bu_nfragments (rd_in (src_ud src)) = length fs"
proof -
  obtain b e where b: "buffer_new mem junk (frag_args fs) freep err = (Some b, e)"
    using assms(1) by (auto simp: zip_source_buffer_fragment_create_def split: prod.splits option.splits)
  note fresh = buffer_new_fresh [OF assms(2,3) b]
  show "buf_source mem junk src" "src_write_state src = ZIP_SOURCE_WRITE_CLOSED"
    "src_open_count src = 0" "rd_good (src_ud src)" "rd_out (src_ud src) = None"
    "buffer_content (rd_heap (src_ud src)) (rd_in (src_ud src)) = concat (map (the \<circ> fst) fs)"
    "bu_nfragments (rd_in (src_ud src)) = length fs"
    using assms(1) b fresh
    by (auto simp: zip_source_buffer_fragment_create_def zip_source_function_create_def
        zip_source_new_def src_query_supports_def buf_source_def rd_good_def split: if_splits)
qed

lemma buffer_source_open:
  assumes "buf_source mem junk src" "rd_good (src_ud src)" "src_open_count src = 0"
  shows "fst (zip_source_open src) = 0"
    "src_delivers rd_good rd_rest (snd (zip_source_open src))
       (buffer_content (rd_heap (src_ud src)) (rd_in (src_ud src)))"
    "buf_source mem junk (snd (zip_source_open src))"
proof -
  let ?b = "(rd_in (src_ud src))\<lparr>bu_offset := 0, bu_current_fragment := 0\<rparr>"
  have "wf_buffer (rd_heap (src_ud src)) ?b"
    using assms(2) by (auto simp: rd_good_def wf_buffer_def at_pos_def)
  then show "fst (zip_source_open src) = 0"
    "src_delivers rd_good rd_rest (snd (zip_source_open src))
       (buffer_content (rd_heap (src_ud src)) (rd_in (src_ud src)))"
    "buf_source mem junk (snd (zip_source_open src))"
    using assms
    by (auto simp: buf_source_def zip_source_open_def zip_source_call_def src_invoke_def src_opened_def
        ZIP_SOURCE_IS_OPEN_READING_def src_delivers_def rd_good_def rd_rest_def buffer_rest_def
        buffer_content_def)
qed

section \<open>Writing overwrites the stream\<close>

definition overwrite :: "nat \<Rightarrow> bytes \<Rightarrow> bytes \<Rightarrow> bytes" where
  "overwrite p d s = take p s @ d @ drop (p + length d) s"

lemma overwrite_Nil [simp]: "overwrite p [] s = s"
  by (simp add: overwrite_def)

lemma length_overwrite: "p + length d \<le> length s \<Longrightarrow> length (overwrite p d s) = length s"
  by (simp add: overwrite_def)

lemma overwrite_shift: "overwrite (length x + p) d (x @ y) = x @ overwrite p d y"
  by (simp add: overwrite_def)

lemma overwrite_take:
  "p \<le> n \<Longrightarrow> n \<le> length s \<Longrightarrow> p + length d \<le> length s \<Longrightarrow>
   take (max n (p + length d)) (overwrite p d s) = overwrite p d (take n s)"
proof -
  assume le: "p \<le> n" "n \<le> length s" "p + length d \<le> length s"
  let ?q = "p + length d"
  have A: "length (take p s @ d) = ?q" using le by simp
  have "take (max n ?q) (take p s @ d) = take p s @ d" by (rule take_all) (simp only: A max.cobounded2)
  moreover have "max n ?q - ?q = n - ?q" by (simp add: max_def)
  ultimately have "take (max n ?q) ((take p s @ d) @ drop ?q s) = (take p s @ d) @ take (n - ?q) (drop ?q s)"
    by (simp only: take_append A)
  then show ?thesis using le by (simp add: overwrite_def drop_take min_def)
qed

lemma overwrite_append:
  "p + length d \<le> length x \<Longrightarrow> overwrite p d (x @ y) = overwrite p d x @ y"
  by (simp add: overwrite_def)

lemma overwrite_cross:
  "length d = length x - p \<Longrightarrow> p \<le> length x \<Longrightarrow>
   overwrite p (d @ e) (x @ y) = overwrite p d x @ overwrite 0 e y"
  by (simp add: overwrite_def)

definition heap_same_but :: "nat set \<Rightarrow> bytes list \<Rightarrow> bytes list \<Rightarrow> bool" where
  "heap_same_but A h h' \<longleftrightarrow> length h' = length h \<and> (\<forall>i. length (h' ! i) = length (h ! i)) \<and>
     (\<forall>i. i \<notin> A \<longrightarrow> h' ! i = h ! i)"

lemma heap_same_but_stream:
  "heap_same_but A h h' \<Longrightarrow> frag_data ` set frs \<inter> A = {} \<Longrightarrow> frag_stream h' frs = frag_stream h frs"
  unfolding frag_stream_def frag_bytes_def heap_same_but_def
  by (intro arg_cong [of _ _ concat] map_cong refl arg_cong [of _ _ "take _"]) blast

lemma heap_same_but_ok: "heap_same_but A h h' \<Longrightarrow> frags_ok h' frs = frags_ok h frs"
  by (simp add: heap_same_but_def frags_ok_def)

lemma heap_same_but_trans:
  "heap_same_but A h h' \<Longrightarrow> heap_same_but B h' h'' \<Longrightarrow> A \<subseteq> B \<Longrightarrow> heap_same_but B h h''"
  by (auto simp: heap_same_but_def)

lemma heap_store_same:
  "i < length h \<Longrightarrow> p + length d \<le> length (h ! i) \<Longrightarrow> heap_same_but {i} h (heap_store h i p d)"
  by (auto simp: heap_same_but_def heap_store_def nth_list_update)

lemma heap_store_bytes:
  assumes "frag_data f < length h" "unat (frag_length f) \<le> length (h ! frag_data f)"
    and "p + length d \<le> unat (frag_length f)"
  shows "frag_bytes (heap_store h (frag_data f) p d) f = overwrite p d (frag_bytes h f)"
  using assms by (simp add: frag_bytes_def heap_store_def overwrite_def drop_take)

lemma buffer_write_loop_stream:
  assumes "frags_ok heap frs" "distinct (map frag_data frs)"
  shows "i \<le> length frs \<Longrightarrow> (if i < length frs then fo \<le> unat (frag_length (frs ! i)) else fo = 0) \<Longrightarrow>
    length d + fo \<le> length (frag_stream heap (drop i frs)) \<Longrightarrow>
    \<exists>heap' j. buffer_write_loop heap frs i fo d = Some (heap', j) \<and>
      heap_same_but (frag_data ` set (drop i frs)) heap heap' \<and>
      frag_stream heap' (drop i frs) = overwrite fo d (frag_stream heap (drop i frs)) \<and>
      at_pos frs j (frag_start frs i + fo + length d)"
  using assms
proof (induction "length d + (length frs - i)" arbitrary: heap i fo d rule: less_induct)
  case less
  note ok = less.prems(4) and dist = less.prems(5)
  show ?case
  proof (cases "d = []")
    case True
    then show ?thesis
      using less.prems by (subst buffer_write_loop.simps)
        (auto simp: at_pos_def frag_start_Suc heap_same_but_def split: if_splits)
  next
    case False
    have i: "i < length frs"
      using less.prems(1,3) False by (cases "i = length frs") auto
    let ?f = "frs ! i" and ?here = "unat (frag_length (frs ! i)) - fo"
    have fb: "frag_stream h (drop i frs) = frag_bytes h ?f @ frag_stream h (drop (Suc i) frs)" for h
      using frag_stream_nth [OF i] .
    have blk: "frag_data ?f < length heap" "unat (frag_length ?f) \<le> length (heap ! frag_data ?f)"
      using frags_ok_nth [OF ok i] .
    then have lb: "length (frag_bytes heap ?f) = unat (frag_length ?f)"
      by (simp add: frag_bytes_def)
    have fo: "fo \<le> unat (frag_length ?f)" using less.prems(2) i by simp
    have notin: "frag_data ?f \<notin> frag_data ` set (drop (Suc i) frs)"
      using dist i by (auto simp: in_set_conv_nth distinct_conv_nth)
    have sub: "frag_data ` set (drop i frs) = insert (frag_data ?f) (frag_data ` set (drop (Suc i) frs))"
      using Cons_nth_drop_Suc [OF i] by (metis image_insert list.simps(15))
    show ?thesis
    proof (cases "length d < ?here")
      case True
      let ?h = "heap_store heap (frag_data ?f) fo d"
      have same: "heap_same_but {frag_data ?f} heap ?h"
        using heap_store_same [OF blk(1), of fo d] True fo blk(2) by simp
      have "frag_stream ?h (drop i frs) = overwrite fo d (frag_stream heap (drop i frs))"
        using heap_store_bytes [OF blk, of fo d] True fo lb notin
          heap_same_but_stream [OF same, of "drop (Suc i) frs"]
        by (simp add: fb overwrite_append)
      moreover have "at_pos frs i (frag_start frs i + fo + length d)"
        using i True by (auto simp: at_pos_def frag_start_Suc)
      moreover have "heap_same_but (frag_data ` set (drop i frs)) heap ?h"
        using same sub by (auto simp: heap_same_but_def)
      moreover have "buffer_write_loop heap frs i fo d = Some (?h, i)"
        using False True i blk fo
        by (subst buffer_write_loop.simps)
          (simp add: Let_def min_def buffer_write_loop.simps [of _ frs i 0 "[]"])
      ultimately show ?thesis by blast
    next
      case ge: False
      let ?d1 = "take ?here d" and ?d2 = "drop ?here d"
      let ?h = "heap_store heap (frag_data ?f) fo ?d1"
      have l1: "length ?d1 = ?here" using ge by simp
      have same: "heap_same_but {frag_data ?f} heap ?h"
        using heap_store_same [OF blk(1), of fo ?d1] fo blk(2) l1 by simp
      have rest: "frag_stream ?h (drop (Suc i) frs) = frag_stream heap (drop (Suc i) frs)"
        using heap_same_but_stream [OF same] notin by simp
      have first: "frag_bytes ?h ?f = overwrite fo ?d1 (frag_bytes heap ?f)"
        using heap_store_bytes [OF blk, of fo ?d1] fo l1 by simp
      have smaller: "length ?d2 + (length frs - Suc i) < length d + (length frs - i)"
        using i by simp
      have room: "length ?d2 + 0 \<le> length (frag_stream ?h (drop (Suc i) frs))"
        using less.prems(3) fb [of heap] lb ge rest by simp
      have "\<exists>heap' j. buffer_write_loop ?h frs (Suc i) 0 ?d2 = Some (heap', j) \<and>
        heap_same_but (frag_data ` set (drop (Suc i) frs)) ?h heap' \<and>
        frag_stream heap' (drop (Suc i) frs) = overwrite 0 ?d2 (frag_stream ?h (drop (Suc i) frs)) \<and>
        at_pos frs j (frag_start frs (Suc i) + 0 + length ?d2)"
        by (rule less.hyps [OF smaller _ _ room])
          (use i dist heap_same_but_ok [OF same] ok in simp_all)
      then obtain heap' j where ih: "buffer_write_loop ?h frs (Suc i) 0 ?d2 = Some (heap', j)"
        "heap_same_but (frag_data ` set (drop (Suc i) frs)) ?h heap'"
        "frag_stream heap' (drop (Suc i) frs) = overwrite 0 ?d2 (frag_stream ?h (drop (Suc i) frs))"
        "at_pos frs j (frag_start frs (Suc i) + 0 + length ?d2)" by blast
      have "frag_bytes heap' ?f = frag_bytes ?h ?f"
        using heap_same_but_stream [OF ih(2), of "[?f]"] notin by (simp add: frag_stream_def)
      then have "frag_stream heap' (drop i frs) = overwrite fo d (frag_stream heap (drop i frs))"
        using overwrite_cross [of ?d1 "frag_bytes heap ?f" fo ?d2 "frag_stream heap (drop (Suc i) frs)"]
          first ih(3) rest l1 lb fo by (simp add: fb)
      moreover have "heap_same_but (frag_data ` set (drop i frs)) heap heap'"
        using heap_same_but_trans [of "frag_data ` set (drop i frs)" heap ?h "frag_data ` set (drop i frs)" heap']
          same ih(2) sub by (auto simp: heap_same_but_def)
      moreover have "frag_start frs (Suc i) + length ?d2 = frag_start frs i + fo + length d"
        using frag_start_Suc [OF i] fo ge by simp
      moreover have "buffer_write_loop heap frs i fo d = Some (heap', j)"
        using False ge i blk fo ih(1)
        by (subst buffer_write_loop.simps) (simp add: Let_def min_def)
      ultimately show ?thesis using ih(4) by auto
    qed
  qed
qed

section \<open>Making room\<close>

text \<open>A buffer that can be written: well-formed, its fragments in distinct blocks, its offset
  array as large as its capacity says.\<close>

definition wr_buffer :: "bytes list \<Rightarrow> buffer \<Rightarrow> bool" where
  "wr_buffer heap b \<longleftrightarrow> wf_buffer heap b \<and> distinct (map frag_data (bu_fragments b)) \<and>
     length (bu_fragment_offsets b) = Suc (bu_fragments_capacity b)"

text \<open>What growing a buffer does: the old fragments, blocks and contents stay.\<close>

definition grown :: "bytes list \<Rightarrow> buffer \<Rightarrow> bytes list \<Rightarrow> buffer \<Rightarrow> bool" where
  "grown h b h' b' \<longleftrightarrow> bu_size b' = bu_size b \<and> bu_offset b' = bu_offset b \<and>
     bu_current_fragment b' = bu_current_fragment b \<and> bu_shared_buffer b' = bu_shared_buffer b \<and>
     buffer_content h' b' = buffer_content h b \<and> (\<exists>x. h' = h @ x) \<and>
     (\<exists>y. bu_fragments b' = bu_fragments b @ y \<and> (\<forall>f\<in>set y. length h \<le> frag_data f)) \<and>
     frag_start (bu_fragments b) (bu_nfragments b) \<le> frag_start (bu_fragments b') (bu_nfragments b')"

lemma grown_refl: "grown h b h b"
  by (simp add: grown_def)

lemma grown_trans: "grown h b h' b' \<Longrightarrow> grown h' b' h'' b'' \<Longrightarrow> grown h b h'' b''"
  unfolding grown_def by (elim conjE exE) (intro conjI; fastforce)

lemma grow_capacity_ge: "0 < c \<Longrightarrow> needed \<le> grow_capacity c needed \<and> c \<le> grow_capacity c needed"
proof (induction c needed rule: grow_capacity.induct)
  case (1 c needed)
  then show ?case by (subst (1 2) grow_capacity.simps) force
qed

lemma wr_buffer_grow:
  assumes "wr_buffer h b" "mem A_fragments" "mem A_offsets" "bu_fragments_capacity b \<le> c"
  obtains b' where "buffer_grow_fragments mem junk b c err = (True, b', err)" "wr_buffer h b'"
    "grown h b h b'" "bu_fragments b' = bu_fragments b" "bu_fragments_capacity b' = c"
proof -
  let ?offs = "take (c + 1) (bu_fragment_offsets b) @
    replicate (c + 1 - length (bu_fragment_offsets b)) junk"
  let ?b' = "b\<lparr>bu_fragment_offsets := ?offs, bu_fragments_capacity := c\<rparr>"
  have len: "length (bu_fragment_offsets b) \<le> c + 1" and n: "bu_nfragments b < length (bu_fragment_offsets b)"
    using assms(1,4) by (auto simp: wr_buffer_def wf_buffer_def)
  have "\<forall>i \<le> bu_nfragments b. ?offs ! i = bu_fragment_offsets b ! i"
    using len n by (auto simp: nth_append)
  then have "wr_buffer h ?b'"
    using assms(1) len n by (simp add: wr_buffer_def wf_buffer_def)
  moreover have "grown h b h ?b'" by (simp add: grown_def buffer_content_def)
  moreover have "buffer_grow_fragments mem junk b c err = (True, ?b', err)"
    using assms(2-4) by (simp add: buffer_grow_fragments_def)
  ultimately show ?thesis using that by simp
qed

lemma wr_buffer_add:
  assumes "wr_buffer h b" "bu_nfragments b < bu_fragments_capacity b"
    and "capacity = bu_fragment_offsets b ! bu_nfragments b" "unat capacity + 0x10000 < 2 ^ 64"
  defines "b' \<equiv> b\<lparr>bu_fragments := bu_fragments b @
              [\<lparr>frag_data = length h, frag_length = WRITE_FRAGMENT_SIZE\<rparr>],
            bu_fragment_offsets := (bu_fragment_offsets b)[Suc (bu_nfragments b) := capacity + WRITE_FRAGMENT_SIZE]\<rparr>"
    and "h' \<equiv> h @ [replicate (unat WRITE_FRAGMENT_SIZE) 0]"
  shows "wr_buffer h' b'" and "grown h b h' b'"
    and "bu_fragment_offsets b' ! bu_nfragments b' = capacity + WRITE_FRAGMENT_SIZE"
    and "frag_start (bu_fragments b') (bu_nfragments b') =
      frag_start (bu_fragments b) (bu_nfragments b) + 0x10000"
proof -
  let ?f = "\<lparr>frag_data = length h, frag_length = WRITE_FRAGMENT_SIZE\<rparr>"
  let ?frs = "bu_fragments b"
  have ok: "frags_ok h ?frs" and len: "bu_nfragments b < length (bu_fragment_offsets b)"
    and offs: "\<forall>i\<le>bu_nfragments b. unat (bu_fragment_offsets b ! i) = frag_start ?frs i"
    and size: "unat (bu_size b) \<le> frag_start ?frs (length ?frs)"
    and pos: "at_pos ?frs (bu_current_fragment b) (unat (bu_offset b))"
    using assms(1) by (auto simp: wr_buffer_def wf_buffer_def)
  have st: "frag_start (?frs @ [?f]) (Suc (length ?frs)) = frag_start ?frs (length ?frs) + 0x10000"
    using frag_start_snoc [of ?frs ?f] by simp
  have cap: "unat (capacity + WRITE_FRAGMENT_SIZE) = frag_start ?frs (length ?frs) + 0x10000"
    using assms(3,4) offs by (simp add: unat_word_ariths)
  have ok': "frags_ok h' (?frs @ [?f])"
    using ok by (auto simp: frags_ok_def h'_def nth_append)
  have same: "frag_stream h' ?frs = frag_stream h ?frs"
    using ok by (auto simp: frag_stream_def frag_bytes_def frags_ok_def h'_def nth_append
        intro!: arg_cong [of _ _ concat])
  show "frag_start (bu_fragments b') (bu_nfragments b') =
      frag_start (bu_fragments b) (bu_nfragments b) + 0x10000"
    using st by (simp add: b'_def)
  show "bu_fragment_offsets b' ! bu_nfragments b' = capacity + WRITE_FRAGMENT_SIZE"
    using assms(1,2) by (simp add: b'_def wr_buffer_def)
  have content: "buffer_content h' b' = buffer_content h b"
    using size frag_stream_length [OF ok]
    by (simp add: buffer_content_def b'_def frag_stream_append same)
  then show "grown h b h' b'"
    using st by (simp add: grown_def) (simp add: b'_def h'_def)
  have offs': "\<forall>i\<le>Suc (length ?frs).
      unat ((bu_fragment_offsets b)[Suc (length ?frs) := capacity + WRITE_FRAGMENT_SIZE] ! i) =
      frag_start (?frs @ [?f]) i"
    using offs cap st assms(1,2)
    by (auto simp: le_Suc_eq frag_start_append nth_list_update wr_buffer_def)
  have pos': "at_pos (?frs @ [?f]) (bu_current_fragment b) (unat (bu_offset b))"
  proof (cases "bu_current_fragment b < length ?frs")
    case True
    then show ?thesis using pos by (auto simp: at_pos_def frag_start_append)
  next
    case False
    then have "bu_current_fragment b = length ?frs" "unat (bu_offset b) = frag_start ?frs (length ?frs)"
      using pos by (auto simp: at_pos_def)
    then show ?thesis using st by (simp add: at_pos_def frag_start_append)
  qed
  have "distinct (map frag_data (?frs @ [?f]))"
    using assms(1) ok by (auto simp: wr_buffer_def frags_ok_def)
  then show "wr_buffer h' b'"
    using assms(1,2) ok' offs' pos' size st
    by (simp add: wr_buffer_def wf_buffer_def b'_def)
qed

lemma add_fragments_room:
  "wr_buffer h b \<Longrightarrow> bu_nfragments b + k \<le> bu_fragments_capacity b \<Longrightarrow>
   capacity = bu_fragment_offsets b ! bu_nfragments b \<Longrightarrow> unat capacity + k * 0x10000 < 2 ^ 64 \<Longrightarrow>
   mem A_fragment_data \<Longrightarrow>
   \<exists>h' b'. add_fragments mem k h b capacity = (True, h', b') \<and> wr_buffer h' b' \<and> grown h b h' b' \<and>
     frag_start (bu_fragments b') (bu_nfragments b') =
       frag_start (bu_fragments b) (bu_nfragments b) + k * 0x10000"
proof (induction k arbitrary: h b capacity)
  case 0
  then show ?case by (simp add: grown_refl)
next
  case (Suc k)
  define b1 where "b1 = b\<lparr>bu_fragments := bu_fragments b @
        [\<lparr>frag_data = length h, frag_length = WRITE_FRAGMENT_SIZE\<rparr>],
      bu_fragment_offsets := (bu_fragment_offsets b)[Suc (bu_nfragments b) := capacity + WRITE_FRAGMENT_SIZE]\<rparr>"
  define h1 where "h1 = h @ [replicate (unat WRITE_FRAGMENT_SIZE) (0 :: u8)]"
  have "bu_nfragments b < bu_fragments_capacity b" "unat capacity + 0x10000 < 2 ^ 64"
    using Suc.prems(2,4) by simp_all
  note add = wr_buffer_add [OF Suc.prems(1) this(1) Suc.prems(3) this(2), folded b1_def h1_def]
  have cap: "unat (capacity + WRITE_FRAGMENT_SIZE) = unat capacity + 0x10000"
    using Suc.prems(4) by (simp add: unat_word_ariths)
  have pre: "bu_nfragments b1 + k \<le> bu_fragments_capacity b1"
    "unat (capacity + WRITE_FRAGMENT_SIZE) + k * 0x10000 < 2 ^ 64"
    using Suc.prems(2,4) cap by (simp_all add: b1_def)
  obtain h' b' where "add_fragments mem k h1 b1 (capacity + WRITE_FRAGMENT_SIZE) = (True, h', b')"
    "wr_buffer h' b'" "grown h1 b1 h' b'"
    "frag_start (bu_fragments b') (bu_nfragments b') =
       frag_start (bu_fragments b1) (bu_nfragments b1) + k * 0x10000"
    using Suc.IH [OF add(1) pre(1) add(3) [symmetric] pre(2) Suc.prems(5)] by blast
  then show ?case
    using grown_trans [OF add(2)] add(4) Suc.prems(5)
    by (simp add: Let_def h1_def flip: b1_def)
qed

definition mem_buffer :: "malloc \<Rightarrow> bool" where
  "mem_buffer mem \<longleftrightarrow> mem A_buffer \<and> mem A_fragments \<and> mem A_offsets \<and> mem A_fragment_data"

abbreviation bu_end :: "buffer \<Rightarrow> nat" where
  "bu_end b \<equiv> frag_start (bu_fragments b) (bu_nfragments b)"

lemma buffer_capacity_eq:
  assumes "wr_buffer h b"
  shows "buffer_capacity b = Some (bu_fragment_offsets b ! bu_nfragments b)"
    and "unat (bu_fragment_offsets b ! bu_nfragments b) = bu_end b"
  using assms by (auto simp: wr_buffer_def wf_buffer_def buffer_capacity_def)

lemma fragments_needed:
  assumes "cap < 2 ^ 62" "offset \<le> cap" "unat offset + unat len < 2 ^ 62" "cap < offset + len"
  defines "k \<equiv> unat ((len - (cap - offset) + WRITE_FRAGMENT_SIZE - 1) div WRITE_FRAGMENT_SIZE)"
  shows "unat offset + unat len \<le> unat cap + k * 0x10000"
    and "unat cap + k * 0x10000 < unat offset + unat len + 0x10000"
proof -
  have sum: "unat (offset + len) = unat offset + unat len"
    using assms(3) by (simp add: unat_word_ariths)
  have 1: "unat (cap - offset) = unat cap - unat offset" using assms(2) by (simp add: unat_sub)
  have "cap - offset \<le> len"
    using assms(4) sum 1 by (simp add: word_le_nat_alt word_less_nat_alt)
  then have x: "unat (len - (cap - offset)) = unat len - (unat cap - unat offset)"
    using 1 by (simp add: unat_sub)
  have u: "unat (len - (cap - offset) + 0xffff) = unat (len - (cap - offset)) + 0xffff"
    using x assms(3) by (simp add: unat_word_ariths)
  have eqw: "len - (cap - offset) + WRITE_FRAGMENT_SIZE - 1 = len - (cap - offset) + 0xffff" by simp
  have k: "k = (unat len - (unat cap - unat offset) + 0xffff) div 0x10000"
    unfolding k_def eqw unat_div u x by simp
  have gt: "unat cap < unat offset + unat len" "unat offset \<le> unat cap"
    using assms(2,4) sum by (simp_all add: word_less_nat_alt word_le_nat_alt)
  show "unat offset + unat len \<le> unat cap + k * 0x10000"
    and "unat cap + k * 0x10000 < unat offset + unat len + 0x10000"
    using gt unfolding k by linarith+
qed

text \<open>The first half of making room: the capacity for the fragments needed.\<close>

lemma capacity_ensured:
  assumes "wr_buffer h b" "mem_buffer mem"
  obtains b1 where "(if needed > bu_fragments_capacity b
        then let start = (if bu_fragments_capacity b = 0 then 16 else bu_fragments_capacity b)
             in case buffer_grow_fragments mem junk b (grow_capacity start needed) err of
               (g, b', _) \<Rightarrow> (g, b', if g then err else zip_error_set err ZIP_ER_MEMORY 0)
        else (True, b, err)) = (True, b1, err)" "wr_buffer h b1" "grown h b h b1"
      "bu_fragments b1 = bu_fragments b" "needed \<le> bu_fragments_capacity b1"
proof (cases "needed > bu_fragments_capacity b")
  case True
  define start where "start = (if bu_fragments_capacity b = 0 then 16 else bu_fragments_capacity b)"
  have c: "needed \<le> grow_capacity start needed" "bu_fragments_capacity b \<le> grow_capacity start needed"
    using grow_capacity_ge [of start needed] by (auto simp: start_def)
  obtain b' where b': "buffer_grow_fragments mem junk b (grow_capacity start needed) err = (True, b', err)"
    "wr_buffer h b'" "grown h b h b'" "bu_fragments b' = bu_fragments b"
    "bu_fragments_capacity b' = grow_capacity start needed"
    using wr_buffer_grow [OF assms(1) _ _ c(2)] assms(2) unfolding mem_buffer_def by blast
  show ?thesis
    by (rule that [of b'])
      (use True b' c(1) in \<open>simp_all add: Let_def flip: start_def\<close>)
next
  case False
  then show ?thesis using that [of b] assms(1) grown_refl by simp
qed

lemma buffer_make_room_grows:
  assumes "wr_buffer h b" "mem_buffer mem" "bu_end b < 2 ^ 62"
    and "unat (bu_offset b) + unat len < 2 ^ 62"
  shows "\<exists>h' b'. buffer_make_room mem junk h b len (bu_fragment_offsets b ! bu_nfragments b) err =
      (True, h', b', err) \<and> wr_buffer h' b' \<and> grown h b h' b' \<and>
    unat (bu_offset b) + unat len \<le> bu_end b' \<and>
    bu_end b' \<le> max (bu_end b) (unat (bu_offset b) + unat len + 0x10000)"
proof -
  define cap where "cap = bu_fragment_offsets b ! bu_nfragments b"
  have cap: "unat cap = bu_end b" using buffer_capacity_eq(2) [OF assms(1)] by (simp add: cap_def)
  have sum: "unat (bu_offset b + len) = unat (bu_offset b) + unat len"
    using assms(4) by (simp add: unat_word_ariths)
  show ?thesis
  proof (cases "cap < bu_offset b + len")
    case False
    then have "buffer_make_room mem junk h b len cap err = (True, h, b, err)"
      by (simp add: buffer_make_room_def)
    moreover have "unat (bu_offset b) + unat len \<le> bu_end b"
      using False cap sum by (simp add: word_less_nat_alt)
    ultimately show ?thesis
      using assms(1) grown_refl unfolding cap_def by (intro exI [of _ h] exI [of _ b]) simp
  next
    case True
    define k where "k = unat ((len - (cap - bu_offset b) + WRITE_FRAGMENT_SIZE - 1) div WRITE_FRAGMENT_SIZE)"
    have off: "bu_offset b \<le> cap"
      using assms(1) cap by (simp add: wr_buffer_def wf_buffer_def word_le_nat_alt)
    have "cap < 2 ^ 62" using cap assms(3) by (simp add: word_less_nat_alt)
    note need = fragments_needed [OF this off assms(4) True, folded k_def]
    obtain b1 where b1: "(if bu_nfragments b + k > bu_fragments_capacity b
        then let start = (if bu_fragments_capacity b = 0 then 16 else bu_fragments_capacity b)
             in case buffer_grow_fragments mem junk b (grow_capacity start (bu_nfragments b + k)) err of
               (g, b', _) \<Rightarrow> (g, b', if g then err else zip_error_set err ZIP_ER_MEMORY 0)
        else (True, b, err)) = (True, b1, err)" "wr_buffer h b1" "grown h b h b1"
      "bu_fragments b1 = bu_fragments b" "bu_nfragments b + k \<le> bu_fragments_capacity b1"
      using capacity_ensured [OF assms(1,2)] .
    have "unat (bu_fragment_offsets b1 ! bu_nfragments b1) = unat cap"
      using buffer_capacity_eq(2) [OF b1(2)] cap b1(4) by simp
    then have "bu_fragment_offsets b1 ! bu_nfragments b1 = cap"
      by (rule unsigned_word_eqI)
    then have cap1: "cap = bu_fragment_offsets b1 ! bu_nfragments b1" by (rule sym)
    have pre: "bu_nfragments b1 + k \<le> bu_fragments_capacity b1" "unat cap + k * 0x10000 < 2 ^ 64"
      using b1(4,5) need(2) assms(4) by simp_all
    have "mem A_fragment_data" using assms(2) by (simp add: mem_buffer_def)
    note ex = add_fragments_room [where mem = mem, OF b1(2) pre(1) cap1 pre(2) this]
    obtain h' b' where add: "add_fragments mem k h b1 cap = (True, h', b')" "wr_buffer h' b'"
      "grown h b1 h' b'" "bu_end b' = bu_end b1 + k * 0x10000"
      using ex by (elim exE conjE) (rule that)
    have k': "bu_nfragments b + k - bu_nfragments b1 = k" unfolding b1(4) by (rule add_diff_cancel_left')
    have "buffer_make_room mem junk h b len cap err = (True, h', b', err)"
      unfolding buffer_make_room_def if_P [OF True] Let_def k_def [symmetric]
      by (simp only: b1(1) [unfolded Let_def] prod.case k' add(1) not_True_eq_False if_False bool.case)
    moreover have "bu_end b' = unat cap + k * 0x10000" using add(4) b1(4) cap by simp
    then have "unat (bu_offset b) + unat len \<le> bu_end b'"
      "bu_end b' \<le> max (bu_end b) (unat (bu_offset b) + unat len + 0x10000)"
      using need by linarith+
    ultimately show ?thesis
      using add(2) grown_trans [OF b1(3) add(3)] unfolding cap_def [symmetric] by blast
  qed
qed

section \<open>Writing refines the abstract file\<close>

definition wr_good :: "bytes list \<Rightarrow> buffer \<Rightarrow> bool" where
  "wr_good h b \<longleftrightarrow> wr_buffer h b \<and> bu_end b \<le> unat (bu_size b) + 0x10000"

lemma buffer_write_eq:
  assumes "wr_good h b" "mem_buffer mem" "unat (bu_size b) + length d < 2 ^ 61"
  shows "\<exists>h' b'. buffer_write mem junk h b d err = Some (int (length d), h', b', err) \<and> wr_good h' b' \<and>
    buffer_content h' b' = overwrite (unat (bu_offset b)) d (buffer_content h b) \<and>
    unat (bu_offset b') = unat (bu_offset b) + length d \<and>
    bu_shared_buffer b' = bu_shared_buffer b \<and>
    (d \<noteq> [] \<longrightarrow> bu_fragments b' \<noteq> []) \<and> (bu_fragments b \<noteq> [] \<longrightarrow> bu_fragments b' \<noteq> []) \<and>
    (\<forall>i<length h. i \<notin> frag_data ` set (bu_fragments b) \<longrightarrow> h' ! i = h ! i) \<and> length h \<le> length h' \<and>
    frag_data ` set (bu_fragments b') \<subseteq> frag_data ` set (bu_fragments b) \<union> {length h..}"
proof -
  let ?len = "of_nat (length d) :: u64"
  have wr: "wr_buffer h b" and end_le: "bu_end b \<le> unat (bu_size b) + 0x10000"
    using assms(1) by (auto simp: wr_good_def)
  have off: "unat (bu_offset b) \<le> unat (bu_size b)"
    using wr by (simp add: wr_buffer_def wf_buffer_def word_le_nat_alt)
  have l: "unat ?len = length d" using assms(3) by (simp only: unat_of_nat) simp
  have small: "unat (bu_offset b) + unat ?len < 2 ^ 62" using off assms(3) l by simp
  have sum: "unat (bu_offset b + ?len + WRITE_FRAGMENT_SIZE - 1) = unat (bu_offset b) + length d + 0xffff"
  proof -
    have "bu_offset b + ?len + WRITE_FRAGMENT_SIZE - 1 = bu_offset b + ?len + 0xffff" by simp
    moreover have "unat (bu_offset b + ?len) = unat (bu_offset b) + length d"
      using small l by (subst unat_add_lem [THEN iffD1]) simp_all
    ultimately show ?thesis
      using small l by (simp only: unat_word_ariths) simp
  qed
  have nowrap: "\<not> bu_offset b + ?len + WRITE_FRAGMENT_SIZE - 1 < ?len"
    using sum l by (simp add: word_less_nat_alt del: unat_of_nat)
  have "bu_end b < 2 ^ 62" using end_le assms(3) by simp
  then obtain h1 b1 where room: "buffer_make_room mem junk h b ?len (bu_fragment_offsets b ! bu_nfragments b) err =
      (True, h1, b1, err)" and wr1: "wr_buffer h1 b1" and g: "grown h b h1 b1"
    and end1: "unat (bu_offset b) + length d \<le> bu_end b1"
      "bu_end b1 \<le> max (bu_end b) (unat (bu_offset b) + length d + 0x10000)"
    using buffer_make_room_grows [OF wr assms(2) _ small, of junk err] unfolding l by blast
  have same1: "bu_size b1 = bu_size b" "bu_offset b1 = bu_offset b"
    "buffer_content h1 b1 = buffer_content h b" "bu_shared_buffer b1 = bu_shared_buffer b"
    using g by (simp_all add: grown_def)
  have wf1: "wf_buffer h1 b1" and dist: "distinct (map frag_data (bu_fragments b1))"
    and fok: "frags_ok h1 (bu_fragments b1)"
    using wr1 by (auto simp: wr_buffer_def wf_buffer_def)
  note cur = wf_buffer_current [OF wf1]
  let ?i = "bu_current_fragment b1" and ?frs = "bu_fragments b1"
  let ?fo = "unat (bu_offset b1 - bu_fragment_offsets b1 ! ?i)"
  have fits: "length d + ?fo \<le> length (frag_stream h1 (drop ?i ?frs))"
    using frag_stream_split [OF fok cur(4)] frag_stream_length [OF fok] end1(1) cur(2) same1 by simp
  obtain h' j where loop: "buffer_write_loop h1 ?frs ?i ?fo d = Some (h', j)"
    and same: "heap_same_but (frag_data ` set (drop ?i ?frs)) h1 h'"
    and str: "frag_stream h' (drop ?i ?frs) = overwrite ?fo d (frag_stream h1 (drop ?i ?frs))"
    and pos: "at_pos ?frs j (frag_start ?frs ?i + ?fo + length d)"
    using buffer_write_loop_stream [OF fok dist cur(4,3) fits] by blast
  have pos': "at_pos ?frs j (unat (bu_offset b) + length d)"
    using pos cur(2) same1 by simp
  have split: "frag_stream h ?frs = frag_stream h (take ?i ?frs) @ frag_stream h (drop ?i ?frs)" for h
    by (metis append_take_drop_id frag_stream_append)
  have "set (map frag_data (take ?i ?frs)) \<inter> set (map frag_data (drop ?i ?frs)) = {}"
    using dist by (metis append_take_drop_id distinct_append map_append)
  then have takes: "frag_stream h' (take ?i ?frs) = frag_stream h1 (take ?i ?frs)"
    using heap_same_but_stream [OF same] by simp
  have "length (frag_stream h1 (take ?i ?frs)) = frag_start ?frs ?i"
    by (rule frag_stream_split [OF fok cur(4), THEN conjunct2])
  then have at: "length (frag_stream h1 (take ?i ?frs)) + ?fo = unat (bu_offset b)"
    using cur(2) same1(2) by simp
  have stream: "frag_stream h' ?frs = overwrite (unat (bu_offset b)) d (frag_stream h1 ?frs)"
    unfolding split str takes at [symmetric] overwrite_shift ..
  let ?o = "bu_offset b1 + ?len"
  let ?b' = "b1\<lparr>bu_offset := ?o, bu_current_fragment := j,
      bu_size := (if ?o > bu_size b1 then ?o else bu_size b1)\<rparr>"
  have o: "unat ?o = unat (bu_offset b) + length d"
    using small l same1 by (subst unat_add_lem [THEN iffD1]) simp_all
  have sz: "unat (if ?o > bu_size b1 then ?o else bu_size b1) = max (unat (bu_size b)) (unat (bu_offset b) + length d)"
    using o same1 by (auto simp: word_less_nat_alt max_def)
  have szend: "unat (bu_size b) \<le> bu_end b1"
    using wf1 same1 by (simp add: wf_buffer_def)
  have eq: "buffer_write mem junk h b d err = Some (int (length d), h', ?b', err)"
    using nowrap buffer_capacity_eq(1) [OF wr] room cur(1) loop
    by (simp add: buffer_write_def Let_def)
  have "wf_buffer h' ?b'"
    using wf1 heap_same_but_ok [OF same] pos' o sz szend end1(1) same1
    by (simp add: wf_buffer_def word_le_nat_alt)
  then have good: "wr_good h' ?b'"
    using wr1 sz end1(2) end_le by (simp add: wr_good_def wr_buffer_def)
  have content: "buffer_content h' ?b' = overwrite (unat (bu_offset b)) d (buffer_content h b)"
    using overwrite_take [of "unat (bu_offset b)" "unat (bu_size b)" "frag_stream h1 ?frs" d]
      frag_stream_length [OF fok] szend end1(1) off stream sz same1
    by (simp add: buffer_content_def)
  obtain x y where x: "h1 = h @ x" and y: "?frs = bu_fragments b @ y" "\<forall>f\<in>set y. length h \<le> frag_data f"
    using g unfolding grown_def by blast
  have frame: "h' ! i = h ! i" if "i < length h" "i \<notin> frag_data ` set (bu_fragments b)" for i
  proof -
    have "i \<notin> frag_data ` set ?frs" using that y by force
    then have "i \<notin> frag_data ` set (drop ?i ?frs)" by (auto dest: in_set_dropD)
    then show ?thesis using same that x by (simp add: heap_same_but_def nth_append)
  qed
  have len: "length h \<le> length h'" using same x by (simp add: heap_same_but_def)
  have ne: "bu_fragments ?b' \<noteq> []" if "d \<noteq> [] \<or> bu_fragments b \<noteq> []"
    using that end1(1) y(1) by (auto simp: frag_start_def)
  show ?thesis
    by (rule exI [of _ h'], rule exI [of _ ?b'])
      (use eq good content o ne frame len same1(4) y in auto)
qed

section \<open>The source refines an abstract file\<close>

text \<open>What a caller does between the begin and the end of a write, on the abstract file (its
  contents and the write position) and on the source.\<close>

datatype write_op = W bytes | S int whence

fun file_op :: "write_op \<Rightarrow> bytes \<times> nat \<Rightarrow> int \<times> bytes \<times> nat" where
  "file_op (W d) (c, p) = (int (length d), overwrite p d c, p + length d)"
| "file_op (S arg wh) (c, p) =
     (let t = (case wh of SEEK_SET \<Rightarrow> arg | SEEK_CUR \<Rightarrow> int p + arg | SEEK_END \<Rightarrow> int (length c) + arg
               | SEEK_other \<Rightarrow> -1)
      in if t < 0 \<or> t > int (length c) then (-1, c, p) else (0, c, nat t))"

fun source_op :: "write_op \<Rightarrow> 's zip_source \<Rightarrow> int \<times> 's zip_source" where
  "source_op (W d) src = zip_source_write src d"
| "source_op (S arg wh) src = zip_source_seek_write src arg wh"

fun file_ops :: "write_op list \<Rightarrow> bytes \<times> nat \<Rightarrow> int list \<times> bytes \<times> nat" where
  "file_ops [] f = ([], f)"
| "file_ops (w # ws) f = (case file_op w f of (r, f') \<Rightarrow> (case file_ops ws f' of (rs, f'') \<Rightarrow> (r # rs, f'')))"

fun source_ops :: "write_op list \<Rightarrow> 's zip_source \<Rightarrow> int list \<times> 's zip_source" where
  "source_ops [] src = ([], src)"
| "source_ops (w # ws) src =
     (case source_op w src of (r, s') \<Rightarrow> (case source_ops ws s' of (rs, s'') \<Rightarrow> (r # rs, s'')))"

fun op_size :: "write_op \<Rightarrow> nat" where
  "op_size (W d) = length d"
| "op_size (S _ _) = 0"

text \<open>The simulation relation. The buffer being read and the one being written share no block.\<close>

definition writing :: "malloc \<Rightarrow> u64 \<Rightarrow> bytes \<Rightarrow> read_data zip_source \<Rightarrow> bytes \<times> nat \<Rightarrow> bool" where
  "writing mem junk old src f \<longleftrightarrow> buf_source mem junk src \<and> src_write_state src = ZIP_SOURCE_WRITE_OPEN \<and>
     rd_good (src_ud src) \<and> buffer_content (rd_heap (src_ud src)) (rd_in (src_ud src)) = old \<and>
     (\<exists>b. rd_out (src_ud src) = Some b \<and> wr_good (rd_heap (src_ud src)) b \<and>
        buffer_content (rd_heap (src_ud src)) b = fst f \<and> unat (bu_offset b) = snd f \<and>
        \<not> bu_shared_buffer b \<and>
        frag_data ` set (bu_fragments b) \<inter> frag_data ` set (bu_fragments (rd_in (src_ud src))) = {} \<and>
        (fst f \<noteq> [] \<longrightarrow> bu_fragments b \<noteq> []))"

lemma frag_stream_heap_cong:
  "(\<And>f. f \<in> set frs \<Longrightarrow> h' ! frag_data f = h ! frag_data f) \<Longrightarrow> frag_stream h' frs = frag_stream h frs"
  unfolding frag_stream_def frag_bytes_def by (intro arg_cong [of _ _ concat] map_cong) auto

lemma wf_buffer_heap_cong:
  "wf_buffer h b \<Longrightarrow> length h \<le> length h' \<Longrightarrow>
   (\<And>f. f \<in> set (bu_fragments b) \<Longrightarrow> h' ! frag_data f = h ! frag_data f) \<Longrightarrow> wf_buffer h' b"
  by (fastforce simp: wf_buffer_def frags_ok_def)

lemma writing_write:
  assumes "writing mem junk old src f" "mem_buffer mem" "length (fst f) + length d < 2 ^ 61"
  shows "\<exists>src'. source_op (W d) src = (int (length d), src') \<and>
    writing mem junk old src' (overwrite (snd f) d (fst f), snd f + length d)"
proof -
  let ?ctx = "src_ud src"
  obtain b where b: "rd_out ?ctx = Some b" "wr_good (rd_heap ?ctx) b" "\<not> bu_shared_buffer b"
      "buffer_content (rd_heap ?ctx) b = fst f" "unat (bu_offset b) = snd f"
      "frag_data ` set (bu_fragments b) \<inter> frag_data ` set (bu_fragments (rd_in ?ctx)) = {}"
      "fst f \<noteq> [] \<longrightarrow> bu_fragments b \<noteq> []"
    and src: "buf_source mem junk src" "src_write_state src = ZIP_SOURCE_WRITE_OPEN" "rd_good ?ctx"
      "buffer_content (rd_heap ?ctx) (rd_in ?ctx) = old"
    using assms(1) unfolding writing_def by blast
  have wfb: "wf_buffer (rd_heap ?ctx) b" using b(2) by (simp add: wr_good_def wr_buffer_def)
  have "unat (bu_size b) + length d < 2 ^ 61"
    using assms(3) wf_buffer_sizes(1) [OF wfb] b(4) by simp
  from buffer_write_eq [OF b(2) assms(2) this, of junk "rd_error ?ctx"]
  obtain h' b' where w: "buffer_write mem junk (rd_heap ?ctx) b d (rd_error ?ctx) =
        Some (int (length d), h', b', rd_error ?ctx)" "wr_good h' b'"
      "buffer_content h' b' = overwrite (unat (bu_offset b)) d (buffer_content (rd_heap ?ctx) b)"
      "unat (bu_offset b') = unat (bu_offset b) + length d" "bu_shared_buffer b' = bu_shared_buffer b"
      "d \<noteq> [] \<longrightarrow> bu_fragments b' \<noteq> []" "bu_fragments b \<noteq> [] \<longrightarrow> bu_fragments b' \<noteq> []"
      "\<forall>i<length (rd_heap ?ctx). i \<notin> frag_data ` set (bu_fragments b) \<longrightarrow> h' ! i = rd_heap ?ctx ! i"
      "length (rd_heap ?ctx) \<le> length h'"
      "frag_data ` set (bu_fragments b') \<subseteq> frag_data ` set (bu_fragments b) \<union> {length (rd_heap ?ctx)..}"
    by blast
  have inb: "\<forall>g\<in>set (bu_fragments (rd_in ?ctx)). frag_data g < length (rd_heap ?ctx)"
    using src(3) by (auto simp: rd_good_def wf_buffer_def frags_ok_def)
  have blocks: "h' ! frag_data g = rd_heap ?ctx ! frag_data g" if "g \<in> set (bu_fragments (rd_in ?ctx))" for g
    using w(8) inb b(6) that by blast
  have "wf_buffer h' (rd_in ?ctx)"
    using wf_buffer_heap_cong [OF _ w(9) blocks] src(3) by (simp add: rd_good_def)
  moreover have "buffer_content h' (rd_in ?ctx) = old"
    using frag_stream_heap_cong [of "bu_fragments (rd_in ?ctx)" h' "rd_heap ?ctx"] blocks src(4)
    by (simp add: buffer_content_def)
  moreover have "frag_data ` set (bu_fragments b') \<inter> frag_data ` set (bu_fragments (rd_in ?ctx)) = {}"
    using w(10) b(6) inb by fastforce
  moreover have "\<not> int (length d) > uint ZIP_INT64_MAX" using assms(3) by simp
  ultimately show ?thesis
    using src b w assms(3)
    by (auto simp: zip_source_write_def ZIP_SOURCE_IS_OPEN_WRITING_def zip_source_call_def src_invoke_def
        buf_source_def writing_def rd_good_def overwrite_def)
qed

lemma writing_position:
  "writing mem junk old src f \<Longrightarrow> snd f \<le> length (fst f)"
  unfolding writing_def wr_good_def wr_buffer_def
  using wf_buffer_sizes by (metis (no_types, lifting))

lemma writing_seek:
  assumes "writing mem junk old src f" "fst f \<noteq> []" "length (fst f) < 2 ^ 61"
  shows "\<exists>src' r f'. source_op (S arg wh) src = (r, src') \<and> file_op (S arg wh) f = (r, f') \<and>
    writing mem junk old src' f' \<and> fst f' = fst f"
proof -
  let ?ctx = "src_ud src"
  obtain b where b: "rd_out ?ctx = Some b" "wr_good (rd_heap ?ctx) b" "\<not> bu_shared_buffer b"
      "buffer_content (rd_heap ?ctx) b = fst f" "unat (bu_offset b) = snd f"
      "frag_data ` set (bu_fragments b) \<inter> frag_data ` set (bu_fragments (rd_in ?ctx)) = {}"
      "bu_fragments b \<noteq> []"
    and src: "buf_source mem junk src" "src_write_state src = ZIP_SOURCE_WRITE_OPEN" "rd_good ?ctx"
      "buffer_content (rd_heap ?ctx) (rd_in ?ctx) = old"
    using assms(1,2) unfolding writing_def by blast
  have wfb: "wf_buffer (rd_heap ?ctx) b" using b(2) by (simp add: wr_good_def wr_buffer_def)
  have u: "uint (bu_offset b) = int (snd f)" "uint (bu_size b) = int (length (fst f))"
    using wf_buffer_sizes(1) [OF wfb] b(4,5) by (simp_all only: uint_nat)
  obtain off e where so: "zip_source_seek_compute_offset (bu_offset b) (bu_size b) arg wh (rd_error ?ctx) = (off, e)"
    by (metis prod.exhaust)
  obtain c p where f: "f = (c, p)" by (cases f)
  show ?thesis
  proof (cases "off < 0")
    case True
    then have "off = -1" "file_op (S arg wh) f = (-1, f)"
      using so u f by (auto simp: zip_source_seek_compute_offset_def Let_def split: whence.splits if_splits)
    then show ?thesis
      using True so src b assms(1) f
      by (cases "wh = SEEK_other")
        (auto simp: zip_source_seek_write_def ZIP_SOURCE_IS_OPEN_WRITING_def zip_source_call_def
          src_invoke_def buf_source_def buffer_seek_def writing_def rd_good_def src_fetch_error_def
          src_set_error_def)
  next
    case False
    then have fo: "file_op (S arg wh) f = (0, (c, nat off))" "wh \<noteq> SEEK_other"
      using so u f by (auto simp: zip_source_seek_compute_offset_def Let_def split: whence.splits if_splits)
    obtain b' where b': "buffer_seek b arg wh (rd_error ?ctx) = Some (0, b', e)"
      "wf_buffer (rd_heap ?ctx) b'" "uint (bu_offset b') = off"
      "buffer_content (rd_heap ?ctx) b' = buffer_content (rd_heap ?ctx) b" "bu_fragments b' = bu_fragments b"
      using buffer_seek_at [OF wfb b(7) so] False by auto
    have "unat (bu_offset b') = nat off" using b'(3) by (simp flip: nat_uint_eq)
    moreover have rest: "bu_size b' = bu_size b" "bu_fragment_offsets b' = bu_fragment_offsets b"
      "bu_fragments_capacity b' = bu_fragments_capacity b" "bu_shared_buffer b' = bu_shared_buffer b"
      using b'(1) so False by (auto simp: buffer_seek_def Let_def split: option.splits)
    moreover have "wr_good (rd_heap ?ctx) b'"
      using b(2) b' rest by (simp add: wr_good_def wr_buffer_def)
    ultimately have "writing mem junk old (src\<lparr>src_ud := ?ctx\<lparr>rd_out := Some b', rd_error := e\<rparr>\<rparr>) (c, nat off)"
      using src b b' f by (simp add: writing_def buf_source_def rd_good_def)
    then show ?thesis
      using fo b' src b f
      by (simp add: zip_source_seek_write_def ZIP_SOURCE_IS_OPEN_WRITING_def zip_source_call_def
          src_invoke_def buf_source_def)
  qed
qed

text \<open>A seek is only safe once something has been written: \<open>buffer_find_fragment\<close> is not made
  for a buffer without fragments.\<close>

fun seek_safe :: "write_op list \<Rightarrow> bytes \<times> nat \<Rightarrow> bool" where
  "seek_safe [] f = True"
| "seek_safe (W d # ws) f = seek_safe ws (snd (file_op (W d) f))"
| "seek_safe (S arg wh # ws) f = (fst f \<noteq> [] \<and> seek_safe ws (snd (file_op (S arg wh) f)))"

lemma writing_ops:
  "writing mem junk old src f \<Longrightarrow> mem_buffer mem \<Longrightarrow> seek_safe ws f \<Longrightarrow>
   length (fst f) + sum_list (map op_size ws) < 2 ^ 61 \<Longrightarrow>
   \<exists>src'. source_ops ws src = (fst (file_ops ws f), src') \<and>
     writing mem junk old src' (snd (file_ops ws f))"
proof (induction ws arbitrary: src f)
  case Nil
  then show ?case by simp
next
  case (Cons w ws)
  obtain c p where f: "f = (c, p)" by (cases f)
  show ?case
  proof (cases w)
    case (W d)
    obtain src' where 1: "source_op (W d) src = (int (length d), src')"
      "writing mem junk old src' (overwrite p d c, p + length d)"
      using writing_write [OF Cons.prems(1,2), of d] Cons.prems(4) W f by auto
    have "p \<le> length c" using writing_position [OF Cons.prems(1)] f by simp
    then have "length (overwrite p d c) \<le> length c + length d" by (simp add: overwrite_def)
    then show ?thesis
      using Cons.IH [OF 1(2) Cons.prems(2)] Cons.prems(3,4) 1(1) W f by (auto split: prod.splits)
  next
    case (S arg wh)
    have "fst f \<noteq> []" "length (fst f) < 2 ^ 61" using Cons.prems(3,4) S by auto
    from writing_seek [OF Cons.prems(1) this, of arg wh]
    obtain src' r f' where 1: "source_op (S arg wh) src = (r, src')" "file_op (S arg wh) f = (r, f')"
      "writing mem junk old src' f'" "fst f' = fst f" by blast
    then show ?thesis
      using Cons.IH [OF 1(3) Cons.prems(2)] Cons.prems(3,4) S by (auto split: prod.splits)
  qed
qed

lemma begin_write_writing:
  assumes "buf_source mem junk src" "src_write_state src = ZIP_SOURCE_WRITE_CLOSED"
    and "rd_good (src_ud src)" "mem_buffer mem"
  shows "\<exists>src'. zip_source_begin_write src = (0, src') \<and> src_open_count src' = src_open_count src \<and>
    writing mem junk (buffer_content (rd_heap (src_ud src)) (rd_in (src_ud src))) src' ([], 0)"
proof -
  have "wr_good h (buffer_empty\<lparr>bu_fragment_offsets := [0]\<rparr>)" for h
    by (simp add: wr_good_def wr_buffer_def wf_buffer_def buffer_empty_def frags_ok_def at_pos_def)
  moreover have "wr_good h (buffer_empty\<lparr>bu_fragment_offsets := [0], bu_offset := 0, bu_current_fragment := 0\<rparr>)" for h
    using calculation [of h] by (simp add: buffer_empty_def)
  ultimately show ?thesis
    using assms
    by (auto simp: zip_source_begin_write_def ZIP_SOURCE_IS_OPEN_WRITING_def zip_source_call_def
        src_invoke_def buf_source_def writing_def buffer_new_def mem_buffer_def rd_good_def
        buffer_content_def buffer_empty_def)
qed

lemma writing_commit:
  assumes "writing mem junk old src f" "src_open_count src = 0"
  shows "\<exists>src'. zip_source_commit_write src = (0, src') \<and> buf_source mem junk src' \<and>
    rd_good (src_ud src') \<and> src_open_count src' = 0 \<and>
    buffer_content (rd_heap (src_ud src')) (rd_in (src_ud src')) = fst f"
proof -
  obtain b where b: "rd_out (src_ud src) = Some b" "wr_good (rd_heap (src_ud src)) b"
    "buffer_content (rd_heap (src_ud src)) b = fst f"
    using assms(1) unfolding writing_def by blast
  have "wf_buffer (rd_heap (src_ud src)) (buffer_unshare x b)" "buffer_content h (buffer_unshare x b) = buffer_content h b"
    for x h
    using b(2) by (auto simp: wr_good_def wr_buffer_def wf_buffer_def buffer_unshare_def
        buffer_content_def split: option.splits)
  then show ?thesis
    using assms b
    by (auto simp: writing_def zip_source_commit_write_def ZIP_SOURCE_IS_OPEN_WRITING_def
        ZIP_SOURCE_IS_OPEN_READING_def zip_source_call_def src_invoke_def buf_source_def rd_good_def)
qed

lemma writing_rollback:
  assumes "writing mem junk old src f" "src_open_count src = 0"
  defines "src' \<equiv> zip_source_rollback_write src"
  shows "buf_source mem junk src'" "rd_good (src_ud src')" "src_open_count src' = 0"
    "buffer_content (rd_heap (src_ud src')) (rd_in (src_ud src')) = old"
  using assms
  by (auto simp: writing_def zip_source_rollback_write_def zip_source_call_def src_invoke_def
      buf_source_def rd_good_def buffer_unshare_def)

lemma source_ops_open_count:
  "buf_source mem junk src \<Longrightarrow> src_open_count (snd (source_ops ws src)) = src_open_count src"
proof (induction ws arbitrary: src)
  case (Cons w ws)
  have "src_same src (snd (source_op w src))"
    by (cases w) (auto simp: zip_source_write_def zip_source_seek_write_def src_same_simps
        split: prod.splits intro: zip_source_call_same)
  then have "buf_source mem junk (snd (source_op w src))"
    "src_open_count (snd (source_op w src)) = src_open_count src"
    using Cons.prems by (auto simp: buf_source_def src_same_fields)
  then show ?case
    using Cons.IH [of "snd (source_op w src)"]
    by (cases "source_op w src"; cases "source_ops ws (snd (source_op w src))") simp
qed simp

lemma open_source_reads:
  assumes "buf_source mem junk src" "rd_good (src_ud src)" "src_open_count src = 0" "len \<le> ZIP_INT64_MAX"
  defines "c \<equiv> buffer_content (rd_heap (src_ud src)) (rd_in (src_ud src))"
  shows "fst (zip_source_open src) = 0"
    and "fst (snd (zip_source_read (snd (zip_source_open src)) len)) = take (unat len) c"
    and "fst (zip_source_read (snd (zip_source_open src)) len) = int (min (unat len) (length c))"
proof -
  note op = buffer_source_open [OF assms(1-3)]
  show "fst (zip_source_open src) = 0" by (rule op(1))
  have "src_cb (snd (zip_source_open src)) = read_data_cb mem junk" using op(3) by (simp add: buf_source_def)
  from buf_src.read_delivers [OF this op(2) assms(4)]
  show "fst (snd (zip_source_read (snd (zip_source_open src)) len)) = take (unat len) c"
    "fst (zip_source_read (snd (zip_source_open src)) len) = int (min (unat len) (length c))"
    by (auto simp: c_def min.commute)
qed

section \<open>What the component promises\<close>



text \<open>C9. Rewriting a buffer source refines the abstract file: after a successful begin, any
  sequence of writes and seeks (none before the first byte is written) returns what it returns on
  the abstract file, and after the commit the source reads as that file's contents.\<close>

theorem buffer_source_write_refines:
  assumes "zip_source_buffer_fragment_create mem junk now (Some fs) n freep err = (Some src, err')"
    and "list_all frag_arg_ok fs" and "length (concat (map (the \<circ> fst) fs)) < 2 ^ 64"
    and "mem_buffer mem" and "seek_safe ws ([], 0)" and "sum_list (map op_size ws) < 2 ^ 61"
    and "len \<le> ZIP_INT64_MAX"
  shows "fst (zip_source_begin_write src) = 0 \<and>
    (case source_ops ws (snd (zip_source_begin_write src)) of
       (results, s) \<Rightarrow> results = fst (file_ops ws ([], 0)) \<and>
         (case zip_source_commit_write s of
            (r, s') \<Rightarrow> r = 0 \<and> fst (zip_source_open s') = 0 \<and>
              fst (snd (zip_source_read (snd (zip_source_open s')) len)) =
                take (unat len) (fst (snd (file_ops ws ([], 0))))))"
proof -
  note cr = buffer_source_created [OF assms(1-3)]
  obtain s1 where s1: "zip_source_begin_write src = (0, s1)" "src_open_count s1 = 0"
    "writing mem junk (concat (map (the \<circ> fst) fs)) s1 ([], 0)"
    using begin_write_writing [OF cr(1,2,4) assms(4)] cr(3,6) by auto
  obtain s2 where s2: "source_ops ws s1 = (fst (file_ops ws ([], 0)), s2)"
    "writing mem junk (concat (map (the \<circ> fst) fs)) s2 (snd (file_ops ws ([], 0)))"
    using writing_ops [OF s1(3) assms(4,5)] assms(6) by auto
  have "src_open_count s2 = 0"
    using source_ops_open_count [of mem junk s1 ws] s1(2,3) s2(1) by (simp add: writing_def)
  then obtain s3 where s3: "zip_source_commit_write s2 = (0, s3)" "buf_source mem junk s3"
    "rd_good (src_ud s3)" "src_open_count s3 = 0"
    "buffer_content (rd_heap (src_ud s3)) (rd_in (src_ud s3)) = fst (snd (file_ops ws ([], 0)))"
    using writing_commit [OF s2(2)] by blast
  show ?thesis
    using s1(1) s2(1) s3(1,5) open_source_reads [OF s3(2-4) assms(7)] by simp
qed

lemma buffer_source_write_refines_witness:
  "\<exists>src :: read_data zip_source. case source_ops [W [1, 2], S 0 SEEK_SET, W [9]] (snd (zip_source_begin_write src)) of
     (results, s) \<Rightarrow> results = [2, 0, 1] \<and>
       fst (snd (zip_source_read (snd (zip_source_open (snd (zip_source_commit_write s)))) 4)) = [9, 2]"
proof -
  let ?ws = "[W [1, 2], S 0 SEEK_SET, W [9]]"
  have f: "file_ops ?ws ([], 0) = ([2, 0, 1], [9, 2], 1)" and safe: "seek_safe ?ws ([], 0)"
    by (simp_all add: overwrite_def)
  have "\<exists>src. zip_source_buffer_fragment_create malloc_ok 7 0 (Some []) 0 False zip_error_init =
      (Some src, zip_error_init)"
    by (simp add: zip_source_buffer_fragment_create_def buffer_new_def frag_args_def
        zip_source_function_create_def zip_source_new_def)
  then obtain src where src: "zip_source_buffer_fragment_create malloc_ok 7 0 (Some []) 0 False
      zip_error_init = (Some src, zip_error_init)" by blast
  have "case source_ops ?ws (snd (zip_source_begin_write src)) of
     (results, s) \<Rightarrow> results = [2, 0, 1] \<and>
       fst (snd (zip_source_read (snd (zip_source_open (snd (zip_source_commit_write s)))) 4)) = [9, 2]"
    using buffer_source_write_refines [OF src _ _ _ safe, of 4] unfolding f
    by (auto simp: mem_buffer_def simp del: source_ops.simps split: prod.splits)
  then show ?thesis by (rule exI)
qed




end
