(* ===== verification/Zip_Extra_Field.thy ===== *)
theory Zip_Extra_Field
  imports Zip_Io Zip_Source_Buffer_File
begin

text \<open>
  \<open>zip_extra_field.c\<close>: the linked list of extra fields of a directory entry as a list, and its
  external form. \<open>_zip_read_local_ef\<close>, which works on the archive, is in \<open>Zip_Extra_Api\<close>.
\<close>

section \<open>Extra fields\<close>

record zip_extra_field =
  ef_flags :: u32
  ef_id :: u16
  ef_size :: u16
  ef_data :: bytes

abbreviation ZIP_EF_LOCAL :: u32 where "ZIP_EF_LOCAL \<equiv> 0x100"
abbreviation ZIP_EF_CENTRAL :: u32 where "ZIP_EF_CENTRAL \<equiv> 0x200"
abbreviation ZIP_EF_BOTH :: u32 where "ZIP_EF_BOTH \<equiv> 0x300"
abbreviation ZIP_EF_UTF_8_COMMENT :: u16 where "ZIP_EF_UTF_8_COMMENT \<equiv> 0x6375"
abbreviation ZIP_EF_UTF_8_NAME :: u16 where "ZIP_EF_UTF_8_NAME \<equiv> 0x7075"
abbreviation ZIP_EF_WINZIP_AES :: u16 where "ZIP_EF_WINZIP_AES \<equiv> 0x9901"
abbreviation ZIP_EF_ZIP64 :: u16 where "ZIP_EF_ZIP64 \<equiv> 0x0001"
abbreviation ZIP_EXTRA_FIELD_ALL :: u16 where "ZIP_EXTRA_FIELD_ALL \<equiv> 0xffff"

definition ZIP_EF_IS_INTERNAL :: "u16 \<Rightarrow> bool" where
  "ZIP_EF_IS_INTERNAL i = (i = ZIP_EF_UTF_8_COMMENT \<or> i = ZIP_EF_UTF_8_NAME \<or> i = ZIP_EF_WINZIP_AES \<or>
     i = ZIP_EF_ZIP64)"

definition ef_in :: "u32 \<Rightarrow> zip_extra_field \<Rightarrow> bool" where
  "ef_in flags ef = (ef_flags ef AND flags AND ZIP_EF_BOTH \<noteq> 0)"

definition zip_ef_new :: "malloc \<Rightarrow> u16 \<Rightarrow> u16 \<Rightarrow> bytes \<Rightarrow> u32 \<Rightarrow> zip_extra_field option" where
  "zip_ef_new mem i sz data flags =
     (if \<not> mem A_ef then None
      else if sz > 0
      then if \<not> mem A_ef_data then None
           else Some \<lparr>ef_flags = flags, ef_id = i, ef_size = sz, ef_data = take (unat sz) data\<rparr>
      else Some \<lparr>ef_flags = flags, ef_id = i, ef_size = 0, ef_data = []\<rparr>)"

fun zip_ef_clone :: "malloc \<Rightarrow> zip_extra_field list \<Rightarrow> zip_error \<Rightarrow> zip_extra_field list option \<times> zip_error" where
  "zip_ef_clone mem [] err = (Some [], err)"
| "zip_ef_clone mem (ef # efs) err =
     (case zip_ef_new mem (ef_id ef) (ef_size ef) (ef_data ef) (ef_flags ef) of
        None \<Rightarrow> (None, zip_error_set err ZIP_ER_MEMORY 0)
      | Some d \<Rightarrow> (case zip_ef_clone mem efs err of
                     (None, err') \<Rightarrow> (None, err')
                   | (Some ds, err') \<Rightarrow> (Some (d # ds), err')))"

text \<open>\<open>i\<close> counts the fields that matched so far.\<close>

fun ef_delete_loop :: "zip_extra_field list \<Rightarrow> u16 \<Rightarrow> u16 \<Rightarrow> u32 \<Rightarrow> nat \<Rightarrow> zip_extra_field list" where
  "ef_delete_loop [] i idx flags k = []"
| "ef_delete_loop (ef # efs) i idx flags k =
     (if ef_in flags ef \<and> (ef_id ef = i \<or> i = ZIP_EXTRA_FIELD_ALL)
      then let hit = (idx = ZIP_EXTRA_FIELD_ALL \<or> k = unat idx);
               ef' = (if hit then ef\<lparr>ef_flags := ef_flags ef AND NOT (flags AND ZIP_EF_BOTH)\<rparr> else ef);
               gone = (hit \<and> ef_flags ef' AND ZIP_EF_BOTH = 0)
           in if gone \<and> idx = ZIP_EXTRA_FIELD_ALL then ef_delete_loop efs i idx flags k
              else let rest = (if Suc k > unat idx then efs else ef_delete_loop efs i idx flags (Suc k))
                   in if gone then rest else ef' # rest
      else ef # ef_delete_loop efs i idx flags k)"

definition zip_ef_delete_by_id ::
  "zip_extra_field list \<Rightarrow> u16 \<Rightarrow> u16 \<Rightarrow> u32 \<Rightarrow> zip_extra_field list" where
  "zip_ef_delete_by_id efs i idx flags = ef_delete_loop efs i idx flags 0"

fun ef_get_loop :: "zip_extra_field list \<Rightarrow> u16 \<Rightarrow> u16 \<Rightarrow> u32 \<Rightarrow> nat \<Rightarrow> zip_extra_field option" where
  "ef_get_loop [] i idx flags k = None"
| "ef_get_loop (ef # efs) i idx flags k =
     (if ef_id ef = i \<and> ef_in flags ef
      then if k < unat idx then ef_get_loop efs i idx flags (Suc k) else Some ef
      else ef_get_loop efs i idx flags k)"

text \<open>The data found and its length, which go to \<open>lenp\<close>; an empty field gives an empty string.\<close>

definition zip_ef_get_by_id ::
  "zip_extra_field list \<Rightarrow> u16 \<Rightarrow> u16 \<Rightarrow> u32 \<Rightarrow> zip_error \<Rightarrow> (bytes \<times> u16) option \<times> zip_error" where
  "zip_ef_get_by_id efs i idx flags err =
     (case ef_get_loop efs i idx flags 0 of
        None \<Rightarrow> (None, zip_error_set err ZIP_ER_NOENT 0)
      | Some ef \<Rightarrow> (Some (if ef_size ef > 0 then ef_data ef else [], ef_size ef), err))"

definition ef_same :: "zip_extra_field \<Rightarrow> zip_extra_field \<Rightarrow> bool" where
  "ef_same a b = (ef_id a = ef_id b \<and> ef_size a = ef_size b \<and> (ef_size a = 0 \<or> ef_data a = ef_data b))"

text \<open>One field is merged into the list: the flags go to the first equal field.\<close>

fun ef_merge_one :: "zip_extra_field list \<Rightarrow> zip_extra_field \<Rightarrow> zip_extra_field list" where
  "ef_merge_one [] from = [from]"
| "ef_merge_one (tt # tts) from =
     (if ef_same tt from then tt\<lparr>ef_flags := ef_flags tt OR (ef_flags from AND ZIP_EF_BOTH)\<rparr> # tts
      else tt # ef_merge_one tts from)"

definition zip_ef_merge :: "zip_extra_field list \<Rightarrow> zip_extra_field list \<Rightarrow> zip_extra_field list" where
  "zip_ef_merge to from = (if to = [] then from else foldl ef_merge_one to from)"

fun zip_ef_remove_internal :: "zip_extra_field list \<Rightarrow> zip_extra_field list" where
  "zip_ef_remove_internal [] = []"
| "zip_ef_remove_internal (ef # efs) =
     (if ZIP_EF_IS_INTERNAL (ef_id ef) then zip_ef_remove_internal efs
      else ef # zip_ef_remove_internal efs)"

definition zip_ef_size :: "zip_extra_field list \<Rightarrow> u32 \<Rightarrow> u16" where
  "zip_ef_size efs flags = foldl (\<lambda>s ef. if ef_in flags ef then s + 4 + ef_size ef else s) 0 efs"

section \<open>External form\<close>

lemma zip_buffer_get_left:
  "zip_buffer_get b len = (Some p, b') \<Longrightarrow>
     unat (zip_buffer_left b') + unat len = unat (zip_buffer_left b) \<and> buf_ok b'"
  "zip_buffer_get b len = (None, b') \<Longrightarrow> zip_buffer_left b' = 0 \<and> \<not> buf_ok b'"
proof -
  assume get: "zip_buffer_get b len = (Some p, b')"
  then have b': "b' = b\<lparr>buf_offset := buf_offset b + len\<rparr>" "buf_ok b"
    and ok: "\<not> (buf_offset b + len < len \<or> buf_size b < buf_offset b + len)"
    by (auto simp: zip_buffer_get_def zip_buffer_peek_def split: if_splits)
  then have sum: "unat (buf_offset b) + unat len \<le> unat (buf_size b)"
    using add_out_of_bounds [of "buf_offset b" len "buf_size b"] by simp
  then have "unat (buf_offset b + len) = unat (buf_offset b) + unat len"
    using unat_bounds(4) [of "buf_size b"] by (simp add: unat_word_ariths)
  then have "unat (buf_size b - (buf_offset b + len)) = unat (buf_size b) - (unat (buf_offset b) + unat len)"
    "unat (buf_size b - buf_offset b) = unat (buf_size b) - unat (buf_offset b)"
    using sum by (subst unat_sub; simp add: word_le_nat_alt)+
  then show "unat (zip_buffer_left b') + unat len = unat (zip_buffer_left b) \<and> buf_ok b'"
    using b' sum by (simp add: zip_buffer_left_def)
next
  assume "zip_buffer_get b len = (None, b')"
  then show "zip_buffer_left b' = 0 \<and> \<not> buf_ok b'"
    by (auto simp: zip_buffer_get_def zip_buffer_peek_def zip_buffer_left_def split: if_splits)
qed

lemma zip_buffer_get_16_left:
  "unat (zip_buffer_left (snd (zip_buffer_get_16 b))) = unat (zip_buffer_left b) - 2 \<or>
   zip_buffer_left (snd (zip_buffer_get_16 b)) = 0 \<and> \<not> buf_ok (snd (zip_buffer_get_16 b))"
proof (cases "zip_buffer_get b 2")
  case (Pair r b')
  show ?thesis
  proof (cases r)
    case None
    then show ?thesis using zip_buffer_get_left(2) [of b 2 b'] Pair by (simp add: zip_buffer_get_16_def)
  next
    case (Some p)
    then have "unat (zip_buffer_left b') + 2 = unat (zip_buffer_left b)"
      using zip_buffer_get_left(1) [of b 2 p b'] Pair by simp
    then show ?thesis using Pair Some by (simp add: zip_buffer_get_16_def Let_def) linarith
  qed
qed

text \<open>The loop of \<open>_zip_ef_parse\<close>: the fields so far, and the buffer behind them.\<close>

function ef_parse_loop ::
  "malloc \<Rightarrow> u32 \<Rightarrow> zip_buffer \<Rightarrow> zip_extra_field list \<Rightarrow> zip_error \<Rightarrow>
   (zip_extra_field list \<times> zip_buffer) option \<times> zip_error" where
  "ef_parse_loop mem flags b efs err =
     (if zip_buffer_ok b \<and> zip_buffer_left b \<ge> 4
      then let (fid, b1) = zip_buffer_get_16 b;
               (flen, b2) = zip_buffer_get_16 b1
           in case zip_buffer_get b2 (ucast flen) of
                (None, _) \<Rightarrow> (None, zip_error_set err ZIP_ER_INCONS 0)
              | (Some p, b3) \<Rightarrow>
                  (case zip_ef_new mem fid flen (buf_bytes b3 p (unat flen)) flags of
                     None \<Rightarrow> (None, zip_error_set err ZIP_ER_MEMORY 0)
                   | Some ef \<Rightarrow> ef_parse_loop mem flags b3 (efs @ [ef]) err)
      else (Some (efs, b), err))"
  by pat_completeness auto
termination
proof (relation "measure (\<lambda>(_, _, b, _, _). unat (zip_buffer_left b))", goal_cases)
  case (2 mem flags b efs err x fid b1 y flen b2 r b3 p ef)
  have b12: "b1 = snd (zip_buffer_get_16 b)" "b2 = snd (zip_buffer_get_16 b1)"
    using 2(2-5) by (metis snd_conv)+
  have "4 \<le> unat (zip_buffer_left b)" using 2(1) by (simp add: word_le_nat_alt)
  moreover have "unat (zip_buffer_left b1) = unat (zip_buffer_left b) - 2 \<or> unat (zip_buffer_left b1) = 0"
    using zip_buffer_get_16_left [of b] b12 by auto
  moreover have "unat (zip_buffer_left b2) \<le> unat (zip_buffer_left b1)"
    using zip_buffer_get_16_left [of b1] b12 by auto
  moreover have "unat (zip_buffer_left b3) \<le> unat (zip_buffer_left b2)"
    using zip_buffer_get_left(1) [of b2 "ucast flen" p b3] 2(6,7) by auto
  ultimately show ?case by auto
qed simp

text \<open>The result list goes to \<open>ef_head_p\<close>. Fewer than four trailing zero bytes are tolerated.\<close>

definition zip_ef_parse ::
  "malloc \<Rightarrow> bytes \<Rightarrow> u16 \<Rightarrow> u32 \<Rightarrow> zip_error \<Rightarrow> zip_extra_field list option \<times> zip_error" where
  "zip_ef_parse mem data len flags err =
     (case zip_buffer_new mem (Some data) (ucast len) of
        None \<Rightarrow> (None, zip_error_set err ZIP_ER_MEMORY 0)
      | Some b \<Rightarrow>
          (case ef_parse_loop mem flags b [] err of
             (None, err') \<Rightarrow> (None, err')
           | (Some (efs, b'), err') \<Rightarrow>
               if \<not> zip_buffer_eof b'
               then let glen = zip_buffer_left b'
                    in case zip_buffer_get b' glen of
                         (None, _) \<Rightarrow> (None, zip_error_set err' ZIP_ER_INCONS 0)
                       | (Some p, b'') \<Rightarrow>
                           if glen \<ge> 4 \<or> buf_bytes b'' p (unat glen) \<noteq> replicate (unat glen) 0
                           then (None, zip_error_set err' ZIP_ER_INCONS 0)
                           else (Some efs, err')
               else (Some efs, err')))"

fun ef_write_loop :: "'s writer \<Rightarrow> zip_buffer \<Rightarrow> zip_extra_field list \<Rightarrow> u32 \<Rightarrow> int \<times> 's writer" where
  "ef_write_loop za b [] flags = (0, za)"
| "ef_write_loop za b (ef # efs) flags =
     (if ef_in flags ef
      then let b1 = snd (zip_buffer_set_offset b 0);
               b2 = snd (zip_buffer_put_16 b1 (ef_id ef));
               b3 = snd (zip_buffer_put_16 b2 (ef_size ef))
           in if \<not> zip_buffer_ok b3
              then (-1, (fst za, zip_error_set (snd za) ZIP_ER_INTERNAL 0))
              else case zip_write za (buf_bytes b3 0 4) of
                     (r, za1) \<Rightarrow>
                       if r < 0 then (-1, za1)
                       else if ef_size ef > 0
                       then case zip_write za1 (ef_data ef) of
                              (r', za2) \<Rightarrow> if r' < 0 then (-1, za2) else ef_write_loop za2 b3 efs flags
                       else ef_write_loop za1 b3 efs flags
      else ef_write_loop za b efs flags)"

definition zip_ef_write :: "malloc \<Rightarrow> 's writer \<Rightarrow> zip_extra_field list \<Rightarrow> u32 \<Rightarrow> int \<times> 's writer" where
  "zip_ef_write mem za efs flags =
     (case zip_buffer_new mem (Some (replicate 4 0)) 4 of
        None \<Rightarrow> (-1, za)
      | Some b \<Rightarrow> ef_write_loop za b efs flags)"

declare ef_parse_loop.simps [simp del]

section \<open>The external form as a function\<close>

definition ef_wf :: "zip_extra_field \<Rightarrow> bool" where
  "ef_wf ef \<longleftrightarrow> length (ef_data ef) = unat (ef_size ef)"

definition ef_enc :: "zip_extra_field \<Rightarrow> bytes" where
  "ef_enc ef = le16 (ef_id ef) @ le16 (ef_size ef) @ ef_data ef"

definition ef_encs :: "zip_extra_field list \<Rightarrow> bytes" where
  "ef_encs efs = concat (map ef_enc efs)"

definition ef_bytes :: "u32 \<Rightarrow> zip_extra_field list \<Rightarrow> bytes" where
  "ef_bytes flags efs = ef_encs (filter (ef_in flags) efs)"

lemma ef_encs_simps [simp]: "ef_encs [] = []" "ef_encs (ef # efs) = ef_enc ef @ ef_encs efs"
  "ef_encs (efs @ efs') = ef_encs efs @ ef_encs efs'"
  by (simp_all add: ef_encs_def)

lemma ef_bytes_simps [simp]: "ef_bytes flags [] = []"
  "ef_bytes flags (ef # efs) = (if ef_in flags ef then ef_enc ef else []) @ ef_bytes flags efs"
  by (simp_all add: ef_bytes_def)

lemma ef_enc_length: "ef_wf ef \<Longrightarrow> length (ef_enc ef) = 4 + unat (ef_size ef)"
  by (simp add: ef_enc_def ef_wf_def)

text \<open>The computed size is the length of the external form, modulo its 16 bits.\<close>

lemma zip_ef_size_eq:
  "list_all ef_wf efs \<Longrightarrow> zip_ef_size efs flags = of_nat (length (ef_bytes flags efs))"
proof -
  have "list_all ef_wf efs \<Longrightarrow>
      foldl (\<lambda>s ef. if ef_in flags ef then s + 4 + ef_size ef else s) n efs =
      n + of_nat (length (ef_bytes flags efs))" for n :: u16
    by (induction efs arbitrary: n) (auto simp: ef_enc_length)
  then show "list_all ef_wf efs \<Longrightarrow> ?thesis" by (simp add: zip_ef_size_def)
qed

section \<open>Parsing\<close>

text \<open>One turn of the loop on a buffer that holds at least a header.\<close>

lemma buf_from_ok: "buf_from b r \<Longrightarrow> zip_buffer_ok b \<and> unat (zip_buffer_left b) = length r"
  by (simp add: buf_from_def zip_buffer_ok_def zip_buffer_left_eq)

lemma zip_ef_new_eq:
  "mem A_ef \<Longrightarrow> mem A_ef_data \<Longrightarrow>
   zip_ef_new mem i sz data flags = Some \<lparr>ef_flags = flags, ef_id = i, ef_size = sz, ef_data = take (unat sz) data\<rparr>"
  by (auto simp: zip_ef_new_def word_neq_0_conv [symmetric])

lemma le16_cases: "\<exists>x. [a, b] = le16 x"
proof
  let ?x = "ucast a OR push_bit 8 (ucast b) :: u16"
  have "ucast ?x = a" "ucast (drop_bit 8 ?x) = b"
    by (rule bit_word_eqI; auto simp: bit_simps dest: bit_imp_le_length)+
  then show "[a, b] = le16 ?x" by (simp add: le16_def)
qed

lemma le16_inj: "le16 x = le16 y \<Longrightarrow> x = y"
proof -
  assume "le16 x = le16 y"
  then have eq: "(ucast x :: u8) = ucast y" "(ucast (drop_bit 8 x) :: u8) = ucast (drop_bit 8 y)"
    by (simp_all add: le16_def)
  have "x = ucast (ucast x :: u8) + push_bit 8 (ucast (ucast (drop_bit 8 x) :: u8))"
    by (rule join16 [symmetric])
  also have "\<dots> = y" unfolding eq by (rule join16)
  finally show ?thesis .
qed

lemma ef_parse_header:
  assumes "buf_from b (le16 i @ le16 sz @ r)"
  shows "\<exists>b1 b2. zip_buffer_get_16 b = (i, b1) \<and> zip_buffer_get_16 b1 = (sz, b2) \<and> buf_from b2 r"
  using f16.get_from [OF assms] f16.get_from [OF f16.get_from(2) [OF assms]]
  by (metis prod.collapse)

lemma ef_encs_Cons_eq:
  assumes "le16 i @ le16 sz @ r = ef_encs (ef # efs) @ pad" "ef_wf ef"
  shows "ef_id ef = i" "ef_size ef = sz" "r = ef_data ef @ ef_encs efs @ pad"
  using assms by (auto simp: ef_enc_def dest: le16_inj)

text \<open>The loop recognises exactly the concatenations of fields, up to a remainder of less than
  four bytes.\<close>

lemma ef_parse_loop_spec:
  "buf_from b r \<Longrightarrow> mem A_ef \<Longrightarrow> mem A_ef_data \<Longrightarrow>
   (\<exists>efs' pad b'. r = ef_encs efs' @ pad \<and> length pad < 4 \<and> list_all ef_wf efs' \<and>
      list_all (\<lambda>ef. ef_flags ef = flags) efs' \<and>
      ef_parse_loop mem flags b efs err = (Some (efs @ efs', b'), err) \<and> buf_from b' pad) \<or>
   ef_parse_loop mem flags b efs err = (None, zip_error_set err ZIP_ER_INCONS 0) \<and>
   (\<forall>efs' pad. list_all ef_wf efs' \<longrightarrow> length pad < 4 \<longrightarrow> r \<noteq> ef_encs efs' @ pad)"
proof (induction "length r" arbitrary: b r efs rule: less_induct)
  case less
  note ok = buf_from_ok [OF less.prems(1)]
  show ?case
  proof (cases "length r < 4")
    case True
    then have "ef_parse_loop mem flags b efs err = (Some (efs, b), err)"
      using ok by (subst ef_parse_loop.simps) (simp add: word_le_nat_alt)
    then show ?thesis
      using True less.prems(1) by (intro disjI1 exI [of _ "[]"] exI [of _ r]) auto
  next
    case False
    then obtain a1 a2 a3 a4 r' where "r = a1 # a2 # a3 # a4 # r'"
      by (cases r; cases "tl r"; cases "tl (tl r)"; cases "tl (tl (tl r))") auto
    moreover obtain i where "[a1, a2] = le16 i" using le16_cases by blast
    moreover obtain sz where "[a3, a4] = le16 sz" using le16_cases by blast
    moreover have "a1 # a2 # a3 # a4 # r' = [a1, a2] @ [a3, a4] @ r'" by simp
    ultimately have r: "r = le16 i @ le16 sz @ r'" by (simp only:)
    obtain b1 b2 where b2: "zip_buffer_get_16 b = (i, b1)" "zip_buffer_get_16 b1 = (sz, b2)" "buf_from b2 r'"
      using ef_parse_header [of b i sz r'] less.prems(1) r by auto
    have go: "zip_buffer_ok b \<and> zip_buffer_left b \<ge> 4"
      using ok False by (simp add: word_le_nat_alt)
    show ?thesis
    proof (cases "unat sz \<le> length r'")
      case True
      let ?ef = "\<lparr>ef_flags = flags, ef_id = i, ef_size = sz, ef_data = take (unat sz) r'\<rparr>"
      obtain p b3 where b3: "zip_buffer_get b2 (ucast sz) = (Some p, b3)" "buf_from b3 (drop (unat sz) r')"
        "buf_bytes b3 p (unat sz) = take (unat sz) r'"
        using zip_buffer_get_from [of b2 "take (unat sz) r'" "drop (unat sz) r'" "ucast sz"] b2(3) True
        by (auto simp: prod_eq_iff)
      have step: "ef_parse_loop mem flags b efs err = ef_parse_loop mem flags b3 (efs @ [?ef]) err"
        using go b2 b3 less.prems(2,3)
        by (subst ef_parse_loop.simps) (simp add: zip_ef_new_eq)
      have wf: "ef_wf ?ef" "r = ef_enc ?ef @ drop (unat sz) r'"
        using True r by (simp_all add: ef_wf_def ef_enc_def)
      have "length (drop (unat sz) r') < length r" using r by simp
      from less.hyps [OF this b3(2) less.prems(2,3), of "efs @ [?ef]"]
      show ?thesis
      proof (elim disjE exE conjE, goal_cases)
        case (1 efs' pad b')
        then show ?case
          using step wf by (intro disjI1 exI [of _ "?ef # efs'"] exI [of _ pad] exI [of _ b']) auto
      next
        case 2
        have "r \<noteq> ef_encs efs' @ pad" if "list_all ef_wf efs'" "length pad < 4" for efs' pad
        proof (cases efs')
          case Nil
          then show ?thesis using that False by auto
        next
          case (Cons e es)
          show ?thesis
          proof
            assume eq: "r = ef_encs efs' @ pad"
            then have "r' = ef_data e @ ef_encs es @ pad" "ef_size e = sz"
              using ef_encs_Cons_eq [of i sz r' e es pad] that(1) r Cons by auto
            then have "drop (unat sz) r' = ef_encs es @ pad"
              using that(1) Cons by (simp add: ef_wf_def)
            then show False using 2(2) [rule_format, of es pad] that Cons by simp
          qed
        qed
        then show ?case using 2(1) step by auto
      qed
    next
      case short: False
      have "zip_buffer_get b2 (ucast sz) = (None, b2\<lparr>buf_ok := False\<rparr>)"
        using b2(3) short by (simp add: buf_from_def zip_buffer_get_eq)
      then have "ef_parse_loop mem flags b efs err = (None, zip_error_set err ZIP_ER_INCONS 0)"
        using go b2 by (subst ef_parse_loop.simps) simp
      moreover have "r \<noteq> ef_encs efs' @ pad" if "list_all ef_wf efs'" "length pad < 4" for efs' pad
      proof (cases efs')
        case Nil
        then show ?thesis using that False by auto
      next
        case (Cons e es)
        then show ?thesis
          using ef_encs_Cons_eq [of i sz r' e es pad] that(1) r short by (auto simp: ef_wf_def)
      qed
      ultimately show ?thesis by auto
    qed
  qed
qed

text \<open>The decomposition is unique, so the parser inverts the encoder.\<close>

lemma ef_encs_unique:
  "ef_encs efs @ p = ef_encs efs' @ p' \<Longrightarrow> length p < 4 \<Longrightarrow> length p' < 4 \<Longrightarrow>
   list_all ef_wf efs \<Longrightarrow> list_all ef_wf efs' \<Longrightarrow>
   list_all (\<lambda>ef. ef_flags ef = fl) efs \<Longrightarrow> list_all (\<lambda>ef. ef_flags ef = fl) efs' \<Longrightarrow> efs = efs' \<and> p = p'"
proof (induction efs arbitrary: efs')
  case Nil
  then show ?case by (cases efs') (auto simp: ef_enc_def)
next
  case (Cons e es)
  show ?case
  proof (cases efs')
    case Nil
    then show ?thesis using Cons.prems by (auto simp: ef_enc_def)
  next
    case (Cons e' es')
    have "le16 (ef_id e) @ le16 (ef_size e) @ ef_data e @ ef_encs es @ p = ef_encs (e' # es') @ p'"
      using Cons.prems(1) Cons by (simp add: ef_enc_def)
    then have "ef_id e' = ef_id e" "ef_size e' = ef_size e"
      "ef_data e @ ef_encs es @ p = ef_data e' @ ef_encs es' @ p'"
      using ef_encs_Cons_eq Cons.prems(5) Cons by auto
    then have "e = e'" "ef_encs es @ p = ef_encs es' @ p'"
      using Cons.prems(4-7) Cons by (auto simp: ef_wf_def)
    then show ?thesis using Cons.IH [of es'] Cons.prems(2-7) Cons by simp
  qed
qed

lemma ef_encs_set_flags: "ef_encs (map (\<lambda>e. e\<lparr>ef_flags := flags\<rparr>) efs) = ef_encs efs"
  by (induction efs) (simp_all add: ef_enc_def)

lemma buf_from_new:
  "length data = unat sz \<Longrightarrow> mem A_buffer \<Longrightarrow>
   \<exists>b. zip_buffer_new mem (Some data) sz = Some b \<and> buf_from b data"
  by (auto simp: zip_buffer_new_def buf_from_def wf_buf_def buf_rest_def)

lemma zip_ef_parse_spec:
  assumes "length data = unat len" "mem A_buffer" "mem A_ef" "mem A_ef_data"
  shows "(\<exists>efs pad. data = ef_encs efs @ pad \<and> length pad < 4 \<and> set pad \<subseteq> {0} \<and> list_all ef_wf efs \<and>
       list_all (\<lambda>ef. ef_flags ef = flags) efs \<and> zip_ef_parse mem data len flags err = (Some efs, err)) \<or>
    zip_ef_parse mem data len flags err = (None, zip_error_set err ZIP_ER_INCONS 0) \<and>
    (\<forall>efs pad. list_all ef_wf efs \<longrightarrow> length pad < 4 \<longrightarrow> set pad \<subseteq> {0} \<longrightarrow> data \<noteq> ef_encs efs @ pad)"
proof -
  have "length data = unat (ucast len :: u64)" using assms(1) by simp
  then obtain b where b: "zip_buffer_new mem (Some data) (ucast len) = Some b" "buf_from b data"
    using buf_from_new assms(2) by blast
  from ef_parse_loop_spec [OF b(2) assms(3,4), of flags "[]" err]
  show ?thesis
  proof (elim disjE exE conjE, goal_cases)
    case (1 efs pad b')
    have left: "unat (zip_buffer_left b') = length pad" using buf_from_ok [OF 1(6)] by simp
    have eof: "zip_buffer_eof b' = (pad = [])"
      using 1(6) by (simp add: buf_from_def zip_buffer_eof_eq)
    have get: "zip_buffer_get b' (zip_buffer_left b') = (Some p, b'') \<Longrightarrow> buf_bytes b'' p (length pad) = pad"
      "zip_buffer_get b' (zip_buffer_left b') \<noteq> (None, b'')" for p b''
      using zip_buffer_get_from [of b' pad "[]" "zip_buffer_left b'"] 1(6) left by (auto simp: prod_eq_iff)
    have zeros: "(pad = replicate (length pad) 0) = (set pad \<subseteq> {0})"
      by (auto simp: list_eq_iff_nth_eq set_conv_nth dest: nth_mem)
    show ?case
    proof (cases "set pad \<subseteq> {0}")
      case True
      have "zip_ef_parse mem data len flags err = (Some efs, err)"
        using b(1) 1 left eof get zeros True
        by (auto simp: zip_ef_parse_def Let_def word_le_nat_alt split: option.splits prod.splits)
      then show ?thesis using 1 True by blast
    next
      case False
      have "zip_ef_parse mem data len flags err = (None, zip_error_set err ZIP_ER_INCONS 0)"
        using b(1) 1 left eof get zeros False
        by (auto simp: zip_ef_parse_def Let_def word_le_nat_alt split: option.splits prod.splits)
      moreover have "data \<noteq> ef_encs efs' @ pad'"
        if "list_all ef_wf efs'" "length pad' < 4" "set pad' \<subseteq> {0}" for efs' pad'
      proof
        let ?f = "map (\<lambda>e. e\<lparr>ef_flags := flags\<rparr>) efs'"
        assume "data = ef_encs efs' @ pad'"
        then have eq: "ef_encs efs @ pad = ef_encs ?f @ pad'"
          using 1(1) by (simp only: ef_encs_set_flags)
        have f: "list_all ef_wf ?f" "list_all (\<lambda>ef. ef_flags ef = flags) ?f"
          using that(1) by (simp_all add: list_all_iff ef_wf_def)
        have "pad = pad'" using ef_encs_unique [OF eq 1(2) that(2) 1(3) f(1) 1(4) f(2)] by simp
        then show False using that(3) False by simp
      qed
      ultimately show ?thesis by blast
    qed
  next
    case 2
    then show ?case using b(1) by (auto simp: zip_ef_parse_def)
  qed
qed

lemma zip_ef_parse_encs:
  assumes "list_all ef_wf efs" "length (ef_encs efs) = unat len" "mem A_buffer" "mem A_ef" "mem A_ef_data"
  shows "zip_ef_parse mem (ef_encs efs) len fl err = (Some (map (\<lambda>ef. ef\<lparr>ef_flags := fl\<rparr>) efs), err)"
proof -
  let ?efs = "map (\<lambda>ef. ef\<lparr>ef_flags := fl\<rparr>) efs"
  have enc: "ef_encs efs = ef_encs ?efs @ []" by (simp add: ef_encs_set_flags)
  have wf: "list_all ef_wf ?efs" and fl: "list_all (\<lambda>ef. ef_flags ef = fl) ?efs"
    using assms(1) by (auto simp: list_all_iff ef_wf_def)
  show ?thesis
    using zip_ef_parse_spec [OF assms(2-5), of fl err]
  proof (elim disjE exE conjE, goal_cases)
    case (1 efs' pad)
    have "ef_encs ?efs @ [] = ef_encs efs' @ pad" using enc 1(1) by (simp only:)
    then have "?efs = efs'" using ef_encs_unique [OF _ _ 1(2) wf 1(4) fl 1(5), of "[]"] by simp
    then show ?case using 1(6) by simp
  next
    case 2
    have "ef_encs efs \<noteq> ef_encs ?efs @ []"
      using 2(2) [rule_format, OF wf, of "[]"] by simp
    then show ?case using enc by blast
  qed
qed

section \<open>Writing\<close>

context byte_sink begin

lemma ef_write_loop_appends:
  "sinks za bs \<Longrightarrow> wf_buf b \<Longrightarrow> buf_size b = 4 \<Longrightarrow> list_all ef_wf efs \<Longrightarrow>
   length bs + length (ef_bytes flags efs) < room \<Longrightarrow>
   \<exists>za'. ef_write_loop za b efs flags = (0, za') \<and> sinks za' (bs @ ef_bytes flags efs) \<and> snd za' = snd za"
proof (induction efs arbitrary: za b bs)
  case Nil
  then show ?case by simp
next
  case (Cons ef efs)
  show ?case
  proof (cases "ef_in flags ef")
    case False
    then show ?thesis using Cons by simp
  next
    case True
    let ?b1 = "snd (zip_buffer_set_offset b 0)"
    let ?b2 = "snd (zip_buffer_put_16 ?b1 (ef_id ef))"
    let ?b3 = "snd (zip_buffer_put_16 ?b2 (ef_size ef))"
    have "buf_at ?b1 [] 4"
      using Cons.prems(2,3) by (simp add: zip_buffer_set_offset_def buf_at_def wf_buf_def buf_written_def)
    from f16.put_at [OF this, of "ef_id ef"] have "buf_at ?b2 (le16 (ef_id ef)) 4" by simp
    from f16.put_at [OF this, of "ef_size ef"]
    have b3: "buf_at ?b3 (le16 (ef_id ef) @ le16 (ef_size ef)) 4" by simp
    have hdr: "buf_bytes ?b3 0 4 = le16 (ef_id ef) @ le16 (ef_size ef)"
      using buf_at_taken [OF b3] by (simp add: buf_bytes_def)
    have ok: "zip_buffer_ok ?b3" "wf_buf ?b3" "buf_size ?b3 = 4"
      using b3 by (auto simp: buf_at_def zip_buffer_ok_def word_unat_eq_iff)
    have wf: "length (ef_data ef) = unat (ef_size ef)" "list_all ef_wf efs"
      using Cons.prems(4) by (simp_all, simp add: ef_wf_def)
    have len: "length bs + length (ef_enc ef) + length (ef_bytes flags efs) < room"
      using Cons.prems(5) True by simp
    obtain za1 where za1: "zip_write za (buf_bytes ?b3 0 4) = (0, za1)"
      "sinks za1 (bs @ le16 (ef_id ef) @ le16 (ef_size ef))" "snd za1 = snd za"
      using zip_write_appends [OF Cons.prems(1), of "buf_bytes ?b3 0 4"] len
      unfolding hdr by (auto simp: ef_enc_def)
    show ?thesis
    proof (cases "ef_size ef > 0")
      case nz: True
      obtain za2 where za2: "zip_write za1 (ef_data ef) = (0, za2)" "sinks za2 (bs @ ef_enc ef)"
        "snd za2 = snd za"
        using zip_write_appends [OF za1(2), of "ef_data ef"] len za1(3) by (auto simp: ef_enc_def)
      show ?thesis
        using Cons.IH [OF za2(2) ok(2,3) wf(2)] len za1(1) za2(1,3) nz True ok(1) by simp
    next
      case z: False
      then have "ef_data ef = []" using wf(1) by (cases "ef_size ef = 0") (auto simp: word_neq_0_conv)
      then have "sinks za1 (bs @ ef_enc ef)" using za1(2) by (simp add: ef_enc_def)
      from Cons.IH [OF this ok(2,3) wf(2)]
      show ?thesis using len za1(1,3) z True ok(1) by simp
    qed
  qed
qed

lemma zip_ef_write_appends:
  assumes "sinks za bs" "mem A_buffer" "list_all ef_wf efs" "length bs + length (ef_bytes flags efs) < room"
  shows "\<exists>za'. zip_ef_write mem za efs flags = (0, za') \<and> sinks za' (bs @ ef_bytes flags efs) \<and> snd za' = snd za"
proof -
  obtain b where b: "zip_buffer_new mem (Some (replicate 4 0)) 4 = Some b" "wf_buf b" "buf_size b = 4"
    using assms(2) by (auto simp: zip_buffer_new_def wf_buf_def)
  then show ?thesis
    using ef_write_loop_appends [OF assms(1) b(2,3) assms(3,4)] by (simp add: zip_ef_write_def)
qed

end

text \<open>The memory buffer source in append mode keeps the contract of a writable source.\<close>

definition sink_good :: "malloc \<Rightarrow> read_data \<Rightarrow> bool" where
  "sink_good mem ctx \<longleftrightarrow> mem_buffer mem \<and> (\<exists>b. rd_out ctx = Some b \<and> wr_good (rd_heap ctx) b \<and>
     bu_offset b = bu_size b)"

definition sink_out :: "read_data \<Rightarrow> bytes" where
  "sink_out ctx = (case rd_out ctx of None \<Rightarrow> [] | Some b \<Rightarrow> buffer_content (rd_heap ctx) b)"

interpretation buf_sink: byte_sink "read_data_cb mem junk" "sink_good mem" sink_out "2 ^ 61" for mem junk
proof unfold_locales
  fix s and d :: bytes assume s: "sink_good mem s" and room: "length (sink_out s) + length d < 2 ^ 61"
  then obtain b where b: "rd_out s = Some b" "wr_good (rd_heap s) b" "bu_offset b = bu_size b" "mem_buffer mem"
    by (auto simp: sink_good_def)
  have wf: "wf_buffer (rd_heap s) b" using b(2) by (simp add: wr_good_def wr_buffer_def)
  note size = wf_buffer_sizes(1) [OF wf]
  have small: "unat (bu_size b) + length d < 2 ^ 61" using room b(1) size by (simp add: sink_out_def)
  from buffer_write_eq [OF b(2,4) small, of junk "rd_error s"]
  obtain h' b' where w: "buffer_write mem junk (rd_heap s) b d (rd_error s) =
        Some (int (length d), h', b', rd_error s)" "wr_good h' b'"
      "buffer_content h' b' = overwrite (unat (bu_size b)) d (buffer_content (rd_heap s) b)"
      "unat (bu_offset b') = unat (bu_size b) + length d"
    unfolding b(3) by blast
  have content: "buffer_content h' b' = sink_out s @ d"
    using w(3) size b(1) by (simp add: overwrite_def sink_out_def)
  have wf': "wf_buffer h' b'" using w(2) by (simp add: wr_good_def wr_buffer_def)
  have "bu_offset b' = bu_size b'"
    using wf_buffer_sizes(1) [OF wf'] content w(4) size b(1)
    by (simp add: word_unat_eq_iff sink_out_def)
  moreover have "\<not> int (length d) > uint ZIP_INT64_MAX" using small by simp
  ultimately show "\<exists>s'. read_data_cb mem junk s (ZIP_SOURCE_WRITE d) = ((int (length d), No_data), s') \<and>
      sink_good mem s' \<and> sink_out s' = sink_out s @ d"
    using b w content
    by (intro exI [of _ "s\<lparr>rd_heap := h', rd_out := Some b', rd_error := rd_error s\<rparr>"])
      (simp add: sink_good_def sink_out_def)
qed simp

section \<open>The list operations\<close>

lemma zip_ef_remove_internal_eq:
  "zip_ef_remove_internal efs = filter (\<lambda>ef. \<not> ZIP_EF_IS_INTERNAL (ef_id ef)) efs"
  by (induction efs) auto

lemma zip_ef_clone_eq:
  "mem A_ef \<Longrightarrow> mem A_ef_data \<Longrightarrow> list_all ef_wf efs \<Longrightarrow> zip_ef_clone mem efs err = (Some efs, err)"
  by (induction efs) (auto simp: zip_ef_new_eq ef_wf_def)

text \<open>The fields a lookup counts.\<close>

definition ef_matching :: "zip_extra_field list \<Rightarrow> u16 \<Rightarrow> u32 \<Rightarrow> zip_extra_field list" where
  "ef_matching efs i flags = filter (\<lambda>ef. ef_id ef = i \<and> ef_in flags ef) efs"

lemma ef_get_loop_nth:
  "n \<le> unat idx \<Longrightarrow> ef_get_loop efs i idx flags (unat idx - n) =
    (if n < length (ef_matching efs i flags) then Some (ef_matching efs i flags ! n) else None)"
proof (induction efs arbitrary: n)
  case (Cons ef efs)
  show ?case
  proof (cases "ef_id ef = i \<and> ef_in flags ef \<and> n > 0")
    case True
    then have "Suc (unat idx - n) = unat idx - (n - 1)" using Cons.prems by simp
    then show ?thesis
      using Cons.IH [of "n - 1"] Cons.prems True by (auto simp: ef_matching_def nth_Cons')
  next
    case False
    then show ?thesis using Cons.IH [of n] Cons.prems by (auto simp: ef_matching_def)
  qed
qed (simp add: ef_matching_def)

lemma ef_in_cleared:
  "ef_in fl (ef\<lparr>ef_flags := ef_flags ef AND NOT (fl AND ZIP_EF_BOTH)\<rparr>) = False"
proof -
  have "(ef_flags ef AND NOT (fl AND ZIP_EF_BOTH)) AND fl AND ZIP_EF_BOTH = 0"
    by (rule bit_word_eqI) (auto simp: bit_simps)
  then show ?thesis by (simp add: ef_in_def)
qed

lemma ef_delete_all_matching:
  "k + length (ef_matching efs i flags) \<le> 0xffff \<Longrightarrow>
   ef_matching (ef_delete_loop efs i ZIP_EXTRA_FIELD_ALL flags k) i flags = [] \<or> i = ZIP_EXTRA_FIELD_ALL"
proof (induction efs arbitrary: k)
  case (Cons ef efs)
  show ?case
  proof (cases "ef_id ef = i \<and> ef_in flags ef")
    case True
    then show ?thesis
      using Cons.IH [of k] Cons.IH [of "Suc k"] Cons.prems
      by (auto simp: ef_matching_def Let_def ef_in_cleared ef_in_cleared [simplified])
  next
    case False
    then show ?thesis
      using Cons.IH [of k] Cons.prems by (auto simp: ef_matching_def Let_def)
  qed
qed (simp add: ef_matching_def)

lemma ef_delete_others:
  "i \<noteq> ZIP_EXTRA_FIELD_ALL \<Longrightarrow> j \<noteq> i \<Longrightarrow>
   ef_matching (ef_delete_loop efs i idx flags k) j fl = ef_matching efs j fl"
  by (induction efs arbitrary: k) (auto simp: ef_matching_def Let_def)

text \<open>A buffer source that has just begun a write is an empty sink.\<close>

lemma fresh_sink:
  assumes "mem_buffer mem" "mem A_source_ctx" "mem A_source"
  shows "\<exists>src :: read_data zip_source. src_cb src = read_data_cb mem junk \<and>
    src_sinks (sink_good mem) sink_out src [] \<and> src_supports src = 0x2bfff \<and> src_src src = None \<and>
    src_open_count src = 0"
proof -
  have "\<exists>src. zip_source_buffer_fragment_create mem junk 0 (Some []) 0 False zip_error_init =
      (Some src, zip_error_init)"
    using assms by (simp add: zip_source_buffer_fragment_create_def buffer_new_def frag_args_def
        zip_source_function_create_def zip_source_new_def mem_buffer_def)
  then obtain src where src: "zip_source_buffer_fragment_create mem junk 0 (Some []) 0 False
      zip_error_init = (Some src, zip_error_init)" by blast
  have "list_all frag_arg_ok ([] :: (bytes option \<times> u64) list)"
    "length (concat (map (the \<circ> fst) ([] :: (bytes option \<times> u64) list))) < 2 ^ 64" by simp_all
  note cr = buffer_source_created [OF src this]
  obtain s1 where s1: "zip_source_begin_write src = (0, s1)" "src_open_count s1 = 0"
    "writing mem junk [] s1 ([], 0)"
    using begin_write_writing [OF cr(1,2,4) assms(1)] cr(3,6) by auto
  then obtain b where b: "rd_out (src_ud s1) = Some b" "wr_good (rd_heap (src_ud s1)) b"
    "buffer_content (rd_heap (src_ud s1)) b = []" "unat (bu_offset b) = 0"
    by (auto simp: writing_def)
  then have "bu_offset b = bu_size b"
    using wf_buffer_sizes(1) [of "rd_heap (src_ud s1)" b]
    by (simp add: wr_good_def wr_buffer_def word_unat_eq_iff)
  then show ?thesis
    using s1 b assms(1)
    by (intro exI [of _ s1]) (auto simp: writing_def buf_source_def src_sinks_def sink_good_def sink_out_def
        ZIP_SOURCE_IS_OPEN_WRITING_def)
qed

section \<open>What the component promises\<close>

text \<open>C12. The parser accepts exactly the external form of a list of fields followed by at most
  three zero bytes, returns that list with the flags it was given, and reports everything else
  as an inconsistent archive.\<close>

theorem zip_ef_parse_correct:
  assumes "length data = unat len" and "mem A_buffer" and "mem A_ef" and "mem A_ef_data"
  shows "(zip_ef_parse mem data len flags err = (Some efs, err) \<longleftrightarrow>
      list_all ef_wf efs \<and> list_all (\<lambda>ef. ef_flags ef = flags) efs \<and>
      (\<exists>pad. data = ef_encs efs @ pad \<and> length pad < 4 \<and> set pad \<subseteq> {0})) \<and>
    (fst (zip_ef_parse mem data len flags err) = None \<longrightarrow>
      snd (zip_ef_parse mem data len flags err) = zip_error_set err ZIP_ER_INCONS 0)"
  using zip_ef_parse_spec [OF assms, of flags err]
proof (elim disjE exE conjE, goal_cases)
  case (1 efs' pad)
  show ?case
    using 1 ef_encs_unique [of efs' pad efs _ flags] by fastforce
qed auto

lemma zip_ef_parse_correct_witness:
  "fst (zip_ef_parse malloc_ok [1, 0, 2, 0, 7, 8, 0] 7 ZIP_EF_LOCAL zip_error_init) =
     Some [\<lparr>ef_flags = ZIP_EF_LOCAL, ef_id = 1, ef_size = 2, ef_data = [7, 8]\<rparr>]"
proof -
  have "[1, 0, 2, 0, 7, 8, 0] =
      ef_encs [\<lparr>ef_flags = ZIP_EF_LOCAL, ef_id = 1, ef_size = 2, ef_data = [7, 8]\<rparr>] @ [0]"
    by (simp add: ef_enc_def le16_def)
  then have "\<exists>pad. [1, 0, 2, 0, 7, 8, 0] =
      ef_encs [\<lparr>ef_flags = ZIP_EF_LOCAL, ef_id = 1, ef_size = 2, ef_data = [7, 8]\<rparr>] @ pad \<and>
      length pad < 4 \<and> set pad \<subseteq> {0}"
    by (intro exI [of _ "[0]"]) simp
  then show ?thesis
    using zip_ef_parse_correct [of "[1, 0, 2, 0, 7, 8, 0]" 7 malloc_ok ZIP_EF_LOCAL zip_error_init
        "[\<lparr>ef_flags = ZIP_EF_LOCAL, ef_id = 1, ef_size = 2, ef_data = [7, 8]\<rparr>]"]
    by (simp add: ef_wf_def)
qed

text \<open>C13. Writing the extra fields of one header and parsing what was written gives back exactly
  the fields that belong to that header, and the 16-bit size written into the header is the
  number of bytes that follow it.\<close>

theorem zip_ef_write_parse:
  assumes "src_cb (fst za) = read_data_cb mem junk"
    and "src_sinks (sink_good mem) sink_out (fst za) bs"
    and "mem A_buffer" and "mem A_ef" and "mem A_ef_data" and "list_all ef_wf efs"
    and "length (ef_bytes flags efs) < 65536" and "length bs < 2 ^ 60"
  shows "\<exists>za' d. zip_ef_write mem za efs flags = (0, za') \<and> sink_out (src_ud (fst za')) = bs @ d \<and>
    length d = unat (zip_ef_size efs flags) \<and>
    zip_ef_parse mem d (zip_ef_size efs flags) fl err =
      (Some (map (\<lambda>ef. ef\<lparr>ef_flags := fl\<rparr>) (filter (ef_in flags) efs)), err)"
proof -
  let ?d = "ef_bytes flags efs" and ?efs = "map (\<lambda>ef. ef\<lparr>ef_flags := fl\<rparr>) (filter (ef_in flags) efs)"
  have "buf_sink.sinks mem junk za bs" using assms(1,2) by (simp add: buf_sink.sinks_def)
  then obtain za' where w: "zip_ef_write mem za efs flags = (0, za')" "buf_sink.sinks mem junk za' (bs @ ?d)"
    using buf_sink.zip_ef_write_appends [of mem junk za bs mem efs flags] assms(3,6-8) by auto
  have size: "length ?d = unat (zip_ef_size efs flags)"
    using zip_ef_size_eq [OF assms(6), of flags] assms(7)
    by (simp add: unsigned_of_nat take_bit_nat_eq_self)
  have "zip_ef_parse mem ?d (zip_ef_size efs flags) fl err = (Some ?efs, err)"
    using zip_ef_parse_encs [of "filter (ef_in flags) efs" "zip_ef_size efs flags" mem fl err] assms(3-6) size
    by (auto simp: ef_bytes_def list_all_iff)
  then show ?thesis
    using w size by (auto simp: buf_sink.sinks_def src_sinks_def)
qed

lemma zip_ef_write_parse_witness:
  "\<exists>(za :: read_data writer) za' d.
     zip_ef_write malloc_ok za [\<lparr>ef_flags = ZIP_EF_BOTH, ef_id = 0xcafe, ef_size = 2, ef_data = [7, 8]\<rparr>]
       ZIP_EF_LOCAL = (0, za') \<and> sink_out (src_ud (fst za')) = d \<and> length d = 6"
proof -
  let ?efs = "[\<lparr>ef_flags = ZIP_EF_BOTH, ef_id = 0xcafe, ef_size = 2, ef_data = [7, 8]\<rparr>]"
  obtain src :: "read_data zip_source" where "src_cb src = read_data_cb malloc_ok 0"
    "src_sinks (sink_good malloc_ok) sink_out src []"
    using fresh_sink [of malloc_ok 0] by (auto simp: mem_buffer_def)
  then show ?thesis
    using zip_ef_write_parse [of "(src, zip_error_init)" malloc_ok 0 "[]" ?efs ZIP_EF_LOCAL
        ZIP_EF_LOCAL zip_error_init]
    by (auto simp: ef_wf_def ef_enc_def zip_ef_size_def ef_in_def)
qed



end
