(* ===== verification/Zip_Dirent.thy ===== *)
theory Zip_Dirent
  imports Zip_Extra_Field
begin

text \<open>
  \<open>zip_dirent.c\<close>: directory entries, their local and central headers, and DOS dates. The
  functions that work on the archive's entry table (\<open>_zip_get_dirent\<close>, \<open>_zip_cdir_*\<close>)
  are in \<open>Zip_Archive\<close>, \<open>Zip_Open\<close> and \<open>Zip_Close\<close>. The C library's \<open>mktime\<close>
  and \<open>localtime\<close> and zlib's \<open>crc32\<close> are the fields of a record of parameters. A clone
  shares its strings with the original in C; here it has copies, and \<open>_zip_dirent_finalize\<close>,
  which frees the unshared ones, has no effect on values.
\<close>

section \<open>Parameters\<close>

record tm =
  tm_year :: int
  tm_mon :: int
  tm_mday :: int
  tm_hour :: int
  tm_min :: int
  tm_sec :: int
  tm_isdst :: int

record external =
  ext_crc32 :: "u32 \<Rightarrow> bytes \<Rightarrow> u32"
  ext_mktime :: "tm \<Rightarrow> int"
  ext_localtime :: "int \<Rightarrow> tm"

text \<open>An instance, for concrete inputs: a clock that stands still.\<close>

definition fixed_external :: external where
  "fixed_external = \<lparr>ext_crc32 = \<lambda>c bs. c + of_nat (length bs), ext_mktime = \<lambda>_. 0,
     ext_localtime = \<lambda>_. \<lparr>tm_year = 90, tm_mon = 0, tm_mday = 1, tm_hour = 0, tm_min = 0, tm_sec = 0, tm_isdst = 0\<rparr>\<rparr>"

section \<open>Directory entries\<close>

abbreviation ZIP_CM_DEFAULT :: int where "ZIP_CM_DEFAULT \<equiv> -1"
abbreviation ZIP_CM_REPLACED_DEFAULT :: int where "ZIP_CM_REPLACED_DEFAULT \<equiv> -2"
abbreviation ZIP_CM_STORE :: int where "ZIP_CM_STORE \<equiv> 0"
abbreviation ZIP_CM_DEFLATE :: int where "ZIP_CM_DEFLATE \<equiv> 8"
abbreviation ZIP_CM_BZIP2 :: int where "ZIP_CM_BZIP2 \<equiv> 12"
abbreviation ZIP_CM_LZMA :: int where "ZIP_CM_LZMA \<equiv> 14"
abbreviation ZIP_CM_WINZIP_AES :: int where "ZIP_CM_WINZIP_AES \<equiv> 99"

abbreviation ZIP_EM_NONE :: u16 where "ZIP_EM_NONE \<equiv> 0"
abbreviation ZIP_EM_TRAD_PKWARE :: u16 where "ZIP_EM_TRAD_PKWARE \<equiv> 1"
abbreviation ZIP_EM_AES_128 :: u16 where "ZIP_EM_AES_128 \<equiv> 0x101"
abbreviation ZIP_EM_AES_192 :: u16 where "ZIP_EM_AES_192 \<equiv> 0x102"
abbreviation ZIP_EM_AES_256 :: u16 where "ZIP_EM_AES_256 \<equiv> 0x103"
abbreviation ZIP_EM_UNKNOWN :: u16 where "ZIP_EM_UNKNOWN \<equiv> 0xffff"

abbreviation ZIP_GPBF_ENCRYPTED :: u16 where "ZIP_GPBF_ENCRYPTED \<equiv> 1"
abbreviation ZIP_GPBF_DATA_DESCRIPTOR :: u16 where "ZIP_GPBF_DATA_DESCRIPTOR \<equiv> 8"
abbreviation ZIP_GPBF_STRONG_ENCRYPTION :: u16 where "ZIP_GPBF_STRONG_ENCRYPTION \<equiv> 0x40"
abbreviation ZIP_GPBF_ENCODING_UTF_8 :: u16 where "ZIP_GPBF_ENCODING_UTF_8 \<equiv> 0x800"

abbreviation ZIP_FL_FORCE_ZIP64 :: u32 where "ZIP_FL_FORCE_ZIP64 \<equiv> 1024"

abbreviation ZIP_DIRENT_COMP_METHOD :: u32 where "ZIP_DIRENT_COMP_METHOD \<equiv> 1"
abbreviation ZIP_DIRENT_FILENAME :: u32 where "ZIP_DIRENT_FILENAME \<equiv> 2"
abbreviation ZIP_DIRENT_COMMENT :: u32 where "ZIP_DIRENT_COMMENT \<equiv> 4"
abbreviation ZIP_DIRENT_EXTRA_FIELD :: u32 where "ZIP_DIRENT_EXTRA_FIELD \<equiv> 8"
abbreviation ZIP_DIRENT_ATTRIBUTES :: u32 where "ZIP_DIRENT_ATTRIBUTES \<equiv> 0x10"
abbreviation ZIP_DIRENT_LAST_MOD :: u32 where "ZIP_DIRENT_LAST_MOD \<equiv> 0x20"
abbreviation ZIP_DIRENT_ENCRYPTION_METHOD :: u32 where "ZIP_DIRENT_ENCRYPTION_METHOD \<equiv> 0x40"
abbreviation ZIP_DIRENT_PASSWORD :: u32 where "ZIP_DIRENT_PASSWORD \<equiv> 0x80"
abbreviation ZIP_DIRENT_ALL :: u32 where "ZIP_DIRENT_ALL \<equiv> 0xffffffff"

abbreviation LOCAL_MAGIC :: bytes where "LOCAL_MAGIC \<equiv> [0x50, 0x4b, 3, 4]"
abbreviation CENTRAL_MAGIC :: bytes where "CENTRAL_MAGIC \<equiv> [0x50, 0x4b, 1, 2]"
abbreviation CDENTRYSIZE :: u64 where "CDENTRYSIZE \<equiv> 46"
abbreviation LENTRYSIZE :: u64 where "LENTRYSIZE \<equiv> 30"
abbreviation EFZIP64SIZE :: u64 where "EFZIP64SIZE \<equiv> 28"
abbreviation EF_WINZIP_AES_SIZE :: u64 where "EF_WINZIP_AES_SIZE \<equiv> 7"
abbreviation ZIP_EXT_ATTRIB_DEFAULT :: u32 where "ZIP_EXT_ATTRIB_DEFAULT \<equiv> 0x81b60000"
abbreviation ZIP_EXT_ATTRIB_DEFAULT_DIR :: u32 where "ZIP_EXT_ATTRIB_DEFAULT_DIR \<equiv> 0x41ff0000"

text \<open>\<open>comp_method\<close> is an \<open>int32\<close> that only holds 16-bit values, -1 and -2; \<open>time_t\<close>
  is an integer.\<close>

record zip_dirent =
  de_changed :: u32
  de_local_extra_fields_read :: bool
  de_cloned :: bool
  de_crc_valid :: bool
  de_version_madeby :: u16
  de_version_needed :: u16
  de_bitflags :: u16
  de_comp_method :: int
  de_last_mod :: int
  de_crc :: u32
  de_comp_size :: u64
  de_uncomp_size :: u64
  de_filename :: "zip_string option"
  de_extra_fields :: "zip_extra_field list"
  de_comment :: "zip_string option"
  de_disk_number :: u32
  de_int_attrib :: u16
  de_ext_attrib :: u32
  de_offset :: u64
  de_compression_level :: u16
  de_encryption_method :: u16
  de_password :: "bytes option"

definition zip_dirent_init :: zip_dirent where
  "zip_dirent_init =
     \<lparr>de_changed = 0, de_local_extra_fields_read = False, de_cloned = False, de_crc_valid = True,
      de_version_madeby = 63 OR push_bit 8 3, de_version_needed = 10, de_bitflags = 0,
      de_comp_method = ZIP_CM_DEFAULT, de_last_mod = 0, de_crc = 0, de_comp_size = 0,
      de_uncomp_size = 0, de_filename = None, de_extra_fields = [], de_comment = None,
      de_disk_number = 0, de_int_attrib = 0, de_ext_attrib = ZIP_EXT_ATTRIB_DEFAULT, de_offset = 0,
      de_compression_level = 0, de_encryption_method = ZIP_EM_NONE, de_password = None\<rparr>"

definition zip_dirent_new :: "malloc \<Rightarrow> zip_dirent option" where
  "zip_dirent_new mem = (if mem A_dirent then Some zip_dirent_init else None)"

definition zip_dirent_clone :: "malloc \<Rightarrow> zip_dirent option \<Rightarrow> zip_dirent option" where
  "zip_dirent_clone mem sde =
     (if \<not> mem A_dirent then None
      else let tde = (case sde of Some s \<Rightarrow> s | None \<Rightarrow> zip_dirent_init)
           in Some (tde\<lparr>de_changed := 0, de_cloned := True\<rparr>))"

definition zip_dirent_needs_zip64 :: "zip_dirent \<Rightarrow> u32 \<Rightarrow> bool" where
  "zip_dirent_needs_zip64 de flags =
     (de_uncomp_size de \<ge> ZIP_UINT32_MAX \<or> de_comp_size de \<ge> ZIP_UINT32_MAX \<or>
      flags AND ZIP_FL_CENTRAL \<noteq> 0 \<and> de_offset de \<ge> ZIP_UINT32_MAX)"

definition zip_dirent_set_version_needed :: "zip_dirent \<Rightarrow> bool \<Rightarrow> zip_dirent" where
  "zip_dirent_set_version_needed de force_zip64 =
     (if de_comp_method de = ZIP_CM_LZMA then de\<lparr>de_version_needed := 63\<rparr>
      else if de_comp_method de = ZIP_CM_BZIP2 then de\<lparr>de_version_needed := 46\<rparr>
      else if force_zip64 \<or> zip_dirent_needs_zip64 de 0 then de\<lparr>de_version_needed := 45\<rparr>
      else if de_comp_method de = ZIP_CM_DEFLATE \<or> de_encryption_method de = ZIP_EM_TRAD_PKWARE
      then de\<lparr>de_version_needed := 20\<rparr>
      else let len = zip_string_length (de_filename de)
           in if len > 0 \<and> str_raw (the (de_filename de)) ! unat (len - 1) = 0x2f
              then de\<lparr>de_version_needed := 20\<rparr>
              else de\<lparr>de_version_needed := 10\<rparr>)"

section \<open>DOS dates\<close>

definition dos_tm :: "u16 \<Rightarrow> u16 \<Rightarrow> tm" where
  "dos_tm dtime ddate =
     \<lparr>tm_year = uint (drop_bit 9 ddate AND 127) + 1980 - 1900,
      tm_mon = uint (drop_bit 5 ddate AND 15) - 1,
      tm_mday = uint (ddate AND 31),
      tm_hour = uint (drop_bit 11 dtime AND 31),
      tm_min = uint (drop_bit 5 dtime AND 63),
      tm_sec = uint (push_bit 1 dtime AND 62),
      tm_isdst = -1\<rparr>"

definition zip_d2u_time :: "external \<Rightarrow> u16 \<Rightarrow> u16 \<Rightarrow> int" where
  "zip_d2u_time ext dtime ddate = ext_mktime ext (dos_tm dtime ddate)"

definition zip_u2d_time :: "external \<Rightarrow> int \<Rightarrow> u16 \<times> u16" where
  "zip_u2d_time ext intime =
     (let tm = ext_localtime ext intime;
          tm = (if tm_year tm < 80 then tm\<lparr>tm_year := 80\<rparr> else tm)
      in (word_of_int (push_bit 11 (tm_hour tm) + push_bit 5 (tm_min tm) + drop_bit 1 (tm_sec tm)),
          word_of_int (push_bit 9 (tm_year tm + 1900 - 1980) + push_bit 5 (tm_mon tm + 1) + tm_mday tm)))"

section \<open>Reading a header\<close>

definition dirent_hsize :: "bool \<Rightarrow> u64" where
  "dirent_hsize local = (if local then LENTRYSIZE else CDENTRYSIZE)"

definition dirent_magic :: "bool \<Rightarrow> bytes" where
  "dirent_magic local = (if local then LOCAL_MAGIC else CENTRAL_MAGIC)"

text \<open>The fixed part behind the magic number: the entry, and the lengths of file name, extra
  fields and comment.\<close>

definition dirent_read_fixed ::
  "external \<Rightarrow> bool \<Rightarrow> zip_buffer \<Rightarrow> zip_dirent \<times> u16 \<times> u16 \<times> u16 \<times> zip_buffer" where
  "dirent_read_fixed ext local b =
     (let (version_madeby, b) = (if local then (0, b) else zip_buffer_get_16 b);
          (version_needed, b) = zip_buffer_get_16 b;
          (bitflags, b) = zip_buffer_get_16 b;
          (comp_method, b) = zip_buffer_get_16 b;
          (dostime, b) = zip_buffer_get_16 b;
          (dosdate, b) = zip_buffer_get_16 b;
          (crc, b) = zip_buffer_get_32 b;
          (comp_size, b) = zip_buffer_get_32 b;
          (uncomp_size, b) = zip_buffer_get_32 b;
          (filename_len, b) = zip_buffer_get_16 b;
          (ef_len, b) = zip_buffer_get_16 b;
          (comment_len, b) = (if local then (0, b) else zip_buffer_get_16 b);
          (disk_number, b) = (if local then (0, b) else zip_buffer_get_16 b);
          (int_attrib, b) = (if local then (0, b) else zip_buffer_get_16 b);
          (ext_attrib, b) = (if local then (0, b) else zip_buffer_get_32 b);
          (offset, b) = (if local then (0, b) else zip_buffer_get_32 b)
      in (zip_dirent_init
            \<lparr>de_version_madeby := version_madeby, de_version_needed := version_needed,
             de_bitflags := bitflags, de_comp_method := uint comp_method,
             de_last_mod := zip_d2u_time ext dostime dosdate, de_crc := crc,
             de_comp_size := ucast comp_size, de_uncomp_size := ucast uncomp_size,
             de_disk_number := ucast disk_number, de_int_attrib := int_attrib,
             de_ext_attrib := ext_attrib, de_offset := ucast offset,
             de_encryption_method :=
               (if bitflags AND ZIP_GPBF_ENCRYPTED \<noteq> 0
                then if bitflags AND ZIP_GPBF_STRONG_ENCRYPTION \<noteq> 0 then ZIP_EM_UNKNOWN
                     else ZIP_EM_TRAD_PKWARE
                else ZIP_EM_NONE)\<rparr>,
          filename_len, ef_len, comment_len, b))"

text \<open>A string whose flag says UTF-8 has to be UTF-8; checking caches the encoding in it.\<close>

definition dirent_check_utf8 :: "zip_dirent \<Rightarrow> zip_string \<Rightarrow> zip_error \<Rightarrow> zip_string option \<times> zip_error" where
  "dirent_check_utf8 zde s err =
     (if de_bitflags zde AND ZIP_GPBF_ENCODING_UTF_8 \<noteq> 0
      then case zip_guess_encoding (Some s) ZIP_ENCODING_UTF8_KNOWN of
             (e, s') \<Rightarrow> if e = ZIP_ENCODING_ERROR then (None, zip_error_set err ZIP_ER_INCONS 0)
                        else (s', err)
      else (Some s, err))"

definition dirent_read_filename ::
  "malloc \<Rightarrow> zip_dirent \<Rightarrow> zip_buffer option \<Rightarrow> 's zip_source \<Rightarrow> u16 \<Rightarrow> zip_error \<Rightarrow>
   zip_dirent option \<times> zip_buffer option \<times> 's zip_source \<times> zip_error" where
  "dirent_read_filename mem zde b src len err =
     (if len = 0 then (Some zde, b, src, err)
      else case zip_read_string mem b src len True err of
             (None, b', src', err') \<Rightarrow>
               (None, b', src', if zip_error_code_zip err' = ZIP_ER_EOF then zip_error_set err' ZIP_ER_INCONS 0
                                else err')
           | (Some s, b', src', err') \<Rightarrow>
               (case dirent_check_utf8 zde s err' of
                  (None, err'') \<Rightarrow> (None, b', src', err'')
                | (Some s', err'') \<Rightarrow> (Some (zde\<lparr>de_filename := Some s'\<rparr>), b', src', err'')))"

definition dirent_read_ef ::
  "malloc \<Rightarrow> bool \<Rightarrow> zip_dirent \<Rightarrow> zip_buffer option \<Rightarrow> 's zip_source \<Rightarrow> u16 \<Rightarrow> zip_error \<Rightarrow>
   zip_dirent option \<times> zip_buffer option \<times> 's zip_source \<times> zip_error" where
  "dirent_read_ef mem local zde b src len err =
     (if len = 0 then (Some zde, b, src, err)
      else case zip_read_data mem b src (ucast len) False err of
             (None, b', src', err') \<Rightarrow> (None, b', src', err')
           | (Some ef, b', src', err') \<Rightarrow>
               (case zip_ef_parse mem ef len (if local then ZIP_EF_LOCAL else ZIP_EF_CENTRAL) err' of
                  (None, err'') \<Rightarrow> (None, b', src', err'')
                | (Some efs, err'') \<Rightarrow>
                    (Some (zde\<lparr>de_extra_fields := efs,
                               de_local_extra_fields_read := (local \<or> de_local_extra_fields_read zde)\<rparr>),
                     b', src', err'')))"

definition dirent_read_comment ::
  "malloc \<Rightarrow> zip_dirent \<Rightarrow> zip_buffer option \<Rightarrow> 's zip_source \<Rightarrow> u16 \<Rightarrow> zip_error \<Rightarrow>
   zip_dirent option \<times> zip_buffer option \<times> 's zip_source \<times> zip_error" where
  "dirent_read_comment mem zde b src len err =
     (if len = 0 then (Some zde, b, src, err)
      else case zip_read_string mem b src len False err of
             (None, b', src', err') \<Rightarrow> (None, b', src', err')
           | (Some s, b', src', err') \<Rightarrow>
               (case dirent_check_utf8 zde s err' of
                  (None, err'') \<Rightarrow> (None, b', src', err'')
                | (Some s', err'') \<Rightarrow> (Some (zde\<lparr>de_comment := Some s'\<rparr>), b', src', err'')))"

text \<open>The UTF-8 extra field replaces a string when its checksum is that of the string.\<close>

definition zip_dirent_process_ef_utf_8 ::
  "malloc \<Rightarrow> external \<Rightarrow> zip_dirent \<Rightarrow> u16 \<Rightarrow> zip_string option \<Rightarrow> zip_string option" where
  "zip_dirent_process_ef_utf_8 mem ext de i str =
     (case fst (zip_ef_get_by_id (de_extra_fields de) i 0 ZIP_EF_BOTH zip_error_init) of
        None \<Rightarrow> str
      | Some (ef, ef_len) \<Rightarrow>
          if ef_len < 5 \<or> ef ! 0 \<noteq> 1 then str
          else case zip_buffer_new mem (Some ef) (ucast ef_len) of
                 None \<Rightarrow> str
               | Some b \<Rightarrow>
                   let (_, b) = zip_buffer_get_8 b;
                       (ef_crc, b) = zip_buffer_get_32 b
                   in if zip_string_crc32 (ext_crc32 ext) str = ef_crc
                      then let len = ucast (zip_buffer_left b) :: u16;
                               (p, b) = zip_buffer_get b (ucast len);
                               raw = (case p of None \<Rightarrow> [] | Some p \<Rightarrow> buf_bytes b p (unat len))
                           in case fst (zip_string_new mem raw len ZIP_FL_ENC_UTF_8 zip_error_init) of
                                None \<Rightarrow> str
                              | Some ef_str \<Rightarrow> Some ef_str
                      else str)"

definition aes_mode_method :: "u8 \<Rightarrow> u16 option" where
  "aes_mode_method m =
     (if m = 1 then Some ZIP_EM_AES_128 else if m = 2 then Some ZIP_EM_AES_192
      else if m = 3 then Some ZIP_EM_AES_256 else None)"

definition zip_dirent_process_winzip_aes ::
  "malloc \<Rightarrow> zip_dirent \<Rightarrow> zip_error \<Rightarrow> zip_dirent option \<times> zip_error" where
  "zip_dirent_process_winzip_aes mem de err =
     (if de_comp_method de \<noteq> ZIP_CM_WINZIP_AES then (Some de, err)
      else case fst (zip_ef_get_by_id (de_extra_fields de) ZIP_EF_WINZIP_AES 0 ZIP_EF_BOTH zip_error_init) of
        None \<Rightarrow> (None, zip_error_set err ZIP_ER_INCONS 0)
      | Some (ef, ef_len) \<Rightarrow>
          if ef_len < 7 then (None, zip_error_set err ZIP_ER_INCONS 0)
          else case zip_buffer_new mem (Some ef) (ucast ef_len) of
                 None \<Rightarrow> (None, zip_error_set err ZIP_ER_INTERNAL 0)
               | Some b \<Rightarrow>
                   let (version, b) = zip_buffer_get_16 b;
                       crc_valid = \<not> (version = 2 \<and> de_uncomp_size de < 20)
                   in if version \<noteq> 1 \<and> version \<noteq> 2 then (None, zip_error_set err ZIP_ER_ENCRNOTSUPP 0)
                      else let (p, b) = zip_buffer_get b 2
                           in if (case p of None \<Rightarrow> True | Some p \<Rightarrow> buf_bytes b p 2 \<noteq> [0x41, 0x45])
                              then (None, zip_error_set err ZIP_ER_ENCRNOTSUPP 0)
                              else let (mode, b) = zip_buffer_get_8 b
                                   in case aes_mode_method mode of
                                        None \<Rightarrow> (None, zip_error_set err ZIP_ER_ENCRNOTSUPP 0)
                                      | Some enc_method \<Rightarrow>
                                          if ef_len \<noteq> 7 then (None, zip_error_set err ZIP_ER_INCONS 0)
                                          else (Some (de\<lparr>de_crc_valid := crc_valid,
                                                         de_encryption_method := enc_method,
                                                         de_comp_method := uint (fst (zip_buffer_get_16 b))\<rparr>),
                                                err))"

text \<open>Sizes and offset that are all ones in the header come from the zip64 extra field, which has
  to be used up.\<close>

definition dirent_read_zip64 ::
  "malloc \<Rightarrow> bool \<Rightarrow> zip_dirent \<Rightarrow> zip_error \<Rightarrow> zip_dirent option \<times> zip_error" where
  "dirent_read_zip64 mem local zde err =
     (if de_uncomp_size zde \<noteq> ZIP_UINT32_MAX \<and> de_comp_size zde \<noteq> ZIP_UINT32_MAX \<and>
         de_offset zde \<noteq> ZIP_UINT32_MAX
      then (Some zde, err)
      else case zip_ef_get_by_id (de_extra_fields zde) ZIP_EF_ZIP64 0
                  (if local then ZIP_EF_LOCAL else ZIP_EF_CENTRAL) err of
             (None, err') \<Rightarrow> (None, err')
           | (Some (ef, got_len), err') \<Rightarrow>
               (case zip_buffer_new mem (Some ef) (ucast got_len) of
                  None \<Rightarrow> (None, zip_error_set err' ZIP_ER_MEMORY 0)
                | Some b \<Rightarrow>
                    let (uncomp, b) = (if de_uncomp_size zde = ZIP_UINT32_MAX then zip_buffer_get_64 b
                                       else (de_uncomp_size zde, if local then snd (zip_buffer_skip b 8) else b));
                        (comp, b) = (if de_comp_size zde = ZIP_UINT32_MAX then zip_buffer_get_64 b
                                     else (de_comp_size zde, b));
                        (offset, b) = (if \<not> local \<and> de_offset zde = ZIP_UINT32_MAX then zip_buffer_get_64 b
                                       else (de_offset zde, b));
                        (disk, b) = (if \<not> local \<and> de_disk_number zde = 0xffff then zip_buffer_get_32 b
                                     else (de_disk_number zde, b))
                    in if \<not> zip_buffer_eof b then (None, zip_error_set err' ZIP_ER_INCONS 0)
                       else (Some (zde\<lparr>de_uncomp_size := uncomp, de_comp_size := comp,
                                       de_offset := offset, de_disk_number := disk\<rparr>), err')))"

text \<open>What follows the strings and extra fields have been read.\<close>

definition dirent_read_finish ::
  "malloc \<Rightarrow> external \<Rightarrow> bool \<Rightarrow> bool \<Rightarrow> zip_dirent \<Rightarrow> zip_error \<Rightarrow> zip_dirent option \<times> zip_error" where
  "dirent_read_finish mem ext local ok zde err =
     (let zde = zde\<lparr>de_filename := zip_dirent_process_ef_utf_8 mem ext zde ZIP_EF_UTF_8_NAME (de_filename zde)\<rparr>;
          zde = zde\<lparr>de_comment := zip_dirent_process_ef_utf_8 mem ext zde ZIP_EF_UTF_8_COMMENT (de_comment zde)\<rparr>
      in case dirent_read_zip64 mem local zde err of
           (None, err') \<Rightarrow> (None, err')
         | (Some zde, err') \<Rightarrow>
             if \<not> ok then (None, zip_error_set err' ZIP_ER_INTERNAL 0)
             else if de_offset zde > ZIP_INT64_MAX then (None, zip_error_set err' ZIP_ER_SEEK EFBIG)
             else case zip_dirent_process_winzip_aes mem zde err' of
                    (None, err'') \<Rightarrow> (None, err'')
                  | (Some zde, err'') \<Rightarrow>
                      (Some (zde\<lparr>de_extra_fields := zip_ef_remove_internal (de_extra_fields zde)\<rparr>), err''))"

text \<open>
  The whole entry, from the buffer when there is one and else from the source. The result is the
  entry and the number of bytes it took, or \<open>None\<close> for -1 (the callers only free a partly
  read entry), then the state of the buffer, the source and the error.
\<close>

definition zip_dirent_read ::
  "malloc \<Rightarrow> external \<Rightarrow> 's zip_source \<Rightarrow> zip_buffer option \<Rightarrow> bool \<Rightarrow> zip_error \<Rightarrow>
   (zip_dirent \<times> int) option \<times> zip_buffer option \<times> 's zip_source \<times> zip_error" where
  "zip_dirent_read mem ext src buffer local err =
     (let from_buffer = (buffer \<noteq> None);
          hsize = dirent_hsize local;
          (r, src, err) =
            (case buffer of
               Some b \<Rightarrow> if zip_buffer_left b < hsize then (None, src, zip_error_set err ZIP_ER_NOZIP 0)
                         else (Some b, src, err)
             | None \<Rightarrow> zip_buffer_new_from_source mem src hsize (Some []) err)
      in case r of
           None \<Rightarrow> (None, buffer, src, err)
         | Some b \<Rightarrow>
             let (p, b) = zip_buffer_get b 4
             in if (case p of None \<Rightarrow> True | Some p \<Rightarrow> buf_bytes b p 4 \<noteq> dirent_magic local)
                then (None, if from_buffer then Some b else None, src, zip_error_set err ZIP_ER_NOZIP 0)
                else
                let (zde, filename_len, ef_len, comment_len, b) = dirent_read_fixed ext local b;
                    own = (\<lambda>b. if from_buffer then b else None);
                    variable_size = ucast filename_len + ucast ef_len + ucast comment_len :: u32
                in if \<not> zip_buffer_ok b then (None, own (Some b), src, zip_error_set err ZIP_ER_INTERNAL 0)
                   else
                   let (r, src, err) =
                         (if from_buffer
                          then if zip_buffer_left b < ucast variable_size
                               then (None, src, zip_error_set err ZIP_ER_INCONS 0) else (Some b, src, err)
                          else zip_buffer_new_from_source mem src (ucast variable_size) None err)
                   in case r of
                        None \<Rightarrow> (None, own (Some b), src, err)
                      | Some b \<Rightarrow>
                          (case dirent_read_filename mem zde (Some b) src filename_len err of
                             (None, b, src, err) \<Rightarrow> (None, own b, src, err)
                           | (Some zde, b, src, err) \<Rightarrow>
                               (case dirent_read_ef mem local zde b src ef_len err of
                                  (None, b, src, err) \<Rightarrow> (None, own b, src, err)
                                | (Some zde, b, src, err) \<Rightarrow>
                                    (case dirent_read_comment mem zde b src comment_len err of
                                       (None, b, src, err) \<Rightarrow> (None, own b, src, err)
                                     | (Some zde, b, src, err) \<Rightarrow>
                                         (case dirent_read_finish mem ext local (zip_buffer_ok (the b)) zde err of
                                            (None, err) \<Rightarrow> (None, own b, src, err)
                                          | (Some zde, err) \<Rightarrow>
                                              (Some (zde, uint (hsize + ucast variable_size)),
                                               own b, src, err))))))"

text \<open>The size of an entry from its length fields; the file position is at its start. The offset
  of those fields, their number, and the sum.\<close>

fun add_lengths :: "nat \<Rightarrow> int \<Rightarrow> zip_buffer \<Rightarrow> int \<times> zip_buffer" where
  "add_lengths 0 n b = (n, b)"
| "add_lengths (Suc k) n b = (case zip_buffer_get_16 b of (x, b') \<Rightarrow> add_lengths k (n + uint x) b')"

definition zip_dirent_size ::
  "malloc \<Rightarrow> 's zip_source \<Rightarrow> u32 \<Rightarrow> zip_error \<Rightarrow> int \<times> 's zip_source \<times> zip_error" where
  "zip_dirent_size mem src flags err =
     (let local = (flags AND ZIP_EF_LOCAL \<noteq> 0)
      in case zip_source_seek src (if local then 26 else 28) SEEK_CUR of
           (r, src') \<Rightarrow>
             if r < 0 then (-1, src', zip_error_set_from_source err src')
             else case zip_buffer_new_from_source mem src' (if local then 4 else 6) (Some []) err of
                    (None, src'', err') \<Rightarrow> (-1, src'', err')
                  | (Some b, src'', err') \<Rightarrow>
                      (case add_lengths (if local then 2 else 3) (uint (dirent_hsize local)) b of
                         (sz, b') \<Rightarrow>
                           if \<not> zip_buffer_eof b' then (-1, src'', zip_error_set err' ZIP_ER_INTERNAL 0)
                           else (sz, src'', err')))"

section \<open>Writing a header\<close>

text \<open>The extra field for a UTF-8 string: a version byte, the checksum of the string, the string.\<close>

definition zip_ef_utf8 ::
  "malloc \<Rightarrow> external \<Rightarrow> u16 \<Rightarrow> zip_string option \<Rightarrow> zip_error \<Rightarrow> zip_extra_field option \<times> zip_error" where
  "zip_ef_utf8 mem ext i str err =
     (case fst (zip_string_get mem str ZIP_FL_ENC_RAW zip_error_init) of
        None \<Rightarrow> (None, err)
      | Some (raw, len) \<Rightarrow>
          if len + 5 > 0xffff then (None, zip_error_set err ZIP_ER_INVAL 0)
          else case zip_buffer_new mem None (ucast (len + 5)) of
                 None \<Rightarrow> (None, zip_error_set err ZIP_ER_MEMORY 0)
               | Some b \<Rightarrow>
                   let b = put_all b [P8 1, P32 (zip_string_crc32 (ext_crc32 ext) str), PB (take (unat len) raw)]
                   in if \<not> zip_buffer_ok b then (None, zip_error_set err ZIP_ER_INTERNAL 0)
                      else (zip_ef_new mem i (ucast (zip_buffer_offset b)) (zip_buffer_data b) ZIP_EF_BOTH, err))"

text \<open>The UTF-8 flag when it describes both strings, else a field for each UTF-8 string. The fields
  are prepended; \<open>None\<close> is failure.\<close>

definition dirent_write_encoding ::
  "malloc \<Rightarrow> external \<Rightarrow> zip_dirent \<Rightarrow> u32 \<Rightarrow> zip_error \<Rightarrow>
   zip_dirent \<times> zip_extra_field list option \<times> zip_error" where
  "dirent_write_encoding mem ext de flags err =
     (let (name_enc, name) = zip_guess_encoding (de_filename de) ZIP_ENCODING_UNKNOWN;
          (com_enc, comment) = zip_guess_encoding (de_comment de) ZIP_ENCODING_UNKNOWN;
          de = de\<lparr>de_filename := name, de_comment := comment\<rparr>
      in if name_enc = ZIP_ENCODING_UTF8_KNOWN \<and> com_enc = ZIP_ENCODING_ASCII \<or>
            name_enc = ZIP_ENCODING_ASCII \<and> com_enc = ZIP_ENCODING_UTF8_KNOWN \<or>
            name_enc = ZIP_ENCODING_UTF8_KNOWN \<and> com_enc = ZIP_ENCODING_UTF8_KNOWN
         then (de\<lparr>de_bitflags := de_bitflags de OR ZIP_GPBF_ENCODING_UTF_8\<rparr>, Some [], err)
         else
           let de = de\<lparr>de_bitflags := de_bitflags de AND NOT ZIP_GPBF_ENCODING_UTF_8\<rparr>;
               (ef, err) =
                 (if name_enc = ZIP_ENCODING_UTF8_KNOWN
                  then case zip_ef_utf8 mem ext ZIP_EF_UTF_8_NAME (de_filename de) err of
                         (None, err') \<Rightarrow> (None, err')
                       | (Some e, err') \<Rightarrow> (Some [e], err')
                  else (Some [], err))
           in case ef of
                None \<Rightarrow> (de, None, err)
              | Some efs \<Rightarrow>
                  if flags AND ZIP_FL_LOCAL = 0 \<and> com_enc = ZIP_ENCODING_UTF8_KNOWN
                  then case zip_ef_utf8 mem ext ZIP_EF_UTF_8_COMMENT (de_comment de) err of
                         (None, err') \<Rightarrow> (de, None, err')
                       | (Some ef2, err') \<Rightarrow> (de, Some (ef2 # efs), err')
                  else (de, Some efs, err))"

definition dirent_is_aes :: "zip_dirent \<Rightarrow> bool" where
  "dirent_is_aes de = (de_encryption_method de = ZIP_EM_AES_128 \<or> de_encryption_method de = ZIP_EM_AES_192 \<or>
     de_encryption_method de = ZIP_EM_AES_256)"

definition dirent_is_zip64 :: "zip_dirent \<Rightarrow> u32 \<Rightarrow> bool" where
  "dirent_is_zip64 de flags =
     (flags AND (ZIP_FL_LOCAL OR ZIP_FL_FORCE_ZIP64) = ZIP_FL_LOCAL OR ZIP_FL_FORCE_ZIP64 \<or>
      zip_dirent_needs_zip64 de flags)"

definition zip64_fields :: "zip_dirent \<Rightarrow> u32 \<Rightarrow> put_field list" where
  "zip64_fields de flags =
     (let big = (flags AND ZIP_FL_FORCE_ZIP64 \<noteq> 0 \<or> de_comp_size de > ZIP_UINT32_MAX \<or>
                 de_uncomp_size de > ZIP_UINT32_MAX)
      in if flags AND ZIP_FL_LOCAL \<noteq> 0
         then if big then [P64 (de_uncomp_size de), P64 (de_comp_size de)] else []
         else if big \<or> de_offset de > ZIP_UINT32_MAX
         then (if de_uncomp_size de \<ge> ZIP_UINT32_MAX then [P64 (de_uncomp_size de)] else []) @
              (if de_comp_size de \<ge> ZIP_UINT32_MAX then [P64 (de_comp_size de)] else []) @
              (if de_offset de \<ge> ZIP_UINT32_MAX then [P64 (de_offset de)] else [])
         else [])"

text \<open>
  A field from the bytes put into a buffer on the stack, prepended to the list. The C code follows
  the result of \<open>_zip_ef_new\<close> without checking it for \<open>NULL\<close>: \<open>the None\<close> is the
  undefined behaviour when memory runs out there. A missing list is the error \<open>err\<close>.
\<close>

definition add_ef_buffer ::
  "malloc \<Rightarrow> u16 \<Rightarrow> u64 \<Rightarrow> put_field list \<Rightarrow> zip_extra_field list \<Rightarrow> zip_error \<Rightarrow>
   zip_extra_field list option \<times> zip_error" where
  "add_ef_buffer mem i room fs efs err =
     (case zip_buffer_new mem (Some (replicate (unat room) 0)) room of
        None \<Rightarrow> (None, zip_error_set err ZIP_ER_MEMORY 0)
      | Some b \<Rightarrow>
          let b = put_all b fs
          in if \<not> zip_buffer_ok b then (None, zip_error_set err ZIP_ER_INTERNAL 0)
             else (Some (the (zip_ef_new mem i (ucast (zip_buffer_offset b)) (zip_buffer_data b) ZIP_EF_BOTH) # efs),
                   err))"

definition dirent_write_zip64_ef ::
  "malloc \<Rightarrow> zip_dirent \<Rightarrow> u32 \<Rightarrow> zip_extra_field list \<Rightarrow> zip_error \<Rightarrow>
   zip_extra_field list option \<times> zip_error" where
  "dirent_write_zip64_ef mem de flags efs err =
     (if dirent_is_zip64 de flags
      then add_ef_buffer mem ZIP_EF_ZIP64 EFZIP64SIZE (zip64_fields de flags) efs err
      else (Some efs, err))"

definition dirent_write_aes_ef ::
  "malloc \<Rightarrow> zip_dirent \<Rightarrow> zip_extra_field list \<Rightarrow> zip_error \<Rightarrow> zip_extra_field list option \<times> zip_error" where
  "dirent_write_aes_ef mem de efs err =
     (if dirent_is_aes de
      then add_ef_buffer mem ZIP_EF_WINZIP_AES EF_WINZIP_AES_SIZE
             [P16 2, PB [0x41, 0x45], P8 (ucast (de_encryption_method de AND 0xff)),
              P16 (word_of_int (de_comp_method de))] efs err
      else (Some efs, err))"

text \<open>The calls that fill the fixed part.\<close>

definition dirent_fields :: "external \<Rightarrow> zip_dirent \<Rightarrow> u32 \<Rightarrow> u32 \<Rightarrow> put_field list" where
  "dirent_fields ext de flags ef_total_size =
     (let local = (flags AND ZIP_FL_LOCAL \<noteq> 0);
          really64 = zip_dirent_needs_zip64 de flags;
          size32 = (\<lambda>x. if x < ZIP_UINT32_MAX then ucast x else 0xffffffff) :: u64 \<Rightarrow> u32;
          (dostime, dosdate) = zip_u2d_time ext (de_last_mod de)
      in [PB (if local then LOCAL_MAGIC else CENTRAL_MAGIC)] @
         (if local then [] else [P16 (if really64 then 45 else de_version_madeby de)]) @
         [P16 (if really64 then 45 else de_version_needed de),
          P16 (de_bitflags de),
          P16 (if dirent_is_aes de then 99 else word_of_int (de_comp_method de)),
          P16 dostime,
          P16 dosdate,
          P32 (if dirent_is_aes de \<and> de_uncomp_size de < 20 then 0 else de_crc de)] @
         (if local \<and> (de_comp_size de \<ge> ZIP_UINT32_MAX \<or> de_uncomp_size de \<ge> ZIP_UINT32_MAX)
          then [P32 0xffffffff, P32 0xffffffff]
          else [P32 (size32 (de_comp_size de)), P32 (size32 (de_uncomp_size de))]) @
         [P16 (zip_string_length (de_filename de)),
          P16 (ucast ef_total_size)] @
         (if local then []
          else [P16 (zip_string_length (de_comment de)),
                P16 (ucast (de_disk_number de)),
                P16 (de_int_attrib de),
                P32 (de_ext_attrib de),
                P32 (size32 (de_offset de))]))"

text \<open>The header on its way out: the fixed part, the file name, the fields computed here, the
  fields of the entry, the comment. The first failing write ends it.\<close>

definition dirent_emit ::
  "malloc \<Rightarrow> 's writer \<Rightarrow> bytes \<Rightarrow> zip_dirent \<Rightarrow> zip_extra_field list \<Rightarrow> u32 \<Rightarrow> int \<times> 's writer" where
  "dirent_emit mem za hdr de efs flags =
     (case zip_write za hdr of
        (r, za) \<Rightarrow> if r < 0 then (-1, za) else
          (case zip_string_write za (de_filename de) of
             (r, za) \<Rightarrow> if r < 0 then (-1, za) else
               (case (if efs = [] then (0, za) else zip_ef_write mem za efs ZIP_EF_BOTH) of
                  (r, za) \<Rightarrow> if r < 0 then (-1, za) else
                    (case (if de_extra_fields de = [] then (0, za)
                           else zip_ef_write mem za (de_extra_fields de) flags) of
                       (r, za) \<Rightarrow> if r < 0 then (-1, za) else
                         if flags AND ZIP_FL_LOCAL = 0
                         then (case zip_string_write za (de_comment de) of
                                 (r, za) \<Rightarrow> if r < 0 then (-1, za) else (0, za))
                         else (0, za)))))"

text \<open>The result of the C function, the writer, and the entry with its updated flags.\<close>

definition zip_dirent_write ::
  "malloc \<Rightarrow> external \<Rightarrow> 's writer \<Rightarrow> zip_dirent \<Rightarrow> u32 \<Rightarrow> int \<times> 's writer \<times> zip_dirent" where
  "zip_dirent_write mem ext za de flags =
     (case dirent_write_encoding mem ext de flags (snd za) of
        (de, None, err) \<Rightarrow> (-1, (fst za, err), de)
      | (de, Some efs, err) \<Rightarrow>
          let de = (if de_encryption_method de = ZIP_EM_NONE
                    then de\<lparr>de_bitflags := de_bitflags de AND NOT ZIP_GPBF_ENCRYPTED\<rparr>
                    else de\<lparr>de_bitflags := de_bitflags de OR ZIP_GPBF_ENCRYPTED\<rparr>)
          in case dirent_write_zip64_ef mem de flags efs err of
               (None, err) \<Rightarrow> (-1, (fst za, err), de)
             | (Some efs, err) \<Rightarrow>
                 (case dirent_write_aes_ef mem de efs err of
                    (None, err) \<Rightarrow> (-1, (fst za, err), de)
                  | (Some efs, err) \<Rightarrow>
                      (case zip_buffer_new mem (Some (replicate (unat CDENTRYSIZE) 0)) CDENTRYSIZE of
                         None \<Rightarrow> (-1, (fst za, zip_error_set err ZIP_ER_MEMORY 0), de)
                       | Some b \<Rightarrow>
                           let total = ucast (zip_ef_size (de_extra_fields de) flags) +
                                       ucast (zip_ef_size efs ZIP_EF_BOTH);
                               b = put_all b (dirent_fields ext de flags total)
                           in if \<not> zip_buffer_ok b
                              then (-1, (fst za, zip_error_set err ZIP_ER_INTERNAL 0), de)
                              else case dirent_emit mem (fst za, err)
                                          (take (unat (zip_buffer_offset b)) (zip_buffer_data b)) de efs flags of
                                     (r, za) \<Rightarrow> (if r < 0 then -1 else if dirent_is_zip64 de flags then 1 else 0,
                                                 za, de))))"

section \<open>DOS dates and back\<close>

lemma uint_field: "uint (drop_bit n w AND mask k) = uint w div 2 ^ n mod 2 ^ k" for w :: u16
proof -
  have "uint (drop_bit n w AND mask k) = take_bit k (uint (drop_bit n w))"
    unfolding take_bit_eq_mask [symmetric] by (rule unsigned_take_bit_eq)
  also have "uint (drop_bit n w) = drop_bit n (uint w)"
    using uint_lt2p [of w] by (simp only: unsigned_drop_bit_eq take_bit_int_eq_self uint_ge_0)
  finally show ?thesis by (simp only: take_bit_eq_mod drop_bit_eq_div)
qed

lemma dos_masks:
  "(127 :: u16) = mask 7" "(15 :: u16) = mask 4" "(31 :: u16) = mask 5" "(63 :: u16) = mask 6"
  "(62 :: u16) = mask (1 + 5) AND NOT (mask 1)"
  by (simp_all add: mask_eq_exp_minus_1)

lemma push_masked: "push_bit n t AND (mask (n + k) AND NOT (mask n)) = push_bit n (take_bit k t)" for t :: u16
  by (rule bit_word_eqI) (auto simp: bit_simps)

lemma uint_seconds: "uint (push_bit 1 t AND 62) = 2 * (uint t mod 32)" for t :: u16
proof -
  have t: "uint (take_bit 5 t) = uint t mod 32"
    using uint_field [of 0 t 5] by (simp only: take_bit_eq_mask drop_bit_0 id_apply power_0 div_by_1) simp
  have "uint (push_bit 1 (take_bit 5 t)) = 2 * uint (take_bit 5 t) mod 65536"
    by (simp add: push_bit_eq_mult uint_word_ariths mult.commute)
  also have "\<dots> = 2 * (uint t mod 32)" unfolding t by (rule mod_pos_pos_trivial) simp_all
  finally show ?thesis unfolding dos_masks(5) push_masked .
qed

lemma dos_small: "x div 512 mod 128 = x div 512" "x div 2048 mod 32 = x div 2048"
  if "0 \<le> x" "x < 65536" for x :: int
  by (rule mod_pos_pos_trivial; use that in simp)+

lemma dos_powers: "(2 :: int) ^ 11 = 2048" "(2 :: int) ^ 5 = 32" "(2 :: int) ^ 9 = 512"
  "(2 :: int) ^ 4 = 16" "(2 :: int) ^ 6 = 64" "(2 :: int) ^ 7 = 128" "(2 :: int) ^ 0 = 1" "(2 :: int) ^ 1 = 2" by simp_all

lemma dos_tm_eq:
  "dos_tm t d = \<lparr>tm_year = uint d div 512 + 80, tm_mon = uint d div 32 mod 16 - 1, tm_mday = uint d mod 32,
     tm_hour = uint t div 2048, tm_min = uint t div 32 mod 64, tm_sec = 2 * (uint t mod 32), tm_isdst = -1\<rparr>"
proof -
  have u: "uint d < 65536" "uint t < 65536" using uint_lt2p [of d] uint_lt2p [of t] by simp_all
  have "uint (drop_bit 9 d AND 127) = uint d div 512" "uint (drop_bit 5 d AND 15) = uint d div 32 mod 16"
    "uint (drop_bit 0 d AND 31) = uint d mod 32" "uint (drop_bit 11 t AND 31) = uint t div 2048"
    "uint (drop_bit 5 t AND 63) = uint t div 32 mod 64"
    unfolding dos_masks uint_field dos_powers dos_small [OF uint_ge_0 u(1)] dos_small [OF uint_ge_0 u(2)]
      div_by_1 by (rule refl)+
  moreover have "x + 1980 - 1900 = x + 80" for x :: int by simp
  ultimately show ?thesis
    unfolding dos_tm_def uint_seconds by (simp only: drop_bit_0 id_apply)
qed

lemma dos_glue:
  "a * 64 + m = h \<Longrightarrow> h * 32 + s = x \<Longrightarrow> a * 2048 + m * 32 + s = x"
  "a * 16 + m = h \<Longrightarrow> h * 32 + s = x \<Longrightarrow> (a + 80 + 1900 - 1980) * 512 + (m - 1 + 1) * 32 + s = x" for x :: int
  by (simp_all add: algebra_simps)

lemma dos_arith:
  "x div 2048 * 2048 + x div 32 mod 64 * 32 + 2 * (x mod 32) div 2 = x"
  "(x div 512 + 80 + 1900 - 1980) * 512 + (x div 32 mod 16 - 1 + 1) * 32 + x mod 32 = x" for x :: int
proof -
  have "x div 2048 = x div 32 div 64" "x div 512 = x div 32 div 16"
    using zdiv_zmult2_eq [of 64 x 32] zdiv_zmult2_eq [of 16 x 32] by simp_all
  moreover have "2 * (x mod 32) div 2 = x mod 32" by (rule nonzero_mult_div_cancel_left) simp
  ultimately show "x div 2048 * 2048 + x div 32 mod 64 * 32 + 2 * (x mod 32) div 2 = x"
    "(x div 512 + 80 + 1900 - 1980) * 512 + (x div 32 mod 16 - 1 + 1) * 32 + x mod 32 = x"
    using dos_glue [OF div_mult_mod_eq div_mult_mod_eq] by (simp_all only:)
qed



end
