(* ===== verification/Zip_Hash.thy ===== *)
theory Zip_Hash
  imports Zip_Io "HOL-Library.Multiset"
begin

text \<open>
  \<open>zip_hash.c\<close>: the table from names to indices. A bucket is a list; an entry keeps its
  index in the archive as opened and its present one (-1 for none). The names are C strings owned
  by the directory entries; here they are values. The hash is never \<open>NULL\<close>, a name may be.

  The fill ratios are floating point in C. The table sizes are powers of two below 2^32, for which
  \<open>n > size * .75\<close> is \<open>4 * n > 3 * size\<close> and \<open>n < size * .01\<close> is
  \<open>100 * n < size\<close>: the products are exact, and no integer lies between \<open>size / 100\<close>
  and its double approximation. \<open>(zip_uint32_t)(capacity / .75)\<close> is the integer quotient,
  because a third is more than the rounding error at 2^32.

  The specification is a map from names to pairs of indices. The table refines it: each operation
  acts on the map (\<open>hash_map\<close>) as the operation of the same name on maps, resizing is invisible.
\<close>

section \<open>The table\<close>

abbreviation HASH_MIN_SIZE :: u32 where "HASH_MIN_SIZE \<equiv> 256"
abbreviation HASH_MAX_SIZE :: u32 where "HASH_MAX_SIZE \<equiv> 0x80000000"

record zip_hash_entry =
  he_name :: bytes
  he_orig_index :: int
  he_current_index :: int
  he_hash_value :: u32

record zip_hash =
  hash_table_size :: u32
  hash_nentries :: u64
  hash_table :: "zip_hash_entry list list"

definition hash_step :: "u64 \<Rightarrow> u8 \<Rightarrow> u64" where
  "hash_step v c = (v * 33 + ucast c) mod 0x100000000"

definition hash_string :: "bytes \<Rightarrow> u32" where
  "hash_string name = ucast (foldl hash_step 5381 name)"

definition hash_bucket :: "u32 \<Rightarrow> u32 \<Rightarrow> nat" where
  "hash_bucket v sz = unat (v mod sz)"

definition hash_push :: "u32 \<Rightarrow> zip_hash_entry list list \<Rightarrow> zip_hash_entry \<Rightarrow> zip_hash_entry list list" where
  "hash_push sz table e = (let i = hash_bucket (he_hash_value e) sz in table[i := e # table ! i])"

definition hash_resize :: "malloc \<Rightarrow> zip_hash \<Rightarrow> u32 \<Rightarrow> zip_error \<Rightarrow> bool \<times> zip_hash \<times> zip_error" where
  "hash_resize mem h new_size err =
     (if new_size = hash_table_size h then (True, h, err)
      else if \<not> mem A_hash_table then (False, h, zip_error_set err ZIP_ER_MEMORY 0)
      else let empty_table = replicate (unat new_size) [];
               new_table = (if hash_nentries h > 0
                            then foldl (foldl (hash_push new_size)) empty_table (hash_table h)
                            else empty_table)
           in (True, h\<lparr>hash_table := new_table, hash_table_size := new_size\<rparr>, err))"

definition size_for_capacity :: "u64 \<Rightarrow> u32" where
  "size_for_capacity capacity =
     (let v = (if 4 * uint capacity > 3 * 0xffffffff then 0xffffffff else word_of_int (4 * uint capacity div 3)) :: u32
      in if v > HASH_MAX_SIZE then HASH_MAX_SIZE
         else let v = v - 1;
                  v = v OR drop_bit 1 v;
                  v = v OR drop_bit 2 v;
                  v = v OR drop_bit 4 v;
                  v = v OR drop_bit 8 v;
                  v = v OR drop_bit 16 v
              in v + 1)"

definition zip_hash_new :: "malloc \<Rightarrow> zip_error \<Rightarrow> zip_hash option \<times> zip_error" where
  "zip_hash_new mem err =
     (if \<not> mem A_hash then (None, zip_error_set err ZIP_ER_MEMORY 0)
      else (Some \<lparr>hash_table_size = 0, hash_nentries = 0, hash_table = []\<rparr>, err))"

definition hash_overfull :: "zip_hash \<Rightarrow> bool" where
  "hash_overfull h = (4 * unat (hash_nentries h) > 3 * unat (hash_table_size h))"

definition hash_underfull :: "u64 \<Rightarrow> u32 \<Rightarrow> bool" where
  "hash_underfull n sz = (100 * unat n < unat sz)"

definition hash_same :: "u32 \<Rightarrow> bytes \<Rightarrow> zip_hash_entry \<Rightarrow> bool" where
  "hash_same v name e = (he_hash_value e = v \<and> he_name e = name)"

text \<open>An assignment through a pointer to the entry of a name, which is the first of that name in its
  bucket.\<close>

fun update_first :: "('a \<Rightarrow> bool) \<Rightarrow> ('a \<Rightarrow> 'a) \<Rightarrow> 'a list \<Rightarrow> 'a list" where
  "update_first P f [] = []"
| "update_first P f (x # xs) = (if P x then f x # xs else x # update_first P f xs)"

definition hash_assign :: "zip_hash \<Rightarrow> bytes \<Rightarrow> (zip_hash_entry \<Rightarrow> zip_hash_entry) \<Rightarrow> zip_hash" where
  "hash_assign h name f =
     (let v = hash_string name; i = hash_bucket v (hash_table_size h)
      in h\<lparr>hash_table := (hash_table h)[i := update_first (hash_same v name) f (hash_table h ! i)]\<rparr>)"

definition hash_set_index :: "u64 \<Rightarrow> u32 \<Rightarrow> zip_hash_entry \<Rightarrow> zip_hash_entry" where
  "hash_set_index i flags e =
     (let e = (if flags AND ZIP_FL_UNCHANGED \<noteq> 0 then e\<lparr>he_orig_index := uint i\<rparr> else e)
      in e\<lparr>he_current_index := uint i\<rparr>)"

text \<open>A fresh entry has an unset current index, which the last assignment of the function sets
  unless growing the table failed.\<close>

definition zip_hash_add ::
  "malloc \<Rightarrow> zip_hash \<Rightarrow> bytes option \<Rightarrow> u64 \<Rightarrow> u32 \<Rightarrow> zip_error \<Rightarrow> bool \<times> zip_hash \<times> zip_error" where
  "zip_hash_add mem h name index flags err =
     (case name of
        None \<Rightarrow> (False, h, zip_error_set err ZIP_ER_INVAL 0)
      | Some name \<Rightarrow>
          if index > ZIP_INT64_MAX then (False, h, zip_error_set err ZIP_ER_INVAL 0)
          else case (if hash_table_size h = 0 then hash_resize mem h HASH_MIN_SIZE err else (True, h, err)) of
            (False, h, err) \<Rightarrow> (False, h, err)
          | (True, h, err) \<Rightarrow>
              let v = hash_string name; i = hash_bucket v (hash_table_size h)
              in case find (hash_same v name) (hash_table h ! i) of
                   Some e \<Rightarrow>
                     if flags AND ZIP_FL_UNCHANGED \<noteq> 0 \<and> he_orig_index e \<noteq> -1 \<or> he_current_index e \<noteq> -1
                     then (False, h, zip_error_set err ZIP_ER_EXISTS 0)
                     else (True, hash_assign h name (hash_set_index index flags), err)
                 | None \<Rightarrow>
                     if \<not> mem A_hash_entry then (False, h, zip_error_set err ZIP_ER_MEMORY 0)
                     else
                     let e = \<lparr>he_name = name, he_orig_index = -1, he_current_index = 0, he_hash_value = v\<rparr>;
                         h = h\<lparr>hash_table := (hash_table h)[i := e # hash_table h ! i],
                               hash_nentries := hash_nentries h + 1\<rparr>
                     in case (if hash_overfull h \<and> hash_table_size h < HASH_MAX_SIZE
                              then hash_resize mem h (hash_table_size h * 2) err else (True, h, err)) of
                          (False, h, err) \<Rightarrow> (False, h, err)
                        | (True, h, err) \<Rightarrow> (True, hash_assign h name (hash_set_index index flags), err))"

fun remove_first :: "('a \<Rightarrow> bool) \<Rightarrow> 'a list \<Rightarrow> 'a list" where
  "remove_first P [] = []"
| "remove_first P (x # xs) = (if P x then xs else x # remove_first P xs)"

definition zip_hash_delete ::
  "malloc \<Rightarrow> zip_hash \<Rightarrow> bytes option \<Rightarrow> zip_error \<Rightarrow> bool \<times> zip_hash \<times> zip_error" where
  "zip_hash_delete mem h name err =
     (case name of
        None \<Rightarrow> (False, h, zip_error_set err ZIP_ER_INVAL 0)
      | Some name \<Rightarrow>
          let v = hash_string name; i = hash_bucket v (hash_table_size h)
          in case (if hash_nentries h > 0 then find (hash_same v name) (hash_table h ! i) else None) of
               None \<Rightarrow> (False, h, zip_error_set err ZIP_ER_NOENT 0)
             | Some e \<Rightarrow>
                 if he_orig_index e = -1
                 then let h = h\<lparr>hash_table := (hash_table h)[i := remove_first (hash_same v name) (hash_table h ! i)],
                                hash_nentries := hash_nentries h - 1\<rparr>
                      in if hash_underfull (hash_nentries h) (hash_table_size h) \<and> hash_table_size h > HASH_MIN_SIZE
                         then hash_resize mem h (hash_table_size h div 2) err
                         else (True, h, err)
                 else (True, hash_assign h name (\<lambda>e. e\<lparr>he_current_index := -1\<rparr>), err))"

definition zip_hash_lookup :: "zip_hash \<Rightarrow> bytes option \<Rightarrow> u32 \<Rightarrow> zip_error \<Rightarrow> int \<times> zip_error" where
  "zip_hash_lookup h name flags err =
     (case name of
        None \<Rightarrow> (-1, zip_error_set err ZIP_ER_INVAL 0)
      | Some name \<Rightarrow>
          let i = hash_bucket (hash_string name) (hash_table_size h)
          in case (if hash_nentries h > 0 then find (\<lambda>e. he_name e = name) (hash_table h ! i) else None) of
               None \<Rightarrow> (-1, zip_error_set err ZIP_ER_NOENT 0)
             | Some e \<Rightarrow>
                 let r = (if flags AND ZIP_FL_UNCHANGED \<noteq> 0 then he_orig_index e else he_current_index e)
                 in if r \<noteq> -1 then (r, err) else (-1, zip_error_set err ZIP_ER_NOENT 0))"

definition zip_hash_reserve_capacity ::
  "malloc \<Rightarrow> zip_hash \<Rightarrow> u64 \<Rightarrow> zip_error \<Rightarrow> bool \<times> zip_hash \<times> zip_error" where
  "zip_hash_reserve_capacity mem h capacity err =
     (if capacity = 0 then (True, h, err)
      else let new_size = size_for_capacity capacity
           in if new_size \<le> hash_table_size h then (True, h, err)
              else hash_resize mem h new_size err)"

text \<open>The size the table shrinks to.\<close>

function shrink_size :: "u64 \<Rightarrow> u32 \<Rightarrow> u32" where
  "shrink_size n sz = (if hash_underfull n sz \<and> sz > HASH_MIN_SIZE then shrink_size n (sz div 2) else sz)"
  by pat_completeness auto
termination
proof (relation "measure (\<lambda>(n, sz). unat sz)", goal_cases)
  case (2 n sz)
  then have "0 < unat sz" by (simp add: word_less_nat_alt)
  then show ?case by (simp add: unat_div)
qed simp

definition revert_bucket :: "zip_hash_entry list \<Rightarrow> zip_hash_entry list" where
  "revert_bucket b = map (\<lambda>e. e\<lparr>he_current_index := he_orig_index e\<rparr>) (filter (\<lambda>e. he_orig_index e \<noteq> -1) b)"

definition zip_hash_revert :: "malloc \<Rightarrow> zip_hash \<Rightarrow> zip_error \<Rightarrow> bool \<times> zip_hash \<times> zip_error" where
  "zip_hash_revert mem h err =
     (let gone = length (filter (\<lambda>e. he_orig_index e = -1) (concat (hash_table h)));
          h = h\<lparr>hash_table := map revert_bucket (hash_table h),
                hash_nentries := hash_nentries h - of_nat gone\<rparr>
      in if hash_underfull (hash_nentries h) (hash_table_size h) \<and> hash_table_size h > HASH_MIN_SIZE
         then hash_resize mem h (shrink_size (hash_nentries h) (hash_table_size h div 2)) err
         else (True, h, err))"

declare shrink_size.simps [simp del]

section \<open>The table as a bag of entries\<close>

definition hash_entries :: "zip_hash \<Rightarrow> zip_hash_entry list" where
  "hash_entries h = concat (hash_table h)"

definition entry_map :: "zip_hash_entry list \<Rightarrow> bytes \<Rightarrow> (int \<times> int) option" where
  "entry_map es = map_of (map (\<lambda>e. (he_name e, he_orig_index e, he_current_index e)) es)"

definition hash_map :: "zip_hash \<Rightarrow> bytes \<Rightarrow> (int \<times> int) option" where
  "hash_map h = entry_map (hash_entries h)"

definition entry_hashed :: "zip_hash_entry \<Rightarrow> bool" where
  "entry_hashed e = (he_hash_value e = hash_string (he_name e))"

definition buckets_ok :: "u32 \<Rightarrow> zip_hash_entry list list \<Rightarrow> bool" where
  "buckets_ok sz t = (length t = unat sz \<and>
     (\<forall>i<length t. \<forall>e\<in>set (t ! i). entry_hashed e \<and> hash_bucket (he_hash_value e) sz = i))"

definition table_size_ok :: "u32 \<Rightarrow> bool" where
  "table_size_ok sz = (\<exists>k\<le>31. unat sz = 2 ^ k)"

definition hash_wf :: "zip_hash \<Rightarrow> bool" where
  "hash_wf h = (buckets_ok (hash_table_size h) (hash_table h) \<and>
     distinct (map he_name (hash_entries h)) \<and>
     unat (hash_nentries h) = length (hash_entries h) \<and>
     (hash_table_size h = 0 \<or> table_size_ok (hash_table_size h)))"

lemma table_size_nz: "table_size_ok sz \<Longrightarrow> sz \<noteq> 0"
  by (auto simp: table_size_ok_def)

lemma hash_bucket_less: "sz \<noteq> 0 \<Longrightarrow> hash_bucket v sz < unat sz"
  unfolding hash_bucket_def unat_mod by (intro mod_less_divisor) (simp add: unat_gt_0)

lemma mset_concat_update:
  "i < length t \<Longrightarrow> mset (concat (t[i := b])) + mset (t ! i) = mset (concat t) + mset b"
  by (induction t arbitrary: i) (auto split: nat.split simp: ac_simps)

lemma mset_exchange: "A + X = C + B \<Longrightarrow> B + E = X + F \<Longrightarrow> A + E = C + F" for A :: "'a multiset"
proof -
  assume 1: "A + X = C + B" and 2: "B + E = X + F"
  have "A + E + X = C + (B + E)" using 1 by (simp add: ac_simps)
  also have "\<dots> = C + F + X" unfolding 2 by (simp add: ac_simps)
  finally show "A + E = C + F" by simp
qed

lemma in_concat_nth: "e \<in> set (concat t) \<longleftrightarrow> (\<exists>i<length t. e \<in> set (t ! i))"
  by (auto simp: set_concat) (metis in_set_conv_nth)

lemma buckets_ok_update:
  "buckets_ok sz t \<Longrightarrow> i < length t \<Longrightarrow>
   (\<And>e. e \<in> set b \<Longrightarrow> entry_hashed e \<and> hash_bucket (he_hash_value e) sz = i) \<Longrightarrow>
   buckets_ok sz (t[i := b])"
  by (auto simp: buckets_ok_def nth_list_update)

lemma buckets_okD:
  "buckets_ok sz t \<Longrightarrow> i < length t \<Longrightarrow> e \<in> set (t ! i) \<Longrightarrow>
   entry_hashed e \<and> hash_bucket (he_hash_value e) sz = i"
  by (auto simp: buckets_ok_def)

lemma buckets_ok_entry: "buckets_ok sz t \<Longrightarrow> e \<in> set (concat t) \<Longrightarrow>
    entry_hashed e \<and> hash_bucket (he_hash_value e) sz < length t \<and> e \<in> set (t ! hash_bucket (he_hash_value e) sz)"
  unfolding in_concat_nth buckets_ok_def by auto

text \<open>Moving entries to a new table.\<close>

lemma hash_push_ok:
  assumes "buckets_ok sz t" "sz \<noteq> 0" "entry_hashed e"
  shows "buckets_ok sz (hash_push sz t e)"
    and "mset (concat (hash_push sz t e)) = mset (concat t) + {#e#}"
proof -
  let ?i = "hash_bucket (he_hash_value e) sz"
  have i: "?i < length t" using assms hash_bucket_less by (simp add: buckets_ok_def)
  show "buckets_ok sz (hash_push sz t e)"
    using assms i by (auto simp: hash_push_def Let_def intro!: buckets_ok_update dest: buckets_okD)
  show "mset (concat (hash_push sz t e)) = mset (concat t) + {#e#}"
    using mset_concat_update [OF i, of "e # t ! ?i"] by (simp add: hash_push_def Let_def)
qed

lemma hash_fill:
  "buckets_ok sz t \<Longrightarrow> sz \<noteq> 0 \<Longrightarrow> (\<And>e. e \<in> set es \<Longrightarrow> entry_hashed e) \<Longrightarrow>
   buckets_ok sz (foldl (hash_push sz) t es) \<and>
   mset (concat (foldl (hash_push sz) t es)) = mset (concat t) + mset es"
proof (induction es arbitrary: t)
  case (Cons e es)
  have "entry_hashed e" using Cons.prems(3) by simp
  note push = hash_push_ok [OF Cons.prems(1,2) this]
  show ?case using Cons.IH [OF push(1) Cons.prems(2)] Cons.prems(3) by (simp add: push(2))
qed simp

lemma foldl_foldl: "foldl (foldl f) a xss = foldl f a (concat xss)"
  by (induction xss arbitrary: a) simp_all

lemma buckets_ok_empty: "buckets_ok sz (replicate (unat sz) [])"
  by (simp add: buckets_ok_def)

lemma concat_empty: "concat (replicate n []) = []"
  by (induction n) simp_all

text \<open>Two tables with the same bag of entries are the same map.\<close>

lemma entry_map_cong:
  assumes "mset es = mset es'" "distinct (map he_name es)"
  shows "distinct (map he_name es')" "entry_map es = entry_map es'"
proof -
  have "mset (map he_name es) = mset (map he_name es')" using assms(1) by (simp add: mset_map)
  then show d: "distinct (map he_name es')" using assms(2) mset_eq_imp_distinct_iff by blast
  have "set es = set es'" using assms(1) mset_eq_setD by blast
  then show "entry_map es = entry_map es'"
    unfolding entry_map_def using assms(2) d by (subst map_of_inject_set) (simp_all add: comp_def)
qed

lemma entry_map_Some:
  "distinct (map he_name es) \<Longrightarrow>
   entry_map es n = Some oc \<longleftrightarrow> (\<exists>e\<in>set es. he_name e = n \<and> oc = (he_orig_index e, he_current_index e))"
  unfolding entry_map_def by (subst map_of_eq_Some_iff) (auto simp: comp_def)

lemma entry_map_None: "entry_map es n = None \<longleftrightarrow> (\<forall>e\<in>set es. he_name e \<noteq> n)"
  by (auto simp: entry_map_def map_of_eq_None_iff image_iff)

lemma entry_map_replace:
  assumes es: "mset es' + {#e#} = mset es + {#e'#}" "distinct (map he_name es)" "e \<in> set es"
    and name: "he_name e' = he_name e"
  shows "distinct (map he_name es')" "length es' = length es"
    "entry_map es' = (entry_map es)(he_name e \<mapsto> (he_orig_index e', he_current_index e'))"
proof -
  obtain M where M: "mset es = add_mset e M" using es(3) by (metis insert_DiffM set_mset_mset)
  obtain rs where rs: "mset rs = M" using ex_mset by blast
  have m: "mset es = mset (e # rs)" using M rs by simp
  have m': "mset (e' # rs) = mset es'" using M rs es(1) by simp
  note c = entry_map_cong [OF m es(2)]
  have "distinct (map he_name (e' # rs))" using c(1) name by simp
  note c' = entry_map_cong [OF m' this]
  show "distinct (map he_name es')" by (rule c'(1))
  show "length es' = length es" using m m' by (metis length_Cons size_mset)
  show "entry_map es' = (entry_map es)(he_name e \<mapsto> (he_orig_index e', he_current_index e'))"
    unfolding c(2) c'(2) [symmetric] by (simp add: entry_map_def name)
qed

lemma entry_map_remove:
  assumes es: "mset es' + {#e#} = mset es" "distinct (map he_name es)"
  shows "distinct (map he_name es')" "Suc (length es') = length es"
    "entry_map es' = (entry_map es)(he_name e := None)"
proof -
  have m: "mset es = mset (e # es')" using es(1) by simp
  note c = entry_map_cong [OF m es(2)]
  show "distinct (map he_name es')" using c(1) by simp
  show "Suc (length es') = length es" using m by (metis length_Cons size_mset)
  have "entry_map es' (he_name e) = None" using c(1) by (auto simp: entry_map_None) (metis imageI)
  then show "entry_map es' = (entry_map es)(he_name e := None)"
    unfolding c(2) by (auto simp: entry_map_def fun_eq_iff)
qed

lemma entry_map_insert:
  assumes es: "mset es' = mset es + {#e#}" "distinct (map he_name es)" "entry_map es (he_name e) = None"
  shows "distinct (map he_name es')" "length es' = Suc (length es)"
    "entry_map es' = (entry_map es)(he_name e \<mapsto> (he_orig_index e, he_current_index e))"
proof -
  have m: "mset (e # es) = mset es'" using es(1) by simp
  have d: "distinct (map he_name (e # es))" using es(2,3) by (auto simp: entry_map_None)
  note c = entry_map_cong [OF m d]
  show "distinct (map he_name es')" by (rule c(1))
  show "length es' = Suc (length es)" using m by (metis length_Cons size_mset)
  show "entry_map es' = (entry_map es)(he_name e \<mapsto> (he_orig_index e, he_current_index e))"
    unfolding c(2) [symmetric] by (simp add: entry_map_def)
qed

lemma entry_map_revert:
  "entry_map (revert_bucket es) n = (case entry_map (filter (\<lambda>e. he_orig_index e \<noteq> -1) es) n of
     None \<Rightarrow> None | Some (orig, _) \<Rightarrow> Some (orig, orig))"
  by (induction es) (auto simp: revert_bucket_def entry_map_def split: option.splits)

lemma concat_revert: "concat (map revert_bucket t) = revert_bucket (concat t)"
  by (induction t) (simp_all add: revert_bucket_def)

text \<open>Finding a name in its bucket.\<close>

lemma find_Some_mset:
  "find P b = Some e \<Longrightarrow> mset (update_first P f b) + {#e#} = mset b + {#f e#}"
  "find P b = Some e \<Longrightarrow> mset (remove_first P b) + {#e#} = mset b"
  by (induction b) (auto split: if_splits)

lemma set_update_first: "x \<in> set (update_first P f b) \<Longrightarrow> x \<in> set b \<or> (\<exists>e\<in>set b. P e \<and> x = f e)"
  by (induction b) (auto split: if_splits)

lemma set_remove_first: "x \<in> set (remove_first P b) \<Longrightarrow> x \<in> set b"
  by (induction b) (auto split: if_splits)

lemma find_in_bucket:
  assumes ok: "buckets_ok sz t" and d: "distinct (map he_name (concat t))" and sz: "sz \<noteq> 0"
  shows "find (hash_same (hash_string n) n) (t ! hash_bucket (hash_string n) sz) = None \<longleftrightarrow>
         entry_map (concat t) n = None"
    and "find (hash_same (hash_string n) n) (t ! hash_bucket (hash_string n) sz) = Some e \<Longrightarrow>
         e \<in> set (concat t) \<and> he_name e = n \<and> he_hash_value e = hash_string n \<and>
         entry_map (concat t) n = Some (he_orig_index e, he_current_index e)"
proof -
  let ?i = "hash_bucket (hash_string n) sz"
  have i: "?i < length t" using ok hash_bucket_less [OF sz] by (simp add: buckets_ok_def)
  have here: "e \<in> set (concat t) \<Longrightarrow> he_name e = n \<Longrightarrow> e \<in> set (t ! ?i) \<and> he_hash_value e = hash_string n" for e
    using buckets_ok_entry [OF ok, of e] by (auto simp: entry_hashed_def)
  show "find (hash_same (hash_string n) n) (t ! ?i) = None \<longleftrightarrow> entry_map (concat t) n = None"
    using here i unfolding find_None_iff entry_map_None hash_same_def Ball_def in_concat_nth by blast
  assume "find (hash_same (hash_string n) n) (t ! ?i) = Some e"
  then have e: "e \<in> set (t ! ?i)" "he_name e = n" "he_hash_value e = hash_string n"
    by (auto simp: find_Some_iff hash_same_def)
  moreover have "e \<in> set (concat t)" using e(1) i by (auto simp: in_concat_nth)
  ultimately show "e \<in> set (concat t) \<and> he_name e = n \<and> he_hash_value e = hash_string n \<and>
         entry_map (concat t) n = Some (he_orig_index e, he_current_index e)"
    using d by (auto simp: entry_map_Some)
qed

section \<open>The operations on the map\<close>

definition index_taken :: "u32 \<Rightarrow> (int \<times> int) option \<Rightarrow> bool" where
  "index_taken flags oc = (case oc of None \<Rightarrow> False
     | Some (orig, cur) \<Rightarrow> flags AND ZIP_FL_UNCHANGED \<noteq> 0 \<and> orig \<noteq> -1 \<or> cur \<noteq> -1)"

definition index_orig :: "(int \<times> int) option \<Rightarrow> int" where
  "index_orig oc = (case oc of None \<Rightarrow> -1 | Some (orig, _) \<Rightarrow> orig)"

definition index_put :: "u64 \<Rightarrow> u32 \<Rightarrow> (int \<times> int) option \<Rightarrow> int \<times> int" where
  "index_put i flags oc = (if flags AND ZIP_FL_UNCHANGED \<noteq> 0 then uint i else index_orig oc, uint i)"

definition index_get :: "u32 \<Rightarrow> (int \<times> int) option \<Rightarrow> int" where
  "index_get flags oc = (case oc of None \<Rightarrow> -1
     | Some (orig, cur) \<Rightarrow> if flags AND ZIP_FL_UNCHANGED \<noteq> 0 then orig else cur)"

definition index_drop :: "(int \<times> int) option \<Rightarrow> (int \<times> int) option" where
  "index_drop oc = (if index_orig oc = -1 then None else Some (index_orig oc, -1))"

definition index_revert :: "(int \<times> int) option \<Rightarrow> (int \<times> int) option" where
  "index_revert oc = (if index_orig oc = -1 then None else Some (index_orig oc, index_orig oc))"

lemmas index_defs = index_taken_def index_orig_def index_put_def index_get_def index_drop_def index_revert_def

lemma hash_wf_size: "hash_wf h \<Longrightarrow> hash_nentries h \<noteq> 0 \<or> hash_map h n \<noteq> None \<Longrightarrow> table_size_ok (hash_table_size h)"
  by (auto simp: hash_wf_def buckets_ok_def hash_map_def hash_entries_def entry_map_def unat_eq_zero)

lemma hash_resize_spec:
  assumes wf: "hash_wf h" and sz: "table_size_ok new_size"
    and r: "hash_resize mem h new_size err = (b, h', err')"
  shows "hash_wf h'" "hash_map h' = hash_map h" "hash_nentries h' = hash_nentries h"
    "b \<Longrightarrow> err' = err \<and> hash_table_size h' = new_size"
    "\<not> b \<Longrightarrow> h' = h \<and> err' = zip_error_set err ZIP_ER_MEMORY 0 \<and> \<not> mem A_hash_table"
proof -
  let ?t = "if hash_nentries h > 0 then foldl (foldl (hash_push new_size)) (replicate (unat new_size) []) (hash_table h)
            else replicate (unat new_size) []"
  have nz: "new_size \<noteq> 0" using sz by (rule table_size_nz)
  have hashed: "entry_hashed e" if "e \<in> set (hash_entries h)" for e
    using wf that buckets_ok_entry unfolding hash_wf_def hash_entries_def by blast
  have none: "hash_entries h = []" if "\<not> hash_nentries h > 0"
    using that wf by (simp add: hash_wf_def word_gt_0 flip: length_0_conv)
  have t: "buckets_ok new_size ?t \<and> mset (concat ?t) = mset (hash_entries h)"
    using hash_fill [OF buckets_ok_empty nz, of "hash_entries h"] hashed none
    by (auto simp: foldl_foldl concat_empty buckets_ok_empty simp flip: hash_entries_def)
  have d: "distinct (map he_name (hash_entries h))" using wf by (simp add: hash_wf_def)
  note c = entry_map_cong [OF conjunct2 [OF t, symmetric] d]
  have len: "length (concat ?t) = length (hash_entries h)" using t by (metis size_mset)
  let ?h = "h\<lparr>hash_table := ?t, hash_table_size := new_size\<rparr>"
  have wf': "hash_wf ?h" using wf t c(1) sz len by (simp add: hash_wf_def hash_entries_def)
  have map': "hash_map ?h = hash_map h" using c(2) by (simp add: hash_map_def hash_entries_def)
  have cases: "b \<and> err' = err \<and> (h' = h \<and> new_size = hash_table_size h \<or> h' = ?h) \<or>
        \<not> b \<and> h' = h \<and> err' = zip_error_set err ZIP_ER_MEMORY 0 \<and> \<not> mem A_hash_table"
    using r unfolding hash_resize_def Let_def by (simp split: if_splits)
  show "hash_wf h'" "hash_map h' = hash_map h" using cases wf wf' map' by auto
  show "hash_nentries h' = hash_nentries h" "b \<Longrightarrow> err' = err \<and> hash_table_size h' = new_size"
    "\<not> b \<Longrightarrow> h' = h \<and> err' = zip_error_set err ZIP_ER_MEMORY 0 \<and> \<not> mem A_hash_table"
    using cases by auto
qed

lemma hash_find:
  assumes wf: "hash_wf h" and sz: "hash_table_size h \<noteq> 0"
  shows "find (hash_same (hash_string n) n) (hash_table h ! hash_bucket (hash_string n) (hash_table_size h)) = None
         \<longleftrightarrow> hash_map h n = None"
    and "find (hash_same (hash_string n) n) (hash_table h ! hash_bucket (hash_string n) (hash_table_size h)) = Some e
         \<Longrightarrow> e \<in> set (hash_entries h) \<and> he_name e = n \<and> he_hash_value e = hash_string n \<and>
             hash_map h n = Some (he_orig_index e, he_current_index e)"
  using find_in_bucket [OF _ _ sz, of "hash_table h" n] wf
  unfolding hash_wf_def hash_map_def hash_entries_def by auto

lemma hash_bucket_bound: "hash_wf h \<Longrightarrow> hash_table_size h \<noteq> 0 \<Longrightarrow>
    hash_bucket v (hash_table_size h) < length (hash_table h)"
  using hash_bucket_less by (simp add: hash_wf_def buckets_ok_def)

lemma hash_assign_spec:
  assumes wf: "hash_wf h" and n: "hash_map h n = Some oc"
    and f: "\<And>e. he_name (f e) = he_name e \<and> he_hash_value (f e) = he_hash_value e"
  shows "hash_wf (hash_assign h n f)" "hash_nentries (hash_assign h n f) = hash_nentries h"
    "\<exists>e. oc = (he_orig_index e, he_current_index e) \<and>
         hash_map (hash_assign h n f) = (hash_map h)(n \<mapsto> (he_orig_index (f e), he_current_index (f e)))"
proof -
  let ?i = "hash_bucket (hash_string n) (hash_table_size h)"
  let ?b = "update_first (hash_same (hash_string n) n) f (hash_table h ! ?i)"
  have sz: "hash_table_size h \<noteq> 0" using hash_wf_size [OF wf, of n] n table_size_nz by simp
  note find = hash_find [OF wf sz, of n] and i = hash_bucket_bound [OF wf sz, of "hash_string n"]
  obtain e where e: "find (hash_same (hash_string n) n) (hash_table h ! ?i) = Some e" using find(1) n by auto
  note fe = find(2) [OF e]
  have wf': "buckets_ok (hash_table_size h) (hash_table h)" "distinct (map he_name (hash_entries h))"
    using wf by (simp_all add: hash_wf_def)
  have "mset (concat ((hash_table h)[?i := ?b])) + {#e#} = mset (hash_entries h) + {#f e#}"
    using mset_concat_update [OF i, of ?b] find_Some_mset(1) [OF e, of f]
    unfolding hash_entries_def by (rule mset_exchange)
  then have m: "mset (hash_entries (hash_assign h n f)) + {#e#} = mset (hash_entries h) + {#f e#}"
    by (simp add: hash_entries_def hash_assign_def Let_def)
  note u = entry_map_replace [OF m wf'(2)]
  have fh: "entry_hashed (f x) = entry_hashed x" for x by (simp add: entry_hashed_def f)
  have "buckets_ok (hash_table_size h) ((hash_table h)[?i := ?b])"
    using buckets_okD [OF wf'(1) i] f fh
    by (intro buckets_ok_update [OF wf'(1) i]) (auto dest!: set_update_first)
  then show "hash_wf (hash_assign h n f)"
    using wf fe f u(1,2) by (simp add: hash_wf_def hash_assign_def Let_def)
  show "hash_nentries (hash_assign h n f) = hash_nentries h" by (simp add: hash_assign_def Let_def)
  show "\<exists>e. oc = (he_orig_index e, he_current_index e) \<and>
         hash_map (hash_assign h n f) = (hash_map h)(n \<mapsto> (he_orig_index (f e), he_current_index (f e)))"
    using fe f u(3) n by (intro exI [of _ e]) (simp add: hash_map_def)
qed

text \<open>The operations refine the map. Each is total in the malloc oracle.\<close>

lemma zip_hash_new_spec:
  "zip_hash_new mem err = (Some h, err') \<Longrightarrow> hash_wf h \<and> hash_map h = Map.empty \<and> err' = err"
  by (auto simp: zip_hash_new_def hash_wf_def buckets_ok_def hash_entries_def hash_map_def entry_map_def
      split: if_splits)

lemma zip_hash_lookup_spec:
  assumes wf: "hash_wf h"
  shows "zip_hash_lookup h (Some n) flags err =
    (index_get flags (hash_map h n),
     if index_get flags (hash_map h n) = -1 then zip_error_set err ZIP_ER_NOENT 0 else err)"
proof (cases "hash_nentries h > 0")
  case True
  then have sz: "hash_table_size h \<noteq> 0" using hash_wf_size [OF wf, of n] table_size_nz by (auto simp: word_gt_0)
  let ?b = "hash_table h ! hash_bucket (hash_string n) (hash_table_size h)"
  have "he_hash_value e = hash_string (he_name e)" if "e \<in> set ?b" for e
    using wf that buckets_okD hash_bucket_bound [OF wf sz] unfolding hash_wf_def entry_hashed_def by blast
  then have same: "find (\<lambda>e. he_name e = n) ?b = find (hash_same (hash_string n) n) ?b"
    by (intro find_cong) (auto simp: hash_same_def)
  show ?thesis
    using hash_find [OF wf sz, of n] True
    by (cases "find (hash_same (hash_string n) n) ?b")
       (auto simp: zip_hash_lookup_def Let_def same index_get_def)
next
  case False
  then have "hash_map h n = None"
    using wf by (auto simp: hash_wf_def hash_map_def entry_map_def word_gt_0 unat_eq_zero)
  with False show ?thesis by (simp add: zip_hash_lookup_def index_get_def Let_def)
qed

text \<open>Linking a fresh entry into its bucket.\<close>

definition hash_link :: "zip_hash \<Rightarrow> bytes \<Rightarrow> zip_hash" where
  "hash_link h n = h\<lparr>hash_table := (hash_table h)
       [hash_bucket (hash_string n) (hash_table_size h) :=
        \<lparr>he_name = n, he_orig_index = -1, he_current_index = 0, he_hash_value = hash_string n\<rparr> #
        hash_table h ! hash_bucket (hash_string n) (hash_table_size h)],
     hash_nentries := hash_nentries h + 1\<rparr>"

lemma hash_link_spec:
  assumes wf: "hash_wf h" and sz: "hash_table_size h \<noteq> 0" and n: "hash_map h n = None"
    and room: "unat (hash_nentries h) + 1 < 2 ^ 64"
  shows "hash_wf (hash_link h n)" "hash_map (hash_link h n) = (hash_map h)(n \<mapsto> (-1, 0))"
proof -
  let ?i = "hash_bucket (hash_string n) (hash_table_size h)"
  let ?e = "\<lparr>he_name = n, he_orig_index = -1, he_current_index = 0, he_hash_value = hash_string n\<rparr>"
  note i = hash_bucket_bound [OF wf sz, of "hash_string n"]
  have ok: "buckets_ok (hash_table_size h) (hash_table h)" "distinct (map he_name (hash_entries h))"
    using wf by (simp_all add: hash_wf_def)
  have m: "mset (hash_entries (hash_link h n)) = mset (hash_entries h) + {#?e#}"
    using mset_concat_update [OF i, of "?e # hash_table h ! ?i"]
    by (simp add: hash_entries_def hash_link_def)
  have "entry_map (hash_entries h) (he_name ?e) = None" using n by (simp add: hash_map_def)
  note u = entry_map_insert [OF m ok(2) this]
  have "unat (hash_nentries h + 1) = unat (hash_nentries h) + 1"
    using room by (simp add: unat_word_ariths)
  moreover have "buckets_ok (hash_table_size h) ((hash_table h)[?i := ?e # hash_table h ! ?i])"
    using buckets_okD [OF ok(1) i] by (intro buckets_ok_update [OF ok(1) i]) (auto simp: entry_hashed_def)
  ultimately show "hash_wf (hash_link h n)"
    using wf u(1,2) by (simp add: hash_wf_def) (simp add: hash_link_def)
  show "hash_map (hash_link h n) = (hash_map h)(n \<mapsto> (-1, 0))"
    using u(3) by (simp add: hash_map_def)
qed

lemma table_size_ok_min: "table_size_ok HASH_MIN_SIZE"
  unfolding table_size_ok_def by (rule exI [of _ 8]) simp

lemma table_size_ok_double:
  assumes "table_size_ok sz" "sz < HASH_MAX_SIZE"
  shows "table_size_ok (sz * 2)"
proof -
  obtain k where k: "k \<le> 31" "unat sz = 2 ^ k" using assms(1) by (auto simp: table_size_ok_def)
  have lt: "unat sz < 2147483648" using assms(2) by (simp add: word_less_nat_alt)
  then have "(2::nat) ^ k < 2 ^ 31" using k(2) by simp
  then have "k < 31" by (rule power_less_imp_less_exp [rotated]) simp
  moreover have "unat (sz * 2) = 2 ^ Suc k" using lt k(2) by (simp add: unat_word_ariths)
  ultimately show ?thesis unfolding table_size_ok_def by (intro exI [of _ "Suc k"]) simp
qed

lemma table_size_ok_half:
  assumes "table_size_ok sz" "sz > HASH_MIN_SIZE"
  shows "table_size_ok (sz div 2)" "sz div 2 \<ge> HASH_MIN_SIZE"
proof -
  obtain k where k: "k \<le> 31" "unat sz = 2 ^ k" using assms(1) by (auto simp: table_size_ok_def)
  have "256 < unat sz" using assms(2) by (simp add: word_less_nat_alt)
  then have "(2::nat) ^ 8 < 2 ^ k" using k(2) by simp
  then have "8 < k" by (rule power_less_imp_less_exp [rotated]) simp
  then obtain j where j: "k = Suc j" "8 \<le> j" by (cases k) auto
  have "unat (sz div 2) = 2 ^ j" using k(2) j by (simp add: unat_div)
  moreover have "(256::nat) \<le> 2 ^ j" using j(2) power_increasing [of 8 j "2::nat"] by simp
  ultimately show "table_size_ok (sz div 2)" "sz div 2 \<ge> HASH_MIN_SIZE"
    using k(1) j(1) unfolding table_size_ok_def word_le_nat_alt by (auto intro: exI [of _ j])
qed

lemma hash_set_index_fields:
  "he_name (hash_set_index i flags e) = he_name e"
  "he_hash_value (hash_set_index i flags e) = he_hash_value e"
  "he_orig_index (hash_set_index i flags e) = (if flags AND ZIP_FL_UNCHANGED \<noteq> 0 then uint i else he_orig_index e)"
  "he_current_index (hash_set_index i flags e) = uint i"
  by (simp_all add: hash_set_index_def Let_def)

lemma hash_set_index_spec:
  assumes wf: "hash_wf h" and n: "hash_map h n = Some (orig, cur)"
  shows "hash_wf (hash_assign h n (hash_set_index i flags))"
    "hash_nentries (hash_assign h n (hash_set_index i flags)) = hash_nentries h"
    "hash_map (hash_assign h n (hash_set_index i flags)) = (hash_map h)(n \<mapsto> index_put i flags (Some (orig, cur)))"
proof -
  have f: "he_name (hash_set_index i flags e) = he_name e \<and> he_hash_value (hash_set_index i flags e) = he_hash_value e" for e
    by (simp add: hash_set_index_fields)
  note a = hash_assign_spec [OF wf n f]
  show "hash_wf (hash_assign h n (hash_set_index i flags))"
    "hash_nentries (hash_assign h n (hash_set_index i flags)) = hash_nentries h" by (fact a(1) a(2))+
  show "hash_map (hash_assign h n (hash_set_index i flags)) = (hash_map h)(n \<mapsto> index_put i flags (Some (orig, cur)))"
    using a(3) by (auto simp: hash_set_index_fields index_put_def index_orig_def)
qed

lemma index_put_fresh: "index_put i flags (Some (-1, c)) = index_put i flags None"
  by (simp add: index_put_def index_orig_def)

lemma zip_hash_add_present:
  assumes wf: "hash_wf h" and n: "hash_map h n = Some (orig, cur)" and i: "\<not> index > ZIP_INT64_MAX"
  shows "zip_hash_add mem h (Some n) index flags err =
    (if index_taken flags (Some (orig, cur)) then (False, h, zip_error_set err ZIP_ER_EXISTS 0)
     else (True, hash_assign h n (hash_set_index index flags), err))"
proof -
  have sz: "hash_table_size h \<noteq> 0" using hash_wf_size [OF wf, of n] n table_size_nz by simp
  obtain e where e: "find (hash_same (hash_string n) n)
      (hash_table h ! hash_bucket (hash_string n) (hash_table_size h)) = Some e"
    using hash_find(1) [OF wf sz, of n] n by auto
  have "orig = he_orig_index e" "cur = he_current_index e" using hash_find(2) [OF wf sz e] n by auto
  then show ?thesis using sz i e by (simp add: zip_hash_add_def Let_def index_taken_def)
qed

definition hash_grow :: "malloc \<Rightarrow> zip_hash \<Rightarrow> zip_error \<Rightarrow> bool \<times> zip_hash \<times> zip_error" where
  "hash_grow mem h err = (if hash_overfull h \<and> hash_table_size h < HASH_MAX_SIZE
     then hash_resize mem h (hash_table_size h * 2) err else (True, h, err))"

lemma zip_hash_add_absent:
  assumes wf: "hash_wf h" and n: "hash_map h n = None" and i: "\<not> index > ZIP_INT64_MAX"
    and sz: "hash_table_size h \<noteq> 0"
  shows "zip_hash_add mem h (Some n) index flags err =
    (if \<not> mem A_hash_entry then (False, h, zip_error_set err ZIP_ER_MEMORY 0)
     else case hash_grow mem (hash_link h n) err of
       (False, h, err) \<Rightarrow> (False, h, err)
     | (True, h, err) \<Rightarrow> (True, hash_assign h n (hash_set_index index flags), err))"
proof -
  have "find (hash_same (hash_string n) n)
      (hash_table h ! hash_bucket (hash_string n) (hash_table_size h)) = None"
    using hash_find(1) [OF wf sz, of n] n by simp
  then show ?thesis using sz i by (simp add: zip_hash_add_def Let_def hash_grow_def hash_link_def)
qed

lemma hash_grow_spec:
  assumes wf: "hash_wf h" and r: "hash_grow mem h err = (b, h', err')" and ok: "table_size_ok (hash_table_size h)"
  shows "hash_wf h'" "hash_map h' = hash_map h" "hash_nentries h' = hash_nentries h" "b \<Longrightarrow> err' = err"
    "\<not> b \<Longrightarrow> err' = zip_error_set err ZIP_ER_MEMORY 0 \<and> \<not> mem A_hash_table"
proof -
  have "hash_wf h' \<and> hash_map h' = hash_map h \<and> hash_nentries h' = hash_nentries h \<and> (b \<longrightarrow> err' = err) \<and>
      (\<not> b \<longrightarrow> err' = zip_error_set err ZIP_ER_MEMORY 0 \<and> \<not> mem A_hash_table)"
  proof (cases "hash_overfull h \<and> hash_table_size h < HASH_MAX_SIZE")
    case True
    then have "hash_resize mem h (hash_table_size h * 2) err = (b, h', err')" using r by (simp add: hash_grow_def)
    note rs = hash_resize_spec [OF wf table_size_ok_double [OF ok conjunct2 [OF True]] this]
    show ?thesis using rs by simp
  next
    case False
    have "(True, h, err) = (b, h', err')" using r unfolding hash_grow_def if_not_P [OF False] .
    then show ?thesis using wf by auto
  qed
  then show "hash_wf h'" "hash_map h' = hash_map h" "hash_nentries h' = hash_nentries h" "b \<Longrightarrow> err' = err"
    "\<not> b \<Longrightarrow> err' = zip_error_set err ZIP_ER_MEMORY 0 \<and> \<not> mem A_hash_table" by blast+
qed

text \<open>What an addition may do to the table of a name.\<close>

definition hash_added :: "malloc \<Rightarrow> zip_hash \<Rightarrow> bytes \<Rightarrow> u64 \<Rightarrow> u32 \<Rightarrow> zip_error \<Rightarrow> bool \<times> zip_hash \<times> zip_error \<Rightarrow> bool" where
  "hash_added mem h n i flags err r = (case r of (b, h', err') \<Rightarrow>
     hash_wf h' \<and> unat (hash_nentries h') \<le> unat (hash_nentries h) + 1 \<and>
     (if index_taken flags (hash_map h n)
      then \<not> b \<and> hash_map h' = hash_map h \<and> err' = zip_error_set err ZIP_ER_EXISTS 0
      else if b then hash_map h' = (hash_map h)(n \<mapsto> index_put i flags (hash_map h n)) \<and> err' = err
      else err' = zip_error_set err ZIP_ER_MEMORY 0 \<and> \<not> (mem A_hash_table \<and> mem A_hash_entry) \<and>
        hash_map h n = None \<and> (hash_map h' = hash_map h \<or> hash_map h' = (hash_map h)(n \<mapsto> (-1, 0)))))"

lemma hash_added_absent:
  assumes wf: "hash_wf h" and n: "hash_map h n = None" and i: "\<not> index > ZIP_INT64_MAX"
    and sz: "hash_table_size h \<noteq> 0" and room: "unat (hash_nentries h) + 1 < 2 ^ 64"
  shows "hash_added mem h n index flags err (zip_hash_add mem h (Some n) index flags err)"
proof -
  note link = hash_link_spec [OF wf sz n room]
  have ok: "table_size_ok (hash_table_size (hash_link h n))"
    using wf sz by (simp add: hash_wf_def hash_link_def)
  have count: "unat (hash_nentries (hash_link h n)) = unat (hash_nentries h) + 1"
    using room by (simp add: hash_link_def unat_word_ariths)
  obtain b h2 err2 where g: "hash_grow mem (hash_link h n) err = (b, h2, err2)" by (metis prod_cases3)
  note grow = hash_grow_spec [OF link(1) g ok]
  have n2: "hash_map h2 n = Some (-1, 0)" using grow(2) link(2) by simp
  note set = hash_set_index_spec [OF grow(1) n2, of index flags]
  have taken: "\<not> index_taken flags (hash_map h n)" using n by (simp add: index_taken_def)
  show ?thesis
  proof (cases "mem A_hash_entry")
    case False
    then show ?thesis
      using zip_hash_add_absent [OF wf n i sz, of mem flags err] wf taken n by (simp add: hash_added_def)
  next
    case True
    then show ?thesis
      using zip_hash_add_absent [OF wf n i sz, of mem flags err] g grow set taken n link(2) count
      by (cases b) (simp_all add: hash_added_def index_put_fresh)
  qed
qed

lemma hash_added_present:
  assumes wf: "hash_wf h" and n: "hash_map h n \<noteq> None" and i: "\<not> index > ZIP_INT64_MAX"
  shows "hash_added mem h n index flags err (zip_hash_add mem h (Some n) index flags err)"
proof -
  obtain orig cur where oc: "hash_map h n = Some (orig, cur)" using n by auto
  show ?thesis
    using zip_hash_add_present [OF wf oc i, of mem flags err] hash_set_index_spec [OF wf oc, of index flags] wf oc
    by (simp add: hash_added_def)
qed

lemma zip_hash_add_spec:
  assumes wf: "hash_wf h" and i: "index \<le> ZIP_INT64_MAX" and room: "unat (hash_nentries h) + 1 < 2 ^ 64"
  shows "hash_added mem h n index flags err (zip_hash_add mem h (Some n) index flags err)"
proof -
  have i': "\<not> index > ZIP_INT64_MAX" using i by simp
  show ?thesis
  proof (cases "hash_table_size h = 0")
    case False
    then show ?thesis
      using hash_added_present [OF wf _ i'] hash_added_absent [OF wf _ i' False room] by (cases "hash_map h n") auto
  next
    case True
    then have "hash_map h n = None" for n
      using hash_wf_size [OF wf, of n] table_size_nz by (cases "hash_map h n") auto
    then have none: "hash_map h = Map.empty" by (simp add: fun_eq_iff)
    obtain b h2 err2 where r: "hash_resize mem h HASH_MIN_SIZE err = (b, h2, err2)" by (metis prod_cases3)
    note rs = hash_resize_spec [OF wf table_size_ok_min r]
    show ?thesis
    proof (cases b)
      case False
      then show ?thesis
        using True i' r rs(5) wf none by (simp add: zip_hash_add_def hash_added_def index_taken_def)
    next
      case b: True
      have sz: "hash_table_size h2 \<noteq> 0" using rs(4) [OF b] by simp
      have same: "hash_added mem h n index flags err = hash_added mem h2 n index flags err"
        by (rule ext) (simp add: hash_added_def rs(2,3))
      have h2: "zip_hash_add mem h (Some n) index flags err = zip_hash_add mem h2 (Some n) index flags err"
        using True i' r b rs(4) [OF b] by (simp add: zip_hash_add_def)
      show ?thesis
        using hash_added_absent [OF rs(1) _ i' sz, of n mem flags err] room none rs(2,3)
        unfolding h2 same by simp
    qed
  qed
qed

text \<open>Deletion.\<close>

definition hash_unlink :: "zip_hash \<Rightarrow> bytes \<Rightarrow> zip_hash" where
  "hash_unlink h n = h\<lparr>hash_table := (hash_table h)
       [hash_bucket (hash_string n) (hash_table_size h) :=
        remove_first (hash_same (hash_string n) n) (hash_table h ! hash_bucket (hash_string n) (hash_table_size h))],
     hash_nentries := hash_nentries h - 1\<rparr>"

lemma hash_unlink_spec:
  assumes wf: "hash_wf h" and n: "hash_map h n \<noteq> None"
  shows "hash_wf (hash_unlink h n)" "hash_map (hash_unlink h n) = (hash_map h)(n := None)"
    "unat (hash_nentries (hash_unlink h n)) \<le> unat (hash_nentries h)"
proof -
  let ?i = "hash_bucket (hash_string n) (hash_table_size h)"
  let ?b = "remove_first (hash_same (hash_string n) n) (hash_table h ! ?i)"
  have sz: "hash_table_size h \<noteq> 0" using hash_wf_size [OF wf, of n] n table_size_nz by simp
  note i = hash_bucket_bound [OF wf sz, of "hash_string n"]
  have ok: "buckets_ok (hash_table_size h) (hash_table h)" "distinct (map he_name (hash_entries h))"
    using wf by (simp_all add: hash_wf_def)
  obtain e where e: "find (hash_same (hash_string n) n) (hash_table h ! ?i) = Some e"
    using hash_find(1) [OF wf sz, of n] n by auto
  note fe = hash_find(2) [OF wf sz e]
  have "mset (concat ((hash_table h)[?i := ?b])) + {#e#} = mset (hash_entries h) + {#}"
    unfolding hash_entries_def
    by (rule mset_exchange [OF mset_concat_update [OF i]]) (use find_Some_mset(2) [OF e] in simp)
  then have m: "mset (hash_entries (hash_unlink h n)) + {#e#} = mset (hash_entries h)"
    by (simp add: hash_entries_def hash_unlink_def)
  note u = entry_map_remove [OF m ok(2)]
  have "unat (hash_nentries h) = Suc (length (hash_entries (hash_unlink h n)))"
    using wf u(2) by (simp add: hash_wf_def)
  then have count: "unat (hash_nentries h - 1) = length (hash_entries (hash_unlink h n))"
    by (metis diff_Suc_1 nat.distinct(1) unat_0 unat_minus_one)
  have "buckets_ok (hash_table_size h) ((hash_table h)[?i := ?b])"
    by (rule buckets_ok_update [OF ok(1) i]) (rule buckets_okD [OF ok(1) i set_remove_first])
  then show "hash_wf (hash_unlink h n)"
    using wf u(1) count by (simp add: hash_wf_def) (simp add: hash_unlink_def)
  show "hash_map (hash_unlink h n) = (hash_map h)(n := None)" using u(3) fe by (simp add: hash_map_def)
  show "unat (hash_nentries (hash_unlink h n)) \<le> unat (hash_nentries h)"
    using count wf u(2) by (simp add: hash_unlink_def hash_wf_def)
qed

definition hash_deleted :: "malloc \<Rightarrow> zip_hash \<Rightarrow> bytes \<Rightarrow> zip_error \<Rightarrow> bool \<times> zip_hash \<times> zip_error \<Rightarrow> bool" where
  "hash_deleted mem h n err r = (case r of (b, h', err') \<Rightarrow>
     hash_wf h' \<and> unat (hash_nentries h') \<le> unat (hash_nentries h) \<and>
     (if hash_map h n = None
      then \<not> b \<and> hash_map h' = hash_map h \<and> err' = zip_error_set err ZIP_ER_NOENT 0
      else hash_map h' = (hash_map h)(n := index_drop (hash_map h n)) \<and>
        (if b then err' = err
         else err' = zip_error_set err ZIP_ER_MEMORY 0 \<and> \<not> mem A_hash_table)))"

lemma hash_del_drop:
  assumes wf: "hash_wf h" and n: "hash_map h n = Some (orig, cur)"
  shows "hash_wf (hash_assign h n (he_current_index_update (\<lambda>_. -1)))"
    "hash_nentries (hash_assign h n (he_current_index_update (\<lambda>_. -1))) = hash_nentries h"
    "hash_map (hash_assign h n (he_current_index_update (\<lambda>_. -1))) = (hash_map h)(n \<mapsto> (orig, -1))"
  using hash_assign_spec [OF wf n, of "he_current_index_update (\<lambda>_. -1)"] by auto

lemma zip_hash_delete_spec:
  assumes wf: "hash_wf h"
  shows "hash_deleted mem h n err (zip_hash_delete mem h (Some n) err)"
proof (cases "hash_map h n")
  case None
  have "(if hash_nentries h > 0
         then find (hash_same (hash_string n) n) (hash_table h ! hash_bucket (hash_string n) (hash_table_size h))
         else None) = None"
    using hash_find(1) [OF wf, of n] hash_wf_size [OF wf, of n] table_size_nz None by (auto simp: word_gt_0)
  then show ?thesis using wf None by (simp add: zip_hash_delete_def hash_deleted_def Let_def)
next
  case (Some oc)
  then obtain orig cur where oc: "hash_map h n = Some (orig, cur)" by (cases oc) auto
  have ok: "table_size_ok (hash_table_size h)" using hash_wf_size [OF wf, of n] Some by simp
  then have sz: "hash_table_size h \<noteq> 0" by (rule table_size_nz)
  have ne: "hash_nentries h > 0"
    using wf oc by (auto simp: hash_wf_def hash_map_def entry_map_def word_gt_0 unat_eq_zero)
  obtain e where e: "find (hash_same (hash_string n) n)
      (hash_table h ! hash_bucket (hash_string n) (hash_table_size h)) = Some e"
    using hash_find(1) [OF wf sz, of n] Some by auto
  have orig: "orig = he_orig_index e" using hash_find(2) [OF wf sz e] oc by simp
  show ?thesis
  proof (cases "orig = -1")
    case False
    then show ?thesis
      using e ne orig hash_del_drop [OF wf oc] oc
      by (simp add: zip_hash_delete_def hash_deleted_def Let_def index_drop_def index_orig_def)
  next
    case True
    note u = hash_unlink_spec [OF wf, of n]
    have eq: "zip_hash_delete mem h (Some n) err =
      (if hash_underfull (hash_nentries (hash_unlink h n)) (hash_table_size (hash_unlink h n)) \<and>
          hash_table_size (hash_unlink h n) > HASH_MIN_SIZE
       then hash_resize mem (hash_unlink h n) (hash_table_size (hash_unlink h n) div 2) err
       else (True, hash_unlink h n, err))"
      using e ne orig True by (simp add: zip_hash_delete_def Let_def hash_unlink_def)
    have size: "hash_table_size (hash_unlink h n) = hash_table_size h" by (simp add: hash_unlink_def)
    obtain b h2 err2 where r: "hash_resize mem (hash_unlink h n) (hash_table_size h div 2) err = (b, h2, err2)"
      by (metis prod_cases3)
    show ?thesis
    proof (cases "hash_underfull (hash_nentries (hash_unlink h n)) (hash_table_size h) \<and> hash_table_size h > HASH_MIN_SIZE")
      case under: True
      note rs = hash_resize_spec [OF u(1) table_size_ok_half(1) [OF ok] r]
      show ?thesis
        using eq size under r rs u oc True
        by (cases b) (simp_all add: hash_deleted_def index_drop_def index_orig_def)
    next
      case False
      then show ?thesis
        using eq size u oc True by (auto simp: hash_deleted_def index_drop_def index_orig_def)
    qed
  qed
qed

text \<open>Reverting.\<close>

lemma shrink_size_ok: "table_size_ok sz \<Longrightarrow> table_size_ok (shrink_size n sz)"
proof (induction n sz rule: shrink_size.induct)
  case (1 n sz)
  show ?case
  proof (cases "hash_underfull n sz \<and> sz > HASH_MIN_SIZE")
    case True
    then show ?thesis using 1 table_size_ok_half(1) by (subst shrink_size.simps) simp
  next
    case False
    then show ?thesis using 1 by (subst shrink_size.simps) auto
  qed
qed

definition hash_undo :: "zip_hash \<Rightarrow> zip_hash" where
  "hash_undo h = h\<lparr>hash_table := map revert_bucket (hash_table h),
     hash_nentries := hash_nentries h - of_nat (length (filter (\<lambda>e. he_orig_index e = -1) (concat (hash_table h))))\<rparr>"

lemma entry_map_filter:
  "distinct (map he_name es) \<Longrightarrow>
   entry_map (filter (\<lambda>e. he_orig_index e \<noteq> -1) es) n =
     (if index_orig (entry_map es n) = -1 then None else entry_map es n)"
proof (induction es)
  case (Cons e es)
  have "he_name e = n \<Longrightarrow> entry_map es n = None"
    using Cons.prems by (auto simp: entry_map_None) (metis imageI)
  then show ?case using Cons by (auto simp: entry_map_def index_orig_def)
qed (simp add: entry_map_def)

lemma hash_undo_spec:
  assumes wf: "hash_wf h"
  shows "hash_wf (hash_undo h)" "hash_map (hash_undo h) = (\<lambda>n. index_revert (hash_map h n))"
    "unat (hash_nentries (hash_undo h)) \<le> unat (hash_nentries h)"
proof -
  let ?es = "hash_entries h"
  have ok: "buckets_ok (hash_table_size h) (hash_table h)" "distinct (map he_name ?es)"
    "unat (hash_nentries h) = length ?es"
    using wf by (simp_all add: hash_wf_def)
  have es: "hash_entries (hash_undo h) = revert_bucket ?es"
    by (simp add: hash_undo_def hash_entries_def concat_revert)
  have names: "map he_name (revert_bucket ?es) = map he_name (filter (\<lambda>e. he_orig_index e \<noteq> -1) ?es)"
    by (simp add: revert_bucket_def)
  let ?gone = "length (filter (\<lambda>e. he_orig_index e = -1) ?es)"
  have len: "length (revert_bucket ?es) + ?gone = length ?es"
    using sum_length_filter_compl [of "\<lambda>e. he_orig_index e = -1" ?es] by (simp add: revert_bucket_def)
  have "hash_nentries h = of_nat (length (revert_bucket ?es) + ?gone)"
    unfolding len ok(3) [symmetric] by simp
  then have "hash_nentries (hash_undo h) = of_nat (length (revert_bucket ?es))"
    by (simp add: hash_undo_def flip: hash_entries_def)
  moreover have "length (revert_bucket ?es) < 2 ^ 64" using len ok(3) unat_bounds(4) [of "hash_nentries h"] by simp
  ultimately have count: "unat (hash_nentries (hash_undo h)) = length (revert_bucket ?es)"
    by (simp add: unat_of_nat)
  have hashed: "entry_hashed (e\<lparr>he_current_index := c\<rparr>) = entry_hashed e" for e c
    by (simp add: entry_hashed_def)
  have "buckets_ok (hash_table_size h) (map revert_bucket (hash_table h))"
    using ok(1) by (auto simp: buckets_ok_def revert_bucket_def hashed)
  then show "hash_wf (hash_undo h)"
    using wf count ok(2) es names distinct_map_filter [of he_name ?es]
    by (simp add: hash_wf_def) (simp add: hash_undo_def)
  show "hash_map (hash_undo h) = (\<lambda>n. index_revert (hash_map h n))"
    unfolding hash_map_def es fun_eq_iff entry_map_revert entry_map_filter [OF ok(2)]
    by (auto simp: index_revert_def index_orig_def split: option.splits)
  show "unat (hash_nentries (hash_undo h)) \<le> unat (hash_nentries h)" using count len ok(3) by simp
qed

lemma zip_hash_revert_spec:
  assumes wf: "hash_wf h" and r: "zip_hash_revert mem h err = (b, h', err')"
  shows "hash_wf h'" "hash_map h' = (\<lambda>n. index_revert (hash_map h n))"
    "unat (hash_nentries h') \<le> unat (hash_nentries h)"
    "if b then err' = err else err' = zip_error_set err ZIP_ER_MEMORY 0 \<and> \<not> mem A_hash_table"
proof -
  let ?u = "hash_undo h"
  note u = hash_undo_spec [OF wf]
  have size: "hash_table_size ?u = hash_table_size h" by (simp add: hash_undo_def)
  have eq: "zip_hash_revert mem h err =
      (if hash_underfull (hash_nentries ?u) (hash_table_size h) \<and> hash_table_size h > HASH_MIN_SIZE
       then hash_resize mem ?u (shrink_size (hash_nentries ?u) (hash_table_size h div 2)) err
       else (True, ?u, err))"
    by (simp add: zip_hash_revert_def hash_undo_def Let_def)
  have "hash_wf h' \<and> hash_map h' = hash_map ?u \<and> hash_nentries h' = hash_nentries ?u \<and>
      (if b then err' = err else err' = zip_error_set err ZIP_ER_MEMORY 0 \<and> \<not> mem A_hash_table)"
  proof (cases "hash_underfull (hash_nentries ?u) (hash_table_size h) \<and> hash_table_size h > HASH_MIN_SIZE")
    case True
    then have "hash_table_size h \<noteq> 0" by auto
    then have "table_size_ok (hash_table_size h)" using wf by (simp add: hash_wf_def)
    then have ok: "table_size_ok (shrink_size (hash_nentries ?u) (hash_table_size h div 2))"
      using True by (intro shrink_size_ok table_size_ok_half(1)) simp_all
    have "hash_resize mem ?u (shrink_size (hash_nentries ?u) (hash_table_size h div 2)) err = (b, h', err')"
      using eq r True by simp
    note rs = hash_resize_spec [OF u(1) ok this]
    then show ?thesis by auto
  next
    case False
    then show ?thesis using eq r u by auto
  qed
  then show "hash_wf h'" "hash_map h' = (\<lambda>n. index_revert (hash_map h n))"
    "unat (hash_nentries h') \<le> unat (hash_nentries h)"
    "if b then err' = err else err' = zip_error_set err ZIP_ER_MEMORY 0 \<and> \<not> mem A_hash_table"
    using u by auto
qed

section \<open>Capacities\<close>

text \<open>The shifts copy the highest bit set into all the lower ones.\<close>

definition smear :: "u32 \<Rightarrow> u32" where
  "smear v = (let v = v OR drop_bit 1 v; v = v OR drop_bit 2 v; v = v OR drop_bit 4 v;
                  v = v OR drop_bit 8 v in v OR drop_bit 16 v)"

lemma smear_step:
  fixes v w :: u32
  assumes w: "\<And>n. bit w n \<longleftrightarrow> (\<exists>j<k. bit v (n + j))"
  shows "bit (w OR drop_bit k w) n \<longleftrightarrow> (\<exists>j<2 * k. bit v (n + j))"
proof -
  have "bit (w OR drop_bit k w) n \<longleftrightarrow> (\<exists>j<k. bit v (n + j)) \<or> (\<exists>j<k. bit v (n + (k + j)))"
    by (simp add: bit_or_iff bit_drop_bit_eq w ac_simps)
  also have "\<dots> \<longleftrightarrow> (\<exists>j<2 * k. bit v (n + j))"
  proof
    assume "\<exists>j<2 * k. bit v (n + j)"
    then obtain j where j: "j < 2 * k" "bit v (n + j)" by blast
    show "(\<exists>j<k. bit v (n + j)) \<or> (\<exists>j<k. bit v (n + (k + j)))"
    proof (cases "j < k")
      case False
      with j have "j - k < k" "bit v (n + (k + (j - k)))" by simp_all
      then show ?thesis by blast
    qed (use j in blast)
  next
    assume "(\<exists>j<k. bit v (n + j)) \<or> (\<exists>j<k. bit v (n + (k + j)))"
    then consider j where "j < k" "bit v (n + j)" | j where "j < k" "bit v (n + (k + j))" by blast
    then show "\<exists>j<2 * k. bit v (n + j)"
    proof cases
      case (1 j)
      then show ?thesis by (intro exI [of _ j]) simp
    next
      case (2 j)
      then show ?thesis by (intro exI [of _ "k + j"]) simp
    qed
  qed
  finally show ?thesis .
qed

lemma bit_smear: "bit (smear v) n \<longleftrightarrow> (\<exists>j<32. bit v (n + j))"
proof -
  have "bit v n \<longleftrightarrow> (\<exists>j<1. bit v (n + j))" for n by simp
  note this [THEN smear_step, simplified, THEN smear_step, simplified, THEN smear_step, simplified,
      THEN smear_step, simplified, THEN smear_step, simplified, of n]
  then show ?thesis unfolding smear_def Let_def by simp
qed

lemma smear_mask:
  assumes v: "bit v m" and top: "\<And>n. bit v n \<Longrightarrow> n \<le> m"
  shows "smear v = mask (Suc m)"
proof (rule bit_word_eqI)
  fix n assume "n < LENGTH(32)"
  have "m < 32" using v bit_imp_le_length by fastforce
  show "bit (smear v) n = bit (mask (Suc m) :: u32) n"
  proof (cases "n \<le> m")
    case True
    then have "m - n < 32" "bit v (n + (m - n))" using v \<open>m < 32\<close> by simp_all
    then have "bit (smear v) n" unfolding bit_smear by blast
    with True \<open>n < LENGTH(32)\<close> show ?thesis by (simp add: bit_mask_iff)
  next
    case False
    then have "\<not> bit (smear v) n" unfolding bit_smear using top by fastforce
    with False show ?thesis by (simp add: bit_mask_iff)
  qed
qed

lemma highest_bit:
  assumes "(v :: u32) \<noteq> 0"
  obtains m where "bit v m" "\<And>n. bit v n \<Longrightarrow> n \<le> m"
proof -
  have "finite {n. bit v n}" by (rule finite_subset [of _ "{..<32}"]) (auto dest: bit_imp_le_length)
  moreover have "{n. bit v n} \<noteq> {}" using assms bit_eq_iff [of v 0] by auto
  ultimately have "bit v (Max {n. bit v n})" "\<And>n. bit v n \<Longrightarrow> n \<le> Max {n. bit v n}"
    using Max_in Max_ge by blast+
  then show ?thesis by (rule that)
qed

lemma round_up_power:
  assumes v: "0 < unat v" "unat v \<le> 2 ^ 31"
  obtains k where "k \<le> 31" "unat (smear (v - 1) + 1) = 2 ^ k" "unat v \<le> 2 ^ k" "2 ^ k < 2 * unat v"
proof (cases "v = 1")
  case True
  then show ?thesis using that [of 0] by (simp add: smear_def)
next
  case False
  let ?w = "v - 1"
  have w: "unat ?w = unat v - 1" using v(1) by (subst unat_minus_one) auto
  have "?w \<noteq> 0" using False by simp
  then obtain m where m: "bit ?w m" "\<And>n. bit ?w n \<Longrightarrow> n \<le> m" by (rule highest_bit) auto
  have "bit (unat ?w) m" using m(1) by (simp add: bit_unsigned_iff)
  then have "unat ?w div 2 ^ m \<noteq> 0" by (metis bit_iff_odd even_zero)
  then have low: "2 ^ m \<le> unat ?w" by (metis div_less not_less)
  have "take_bit (Suc m) ?w = ?w" by (rule bit_word_eqI) (auto simp: bit_take_bit_iff dest: m(2))
  then have "unat ?w = take_bit (Suc m) (unat ?w)" by (metis unsigned_take_bit_eq)
  then have high: "unat ?w < 2 ^ Suc m" by (metis take_bit_nat_less_exp)
  have "(2::nat) ^ m < 2 ^ 31" using low w v by simp
  then have m31: "m < 31" by (rule power_less_imp_less_exp [rotated]) simp
  then have "(2::nat) ^ Suc m < 2 ^ 32" by (intro power_strict_increasing) simp_all
  then have "unat (word_of_nat (2 ^ Suc m) :: u32) = 2 ^ Suc m" unfolding unat_of_nat by simp
  moreover have "smear ?w = mask (Suc m)" using m by (intro smear_mask) auto
  ultimately have "unat (smear ?w + 1) = 2 ^ Suc m" by (simp add: mask_eq_exp_minus_1)
  moreover have "unat v \<le> 2 ^ Suc m" "2 ^ Suc m < 2 * unat v" using low high w v(1) by simp_all
  ultimately show ?thesis using m31 that [of "Suc m"] by simp
qed

definition floor_size :: "u64 \<Rightarrow> u32" where
  "floor_size capacity = (if 4 * unat capacity > 3 * 0xffffffff then 0xffffffff else of_nat (4 * unat capacity div 3))"

lemma size_for_capacity_smear:
  "size_for_capacity c = (if floor_size c > HASH_MAX_SIZE then HASH_MAX_SIZE else smear (floor_size c - 1) + 1)"
proof -
  define k where "k = unat c"
  have u: "uint c = int k" by (simp add: k_def)
  have d: "4 * uint c div 3 = int (4 * k div 3)" unfolding u by presburger
  have "(4 * uint c > 3 * 0xffffffff) = (4 * k > 3 * 0xffffffff)" unfolding u by presburger
  moreover have "word_of_int (4 * uint c div 3) = (of_nat (4 * k div 3) :: u32)" unfolding d by (rule of_int_of_nat_eq)
  ultimately show ?thesis unfolding size_for_capacity_def smear_def floor_size_def k_def [symmetric] Let_def by presburger
qed

lemma unat_floor_size: "4 * unat c \<le> 3 * 0xffffffff \<Longrightarrow> unat (floor_size c) = 4 * unat c div 3"
  unfolding floor_size_def unat_of_nat by (simp add: unat_of_nat)

lemma size_for_capacity_power: "c \<noteq> 0 \<Longrightarrow> table_size_ok (size_for_capacity c)"
proof -
  assume c: "c \<noteq> 0"
  show ?thesis
  proof (cases "floor_size c > HASH_MAX_SIZE")
    case True
    then show ?thesis
      unfolding size_for_capacity_smear table_size_ok_def by (auto intro: exI [of _ 31])
  next
    case False
    then have "unat (floor_size c) \<le> 2147483648" by (simp add: word_less_nat_alt)
    moreover have "0 < unat (floor_size c)"
    proof (cases "4 * unat c \<le> 3 * 0xffffffff")
      case True
      have "0 < unat c" using c by (simp add: unat_gt_0)
      then show ?thesis unfolding unat_floor_size [OF True] by simp
    qed (simp add: floor_size_def)
    ultimately obtain k where "k \<le> 31" "unat (smear (floor_size c - 1) + 1) = 2 ^ k"
      using round_up_power [of "floor_size c"] by auto
    then show ?thesis using False unfolding size_for_capacity_smear table_size_ok_def by auto
  qed
qed

text \<open>A reserved table is large enough, from three names on.\<close>

lemma size_for_capacity_enough:
  assumes c: "3 \<le> unat c" "unat c \<le> 0x60000000"
  shows "4 * unat c \<le> 3 * unat (size_for_capacity c)"
proof -
  have v: "unat (floor_size c) = 4 * unat c div 3" using c by (intro unat_floor_size) simp
  then have le: "unat (floor_size c) \<le> 2 ^ 31" "0 < unat (floor_size c)" using c by auto
  then have nmax: "\<not> floor_size c > HASH_MAX_SIZE" by (simp add: word_less_nat_alt)
  obtain k where k: "unat (size_for_capacity c) = 2 ^ k" "unat (floor_size c) \<le> 2 ^ k"
    using round_up_power [OF le(2,1)] nmax unfolding size_for_capacity_smear by auto
  have grow: "4 * x < 3 * y + 3" "3 \<le> x \<Longrightarrow> 4 \<le> y" if "4 * x div 3 \<le> y" for x y :: nat
    using that by presburger+
  note grow [OF k(2) [unfolded v]]
  then have "4 * unat c < 3 * 2 ^ k + 3" "(4::nat) \<le> 2 ^ k" using c(1) by blast+
  moreover from this(2) have "(2::nat) ^ 2 \<le> 2 ^ k" by simp
  then have "2 \<le> k" by (rule power_le_imp_le_exp [rotated]) simp
  then obtain j where "k = 2 + j" using le_Suc_ex by blast
  then have "(2::nat) ^ k = 4 * 2 ^ j" by (simp add: power_add)
  ultimately show ?thesis unfolding k(1) by presburger
qed

lemma zip_hash_reserve_spec:
  assumes wf: "hash_wf h" and r: "zip_hash_reserve_capacity mem h c err = (b, h', err')"
  shows "hash_wf h'" "hash_map h' = hash_map h" "hash_nentries h' = hash_nentries h"
    "b \<Longrightarrow> err' = err \<and> (c = 0 \<or> size_for_capacity c \<le> hash_table_size h')"
    "\<not> b \<Longrightarrow> \<not> mem A_hash_table"
proof -
  have "hash_wf h' \<and> hash_map h' = hash_map h \<and> hash_nentries h' = hash_nentries h \<and>
      (b \<longrightarrow> err' = err \<and> (c = 0 \<or> size_for_capacity c \<le> hash_table_size h')) \<and> (\<not> b \<longrightarrow> \<not> mem A_hash_table)"
  proof (cases "c = 0 \<or> size_for_capacity c \<le> hash_table_size h")
    case True
    then have "(True, h, err) = (b, h', err')"
      using r unfolding zip_hash_reserve_capacity_def Let_def by (auto split: if_splits)
    then show ?thesis using wf True by auto
  next
    case False
    then have "hash_resize mem h (size_for_capacity c) err = (b, h', err')"
      using r by (simp add: zip_hash_reserve_capacity_def Let_def)
    note rs = hash_resize_spec [OF wf size_for_capacity_power this]
    show ?thesis using rs False by simp
  qed
  then show "hash_wf h'" "hash_map h' = hash_map h" "hash_nentries h' = hash_nentries h"
    "b \<Longrightarrow> err' = err \<and> (c = 0 \<or> size_for_capacity c \<le> hash_table_size h')"
    "\<not> b \<Longrightarrow> \<not> mem A_hash_table" by blast+
qed

section \<open>The interface the archive uses\<close>

text \<open>
  What \<open>zip_open.c\<close> and the functions that add, rename and delete entries rely on: names are
  looked up, claimed and released, and reverting forgets what was not there at the start.
\<close>

datatype name_op = Name_add bytes u64 | Name_delete bytes

primrec name_run ::
  "('h \<Rightarrow> bytes option \<Rightarrow> u64 \<Rightarrow> u32 \<Rightarrow> zip_error \<Rightarrow> bool \<times> 'h \<times> zip_error) \<Rightarrow>
   ('h \<Rightarrow> bytes option \<Rightarrow> zip_error \<Rightarrow> bool \<times> 'h \<times> zip_error) \<Rightarrow> name_op list \<Rightarrow> 'h \<Rightarrow> zip_error \<Rightarrow> 'h \<times> zip_error" where
  "name_run add del [] h err = (h, err)"
| "name_run add del (op # ops) h err =
     (case (case op of Name_add n i \<Rightarrow> add h (Some n) i 0 err | Name_delete n \<Rightarrow> del h (Some n) err) of
        (_, h, err) \<Rightarrow> name_run add del ops h err)"

locale name_index =
  fixes wf :: "'h \<Rightarrow> bool"
    and names :: "'h \<Rightarrow> bytes \<Rightarrow> (int \<times> int) option"
    and count :: "'h \<Rightarrow> nat"
    and lookup :: "'h \<Rightarrow> bytes option \<Rightarrow> u32 \<Rightarrow> zip_error \<Rightarrow> int \<times> zip_error"
    and add :: "'h \<Rightarrow> bytes option \<Rightarrow> u64 \<Rightarrow> u32 \<Rightarrow> zip_error \<Rightarrow> bool \<times> 'h \<times> zip_error"
    and del :: "'h \<Rightarrow> bytes option \<Rightarrow> zip_error \<Rightarrow> bool \<times> 'h \<times> zip_error"
    and revert :: "'h \<Rightarrow> zip_error \<Rightarrow> bool \<times> 'h \<times> zip_error"
  assumes lookup_law: "wf h \<Longrightarrow> fst (lookup h (Some n) flags err) = index_get flags (names h n)"
    and add_inval: "i > ZIP_INT64_MAX \<Longrightarrow> \<exists>err'. add h (Some n) i flags err = (False, h, err')"
    and add_law: "wf h \<Longrightarrow> i \<le> ZIP_INT64_MAX \<Longrightarrow> count h + 1 < 2 ^ 64 \<Longrightarrow>
      add h (Some n) i flags err = (b, h', err') \<Longrightarrow>
      wf h' \<and> count h' \<le> count h + 1 \<and> (index_taken flags (names h n) \<longrightarrow> \<not> b) \<and>
      (if b then names h' = (names h)(n \<mapsto> index_put i flags (names h n))
       else names h' = names h \<or> names h n = None \<and> names h' = (names h)(n \<mapsto> (-1, 0)))"
    and del_law: "wf h \<Longrightarrow> del h (Some n) err = (b, h', err') \<Longrightarrow>
      wf h' \<and> count h' \<le> count h \<and> (names h n = None \<longrightarrow> \<not> b) \<and>
      names h' = (names h)(n := index_drop (names h n))"
    and revert_law: "wf h \<Longrightarrow> revert h err = (b, h', err') \<Longrightarrow>
      wf h' \<and> names h' = (\<lambda>n. index_revert (names h n))"
begin

lemma add_orig:
  assumes "wf h" "count h + 1 < 2 ^ 64" "add h (Some n) i 0 err = (b, h', err')"
  shows "wf h' \<and> count h' \<le> count h + 1 \<and> (\<forall>m. index_orig (names h' m) = index_orig (names h m))"
proof (cases "i \<le> ZIP_INT64_MAX")
  case True
  show ?thesis using add_law [OF assms(1) True assms(2,3)] by (auto simp: index_put_def index_orig_def split: if_splits)
next
  case False
  then have "i > ZIP_INT64_MAX" by simp
  from add_inval [OF this, of h n 0 err] show ?thesis using assms by auto
qed

lemma del_orig:
  assumes "wf h" "del h (Some n) err = (b, h', err')"
  shows "wf h' \<and> count h' \<le> count h \<and> (\<forall>m. index_orig (names h' m) = index_orig (names h m))"
  using del_law [OF assms] by (auto simp: index_drop_def index_orig_def)

text \<open>No sequence of additions and deletions, failed ones included, changes what the table
  remembers of the archive as opened.\<close>

lemma run_orig:
  "wf h \<Longrightarrow> count h + length ops < 2 ^ 64 \<Longrightarrow> name_run add del ops h err = (h', err') \<Longrightarrow>
   wf h' \<and> (\<forall>m. index_orig (names h' m) = index_orig (names h m))"
proof (induction ops arbitrary: h err)
  case (Cons op ops)
  obtain b h2 err2 where step:
      "(case op of Name_add n i \<Rightarrow> add h (Some n) i 0 err | Name_delete n \<Rightarrow> del h (Some n) err) = (b, h2, err2)"
    by (metis prod_cases3)
  have h2: "wf h2 \<and> count h2 \<le> count h + 1 \<and> (\<forall>m. index_orig (names h2 m) = index_orig (names h m))"
  proof (cases op)
    case (Name_add n i)
    show ?thesis using add_orig [of h n i err b h2 err2] step Cons.prems Name_add by auto
  next
    case (Name_delete n)
    show ?thesis using del_orig [of h n err b h2 err2] step Cons.prems Name_delete by auto
  qed
  have "name_run add del ops h2 err2 = (h', err')" using Cons.prems(3) step by simp
  moreover have "count h2 + length ops < 2 ^ 64" using h2 Cons.prems(2) by simp
  ultimately show ?case using Cons.IH [of h2 err2] h2 by simp
qed simp

lemma revert_run:
  assumes "wf h" "count h + length ops < 2 ^ 64" "name_run add del ops h err = (h', err')"
    and "revert h' err' = (b, h2, err2)"
  shows "wf h2" "fst (lookup h2 (Some n) 0 err3) = fst (lookup h (Some n) ZIP_FL_UNCHANGED err4)"
proof -
  note run = run_orig [OF assms(1-3)]
  note rev = revert_law [OF conjunct1 [OF run] assms(4)]
  show "wf h2" using rev by simp
  have "fst (lookup h2 (Some n) 0 err3) = index_get 0 (index_revert (names h' n))"
    using lookup_law [of h2] rev by simp
  also have "\<dots> = index_orig (names h n)"
    using run by (auto simp: index_revert_def index_get_def)
  also have "\<dots> = fst (lookup h (Some n) ZIP_FL_UNCHANGED err4)"
    using lookup_law [OF assms(1)] by (auto simp: index_get_def index_orig_def split: option.split)
  finally show "fst (lookup h2 (Some n) 0 err3) = fst (lookup h (Some n) ZIP_FL_UNCHANGED err4)" .
qed

text \<open>A name that was claimed is found, and cannot be claimed again until it is released.\<close>

lemma claim:
  assumes "wf h" "i \<le> ZIP_INT64_MAX" "count h + 2 < 2 ^ 64" "add h (Some n) i flags err = (True, h', err')"
  shows "fst (lookup h' (Some n) 0 err2) = uint i"
    and "m \<noteq> n \<Longrightarrow> fst (lookup h' (Some m) flags' err2) = fst (lookup h (Some m) flags' err2)"
    and "j \<le> ZIP_INT64_MAX \<Longrightarrow> \<not> fst (add h' (Some n) j flags' err3)"
    and "del h' (Some n) err3 = (b, h2, err4) \<Longrightarrow> fst (lookup h2 (Some n) 0 err2) = -1"
proof -
  have law: "wf h'" "count h' \<le> count h + 1" "names h' = (names h)(n \<mapsto> index_put i flags (names h n))"
    using add_law [OF assms(1,2) _ assms(4)] assms(3) by simp_all
  show "fst (lookup h' (Some n) 0 err2) = uint i"
    using law by (simp add: lookup_law index_get_def index_put_def)
  show "m \<noteq> n \<Longrightarrow> fst (lookup h' (Some m) flags' err2) = fst (lookup h (Some m) flags' err2)"
    using law assms(1) by (simp add: lookup_law)
  have "uint i \<noteq> -1" using uint_ge_0 [of i] by linarith
  then have "index_taken flags' (names h' n)" by (simp add: law(3) index_taken_def index_put_def)
  then show "j \<le> ZIP_INT64_MAX \<Longrightarrow> \<not> fst (add h' (Some n) j flags' err3)"
    using add_law [OF law(1), of j n flags' err3] law(2) assms(3)
    by (cases "add h' (Some n) j flags' err3") auto
  show "fst (lookup h2 (Some n) 0 err2) = -1" if "del h' (Some n) err3 = (b, h2, err4)"
    using del_law [OF law(1) that] lookup_law [of h2 n 0 err2]
    by (auto simp: index_drop_def index_get_def)
qed

end

interpretation names: name_index hash_wf hash_map "\<lambda>h. unat (hash_nentries h)" zip_hash_lookup
  "zip_hash_add mem" "zip_hash_delete mem" "zip_hash_revert mem" for mem
proof (unfold_locales, goal_cases)
  case (1 h n flags err)
  then show ?case by (simp add: zip_hash_lookup_spec)
next
  case (2 i h n flags err)
  then show ?case by (auto simp: zip_hash_add_def)
next
  case (3 h i n flags err b h' err')
  then show ?case using zip_hash_add_spec [where h = h and index = i and n = n and mem = mem and flags = flags and err = err] by (auto simp: hash_added_def split: if_splits)
next
  case (4 h n err b h' err')
  then show ?case using zip_hash_delete_spec [where h = h and n = n and mem = mem and err = err]
    by (auto simp: hash_deleted_def index_drop_def index_orig_def split: if_splits)
next
  case (5 h err b h' err')
  then show ?case using zip_hash_revert_spec by blast
qed

section \<open>Properties\<close>

text \<open>A table with at most one entry, for the witnesses.\<close>

definition hash_small :: "(bytes \<times> int \<times> int) option \<Rightarrow> zip_hash" where
  "hash_small e = (case e of
     None \<Rightarrow> \<lparr>hash_table_size = 1, hash_nentries = 0, hash_table = [[]]\<rparr>
   | Some (n, orig, cur) \<Rightarrow> \<lparr>hash_table_size = 1, hash_nentries = 1, hash_table =
       [[\<lparr>he_name = n, he_orig_index = orig, he_current_index = cur, he_hash_value = hash_string n\<rparr>]]\<rparr>)"

lemma hash_small [simp]:
  "hash_wf (hash_small e)" "hash_map (hash_small None) = Map.empty"
  "hash_map (hash_small (Some (n, orig, cur))) = [n \<mapsto> (orig, cur)]"
  "hash_table_size (hash_small e) = 1" "unat (hash_nentries (hash_small e)) \<le> 1"
  by (auto simp: hash_small_def hash_wf_def buckets_ok_def hash_entries_def hash_map_def entry_map_def
      entry_hashed_def hash_bucket_def table_size_ok_def split: option.split)

lemma hash_small_None [simp]: "hash_nentries (hash_small None) = 0"
  by (simp add: hash_small_def)

text \<open>C15. \<open>_zip_hash_add\<close> refines insertion into the map: when memory lasts it fails exactly if the
  name is taken (with \<open>ZIP_ER_EXISTS\<close> and the map as it was), otherwise the map gets the index
  for that name and nothing else changes, whatever growing of the table it takes; the table stays
  well formed.\<close>

theorem zip_hash_add_refines:
  assumes "hash_wf h" "index \<le> ZIP_INT64_MAX" "unat (hash_nentries h) + 1 < 2 ^ 64"
    and "zip_hash_add malloc_ok h (Some n) index flags err = (b, h', err')"
  shows "hash_wf h' \<and> b = (\<not> index_taken flags (hash_map h n)) \<and>
    hash_map h' = (if b then (hash_map h)(n \<mapsto> index_put index flags (hash_map h n)) else hash_map h) \<and>
    err' = (if b then err else zip_error_set err ZIP_ER_EXISTS 0)"
  using zip_hash_add_spec [OF assms(1-3), where mem = malloc_ok and n = n and flags = flags and err = err] assms(4)
  by (auto simp: hash_added_def split: if_splits)

theorem zip_hash_add_refines_witness:
  "\<exists>h'. zip_hash_add malloc_ok (hash_small None) (Some [97]) 5 ZIP_FL_UNCHANGED zip_error_init = (True, h', zip_error_init) \<and>
     hash_map h' = [[97] \<mapsto> (5, 5)]"
proof -
  obtain b h' err' where r: "zip_hash_add malloc_ok (hash_small None) (Some [97]) 5 ZIP_FL_UNCHANGED zip_error_init = (b, h', err')"
    by (metis prod_cases3)
  have "hash_wf h' \<and> b \<and> hash_map h' = [[97] \<mapsto> (5, 5)] \<and> err' = zip_error_init"
    using zip_hash_add_refines [OF _ _ _ r] by (simp add: index_taken_def index_put_def index_orig_def)
  with r show ?thesis by auto
qed

text \<open>C16. \<open>_zip_hash_delete\<close> refines deletion: an absent name is \<open>ZIP_ER_NOENT\<close>, a present one loses
  its current index and stays only for the index it had in the archive as opened. The map changes
  this way even when shrinking the table fails.\<close>

theorem zip_hash_delete_refines:
  assumes "hash_wf h" "zip_hash_delete mem h (Some n) err = (b, h', err')"
  shows "hash_wf h' \<and> hash_map h' = (hash_map h)(n := index_drop (hash_map h n)) \<and>
    (hash_map h n = None \<longrightarrow> \<not> b \<and> err' = zip_error_set err ZIP_ER_NOENT 0) \<and>
    (hash_map h n \<noteq> None \<and> mem A_hash_table \<longrightarrow> b \<and> err' = err)"
  using zip_hash_delete_spec [OF assms(1), where n = n and mem = mem and err = err] assms(2)
  by (auto simp: hash_deleted_def index_drop_def index_orig_def split: if_splits)

theorem zip_hash_delete_refines_witness:
  "\<exists>h'. zip_hash_delete malloc_ok (hash_small (Some ([97], 3, 3))) (Some [97]) zip_error_init = (True, h', zip_error_init) \<and>
     hash_map h' = [[97] \<mapsto> (3, -1)]"
proof -
  obtain b h' err' where r: "zip_hash_delete malloc_ok (hash_small (Some ([97], 3, 3))) (Some [97]) zip_error_init = (b, h', err')"
    by (metis prod_cases3)
  have "b \<and> hash_map h' = [[97] \<mapsto> (3, -1)] \<and> err' = zip_error_init"
    using zip_hash_delete_refines [OF _ r] by (simp add: index_drop_def index_orig_def)
  with r show ?thesis by auto
qed

text \<open>C17. Whatever names are added to and deleted from an archive, failures and lack of memory
  included, \<open>_zip_hash_revert\<close> makes the current lookup of every name the lookup in the archive as
  opened.\<close>

theorem zip_hash_revert_restores:
  assumes "hash_wf h" "unat (hash_nentries h) + length ops < 2 ^ 64"
    and "name_run (zip_hash_add mem) (zip_hash_delete mem) ops h err = (h', err')"
    and "zip_hash_revert mem h' err' = (b, h2, err2)"
  shows "fst (zip_hash_lookup h2 (Some n) 0 err3) = fst (zip_hash_lookup h (Some n) ZIP_FL_UNCHANGED err4)"
  by (rule names.revert_run(2) [OF assms])

theorem zip_hash_revert_restores_witness:
  "\<exists>h' err' b h2 err2.
     name_run (zip_hash_add malloc_ok) (zip_hash_delete malloc_ok) [Name_delete [97], Name_add [98] 7]
       (hash_small (Some ([97], 3, 3))) zip_error_init = (h', err') \<and>
     zip_hash_revert malloc_ok h' err' = (b, h2, err2) \<and> fst (zip_hash_lookup h2 (Some [97]) 0 err2) = 3"
proof -
  let ?h = "hash_small (Some ([97], 3, 3))" and ?ops = "[Name_delete [97], Name_add [98] 7]"
  obtain h' err' where r: "name_run (zip_hash_add malloc_ok) (zip_hash_delete malloc_ok) ?ops ?h zip_error_init = (h', err')"
    by (metis prod.exhaust)
  obtain b h2 err2 where v: "zip_hash_revert malloc_ok h' err' = (b, h2, err2)" by (metis prod_cases3)
  have room: "unat (hash_nentries ?h) + length ?ops < 2 ^ 64"
    using hash_small(5) [of "Some ([97], 3, 3)"] by simp
  have "fst (zip_hash_lookup h2 (Some [97]) 0 err2) = fst (zip_hash_lookup ?h (Some [97]) ZIP_FL_UNCHANGED err2)"
    by (rule zip_hash_revert_restores [OF _ room r v]) simp
  also have "\<dots> = 3" by (simp add: zip_hash_lookup_spec index_get_def)
  finally show ?thesis using r v by blast
qed





end
