(* ===== verification/Zip_Archive.thy ===== *)
theory Zip_Archive
  imports Zip_Dirent Zip_Hash
begin

text \<open>
  The archive in memory: \<open>struct zip\<close> and \<open>struct zip_entry\<close> of \<open>zipint.h\<close>, names and their
  lookup, and the functions that add, rename, replace, delete and restore entries.

  An archive is a record; its entry array is a list, so \<open>nentry\<close> is the length. The lists of open
  sources and the progress callback are not part of it. A changed entry shares the strings of the
  original in C; here it has its own copies, which only means that a cached conversion is not seen
  by the other. An error argument is \<open>None\<close> when it is \<open>NULL\<close>. All sources of an archive
  have the same type of user data.
\<close>

section \<open>The data\<close>

abbreviation ZIP_AFL_RDONLY :: u32 where "ZIP_AFL_RDONLY \<equiv> 2"
abbreviation ZIP_OPSYS_DEFAULT :: u8 where "ZIP_OPSYS_DEFAULT \<equiv> 3"

record 's zip_entry =
  en_orig :: "zip_dirent option"
  en_changes :: "zip_dirent option"
  en_source :: "'s zip_source option"
  en_deleted :: bool

record 's zip_archive =
  za_src :: "'s zip_source option"
  za_open_flags :: u32
  za_error :: zip_error
  za_flags :: u32
  za_ch_flags :: u32
  za_default_password :: "bytes option"
  za_comment_orig :: "zip_string option"
  za_comment_changes :: "zip_string option"
  za_comment_changed :: bool
  za_nentry_alloc :: u64
  za_entry :: "'s zip_entry list"
  za_names :: zip_hash
  za_prefixdata :: "bytes option"

definition zip_new :: "malloc \<Rightarrow> zip_error \<Rightarrow> 's zip_archive option \<times> zip_error" where
  "zip_new mem err =
     (if \<not> mem A_archive then (None, zip_error_set err ZIP_ER_MEMORY 0)
      else case zip_hash_new mem err of
        (None, err) \<Rightarrow> (None, err)
      | (Some names, err) \<Rightarrow>
          (Some \<lparr>za_src = None, za_open_flags = 0, za_error = zip_error_init, za_flags = 0, za_ch_flags = 0,
             za_default_password = None, za_comment_orig = None, za_comment_changes = None,
             za_comment_changed = False, za_nentry_alloc = 0, za_entry = [], za_names = names,
             za_prefixdata = None\<rparr>, err))"

definition ZIP_IS_RDONLY :: "'s zip_archive \<Rightarrow> bool" where
  "ZIP_IS_RDONLY za = (za_ch_flags za AND ZIP_AFL_RDONLY \<noteq> 0)"

definition ZIP_ENTRY_CHANGED :: "'s zip_entry \<Rightarrow> u32 \<Rightarrow> bool" where
  "ZIP_ENTRY_CHANGED e f = (case en_changes e of None \<Rightarrow> False | Some d \<Rightarrow> de_changed d AND f \<noteq> 0)"

definition ZIP_ENTRY_DATA_CHANGED :: "'s zip_entry \<Rightarrow> bool" where
  "ZIP_ENTRY_DATA_CHANGED e = (en_source e \<noteq> None)"

definition ZIP_ENTRY_HAS_CHANGES :: "'s zip_entry \<Rightarrow> bool" where
  "ZIP_ENTRY_HAS_CHANGES e =
     (ZIP_ENTRY_DATA_CHANGED e \<or> en_deleted e \<or> ZIP_ENTRY_CHANGED e ZIP_DIRENT_ALL)"

definition zip_entry_init :: "'s zip_entry" where
  "zip_entry_init = \<lparr>en_orig = None, en_changes = None, en_source = None, en_deleted = False\<rparr>"

text \<open>Setting the error, returning -1, and replacing one entry.\<close>

definition za_fail :: "'s zip_archive \<Rightarrow> int \<Rightarrow> int \<times> 's zip_archive" where
  "za_fail za ze = (-1, za\<lparr>za_error := zip_error_set (za_error za) ze 0\<rparr>)"

definition za_entry_at :: "'s zip_archive \<Rightarrow> u64 \<Rightarrow> 's zip_entry" where
  "za_entry_at za idx = za_entry za ! unat idx"

definition za_put_entry :: "'s zip_archive \<Rightarrow> u64 \<Rightarrow> 's zip_entry \<Rightarrow> 's zip_archive" where
  "za_put_entry za idx e = za\<lparr>za_entry := (za_entry za)[unat idx := e]\<rparr>"

definition za_has :: "'s zip_archive \<Rightarrow> u64 \<Rightarrow> bool" where
  "za_has za idx = (unat idx < length (za_entry za))"

text \<open>An error argument: set it unless it is \<open>NULL\<close>.\<close>

definition err_set :: "zip_error option \<Rightarrow> int \<Rightarrow> zip_error option" where
  "err_set err ze = map_option (\<lambda>e. zip_error_set e ze 0) err"

text \<open>Calling a function that takes an error argument with \<open>&za->error\<close>.\<close>

definition with_za_error ::
  "('s zip_archive \<Rightarrow> zip_error option \<Rightarrow> 'a \<times> 's zip_archive \<times> zip_error option) \<Rightarrow> 's zip_archive \<Rightarrow>
   'a \<times> 's zip_archive" where
  "with_za_error f za =
     (case f za (Some (za_error za)) of
        (r, za', err) \<Rightarrow> (r, case err of None \<Rightarrow> za' | Some e \<Rightarrow> za'\<lparr>za_error := e\<rparr>))"

section \<open>Names and lookup\<close>

text \<open>A null error argument stands for the archive's own error here.\<close>

definition zip_get_dirent ::
  "'s zip_archive \<Rightarrow> u64 \<Rightarrow> u32 \<Rightarrow> zip_error option \<Rightarrow>
   zip_dirent option \<times> 's zip_archive \<times> zip_error option" where
  "zip_get_dirent za idx flags err =
     (let failed = (\<lambda>ze. (None, if err = None then snd (za_fail za ze) else za, err_set err ze))
      in if \<not> za_has za idx then failed ZIP_ER_INVAL
         else let e = za_entry_at za idx
              in if flags AND ZIP_FL_UNCHANGED \<noteq> 0 \<or> en_changes e = None
                 then if en_orig e = None then failed ZIP_ER_INVAL
                      else if en_deleted e \<and> flags AND ZIP_FL_UNCHANGED = 0 then failed ZIP_ER_DELETED
                      else (en_orig e, za, err)
                 else (en_changes e, za, err))"

text \<open>Looking at a name caches its encoding and conversion in the string looked at.\<close>

definition entry_cache_name :: "u32 \<Rightarrow> 's zip_entry \<Rightarrow> zip_string option \<Rightarrow> 's zip_entry" where
  "entry_cache_name flags e s =
     (if flags AND ZIP_FL_UNCHANGED \<noteq> 0 \<or> en_changes e = None
      then e\<lparr>en_orig := map_option (\<lambda>d. d\<lparr>de_filename := s\<rparr>) (en_orig e)\<rparr>
      else e\<lparr>en_changes := map_option (\<lambda>d. d\<lparr>de_filename := s\<rparr>) (en_changes e)\<rparr>)"

definition zip_get_name ::
  "malloc \<Rightarrow> 's zip_archive \<Rightarrow> u64 \<Rightarrow> u32 \<Rightarrow> zip_error option \<Rightarrow>
   bytes option \<times> 's zip_archive \<times> zip_error option" where
  "zip_get_name mem za idx flags err =
     (case zip_get_dirent za idx flags err of
        (None, za, err) \<Rightarrow> (None, za, err)
      | (Some de, za, err) \<Rightarrow>
          (case zip_string_get mem (de_filename de) flags (case err of None \<Rightarrow> zip_error_init | Some e \<Rightarrow> e) of
             (r, s, e) \<Rightarrow>
               (map_option fst r,
                za_put_entry za idx (entry_cache_name flags (za_entry_at za idx) s),
                map_option (\<lambda>_. e) err)))"

text \<open>\<open>strcasecmp\<close> in the C locale; \<open>strrchr\<close> for the base name.\<close>

definition ascii_lower :: "u8 \<Rightarrow> u8" where
  "ascii_lower c = (if 0x41 \<le> c \<and> c \<le> 0x5a then c + 0x20 else c)"

definition name_matches :: "u32 \<Rightarrow> bytes \<Rightarrow> bytes \<Rightarrow> bool" where
  "name_matches flags fname fn =
     (let fn = (if flags AND ZIP_FL_NODIR \<noteq> 0 then rev (takeWhile (\<lambda>c. c \<noteq> 0x2f) (rev fn)) else fn)
      in if flags AND ZIP_FL_NOCASE \<noteq> 0 then map ascii_lower fname = map ascii_lower fn else fname = fn)"

fun locate_scan ::
  "malloc \<Rightarrow> u32 \<Rightarrow> bytes \<Rightarrow> nat list \<Rightarrow> 's zip_archive \<Rightarrow> zip_error option \<Rightarrow>
   int \<times> 's zip_archive \<times> zip_error option" where
  "locate_scan mem flags fname [] za err = (-1, za, err_set err ZIP_ER_NOENT)"
| "locate_scan mem flags fname (i # is) za err =
     (case zip_get_name mem za (of_nat i) flags err of
        (None, za, err) \<Rightarrow> locate_scan mem flags fname is za err
      | (Some fn, za, err) \<Rightarrow>
          if name_matches flags fname fn then (int i, za, map_option zip_error_clear err)
          else locate_scan mem flags fname is za err)"

definition zip_name_locate ::
  "malloc \<Rightarrow> 's zip_archive \<Rightarrow> bytes option \<Rightarrow> u32 \<Rightarrow> zip_error option \<Rightarrow>
   int \<times> 's zip_archive \<times> zip_error option" where
  "zip_name_locate mem za fname flags err =
     (case fname of
        None \<Rightarrow> (-1, za, err_set err ZIP_ER_INVAL)
      | Some name \<Rightarrow>
          if flags AND (ZIP_FL_NOCASE OR ZIP_FL_NODIR OR ZIP_FL_ENC_CP437) \<noteq> 0
          then locate_scan mem flags name [0..<length (za_entry za)] za err
          else case zip_hash_lookup (za_names za) fname flags (case err of None \<Rightarrow> zip_error_init | Some e \<Rightarrow> e) of
                 (i, e) \<Rightarrow> (i, za, map_option (\<lambda>_. e) err))"

definition zip_get_num_entries :: "'s zip_archive \<Rightarrow> u32 \<Rightarrow> int" where
  "zip_get_num_entries za flags =
     (if flags AND ZIP_FL_UNCHANGED \<noteq> 0
      then int (length (dropWhile (\<lambda>e. en_orig e = None) (rev (za_entry za))))
      else int (length (za_entry za)))"

definition zip_get_num_files :: "'s zip_archive \<Rightarrow> int \<times> 's zip_archive" where
  "zip_get_num_files za =
     (if length (za_entry za) > 0x7fffffff then za_fail za ZIP_ER_OPNOTSUPP
      else (int (length (za_entry za)), za))"

section \<open>Adding entries\<close>

definition zip_add_entry :: "malloc \<Rightarrow> 's zip_archive \<Rightarrow> int \<times> 's zip_archive" where
  "zip_add_entry mem za =
     (let n = of_nat (length (za_entry za)) :: u64;
          alloc = za_nentry_alloc za;
          more = 2 * alloc;
          more = (if more < 16 then 16 else if more > 1024 then 1024 else more);
          add = (\<lambda>za. (int (length (za_entry za)), za\<lparr>za_entry := za_entry za @ [zip_entry_init]\<rparr>))
      in if n + 1 \<ge> alloc
         then if 32 * alloc > 32 * (alloc + more) then za_fail za ZIP_ER_MEMORY
              else if \<not> mem A_entries then za_fail za ZIP_ER_MEMORY
              else add (za\<lparr>za_nentry_alloc := alloc + more\<rparr>)
         else add za)"

section \<open>Undoing changes to an entry\<close>

definition zip_unchange_data :: "'s zip_entry \<Rightarrow> 's zip_entry" where
  "zip_unchange_data ze =
     (let ze = ze\<lparr>en_source := None\<rparr>;
          ze = (case en_changes ze of
                  None \<Rightarrow> ze
                | Some d \<Rightarrow>
                    if de_changed d AND ZIP_DIRENT_COMP_METHOD \<noteq> 0 \<and> de_comp_method d = ZIP_CM_REPLACED_DEFAULT
                    then let d = d\<lparr>de_changed := de_changed d AND NOT ZIP_DIRENT_COMP_METHOD\<rparr>
                         in ze\<lparr>en_changes := (if de_changed d = 0 then None else Some d)\<rparr>
                    else ze)
      in ze\<lparr>en_deleted := False\<rparr>)"

section \<open>Setting a name\<close>

text \<open>The string for a new name; \<open>None\<close> is failure, an empty or null name is a null string.\<close>

definition set_name_string ::
  "malloc \<Rightarrow> bytes option \<Rightarrow> u32 \<Rightarrow> zip_error \<Rightarrow> zip_string option option \<times> zip_error" where
  "set_name_string mem name flags err =
     (case name of
        None \<Rightarrow> (Some None, err)
      | Some n \<Rightarrow>
          if n = [] then (Some None, err)
          else case zip_string_new mem n (of_nat (length n)) flags err of
                 (None, err) \<Rightarrow> (None, err)
               | (Some str, err) \<Rightarrow>
                   if flags AND ZIP_FL_ENCODING_ALL = ZIP_FL_ENC_GUESS
                   then case zip_guess_encoding (Some str) ZIP_ENCODING_UNKNOWN of
                          (enc, s) \<Rightarrow>
                            (Some (if enc = ZIP_ENCODING_UTF8_GUESSED
                                   then map_option (\<lambda>s. s\<lparr>str_encoding := ZIP_ENCODING_UTF8_KNOWN\<rparr>) s else s), err)
                   else (Some (Some str), err))"

text \<open>Storing the name in the entry: going back to the original one clears the change.\<close>

definition set_name_store :: "bool \<Rightarrow> zip_string option \<Rightarrow> 's zip_entry \<Rightarrow> 's zip_entry" where
  "set_name_store same_as_orig str e =
     (if same_as_orig
      then case en_changes e of
             None \<Rightarrow> e
           | Some d \<Rightarrow>
               if de_changed d AND ZIP_DIRENT_FILENAME \<noteq> 0
               then let d = d\<lparr>de_changed := de_changed d AND NOT ZIP_DIRENT_FILENAME\<rparr>
                    in e\<lparr>en_changes := (if de_changed d = 0 then None
                          else Some (d\<lparr>de_filename := de_filename (the (en_orig e))\<rparr>))\<rparr>
               else e
      else e\<lparr>en_changes := map_option (\<lambda>d. d\<lparr>de_changed := de_changed d OR ZIP_DIRENT_FILENAME, de_filename := str\<rparr>)
               (en_changes e)\<rparr>)"

text \<open>Changing the name of an entry once nobody else has it.\<close>

definition set_name_change ::
  "malloc \<Rightarrow> 's zip_archive \<Rightarrow> u64 \<Rightarrow> zip_string option \<Rightarrow> int \<times> 's zip_archive" where
  "set_name_change mem za idx str =
     (let e = za_entry_at za idx;
          same_as_orig = (case en_orig e of None \<Rightarrow> False | Some d \<Rightarrow> zip_string_equal (de_filename d) str);
          changes = (if \<not> same_as_orig \<and> en_changes e = None then zip_dirent_clone mem (en_orig e) else en_changes e)
      in if \<not> same_as_orig \<and> changes = None then za_fail za ZIP_ER_MEMORY
         else
         let e = e\<lparr>en_changes := changes\<rparr>
         in case zip_string_get mem (if same_as_orig then de_filename (the (en_orig e)) else str) 0 (za_error za) of
              (None, _, err) \<Rightarrow> (-1, (za_put_entry za idx e)\<lparr>za_error := err\<rparr>)
            | (Some (new_name, _), s, err) \<Rightarrow>
                let e = (if same_as_orig then e\<lparr>en_orig := map_option (\<lambda>d. d\<lparr>de_filename := s\<rparr>) (en_orig e)\<rparr> else e);
                    str = (if same_as_orig then str else s);
                    old_str = (case en_changes e of Some d \<Rightarrow> de_filename d
                               | None \<Rightarrow> (case en_orig e of Some d \<Rightarrow> de_filename d | None \<Rightarrow> None))
                in case (case old_str of
                           None \<Rightarrow> (Some None, None, err)
                         | Some _ \<Rightarrow> (case zip_string_get mem old_str 0 err of
                                       (r, s, err) \<Rightarrow> (map_option (Some \<circ> fst) r, s, err))) of
                     (None, _, err) \<Rightarrow> (-1, (za_put_entry za idx e)\<lparr>za_error := err\<rparr>)
                   | (Some old_name, s, err) \<Rightarrow>
                       let e = (if old_str = None then e else entry_cache_name 0 e s)
                       in case zip_hash_add mem (za_names za) (Some new_name) idx 0 err of
                            (False, names, err) \<Rightarrow>
                              (-1, (za_put_entry za idx e)\<lparr>za_names := names, za_error := err\<rparr>)
                          | (True, names, err) \<Rightarrow>
                              let names = (if old_name = None then names
                                           else fst (snd (zip_hash_delete mem names old_name zip_error_init)))
                              in (0, (za_put_entry za idx (set_name_store same_as_orig str e))
                                       \<lparr>za_names := names, za_error := err\<rparr>))"

definition zip_set_name ::
  "malloc \<Rightarrow> 's zip_archive \<Rightarrow> u64 \<Rightarrow> bytes option \<Rightarrow> u32 \<Rightarrow> int \<times> 's zip_archive" where
  "zip_set_name mem za idx name flags =
     (if \<not> za_has za idx then za_fail za ZIP_ER_INVAL
      else if ZIP_IS_RDONLY za then za_fail za ZIP_ER_RDONLY
      else case set_name_string mem name flags (za_error za) of
        (None, err) \<Rightarrow> (-1, za\<lparr>za_error := err\<rparr>)
      | (Some str, err) \<Rightarrow>
          let za = za\<lparr>za_error := err\<rparr>;
              i = fst (zip_name_locate mem za name 0 None)
          in if i \<ge> 0 \<and> word_of_int i \<noteq> idx then za_fail za ZIP_ER_EXISTS
             else if i \<ge> 0 then (0, za)
             else set_name_change mem za idx str)"

section \<open>Adding, replacing, renaming\<close>

text \<open>Giving an entry its new data, in place of the method and data it was to have.\<close>

definition set_entry_source ::
  "malloc \<Rightarrow> 's zip_archive \<Rightarrow> int \<Rightarrow> 's zip_source \<Rightarrow> int \<times> 's zip_archive" where
  "set_entry_source mem za i source =
     (let idx = word_of_int i :: u64;
          e = zip_unchange_data (za_entry_at za idx);
          za = za_put_entry za idx e
      in if en_orig e \<noteq> None \<and>
            (case en_changes e of None \<Rightarrow> True | Some d \<Rightarrow> de_changed d AND ZIP_DIRENT_COMP_METHOD = 0)
         then case (if en_changes e = None then zip_dirent_clone mem (en_orig e) else en_changes e) of
                None \<Rightarrow> za_fail za ZIP_ER_MEMORY
              | Some d \<Rightarrow>
                  (i, za_put_entry za idx
                    (e\<lparr>en_changes := Some (d\<lparr>de_comp_method := ZIP_CM_REPLACED_DEFAULT,
                          de_changed := de_changed d OR ZIP_DIRENT_COMP_METHOD\<rparr>),
                       en_source := Some source\<rparr>))
         else (i, za_put_entry za idx (e\<lparr>en_source := Some source\<rparr>)))"

text \<open>The entry to use: the one given, one of that name to overwrite, or a new one.\<close>

definition replace_target ::
  "malloc \<Rightarrow> 's zip_archive \<Rightarrow> u64 \<Rightarrow> bytes option \<Rightarrow> u32 \<Rightarrow> int \<times> 's zip_archive" where
  "replace_target mem za idx name flags =
     (if idx = ZIP_UINT64_MAX
      then case (if flags AND ZIP_FL_OVERWRITE \<noteq> 0
                 then case zip_name_locate mem za name flags None of (i, za, _) \<Rightarrow> (i, za)
                 else (-1, za)) of
             (i, za) \<Rightarrow> if i = -1 then zip_add_entry mem za else (i, za)
      else (uint idx, za))"

definition zip_file_replace_internal ::
  "malloc \<Rightarrow> 's zip_archive \<Rightarrow> u64 \<Rightarrow> bytes option \<Rightarrow> 's zip_source \<Rightarrow> u32 \<Rightarrow> int \<times> 's zip_archive" where
  "zip_file_replace_internal mem za idx name source flags =
     (if ZIP_IS_RDONLY za then za_fail za ZIP_ER_RDONLY
      else
      let prev = length (za_entry za)
      in case replace_target mem za idx name flags of
           (i, za) \<Rightarrow>
             if i < 0 then (-1, za)
             else case (if name \<noteq> None then zip_set_name mem za (word_of_int i) name flags else (0, za)) of
                    (r, za) \<Rightarrow>
                      if r \<noteq> 0
                      then (-1, if length (za_entry za) \<noteq> prev then za\<lparr>za_entry := take prev (za_entry za)\<rparr> else za)
                      else set_entry_source mem za i source)"

definition zip_file_replace ::
  "malloc \<Rightarrow> 's zip_archive \<Rightarrow> u64 \<Rightarrow> 's zip_source option \<Rightarrow> u32 \<Rightarrow> int \<times> 's zip_archive" where
  "zip_file_replace mem za idx source flags =
     (case source of
        None \<Rightarrow> za_fail za ZIP_ER_INVAL
      | Some src \<Rightarrow>
          if \<not> za_has za idx then za_fail za ZIP_ER_INVAL
          else case zip_file_replace_internal mem za idx None src flags of
                 (r, za) \<Rightarrow> (if r = -1 then -1 else 0, za))"

definition zip_file_add ::
  "malloc \<Rightarrow> 's zip_archive \<Rightarrow> bytes option \<Rightarrow> 's zip_source option \<Rightarrow> u32 \<Rightarrow> int \<times> 's zip_archive" where
  "zip_file_add mem za name source flags =
     (case (name, source) of
        (Some n, Some src) \<Rightarrow> zip_file_replace_internal mem za ZIP_UINT64_MAX (Some n) src flags
      | _ \<Rightarrow> za_fail za ZIP_ER_INVAL)"

definition zip_add :: "malloc \<Rightarrow> 's zip_archive \<Rightarrow> bytes option \<Rightarrow> 's zip_source option \<Rightarrow> int \<times> 's zip_archive" where
  "zip_add mem za name source = zip_file_add mem za name source 0"

definition zip_replace :: "malloc \<Rightarrow> 's zip_archive \<Rightarrow> u64 \<Rightarrow> 's zip_source option \<Rightarrow> int \<times> 's zip_archive" where
  "zip_replace mem za idx source = zip_file_replace mem za idx source 0"

text \<open>Whether a name ends in a slash. Of an empty name the code reads the byte before the string,
  here taken not to be a slash.\<close>

definition is_dir_name :: "bytes \<Rightarrow> bool" where
  "is_dir_name n = (n \<noteq> [] \<and> last n = 0x2f)"

definition zip_file_rename ::
  "malloc \<Rightarrow> 's zip_archive \<Rightarrow> u64 \<Rightarrow> bytes option \<Rightarrow> u32 \<Rightarrow> int \<times> 's zip_archive" where
  "zip_file_rename mem za idx name flags =
     (if \<not> za_has za idx \<or> (case name of None \<Rightarrow> False | Some n \<Rightarrow> length n > ZIP_UINT16_MAX)
      then za_fail za ZIP_ER_INVAL
      else if ZIP_IS_RDONLY za then za_fail za ZIP_ER_RDONLY
      else case with_za_error (\<lambda>za. zip_get_name mem za idx 0) za of
        (None, za) \<Rightarrow> (-1, za)
      | (Some old_name, za) \<Rightarrow>
          if (case name of None \<Rightarrow> False | Some n \<Rightarrow> is_dir_name n) \<noteq> is_dir_name old_name
          then za_fail za ZIP_ER_INVAL
          else zip_set_name mem za idx name flags)"

definition zip_rename :: "malloc \<Rightarrow> 's zip_archive \<Rightarrow> u64 \<Rightarrow> bytes option \<Rightarrow> int \<times> 's zip_archive" where
  "zip_rename mem za idx name = zip_file_rename mem za idx name 0"

section \<open>Deleting and restoring\<close>

text \<open>Giving the name table back the original name of an entry in place of its changed one.\<close>

definition unchange_names ::
  "malloc \<Rightarrow> 's zip_archive \<Rightarrow> u64 \<Rightarrow> bytes option \<Rightarrow> bytes \<Rightarrow> bool \<times> 's zip_archive" where
  "unchange_names mem za idx orig_name changed_name =
     (case (if orig_name \<noteq> None then zip_hash_add mem (za_names za) orig_name idx 0 (za_error za)
            else (True, za_names za, za_error za)) of
        (False, names, err) \<Rightarrow> (False, za\<lparr>za_names := names, za_error := err\<rparr>)
      | (True, names, err) \<Rightarrow>
          (case zip_hash_delete mem names (Some changed_name) err of
             (False, names, err) \<Rightarrow>
               (False, za\<lparr>za_names := fst (snd (zip_hash_delete mem names orig_name zip_error_init)), za_error := err\<rparr>)
           | (True, names, err) \<Rightarrow> (True, za\<lparr>za_names := names, za_error := err\<rparr>)))"

definition zip_unchange_internal ::
  "malloc \<Rightarrow> 's zip_archive \<Rightarrow> u64 \<Rightarrow> bool \<Rightarrow> int \<times> 's zip_archive" where
  "zip_unchange_internal mem za idx allow_duplicates =
     (if \<not> za_has za idx then za_fail za ZIP_ER_INVAL
      else
      let forget = (\<lambda>za. (0, za_put_entry za idx (zip_unchange_data ((za_entry_at za idx)\<lparr>en_changes := None\<rparr>))));
          e = za_entry_at za idx
      in if \<not> allow_duplicates \<and> ZIP_ENTRY_CHANGED e ZIP_DIRENT_FILENAME
         then case (if en_orig e \<noteq> None
                    then case with_za_error (\<lambda>za. zip_get_name mem za idx ZIP_FL_UNCHANGED) za of
                           (None, za) \<Rightarrow> (None, za)
                         | (Some orig_name, za) \<Rightarrow>
                             let i = fst (zip_name_locate mem za (Some orig_name) 0 None)
                             in if i \<ge> 0 \<and> word_of_int i \<noteq> idx then (None, snd (za_fail za ZIP_ER_EXISTS))
                                else (Some (Some orig_name), za)
                    else (Some None, za)) of
                (None, za) \<Rightarrow> (-1, za)
              | (Some orig_name, za) \<Rightarrow>
                  (case with_za_error (\<lambda>za. zip_get_name mem za idx 0) za of
                     (None, za) \<Rightarrow> (-1, za)
                   | (Some changed_name, za) \<Rightarrow>
                       (case unchange_names mem za idx orig_name changed_name of
                          (False, za) \<Rightarrow> (-1, za)
                        | (True, za) \<Rightarrow> forget za))
         else forget za)"

definition zip_unchange :: "malloc \<Rightarrow> 's zip_archive \<Rightarrow> u64 \<Rightarrow> int \<times> 's zip_archive" where
  "zip_unchange mem za idx = zip_unchange_internal mem za idx False"

definition zip_delete :: "malloc \<Rightarrow> 's zip_archive \<Rightarrow> u64 \<Rightarrow> int \<times> 's zip_archive" where
  "zip_delete mem za idx =
     (if \<not> za_has za idx then za_fail za ZIP_ER_INVAL
      else if ZIP_IS_RDONLY za then za_fail za ZIP_ER_RDONLY
      else case with_za_error (\<lambda>za. zip_get_name mem za idx 0) za of
        (None, za) \<Rightarrow> (-1, za)
      | (Some name, za) \<Rightarrow>
          (case zip_hash_delete mem (za_names za) (Some name) (za_error za) of
             (False, names, err) \<Rightarrow> (-1, za\<lparr>za_names := names, za_error := err\<rparr>)
           | (True, names, err) \<Rightarrow>
               (case zip_unchange_internal mem (za\<lparr>za_names := names, za_error := err\<rparr>) idx True of
                  (r, za) \<Rightarrow>
                    if r \<noteq> 0 then (-1, za)
                    else (0, za_put_entry za idx ((za_entry_at za idx)\<lparr>en_deleted := True\<rparr>)))))"

definition zip_unchange_archive :: "'s zip_archive \<Rightarrow> int \<times> 's zip_archive" where
  "zip_unchange_archive za =
     (let za = (if za_comment_changed za then za\<lparr>za_comment_changes := None, za_comment_changed := False\<rparr> else za)
      in (0, za\<lparr>za_ch_flags := za_flags za\<rparr>))"

text \<open>The results are combined with a bitwise or.\<close>

definition unchange_step :: "malloc \<Rightarrow> int \<times> 's zip_archive \<Rightarrow> nat \<Rightarrow> int \<times> 's zip_archive" where
  "unchange_step mem st i = (case zip_unchange_internal mem (snd st) (of_nat i) True of (r, za) \<Rightarrow> (fst st OR r, za))"

definition zip_unchange_all :: "malloc \<Rightarrow> 's zip_archive \<Rightarrow> int \<times> 's zip_archive" where
  "zip_unchange_all mem za =
     (case zip_hash_revert mem (za_names za) (za_error za) of
        (False, names, err) \<Rightarrow> (-1, za\<lparr>za_names := names, za_error := err\<rparr>)
      | (True, names, err) \<Rightarrow>
          (case foldl (unchange_step mem) (0, za\<lparr>za_names := names, za_error := err\<rparr>) [0..<length (za_entry za)] of
             (ret, za) \<Rightarrow> (case zip_unchange_archive za of (r, za) \<Rightarrow> (ret OR r, za))))"

end
