(* ===== verification/Zip_Open.thy ===== *)
theory Zip_Open
  imports Zip_Archive
begin

text \<open>
  Opening an archive: \<open>zip_open.c\<close>, the directory structure of \<open>zip_dirent.c\<close>
  (\<open>_zip_cdir_new\<close>, \<open>_zip_cdir_grow\<close>) and \<open>zip_discard.c\<close>.

  The end-of-central-directory record is searched for in the last bytes of the file. Each place with
  its magic number is tried as one; the directory it names is read, and when several can be read the
  more consistent one wins. A function that works on the archive only for its source and flags takes
  these. A buffer cursor a function leaves behind is returned only when somebody reads on from it.
\<close>

section \<open>Constants\<close>

abbreviation ZIP_CREATE :: u32 where "ZIP_CREATE \<equiv> 1"
abbreviation ZIP_EXCL :: u32 where "ZIP_EXCL \<equiv> 2"
abbreviation ZIP_CHECKCONS :: u32 where "ZIP_CHECKCONS \<equiv> 4"
abbreviation ZIP_TRUNCATE :: u32 where "ZIP_TRUNCATE \<equiv> 8"
abbreviation ZIP_RDONLY :: u32 where "ZIP_RDONLY \<equiv> 16"

abbreviation EOCD_MAGIC :: bytes where "EOCD_MAGIC \<equiv> [0x50, 0x4b, 5, 6]"
abbreviation EOCD64LOC_MAGIC :: bytes where "EOCD64LOC_MAGIC \<equiv> [0x50, 0x4b, 6, 7]"
abbreviation EOCD64_MAGIC :: bytes where "EOCD64_MAGIC \<equiv> [0x50, 0x4b, 6, 6]"
abbreviation EOCDLEN :: u64 where "EOCDLEN \<equiv> 22"
abbreviation EOCD64LOCLEN :: u64 where "EOCD64LOCLEN \<equiv> 20"
abbreviation EOCD64LEN :: u64 where "EOCD64LEN \<equiv> 56"
abbreviation CDBUFSIZE :: u64 where "CDBUFSIZE \<equiv> 65578"
abbreviation CDIR_MAX_ENTRIES :: u64 where "CDIR_MAX_ENTRIES \<equiv> 0x7ffffffffffffff"

text \<open>A status structure before \<open>zip_stat_init\<close>; the flags field is never initialised.\<close>

definition stat_new :: zip_stat where
  "stat_new = zip_stat_init \<lparr>st_valid = 0, st_name = None, st_index = 0, st_size = 0, st_comp_size = 0, st_mtime = 0,
     st_crc = 0, st_comp_method = 0, st_encryption_method = 0, st_flags = 0\<rparr>"

section \<open>The central directory\<close>

record 's zip_cdir =
  cd_entry :: "'s zip_entry list"
  cd_nentry_alloc :: u64
  cd_size :: u64
  cd_offset :: u64
  cd_comment :: "zip_string option"
  cd_is_zip64 :: bool

text \<open>The number of entries is the length of the entry list. The bound is \<open>SIZE_MAX\<close> divided by
  the 32 bytes of an entry.\<close>

definition zip_cdir_grow :: "malloc \<Rightarrow> 's zip_cdir \<Rightarrow> u64 \<Rightarrow> zip_error \<Rightarrow> bool \<times> 's zip_cdir \<times> zip_error" where
  "zip_cdir_grow mem cd additional_entries err =
     (if additional_entries = 0 then (True, cd, err)
      else let new_alloc = cd_nentry_alloc cd + additional_entries
           in if new_alloc < additional_entries \<or> new_alloc > CDIR_MAX_ENTRIES \<or> \<not> mem A_cdir_entry
              then (False, cd, zip_error_set err ZIP_ER_MEMORY 0)
              else (True, cd\<lparr>cd_entry := cd_entry cd @ replicate (unat new_alloc - length (cd_entry cd)) zip_entry_init,
                             cd_nentry_alloc := new_alloc\<rparr>, err))"

lemma cdir_grow_length:
  assumes "zip_cdir_grow mem cd n err = (True, cd', err')" "length (cd_entry cd) \<le> i" "i < length (cd_entry cd')"
  shows "length (cd_entry cd') < 2 ^ 59"
proof -
  let ?n = "cd_nentry_alloc cd + n"
  have "?n \<le> CDIR_MAX_ENTRIES \<and> length (cd_entry cd') = length (cd_entry cd) + (unat ?n - length (cd_entry cd))"
    using assms by (auto simp: zip_cdir_grow_def Let_def not_less split: if_splits)
  then show ?thesis using assms by (auto simp: word_le_nat_alt)
qed

definition zip_cdir_new :: "malloc \<Rightarrow> u64 \<Rightarrow> zip_error \<Rightarrow> 's zip_cdir option \<times> zip_error" where
  "zip_cdir_new mem nentry err =
     (if \<not> mem A_cdir then (None, zip_error_set err ZIP_ER_MEMORY 0)
      else case zip_cdir_grow mem \<lparr>cd_entry = [], cd_nentry_alloc = 0, cd_size = 0, cd_offset = 0, cd_comment = None,
                  cd_is_zip64 = False\<rparr> nentry err of
             (ok, cd, err) \<Rightarrow> (if ok then Some cd else None, err))"

section \<open>End of central directory records\<close>

text \<open>The magic number at the cursor has been checked.\<close>

definition zip_read_eocd ::
  "malloc \<Rightarrow> zip_buffer \<Rightarrow> u64 \<Rightarrow> u32 \<Rightarrow> zip_error \<Rightarrow> 's zip_cdir option \<times> zip_error" where
  "zip_read_eocd mem b base flags err =
     (let fail = (\<lambda>ze se. (None, zip_error_set err ze se))
      in if zip_buffer_left b < EOCDLEN then fail ZIP_ER_INCONS 0
         else
         let eocd_offset = zip_buffer_offset b;
             (_, b) = zip_buffer_get b 4;
             (disks, b) = zip_buffer_get_32 b
         in if disks \<noteq> 0 then fail ZIP_ER_MULTIDISK 0
            else
            let (i, b) = zip_buffer_get_16 b;
                (nentry, b) = zip_buffer_get_16 b
            in if nentry \<noteq> i then fail ZIP_ER_NOZIP 0
               else
               let (size, b) = zip_buffer_get_32 b;
                   (offset, b) = zip_buffer_get_32 b;
                   size = ucast size :: u64;
                   offset = ucast offset :: u64
               in if offset + size < offset then fail ZIP_ER_SEEK EFBIG
                  else if offset + size > base + eocd_offset then fail ZIP_ER_INCONS 0
                  else if flags AND ZIP_CHECKCONS \<noteq> 0 \<and> offset + size \<noteq> base + eocd_offset
                  then fail ZIP_ER_INCONS 0
                  else case zip_cdir_new mem (ucast nentry) err of
                    (None, err) \<Rightarrow> (None, err)
                  | (Some cd, err) \<Rightarrow> (Some (cd\<lparr>cd_is_zip64 := False, cd_size := size, cd_offset := offset\<rparr>), err))"

text \<open>The zip64 record, once the buffer \<open>b\<close> holding it is there.\<close>

definition read_eocd64_record ::
  "malloc \<Rightarrow> zip_buffer \<Rightarrow> u64 \<Rightarrow> u64 \<Rightarrow> u64 \<Rightarrow> u32 \<Rightarrow> u32 \<Rightarrow> u32 \<Rightarrow> zip_error \<Rightarrow> 's zip_cdir option \<times> zip_error" where
  "read_eocd64_record mem b base eocdloc_offset eocd_offset num_disks eocd_disk flags err =
     (let fail = (\<lambda>ze se. (None, zip_error_set err ze se));
          (p, b) = zip_buffer_get b 4
      in if (case p of None \<Rightarrow> True | Some p \<Rightarrow> buf_bytes b p 4 \<noteq> EOCD64_MAGIC) then fail ZIP_ER_INCONS 0
         else
         let (size, b) = zip_buffer_get_64 b
         in if flags AND ZIP_CHECKCONS \<noteq> 0 \<and> size + eocd_offset + 12 \<noteq> base + eocdloc_offset
            then fail ZIP_ER_INCONS 0
            else
            let (_, b) = zip_buffer_get b 4;
                (num_disks64, b) = zip_buffer_get_32 b;
                (eocd_disk64, b) = zip_buffer_get_32 b;
                num_disks = (if num_disks = 0xffff then num_disks64 else num_disks);
                eocd_disk = (if eocd_disk = 0xffff then eocd_disk64 else eocd_disk)
            in if flags AND ZIP_CHECKCONS \<noteq> 0 \<and> (eocd_disk \<noteq> eocd_disk64 \<or> num_disks \<noteq> num_disks64)
               then fail ZIP_ER_INCONS 0
               else if num_disks \<noteq> 0 \<or> eocd_disk \<noteq> 0 then fail ZIP_ER_MULTIDISK 0
               else
               let (nentry, b) = zip_buffer_get_64 b;
                   (i, b) = zip_buffer_get_64 b
               in if nentry \<noteq> i then fail ZIP_ER_MULTIDISK 0
                  else
                  let (size, b) = zip_buffer_get_64 b;
                      (offset, b) = zip_buffer_get_64 b
                  in if \<not> zip_buffer_ok b then fail ZIP_ER_INTERNAL 0
                     else if offset > ZIP_INT64_MAX \<or> offset + size < offset then fail ZIP_ER_SEEK EFBIG
                     else if offset + size > base + eocd_offset then fail ZIP_ER_INCONS 0
                     else if flags AND ZIP_CHECKCONS \<noteq> 0 \<and> offset + size \<noteq> base + eocd_offset
                     then fail ZIP_ER_INCONS 0
                     else case zip_cdir_new mem nentry err of
                       (None, err) \<Rightarrow> (None, err)
                     | (Some cd, err) \<Rightarrow> (Some (cd\<lparr>cd_is_zip64 := True, cd_size := size, cd_offset := offset\<rparr>), err))"

definition zip_read_eocd64 ::
  "malloc \<Rightarrow> 's zip_source \<Rightarrow> zip_buffer \<Rightarrow> u64 \<Rightarrow> u32 \<Rightarrow> zip_error \<Rightarrow>
   's zip_cdir option \<times> 's zip_source \<times> zip_error" where
  "zip_read_eocd64 mem src b base flags err =
     (let eocdloc_offset = zip_buffer_offset b;
          (_, b) = zip_buffer_get b 4;
          (num_disks, b) = zip_buffer_get_16 b;
          (eocd_disk, b) = zip_buffer_get_16 b;
          (eocd_offset, b) = zip_buffer_get_64 b;
          record = (\<lambda>b. read_eocd64_record mem b base eocdloc_offset eocd_offset (ucast num_disks) (ucast eocd_disk) flags)
      in if eocd_offset > ZIP_INT64_MAX \<or> eocd_offset + EOCD64LEN < eocd_offset
         then (None, src, zip_error_set err ZIP_ER_SEEK EFBIG)
         else if eocd_offset + EOCD64LEN > eocdloc_offset + base
         then (None, src, zip_error_set err ZIP_ER_INCONS 0)
         else if eocd_offset \<ge> base \<and> eocd_offset + EOCD64LEN \<le> base + zip_buffer_size b
         then case record (snd (zip_buffer_set_offset b (eocd_offset - base))) err of (cd, err) \<Rightarrow> (cd, src, err)
         else case zip_source_seek src (uint eocd_offset) SEEK_SET of
                (r, src) \<Rightarrow>
                  if r < 0 then (None, src, zip_error_set_from_source err src)
                  else case zip_buffer_new_from_source mem src EOCD64LEN (Some []) err of
                         (None, src, err) \<Rightarrow> (None, src, err)
                       | (Some b, src, err) \<Rightarrow> (case record b err of (cd, err) \<Rightarrow> (cd, src, err)))"

section \<open>Reading the directory\<close>

text \<open>One entry, into slot \<open>i\<close>. Running out of memory for it sets no error. \<open>extra\<close> says that
  the slot is there because more entries followed than announced.\<close>

definition read_cdir_entry ::
  "malloc \<Rightarrow> external \<Rightarrow> 's zip_source \<Rightarrow> zip_buffer option \<Rightarrow> bool \<Rightarrow> zip_error \<Rightarrow>
   (zip_dirent \<times> int) option \<times> zip_buffer option \<times> 's zip_source \<times> zip_error" where
  "read_cdir_entry mem ext src cd_buffer extra err =
     (case (if mem A_dirent then zip_dirent_read mem ext src cd_buffer False err else (None, cd_buffer, src, err)) of
        (None, b, src, err) \<Rightarrow>
          (None, b, src, if extra \<and> zip_error_code_zip err = ZIP_ER_NOZIP then zip_error_set err ZIP_ER_INCONS 0 else err)
      | r \<Rightarrow> r)"

text \<open>The loop over \<open>left\<close> bytes: the directory with the first \<open>i\<close> entries read, or \<open>None\<close>. Some
  archives store the number of entries modulo 0x10000; the directory then grows by that many. That
  slot \<open>i\<close> is there always holds; the test makes it evident that the loop ends.\<close>

function read_cdir_loop ::
  "malloc \<Rightarrow> external \<Rightarrow> zip_buffer option \<Rightarrow> 's zip_cdir \<Rightarrow> nat \<Rightarrow> u64 \<Rightarrow> 's zip_source \<Rightarrow> zip_error \<Rightarrow>
   ('s zip_cdir \<times> nat \<times> u64) option \<times> zip_buffer option \<times> 's zip_source \<times> zip_error" where
  "read_cdir_loop mem ext b cd i left src err =
     (if left = 0 then (Some (cd, i, left), b, src, err)
      else
      let extra = (i \<ge> length (cd_entry cd))
      in if extra \<and> (cd_is_zip64 cd \<or> left < CDENTRYSIZE) then (Some (cd, i, left), b, src, err)
         else case (if extra then zip_cdir_grow mem cd 0x10000 err else (True, cd, err)) of
           (False, cd, err) \<Rightarrow> (None, b, src, err)
         | (True, cd', err) \<Rightarrow>
             if i \<ge> length (cd_entry cd') then (None, b, src, err)
             else case read_cdir_entry mem ext src b extra err of
               (None, b, src, err) \<Rightarrow> (None, b, src, err)
             | (Some (de, n), b, src, err) \<Rightarrow>
                 read_cdir_loop mem ext b
                   (cd'\<lparr>cd_entry := (cd_entry cd')[i := (cd_entry cd' ! i)\<lparr>en_orig := Some de\<rparr>]\<rparr>)
                   (i + 1) (left - word_of_int n) src err)"
  by pat_completeness auto
termination
proof (relation "measures [\<lambda>(mem, ext, b, cd, i, left, src, err). 2 ^ 59 - length (cd_entry cd),
     \<lambda>(mem, ext, b, cd, i, left, src, err). length (cd_entry cd) - i]", goal_cases)
  case 1
  then show ?case by simp
next
  case (2 mem ext b cd i left src err)
  show ?case
  proof (cases "length (cd_entry cd) \<le> i")
    case True
    then show ?thesis using 2 by (auto split: if_splits dest!: cdir_grow_length [OF sym])
  next
    case False
    then show ?thesis using 2 by auto
  qed
qed

declare read_cdir_loop.simps [simp del]

text \<open>The archive comment, when there is one or it has to be checked; \<open>None\<close> is failure.\<close>

definition read_cdir_comment ::
  "malloc \<Rightarrow> zip_buffer \<Rightarrow> u64 \<Rightarrow> u32 \<Rightarrow> zip_error \<Rightarrow> zip_string option option \<times> zip_error" where
  "read_cdir_comment mem b eocd_offset open_flags err =
     (let (comment_len, b) = zip_buffer_get_16 (snd (zip_buffer_set_offset b (eocd_offset + 20)));
          checkcons = (open_flags AND ZIP_CHECKCONS \<noteq> 0)
      in if comment_len \<noteq> 0 \<or> checkcons
         then let b = snd (zip_buffer_set_offset b (eocd_offset + EOCDLEN));
                  tail_len = zip_buffer_left b
              in if tail_len < ucast comment_len \<or> checkcons \<and> tail_len \<noteq> ucast comment_len
                 then (None, zip_error_set err ZIP_ER_INCONS 0)
                 else if comment_len \<noteq> 0
                 then case zip_buffer_get b (ucast comment_len) of
                        (p, b) \<Rightarrow>
                          (case zip_string_new mem (case p of None \<Rightarrow> [] | Some p \<Rightarrow> buf_bytes b p (unat comment_len))
                                  comment_len ZIP_FL_ENC_GUESS err of
                             (None, err) \<Rightarrow> (None, err)
                           | (Some s, err) \<Rightarrow> (Some (Some s), err))
                 else (Some None, err)
         else (Some None, err))"

text \<open>Where the directory is read from: a buffer over the bytes already there (\<open>Some (Some b)\<close>), or the
  source (\<open>Some None\<close>).\<close>

definition read_cdir_start ::
  "malloc \<Rightarrow> 's zip_source \<Rightarrow> zip_buffer \<Rightarrow> u64 \<Rightarrow> 's zip_cdir \<Rightarrow> zip_error \<Rightarrow>
   zip_buffer option option \<times> 's zip_source \<times> zip_error" where
  "read_cdir_start mem src b base cd err =
     (if cd_offset cd \<ge> base
      then case zip_buffer_get (snd (zip_buffer_set_offset b (cd_offset cd - base))) (cd_size cd) of
             (None, b) \<Rightarrow> (None, src, zip_error_set err ZIP_ER_INCONS 0)
           | (Some p, b) \<Rightarrow>
               (case zip_buffer_new mem (Some (buf_bytes b p (unat (cd_size cd)))) (cd_size cd) of
                  None \<Rightarrow> (None, src, zip_error_set err ZIP_ER_MEMORY 0)
                | Some cd_buffer \<Rightarrow> (Some (Some cd_buffer), src, err))
      else case zip_source_seek src (sint (cd_offset cd)) SEEK_SET of
             (r, src) \<Rightarrow>
               if r < 0 then (None, src, zip_error_set_from_source err src)
               else case zip_source_tell src of
                      (t, src) \<Rightarrow>
                        if t \<noteq> sint (cd_offset cd) then (None, src, zip_error_set err ZIP_ER_NOZIP 0)
                        else (Some None, src, err))"

text \<open>With consistency checks, the directory must end where its size says.\<close>

definition read_cdir_check ::
  "u32 \<Rightarrow> 's zip_cdir \<Rightarrow> zip_buffer option \<Rightarrow> 's zip_source \<Rightarrow> zip_error \<Rightarrow> bool \<times> 's zip_source \<times> zip_error" where
  "read_cdir_check open_flags cd b src err =
     (if open_flags AND ZIP_CHECKCONS = 0 then (True, src, err)
      else case b of
             Some b \<Rightarrow> if zip_buffer_eof b then (True, src, err) else (False, src, zip_error_set err ZIP_ER_INCONS 0)
           | None \<Rightarrow>
               (case zip_source_tell src of
                  (t, src) \<Rightarrow>
                    if t < 0 then (False, src, zip_error_set_from_source err src)
                    else if word_of_int t = cd_offset cd + cd_size cd then (True, src, err)
                    else (False, src, zip_error_set err ZIP_ER_INCONS 0)))"

definition zip_read_cdir ::
  "malloc \<Rightarrow> external \<Rightarrow> 's zip_source \<Rightarrow> u32 \<Rightarrow> u32 \<Rightarrow> zip_buffer \<Rightarrow> u64 \<Rightarrow> zip_error \<Rightarrow>
   's zip_cdir option \<times> 's zip_source \<times> zip_error" where
  "zip_read_cdir mem ext src flags open_flags b base err =
     (let eocd_offset = zip_buffer_offset b
      in if zip_buffer_left b < EOCDLEN then (None, src, zip_error_set err ZIP_ER_NOZIP 0)
         else
         let (p, b) = zip_buffer_get b 4
         in if (case p of None \<Rightarrow> True | Some p \<Rightarrow> buf_bytes b p 4 \<noteq> EOCD_MAGIC)
            then (None, src, zip_error_set err ZIP_ER_NOZIP 0)
            else case (if eocd_offset \<ge> EOCD64LOCLEN \<and>
                          buf_bytes b (unat (eocd_offset - EOCD64LOCLEN)) 4 = EOCD64LOC_MAGIC
                       then zip_read_eocd64 mem src (snd (zip_buffer_set_offset b (eocd_offset - EOCD64LOCLEN))) base flags err
                       else case zip_read_eocd mem (snd (zip_buffer_set_offset b eocd_offset)) base flags err of
                              (cd, err) \<Rightarrow> (cd, src, err)) of
              (None, src, err) \<Rightarrow> (None, src, err)
            | (Some cd, src, err) \<Rightarrow>
                if cd_offset cd + cd_size cd > base + eocd_offset
                then (None, src, zip_error_set err ZIP_ER_INCONS 0)
                else case read_cdir_comment mem b eocd_offset open_flags err of
                  (None, err) \<Rightarrow> (None, src, err)
                | (Some comment, err) \<Rightarrow>
                    let cd = cd\<lparr>cd_comment := comment\<rparr>
                    in case read_cdir_start mem src b base cd err of
                         (None, src, err) \<Rightarrow> (None, src, err)
                       | (Some cd_buffer, src, err) \<Rightarrow>
                           (case read_cdir_loop mem ext cd_buffer cd 0 (cd_size cd) src err of
                              (None, _, src, err) \<Rightarrow> (None, src, err)
                            | (Some (cd, i, left), cd_buffer, src, err) \<Rightarrow>
                                if i \<noteq> length (cd_entry cd) \<or> left > 0
                                then (None, src, zip_error_set err ZIP_ER_INCONS 0)
                                else case read_cdir_check open_flags cd cd_buffer src err of
                                  (ok, src, err) \<Rightarrow> (if ok then Some cd else None, src, err)))"

section \<open>Consistency\<close>

definition zip_headercomp :: "zip_dirent \<Rightarrow> zip_dirent \<Rightarrow> int" where
  "zip_headercomp central local =
     (if de_version_needed central < de_version_needed local \<or> de_comp_method central \<noteq> de_comp_method local \<or>
         de_last_mod central \<noteq> de_last_mod local \<or> \<not> zip_string_equal (de_filename central) (de_filename local)
      then -1
      else if (de_crc central \<noteq> de_crc local \<or> de_comp_size central \<noteq> de_comp_size local \<or>
               de_uncomp_size central \<noteq> de_uncomp_size local) \<and>
              (de_bitflags local AND ZIP_GPBF_DATA_DESCRIPTOR = 0 \<or> de_crc local \<noteq> 0 \<or> de_comp_size local \<noteq> 0 \<or>
               de_uncomp_size local \<noteq> 0)
      then -1 else 0)"

definition checkcons_end :: "zip_dirent \<Rightarrow> u64" where
  "checkcons_end d = de_offset d + de_comp_size d + ucast (zip_string_length (de_filename d)) + LENTRYSIZE"

definition dirent_merge_local :: "zip_dirent \<Rightarrow> zip_dirent \<Rightarrow> zip_dirent" where
  "dirent_merge_local central local =
     central\<lparr>de_extra_fields := zip_ef_merge (de_extra_fields central) (de_extra_fields local),
             de_local_extra_fields_read := True\<rparr>"

text \<open>The entries of the list of indices; the result is the lowest and highest position, or \<open>None\<close>.\<close>

fun checkcons_loop ::
  "malloc \<Rightarrow> external \<Rightarrow> nat list \<Rightarrow> u64 \<Rightarrow> u64 \<Rightarrow> 's zip_cdir \<Rightarrow> 's zip_source \<Rightarrow> zip_error \<Rightarrow>
   (u64 \<times> u64) option \<times> 's zip_cdir \<times> 's zip_source \<times> zip_error" where
  "checkcons_loop mem ext [] low high cd src err = (Some (low, high), cd, src, err)"
| "checkcons_loop mem ext (i # is) low high cd src err =
     (let e = cd_entry cd ! i;
          d = the (en_orig e);
          low = (if de_offset d < low then de_offset d else low)
      in if low > cd_offset cd then (None, cd, src, zip_error_set err ZIP_ER_NOZIP 0)
         else
         let high = (if checkcons_end d > high then checkcons_end d else high)
         in if high > cd_offset cd then (None, cd, src, zip_error_set err ZIP_ER_NOZIP 0)
            else case zip_source_seek src (sint (de_offset d)) SEEK_SET of
              (r, src) \<Rightarrow>
                if r < 0 then (None, cd, src, zip_error_set_from_source err src)
                else case zip_dirent_read mem ext src None True err of
                  (None, _, src, err) \<Rightarrow> (None, cd, src, err)
                | (Some (temp, _), _, src, err) \<Rightarrow>
                    if zip_headercomp d temp \<noteq> 0 then (None, cd, src, zip_error_set err ZIP_ER_INCONS 0)
                    else checkcons_loop mem ext is low high
                           (cd\<lparr>cd_entry := (cd_entry cd)[i := e\<lparr>en_orig := Some (dirent_merge_local d temp)\<rparr>]\<rparr>) src err)"

definition zip_checkcons ::
  "malloc \<Rightarrow> external \<Rightarrow> 's zip_source \<Rightarrow> 's zip_cdir \<Rightarrow> zip_error \<Rightarrow> int \<times> 's zip_cdir \<times> 's zip_source \<times> zip_error" where
  "zip_checkcons mem ext src cd err =
     (let start = (if cd_entry cd = [] then 0 else de_offset (the (en_orig (cd_entry cd ! 0))))
      in case checkcons_loop mem ext [0..<length (cd_entry cd)] start start cd src err of
           (None, cd, src, err) \<Rightarrow> (-1, cd, src, err)
         | (Some (low, high), cd, src, err) \<Rightarrow>
             (if high - low < ZIP_INT64_MAX then uint (high - low) else uint ZIP_INT64_MAX, cd, src, err))"

section \<open>Finding the end of the central directory\<close>

fun memmem_from :: "bytes \<Rightarrow> bytes \<Rightarrow> nat \<Rightarrow> nat option" where
  "memmem_from [] little p = None"
| "memmem_from (c # big) little p =
     (if length (c # big) < length little then None
      else if c = little ! 0 \<and> take (length little - 1) big = drop 1 little then Some p
      else memmem_from big little (p + 1))"

definition zip_memmem :: "bytes \<Rightarrow> bytes \<Rightarrow> nat option" where
  "zip_memmem big little = (if length big < length little \<or> little = [] then None else memmem_from big little 0)"

text \<open>A directory read at a new place, against the best one so far.\<close>

definition cdir_better ::
  "malloc \<Rightarrow> external \<Rightarrow> u32 \<Rightarrow> 's zip_cdir option \<Rightarrow> int \<Rightarrow> 's zip_cdir \<Rightarrow> 's zip_source \<Rightarrow> zip_error \<Rightarrow>
   's zip_cdir option \<times> int \<times> 's zip_source \<times> zip_error" where
  "cdir_better mem ext open_flags cdir best cdirnew src err =
     (case cdir of
        Some cdir \<Rightarrow>
          (case (if best \<le> 0 then zip_checkcons mem ext src cdir err else (best, cdir, src, err)) of
             (best, cdir, src, err) \<Rightarrow>
               (case zip_checkcons mem ext src cdirnew err of
                  (a, cdirnew, src, err) \<Rightarrow>
                    if best < a then (Some cdirnew, a, src, err) else (Some cdir, best, src, err)))
      | None \<Rightarrow>
          if open_flags AND ZIP_CHECKCONS \<noteq> 0
          then case zip_checkcons mem ext src cdirnew err of (a, cdirnew, src, err) \<Rightarrow> (Some cdirnew, a, src, err)
          else (Some cdirnew, 0, src, err))"

lemma memmem_from_bound: "memmem_from big little p = Some k \<Longrightarrow> p \<le> k \<and> k < p + length big"
  by (induction big little p rule: memmem_from.induct) (auto split: if_splits)

lemma zip_memmem_bound: "zip_memmem big little = Some k \<Longrightarrow> k < length big"
  by (auto simp: zip_memmem_def dest!: memmem_from_bound split: if_splits)

lemma set_offset_data [simp]: "buf_data (snd (zip_buffer_set_offset b n)) = buf_data b"
  by (simp add: zip_buffer_set_offset_def)

text \<open>From position \<open>m\<close> of the buffer on. At the cursor at least 21 bytes are left, so that the
  subtraction does not go below zero.\<close>

function find_cdir_loop ::
  "malloc \<Rightarrow> external \<Rightarrow> u32 \<Rightarrow> u32 \<Rightarrow> u64 \<Rightarrow> zip_buffer \<Rightarrow> nat \<Rightarrow> 's zip_cdir option \<Rightarrow> int \<Rightarrow> 's zip_source \<Rightarrow> zip_error \<Rightarrow>
   's zip_cdir option \<times> int \<times> 's zip_source \<times> zip_error" where
  "find_cdir_loop mem ext flags open_flags base b m cdir best src err =
     (case zip_memmem (take (unat (zip_buffer_left b - (EOCDLEN - 4))) (drop m (buf_data b))) EOCD_MAGIC of
        None \<Rightarrow> (cdir, best, src, err)
      | Some k \<Rightarrow>
          let m = m + k;
              b = snd (zip_buffer_set_offset b (of_nat m));
              (cdir, best, src, err) =
                (case zip_read_cdir mem ext src flags open_flags b base err of
                   (None, src, err) \<Rightarrow> (cdir, best, src, err)
                 | (Some cdirnew, src, err) \<Rightarrow> cdir_better mem ext open_flags cdir best cdirnew src err)
          in find_cdir_loop mem ext flags open_flags base (snd (zip_buffer_set_offset b (of_nat (m + 1)))) (m + 1) cdir best src err)"
  by pat_completeness auto
termination
proof (relation "measure (\<lambda>(mem, ext, flags, open_flags, base, b, m, cdir, best, src, err). length (buf_data b) - m)", goal_cases)
  case 1
  then show ?case by simp
next
  case 2
  then show ?case using zip_memmem_bound by fastforce
qed

declare find_cdir_loop.simps [simp del]

text \<open>The local error starts with its other fields unset; \<open>best\<close> is -1 when nothing was found.\<close>

definition zip_find_central_dir ::
  "malloc \<Rightarrow> external \<Rightarrow> 's zip_source \<Rightarrow> u32 \<Rightarrow> u32 \<Rightarrow> u64 \<Rightarrow> zip_error \<Rightarrow>
   's zip_cdir option \<times> 's zip_source \<times> zip_error" where
  "zip_find_central_dir mem ext src flags open_flags len za_err =
     (if len < EOCDLEN then (None, src, zip_error_set za_err ZIP_ER_NOZIP 0)
      else
      let buflen = (if len < CDBUFSIZE then len else CDBUFSIZE)
      in case zip_source_seek src (- uint buflen) SEEK_END of
        (r, src) \<Rightarrow>
          if r < 0 \<and> (zip_error_code_zip (zip_source_error src) \<noteq> ZIP_ER_SEEK \<or>
                      zip_error_code_system (zip_source_error src) \<noteq> EFBIG)
          then (None, src, zip_error_copy za_err (zip_source_error src))
          else case zip_source_tell src of
            (base, src) \<Rightarrow>
              if base < 0 then (None, src, zip_error_set_from_source za_err src)
              else case zip_buffer_new_from_source mem src buflen None za_err of
                (None, src, za_err) \<Rightarrow> (None, src, za_err)
              | (Some b, src, za_err) \<Rightarrow>
                  let start = (if buflen \<ge> CDBUFSIZE then EOCD64LOCLEN else 0)
                  in case find_cdir_loop mem ext flags open_flags (word_of_int base)
                            (snd (zip_buffer_set_offset b start)) (unat start) None (-1) src
                            (zip_error_set zip_error_init ZIP_ER_NOZIP 0) of
                       (cdir, best, src, err) \<Rightarrow>
                         if best < 0 then (None, src, zip_error_copy za_err err) else (cdir, src, za_err))"

section \<open>Archives\<close>

definition zip_allocate_new ::
  "malloc \<Rightarrow> 's zip_source \<Rightarrow> u32 \<Rightarrow> zip_error \<Rightarrow> 's zip_archive option \<times> zip_error" where
  "zip_allocate_new mem src flags err =
     (case zip_new mem err of
        (None, err) \<Rightarrow> (None, err)
      | (Some za, err) \<Rightarrow>
          let za = za\<lparr>za_src := Some src, za_open_flags := flags\<rparr>
          in (Some (if flags AND ZIP_RDONLY \<noteq> 0
                    then za\<lparr>za_flags := za_flags za OR ZIP_AFL_RDONLY, za_ch_flags := za_ch_flags za OR ZIP_AFL_RDONLY\<rparr>
                    else za), err))"

text \<open>What is left of a discarded archive is its source, if somebody else keeps it.\<close>

definition zip_discard :: "'s zip_archive \<Rightarrow> 's zip_source option" where
  "zip_discard za = (case za_src za of None \<Rightarrow> None | Some src \<Rightarrow> fst (zip_source_free (snd (zip_source_close src))))"

definition discard_keeping :: "'s zip_archive \<Rightarrow> 's zip_source \<Rightarrow> 's zip_source" where
  "discard_keeping za src =
     (case zip_discard (za\<lparr>za_src := Some (zip_source_keep src)\<rparr>) of None \<Rightarrow> src | Some src \<Rightarrow> src)"

text \<open>Entering the names of the entries. On failure the flag is false and the error is the caller's.\<close>

fun open_names ::
  "malloc \<Rightarrow> u32 \<Rightarrow> nat list \<Rightarrow> 's zip_archive \<Rightarrow> zip_error \<Rightarrow> bool \<times> 's zip_archive \<times> zip_error" where
  "open_names mem flags [] za err = (True, za, err)"
| "open_names mem flags (i # is) za err =
     (let e = za_entry za ! i; d = the (en_orig e)
      in case zip_string_get mem (de_filename d) 0 err of
           (None, _, err) \<Rightarrow> (False, za, err)
         | (Some (name, _), s, err) \<Rightarrow>
             (case zip_hash_add mem (za_names za) (Some name) (of_nat i) ZIP_FL_UNCHANGED (za_error za) of
                (ok, names, za_err) \<Rightarrow>
                  let za = za\<lparr>za_names := names, za_error := za_err,
                              za_entry := (za_entry za)[i := e\<lparr>en_orig := Some (d\<lparr>de_filename := s\<rparr>)\<rparr>]\<rparr>
                  in if \<not> ok \<and> (zip_err za_err \<noteq> ZIP_ER_EXISTS \<or> flags AND ZIP_CHECKCONS \<noteq> 0)
                     then (False, za, zip_error_copy err za_err)
                     else open_names mem flags is za err))"

text \<open>The source is part of the archive that is opened and otherwise given back.\<close>

definition zip_open_internal ::
  "malloc \<Rightarrow> external \<Rightarrow> 's zip_source \<Rightarrow> u32 \<Rightarrow> zip_error \<Rightarrow> 's zip_archive option \<times> 's zip_source \<times> zip_error" where
  "zip_open_internal mem ext src flags err =
     (case zip_source_stat src (Some stat_new) of
        (r, st, src) \<Rightarrow>
          if r < 0 then (None, src, zip_error_set_from_source err src)
          else if st_valid (the st) AND ZIP_STAT_SIZE = 0 then (None, src, zip_error_set err ZIP_ER_SEEK EOPNOTSUPP)
          else case zip_allocate_new mem src flags err of
            (None, err) \<Rightarrow> (None, src, err)
          | (Some za, err) \<Rightarrow>
              if st_size (the st) = 0 then (Some za, src, err)
              else case zip_find_central_dir mem ext src (za_flags za) (za_open_flags za) (st_size (the st)) (za_error za) of
                (None, src, za_err) \<Rightarrow> (None, discard_keeping za src, zip_error_copy err za_err)
              | (Some cdir, src, za_err) \<Rightarrow>
                  (case zip_hash_reserve_capacity mem (za_names za) (of_nat (length (cd_entry cdir))) za_err of
                     (_, names, za_err) \<Rightarrow>
                       (case open_names mem flags [0..<length (cd_entry cdir)]
                              (za\<lparr>za_src := Some src, za_entry := cd_entry cdir, za_nentry_alloc := cd_nentry_alloc cdir,
                                 za_comment_orig := cd_comment cdir, za_names := names, za_error := za_err\<rparr>) err of
                          (False, za, err) \<Rightarrow> (None, discard_keeping za src, err)
                        | (True, za, err) \<Rightarrow> (Some (za\<lparr>za_ch_flags := za_flags za\<rparr>), src, err))))"

datatype exists_t = EXISTS_ERROR | EXISTS_NOT | EXISTS_EMPTY | EXISTS_NONEMPTY

definition zip_file_exists :: "'s zip_source \<Rightarrow> zip_error \<Rightarrow> exists_t \<times> 's zip_source \<times> zip_error" where
  "zip_file_exists src err =
     (case zip_source_stat src (Some stat_new) of
        (r, st, src) \<Rightarrow>
          if r \<noteq> 0
          then let src_error = zip_source_error src
               in if zip_error_code_zip src_error = ZIP_ER_READ \<and> zip_error_code_system src_error = ENOENT
                  then (EXISTS_NOT, src, err)
                  else (EXISTS_ERROR, src, zip_error_copy err src_error)
          else (if st_valid (the st) AND ZIP_STAT_SIZE \<noteq> 0 \<and> st_size (the st) = 0 then EXISTS_EMPTY else EXISTS_NONEMPTY,
                src, err))"

definition zip_open_from_source ::
  "malloc \<Rightarrow> external \<Rightarrow> 's zip_source \<Rightarrow> int \<Rightarrow> zip_error \<Rightarrow> 's zip_archive option \<times> 's zip_source \<times> zip_error" where
  "zip_open_from_source mem ext src flags0 err =
     (if flags0 < 0 then (None, src, zip_error_set err ZIP_ER_INVAL 0)
      else
      let supported = zip_source_supports src;
          needed_read = zip_source_make_command_bitmap
            [ZIP_SOURCE_OPEN, ZIP_SOURCE_READ 0, ZIP_SOURCE_CLOSE, ZIP_SOURCE_SEEK 0 SEEK_SET, ZIP_SOURCE_TELL,
             ZIP_SOURCE_STAT stat_new];
          needed_write = zip_source_make_command_bitmap
            [ZIP_SOURCE_BEGIN_WRITE, ZIP_SOURCE_COMMIT_WRITE, ZIP_SOURCE_ROLLBACK_WRITE,
             ZIP_SOURCE_SEEK_WRITE 0 SEEK_SET, ZIP_SOURCE_TELL_WRITE, ZIP_SOURCE_REMOVE];
          flags = word_of_int flags0 :: u32
      in if supported AND needed_read \<noteq> needed_read then (None, src, zip_error_set err ZIP_ER_OPNOTSUPP 0)
         else
         let flags = (if supported AND needed_write \<noteq> needed_write then flags OR ZIP_RDONLY else flags)
         in if flags AND (ZIP_RDONLY OR ZIP_TRUNCATE) = ZIP_RDONLY OR ZIP_TRUNCATE
            then (None, src, zip_error_set err ZIP_ER_RDONLY 0)
            else case zip_file_exists src err of
              (EXISTS_ERROR, src, err) \<Rightarrow> (None, src, err)
            | (EXISTS_NOT, src, err) \<Rightarrow>
                if flags AND ZIP_CREATE = 0 then (None, src, zip_error_set err ZIP_ER_NOENT 0)
                else (case zip_allocate_new mem src flags err of (za, err) \<Rightarrow> (za, src, err))
            | (_, src, err) \<Rightarrow>
                if flags AND ZIP_EXCL \<noteq> 0 then (None, src, zip_error_set err ZIP_ER_EXISTS 0)
                else case zip_source_open src of
                  (r, src) \<Rightarrow>
                    if r < 0 then (None, src, zip_error_set_from_source err src)
                    else case (if flags AND ZIP_TRUNCATE \<noteq> 0
                               then (case zip_allocate_new mem src flags err of (za, err) \<Rightarrow> (za, src, err))
                               else zip_open_internal mem ext src flags err) of
                           (None, src, err) \<Rightarrow> (None, snd (zip_source_close src), err)
                         | r \<Rightarrow> r)"

text \<open>The error code and the \<open>errno\<close> reported for a failed \<open>zip_open\<close>; \<open>None\<close> leaves \<open>errno\<close> alone.\<close>

definition zip_set_open_error :: "zip_error option \<Rightarrow> int \<Rightarrow> int \<times> int option" where
  "zip_set_open_error err ze =
     (case err of
        None \<Rightarrow> (ze, None)
      | Some e \<Rightarrow> (zip_error_code_zip e,
                   if zip_error_system_type e = ZIP_ET_SYS then Some (zip_error_code_system e) else None))"

definition zip_archive_set_prefixdata ::
  "malloc \<Rightarrow> int \<Rightarrow> 's zip_archive \<Rightarrow> bytes option \<Rightarrow> int \<times> 's zip_archive" where
  "zip_archive_set_prefixdata mem errno za prefixdata =
     (case prefixdata of
        None \<Rightarrow> (0, za\<lparr>za_prefixdata := None\<rparr>)
      | Some p \<Rightarrow>
          if \<not> mem A_name then (-1, za\<lparr>za_error := zip_error_set (za_error za) ZIP_ER_MEMORY errno\<rparr>)
          else (0, za\<lparr>za_prefixdata := Some p\<rparr>))"

end
