(* ===== verification/Zip_Attributes.thy ===== *)
theory Zip_Attributes
  imports Zip_Archive Zip_Source_Buffer
begin

text \<open>
  Attributes of entries and of the archive: comments, modification times, compression and encryption
  methods, external attributes, flags, passwords, and the status of an entry. The setters follow one
  scheme: a value that differs from the one in the archive is stored in the changes of the entry, a
  value that equals it takes the change back.

  Strings and passwords that C shares between an entry and its changes are copied here. The set of
  codecs is the one of the repository's \<open>config.h\<close>: neither bzip2 nor AES.
\<close>

section \<open>Codecs\<close>

datatype zip_codec = ZIP_CODEC_DECODE | ZIP_CODEC_ENCODE
datatype zip_encryption_implementation = Zip_source_pkware

definition ZIP_CM_IS_DEFAULT :: "int \<Rightarrow> bool" where
  "ZIP_CM_IS_DEFAULT x = (x = ZIP_CM_DEFAULT \<or> x = ZIP_CM_REPLACED_DEFAULT)"

definition ZIP_CM_ACTUAL :: "int \<Rightarrow> u16" where
  "ZIP_CM_ACTUAL x = word_of_int (if ZIP_CM_IS_DEFAULT x then ZIP_CM_DEFLATE else x)"

definition implementations :: "u16 list" where
  "implementations = [8]"

definition get_algorithm :: "int \<Rightarrow> u16 option" where
  "get_algorithm meth = find (\<lambda>m. m = ZIP_CM_ACTUAL meth) implementations"

definition zip_compression_method_supported :: "int \<Rightarrow> bool" where
  "zip_compression_method_supported meth = (if meth = ZIP_CM_STORE then True else get_algorithm meth \<noteq> None)"

definition zip_get_encryption_implementation :: "u16 \<Rightarrow> zip_codec \<Rightarrow> zip_encryption_implementation option" where
  "zip_get_encryption_implementation em operation =
     (if em = ZIP_EM_TRAD_PKWARE
      then if operation = ZIP_CODEC_ENCODE then None else Some Zip_source_pkware
      else None)"

section \<open>Setting attributes of an entry\<close>

text \<open>The checks most setters begin with: the entry is there and the archive can be written.\<close>

definition set_guarded ::
  "'s zip_archive \<Rightarrow> u64 \<Rightarrow> ('s zip_archive \<Rightarrow> int \<times> 's zip_archive) \<Rightarrow> int \<times> 's zip_archive" where
  "set_guarded za idx f =
     (case zip_get_dirent za idx 0 None of
        (None, za, _) \<Rightarrow> (-1, za)
      | (Some _, za, _) \<Rightarrow> if ZIP_IS_RDONLY za then za_fail za ZIP_ER_RDONLY else f za)"

text \<open>Storing a change, in a clone of the original entry when there are no changes yet.\<close>

definition entry_change ::
  "malloc \<Rightarrow> 's zip_archive \<Rightarrow> u64 \<Rightarrow> (zip_dirent \<Rightarrow> zip_dirent) \<Rightarrow> int \<times> 's zip_archive" where
  "entry_change mem za idx f =
     (let e = za_entry_at za idx
      in case (if en_changes e = None then zip_dirent_clone mem (en_orig e) else en_changes e) of
           None \<Rightarrow> za_fail za ZIP_ER_MEMORY
         | Some d \<Rightarrow> (0, za_put_entry za idx (e\<lparr>en_changes := Some (f d)\<rparr>)))"

text \<open>Taking a change back; changes with nothing changed are dropped.\<close>

definition entry_drop_change :: "u32 \<Rightarrow> (zip_dirent \<Rightarrow> zip_dirent) \<Rightarrow> 's zip_entry \<Rightarrow> 's zip_entry" where
  "entry_drop_change flag f e =
     (case en_changes e of
        None \<Rightarrow> e
      | Some d \<Rightarrow>
          let d = d\<lparr>de_changed := de_changed d AND NOT flag\<rparr>
          in e\<lparr>en_changes := (if de_changed d = 0 then None else Some (f d))\<rparr>)"

definition comment_string ::
  "malloc \<Rightarrow> bytes \<Rightarrow> u16 \<Rightarrow> u32 \<Rightarrow> zip_error \<Rightarrow> zip_string option option \<times> zip_error" where
  "comment_string mem comment len flags err =
     (if len > 0
      then case zip_string_new mem comment len flags err of
             (None, err) \<Rightarrow> (None, err)
           | (Some cstr, err) \<Rightarrow>
               if flags AND ZIP_FL_ENCODING_ALL = ZIP_FL_ENC_GUESS
               then case zip_guess_encoding (Some cstr) ZIP_ENCODING_UNKNOWN of
                      (enc, s) \<Rightarrow>
                        (Some (if enc = ZIP_ENCODING_UTF8_GUESSED
                               then map_option (\<lambda>s. s\<lparr>str_encoding := ZIP_ENCODING_UTF8_KNOWN\<rparr>) s else s), err)
               else (Some (Some cstr), err)
      else (Some None, err))"

text \<open>The comment of the changes goes first, whatever happens next.\<close>

definition comment_clear :: "'s zip_entry \<Rightarrow> 's zip_entry" where
  "comment_clear e =
     e\<lparr>en_changes := map_option (\<lambda>d. d\<lparr>de_comment := None, de_changed := de_changed d AND NOT ZIP_DIRENT_COMMENT\<rparr>)
         (en_changes e)\<rparr>"

definition comment_changed :: "'s zip_entry \<Rightarrow> zip_string option \<Rightarrow> bool" where
  "comment_changed e cstr =
     (case (case en_orig e of None \<Rightarrow> None | Some d \<Rightarrow> de_comment d) of
        Some c \<Rightarrow> \<not> zip_string_equal (Some c) cstr
      | None \<Rightarrow> cstr \<noteq> None)"

definition zip_file_set_comment ::
  "malloc \<Rightarrow> 's zip_archive \<Rightarrow> u64 \<Rightarrow> bytes option \<Rightarrow> u16 \<Rightarrow> u32 \<Rightarrow> int \<times> 's zip_archive" where
  "zip_file_set_comment mem za idx comment len flags =
     set_guarded za idx (\<lambda>za.
       if len > 0 \<and> comment = None then za_fail za ZIP_ER_INVAL
       else case comment_string mem (the comment) len flags (za_error za) of
         (None, err) \<Rightarrow> (-1, za\<lparr>za_error := err\<rparr>)
       | (Some cstr, err) \<Rightarrow>
           let e = comment_clear (za_entry_at za idx);
               za = (za_put_entry za idx e)\<lparr>za_error := err\<rparr>
           in if comment_changed e cstr
              then entry_change mem za idx (\<lambda>d. d\<lparr>de_comment := cstr, de_changed := de_changed d OR ZIP_DIRENT_COMMENT\<rparr>)
              else (0, za_put_entry za idx (entry_drop_change 0 id e)))"

text \<open>The deprecated function checks the length first.\<close>

definition zip_set_file_comment ::
  "malloc \<Rightarrow> 's zip_archive \<Rightarrow> u64 \<Rightarrow> bytes option \<Rightarrow> int \<Rightarrow> int \<times> 's zip_archive" where
  "zip_set_file_comment mem za idx comment len =
     (if len < 0 \<or> len > int ZIP_UINT16_MAX then za_fail za ZIP_ER_INVAL
      else zip_file_set_comment mem za idx comment (word_of_int len) 0)"

definition zip_file_set_mtime ::
  "malloc \<Rightarrow> 's zip_archive \<Rightarrow> u64 \<Rightarrow> int \<Rightarrow> int \<times> 's zip_archive" where
  "zip_file_set_mtime mem za idx mtime =
     set_guarded za idx (\<lambda>za.
       let e = za_entry_at za idx
       in if (case en_orig e of None \<Rightarrow> True | Some d \<Rightarrow> mtime \<noteq> de_last_mod d)
          then entry_change mem za idx (\<lambda>d. d\<lparr>de_last_mod := mtime, de_changed := de_changed d OR ZIP_DIRENT_LAST_MOD\<rparr>)
          else (0, za_put_entry za idx (entry_drop_change ZIP_DIRENT_LAST_MOD id e)))"

definition orig_opsys :: "'s zip_entry \<Rightarrow> u8" where
  "orig_opsys e = (case en_orig e of None \<Rightarrow> ZIP_OPSYS_DEFAULT | Some d \<Rightarrow> ucast (drop_bit 8 (de_version_madeby d)))"

definition orig_attributes :: "'s zip_entry \<Rightarrow> u32" where
  "orig_attributes e = (case en_orig e of None \<Rightarrow> ZIP_EXT_ATTRIB_DEFAULT | Some d \<Rightarrow> de_ext_attrib d)"

definition dirent_set_attributes :: "u8 \<Rightarrow> u32 \<Rightarrow> zip_dirent \<Rightarrow> zip_dirent" where
  "dirent_set_attributes opsys attributes d =
     d\<lparr>de_version_madeby := push_bit 8 (ucast opsys) OR (de_version_madeby d AND 0xff), de_ext_attrib := attributes\<rparr>"

definition zip_file_set_external_attributes ::
  "malloc \<Rightarrow> 's zip_archive \<Rightarrow> u64 \<Rightarrow> u32 \<Rightarrow> u8 \<Rightarrow> u32 \<Rightarrow> int \<times> 's zip_archive" where
  "zip_file_set_external_attributes mem za idx flags opsys attributes =
     set_guarded za idx (\<lambda>za.
       let e = za_entry_at za idx
       in if opsys \<noteq> orig_opsys e \<or> attributes \<noteq> orig_attributes e
          then entry_change mem za idx
                 (\<lambda>d. (dirent_set_attributes opsys attributes d)\<lparr>de_changed := de_changed d OR ZIP_DIRENT_ATTRIBUTES\<rparr>)
          else (0, za_put_entry za idx
                 (entry_drop_change ZIP_DIRENT_ATTRIBUTES
                    (dirent_set_attributes (orig_opsys e) (orig_attributes e)) e)))"

definition zip_set_file_compression ::
  "malloc \<Rightarrow> 's zip_archive \<Rightarrow> u64 \<Rightarrow> int \<Rightarrow> u32 \<Rightarrow> int \<times> 's zip_archive" where
  "zip_set_file_compression mem za idx meth flags =
     (if \<not> za_has za idx \<or> flags > 9 then za_fail za ZIP_ER_INVAL
      else if ZIP_IS_RDONLY za then za_fail za ZIP_ER_RDONLY
      else if \<not> zip_compression_method_supported meth then za_fail za ZIP_ER_COMPNOTSUPP
      else let e = za_entry_at za idx;
               old_method = (case en_orig e of None \<Rightarrow> ZIP_CM_DEFAULT | Some d \<Rightarrow> de_comp_method d)
           in if meth = old_method
              then (0, za_put_entry za idx (entry_drop_change ZIP_DIRENT_COMP_METHOD (\<lambda>d. d\<lparr>de_compression_level := 0\<rparr>) e))
              else entry_change mem za idx
                     (\<lambda>d. d\<lparr>de_comp_method := meth, de_compression_level := ucast flags,
                             de_changed := de_changed d OR ZIP_DIRENT_COMP_METHOD\<rparr>))"

text \<open>The password the changes had goes, if they had one of their own.\<close>

definition password_reset :: "'s zip_entry \<Rightarrow> zip_dirent \<Rightarrow> zip_dirent" where
  "password_reset e d =
     (if de_changed d AND ZIP_DIRENT_PASSWORD \<noteq> 0
      then d\<lparr>de_password := (case en_orig e of None \<Rightarrow> None | Some s \<Rightarrow> de_password s)\<rparr> else d)"

definition encryption_change :: "'s zip_entry \<Rightarrow> u16 \<Rightarrow> bytes option \<Rightarrow> zip_dirent \<Rightarrow> zip_dirent" where
  "encryption_change e meth password d =
     (let d = d\<lparr>de_encryption_method := meth, de_changed := de_changed d OR ZIP_DIRENT_ENCRYPTION_METHOD\<rparr>
      in case password of
           Some p \<Rightarrow> d\<lparr>de_password := Some p, de_changed := de_changed d OR ZIP_DIRENT_PASSWORD\<rparr>
         | None \<Rightarrow> (password_reset e d)\<lparr>de_changed := de_changed d AND NOT ZIP_DIRENT_PASSWORD\<rparr>)"

definition zip_file_set_encryption ::
  "malloc \<Rightarrow> 's zip_archive \<Rightarrow> u64 \<Rightarrow> u16 \<Rightarrow> bytes option \<Rightarrow> int \<times> 's zip_archive" where
  "zip_file_set_encryption mem za idx meth password =
     (if \<not> za_has za idx then za_fail za ZIP_ER_INVAL
      else if ZIP_IS_RDONLY za then za_fail za ZIP_ER_RDONLY
      else if meth \<noteq> ZIP_EM_NONE \<and> zip_get_encryption_implementation meth ZIP_CODEC_ENCODE = None
      then za_fail za ZIP_ER_ENCRNOTSUPP
      else let e = za_entry_at za idx;
               old_method = (case en_orig e of None \<Rightarrow> ZIP_EM_NONE | Some d \<Rightarrow> de_encryption_method d)
           in if meth = old_method \<and> password = None
              then (0, za_put_entry za idx
                     (entry_drop_change (ZIP_DIRENT_ENCRYPTION_METHOD OR ZIP_DIRENT_PASSWORD) id
                        (e\<lparr>en_changes := map_option (password_reset e) (en_changes e)\<rparr>)))
              else if password \<noteq> None \<and> \<not> mem A_password then za_fail za ZIP_ER_MEMORY
              else entry_change mem za idx (encryption_change e meth password))"

section \<open>Reading attributes of an entry\<close>

definition zip_file_get_external_attributes ::
  "'s zip_archive \<Rightarrow> u64 \<Rightarrow> u32 \<Rightarrow> (u8 \<times> u32) option \<times> 's zip_archive" where
  "zip_file_get_external_attributes za idx flags =
     (case zip_get_dirent za idx flags None of
        (None, za, _) \<Rightarrow> (None, za)
      | (Some de, za, _) \<Rightarrow> (Some (ucast (drop_bit 8 (de_version_madeby de) AND 0xff), de_ext_attrib de), za))"

text \<open>The dirent looked at is the one whose string caches the conversion.\<close>

definition entry_cache_comment :: "u32 \<Rightarrow> 's zip_entry \<Rightarrow> zip_string option \<Rightarrow> 's zip_entry" where
  "entry_cache_comment flags e s =
     (if flags AND ZIP_FL_UNCHANGED \<noteq> 0 \<or> en_changes e = None
      then e\<lparr>en_orig := map_option (\<lambda>d. d\<lparr>de_comment := s\<rparr>) (en_orig e)\<rparr>
      else e\<lparr>en_changes := map_option (\<lambda>d. d\<lparr>de_comment := s\<rparr>) (en_changes e)\<rparr>)"

definition zip_file_get_comment ::
  "malloc \<Rightarrow> 's zip_archive \<Rightarrow> u64 \<Rightarrow> u32 \<Rightarrow> (bytes \<times> u32) option \<times> 's zip_archive" where
  "zip_file_get_comment mem za idx flags =
     (case zip_get_dirent za idx flags None of
        (None, za, _) \<Rightarrow> (None, za)
      | (Some de, za, _) \<Rightarrow>
          (case zip_string_get mem (de_comment de) flags (za_error za) of
             (r, s, err) \<Rightarrow>
               (r, (za_put_entry za idx (entry_cache_comment flags (za_entry_at za idx) s))\<lparr>za_error := err\<rparr>)))"

definition zip_get_file_comment ::
  "malloc \<Rightarrow> 's zip_archive \<Rightarrow> u64 \<Rightarrow> int \<Rightarrow> (bytes \<times> int) option \<times> 's zip_archive" where
  "zip_get_file_comment mem za idx flags =
     (case zip_file_get_comment mem za idx (word_of_int flags) of
        (r, za) \<Rightarrow> (map_option (\<lambda>(s, n). (s, sint n)) r, za))"

definition dirent_stat :: "zip_dirent \<Rightarrow> zip_stat \<Rightarrow> zip_stat" where
  "dirent_stat de st =
     (zip_stat_init st)\<lparr>st_crc := de_crc de, st_size := de_uncomp_size de, st_mtime := de_last_mod de,
        st_comp_size := de_comp_size de, st_comp_method := word_of_int (de_comp_method de),
        st_encryption_method := de_encryption_method de,
        st_valid := (if de_crc_valid de then ZIP_STAT_CRC else 0) OR ZIP_STAT_SIZE OR ZIP_STAT_MTIME OR
          ZIP_STAT_COMP_SIZE OR ZIP_STAT_COMP_METHOD OR ZIP_STAT_ENCRYPTION_METHOD\<rparr>"

definition zip_stat_index ::
  "malloc \<Rightarrow> 's zip_archive \<Rightarrow> u64 \<Rightarrow> u32 \<Rightarrow> zip_stat \<Rightarrow> int \<times> zip_stat \<times> 's zip_archive" where
  "zip_stat_index mem za idx flags st =
     (case zip_get_dirent za idx flags None of
        (None, za, _) \<Rightarrow> (-1, st, za)
      | (Some de, za, _) \<Rightarrow>
          (case with_za_error (\<lambda>za. zip_get_name mem za idx flags) za of
             (None, za) \<Rightarrow> (-1, st, za)
           | (Some name, za) \<Rightarrow>
               let fin = (\<lambda>st. st\<lparr>st_index := idx, st_name := Some name,
                                  st_valid := st_valid st OR (ZIP_STAT_INDEX OR ZIP_STAT_NAME)\<rparr>);
                   e = za_entry_at za idx
               in if flags AND ZIP_FL_UNCHANGED = 0 \<and> ZIP_ENTRY_DATA_CHANGED e
                  then case zip_source_stat (the (en_source e)) (Some st) of
                         (r, st', src) \<Rightarrow>
                           let za = za_put_entry za idx (e\<lparr>en_source := Some src\<rparr>)
                           in if r < 0 then (-1, the st', snd (za_fail za ZIP_ER_CHANGED))
                              else (0, fin (the st'), za)
                  else (0, fin (dirent_stat de st), za)))"

definition zip_stat_name ::
  "malloc \<Rightarrow> 's zip_archive \<Rightarrow> bytes option \<Rightarrow> u32 \<Rightarrow> zip_stat \<Rightarrow> int \<times> zip_stat \<times> 's zip_archive" where
  "zip_stat_name mem za fname flags st =
     (case with_za_error (\<lambda>za. zip_name_locate mem za fname flags) za of
        (i, za) \<Rightarrow> if i < 0 then (-1, st, za) else zip_stat_index mem za (word_of_int i) flags st)"

section \<open>The archive\<close>

definition zip_changed :: "'s zip_archive \<Rightarrow> bool \<times> nat" where
  "zip_changed za =
     (za_comment_changed za \<or> za_ch_flags za \<noteq> za_flags za \<or> list_ex ZIP_ENTRY_HAS_CHANGES (za_entry za),
      length (filter (\<lambda>e. \<not> en_deleted e) (za_entry za)))"

definition zip_set_archive_comment ::
  "malloc \<Rightarrow> 's zip_archive \<Rightarrow> bytes option \<Rightarrow> u16 \<Rightarrow> int \<times> 's zip_archive" where
  "zip_set_archive_comment mem za comment len =
     (if ZIP_IS_RDONLY za then za_fail za ZIP_ER_RDONLY
      else if len > 0 \<and> comment = None then za_fail za ZIP_ER_INVAL
      else case (if len > 0
                 then case zip_string_new mem (the comment) len ZIP_FL_ENC_GUESS (za_error za) of
                        (None, err) \<Rightarrow> (None, err)
                      | (Some s, err) \<Rightarrow>
                          (case zip_guess_encoding (Some s) ZIP_ENCODING_UNKNOWN of
                             (enc, s) \<Rightarrow> if enc = ZIP_ENCODING_CP437 then (None, zip_error_set err ZIP_ER_INVAL 0)
                                         else (Some s, err))
                 else (Some None, za_error za)) of
        (None, err) \<Rightarrow> (-1, za\<lparr>za_error := err\<rparr>)
      | (Some cstr, err) \<Rightarrow>
          if za_comment_orig za \<noteq> None \<and> zip_string_equal (za_comment_orig za) cstr \<or>
             za_comment_orig za = None \<and> cstr = None
          then (0, za\<lparr>za_error := err, za_comment_changes := None, za_comment_changed := False\<rparr>)
          else (0, za\<lparr>za_error := err, za_comment_changes := cstr, za_comment_changed := True\<rparr>))"

definition zip_get_archive_comment ::
  "malloc \<Rightarrow> 's zip_archive \<Rightarrow> u32 \<Rightarrow> (bytes \<times> int) option \<times> 's zip_archive" where
  "zip_get_archive_comment mem za flags =
     (let orig = (flags AND ZIP_FL_UNCHANGED \<noteq> 0 \<or> za_comment_changes za = None)
      in case zip_string_get mem (if orig then za_comment_orig za else za_comment_changes za) flags (za_error za) of
           (r, s, err) \<Rightarrow>
             (map_option (\<lambda>(c, n). (c, sint n)) r,
              if orig then za\<lparr>za_error := err, za_comment_orig := s\<rparr>
              else za\<lparr>za_error := err, za_comment_changes := s\<rparr>))"

definition zip_set_archive_flag :: "'s zip_archive \<Rightarrow> u32 \<Rightarrow> bool \<Rightarrow> int \<times> 's zip_archive" where
  "zip_set_archive_flag za flag v =
     (let new_flags = (if v then za_ch_flags za OR flag else za_ch_flags za AND NOT flag)
      in if new_flags = za_ch_flags za then (0, za)
         else if ZIP_IS_RDONLY za then za_fail za ZIP_ER_RDONLY
         else if flag AND ZIP_AFL_RDONLY \<noteq> 0 \<and> v \<and> za_ch_flags za AND ZIP_AFL_RDONLY = 0 \<and> fst (zip_changed za)
         then za_fail za ZIP_ER_CHANGED
         else (0, za\<lparr>za_ch_flags := new_flags\<rparr>))"

definition zip_get_archive_flag :: "'s zip_archive \<Rightarrow> u32 \<Rightarrow> u32 \<Rightarrow> int" where
  "zip_get_archive_flag za flag flags =
     (let fl = (if flags AND ZIP_FL_UNCHANGED \<noteq> 0 then za_flags za else za_ch_flags za)
      in if fl AND flag \<noteq> 0 then 1 else 0)"

definition zip_set_default_password ::
  "malloc \<Rightarrow> 's zip_archive \<Rightarrow> bytes option \<Rightarrow> int \<times> 's zip_archive" where
  "zip_set_default_password mem za passwd =
     (case passwd of
        None \<Rightarrow> (0, za\<lparr>za_default_password := None\<rparr>)
      | Some p \<Rightarrow>
          if \<not> mem A_password then za_fail (za\<lparr>za_default_password := None\<rparr>) ZIP_ER_MEMORY
          else (0, za\<lparr>za_default_password := Some p\<rparr>))"

text \<open>Adding a directory makes an empty buffer source, so the sources of the archive are buffers.\<close>

definition zip_dir_add ::
  "malloc \<Rightarrow> u64 \<Rightarrow> int \<Rightarrow> read_data zip_archive \<Rightarrow> bytes option \<Rightarrow> u32 \<Rightarrow> int \<times> read_data zip_archive" where
  "zip_dir_add mem junk now za name flags =
     (if ZIP_IS_RDONLY za then za_fail za ZIP_ER_RDONLY
      else case name of
        None \<Rightarrow> za_fail za ZIP_ER_INVAL
      | Some n \<Rightarrow>
          if \<not> is_dir_name n \<and> \<not> mem A_name then za_fail za ZIP_ER_MEMORY
          else case zip_source_buffer mem junk now (Some (za_error za)) None 0 False of
            (None, err) \<Rightarrow> (-1, za\<lparr>za_error := the err\<rparr>)
          | (Some source, err) \<Rightarrow>
              (case zip_file_replace_internal mem (za\<lparr>za_error := the err\<rparr>) ZIP_UINT64_MAX
                      (Some (if is_dir_name n then n else n @ [0x2f])) source flags of
                 (idx, za) \<Rightarrow>
                   if idx < 0 then (idx, za)
                   else case zip_file_set_external_attributes mem za (word_of_int idx) 0 ZIP_OPSYS_DEFAULT
                               ZIP_EXT_ATTRIB_DEFAULT_DIR of
                          (r, za) \<Rightarrow>
                            if r < 0 then (-1, snd (zip_delete mem za (word_of_int idx))) else (idx, za)))"

definition zip_add_dir ::
  "malloc \<Rightarrow> u64 \<Rightarrow> int \<Rightarrow> read_data zip_archive \<Rightarrow> bytes option \<Rightarrow> int \<times> read_data zip_archive" where
  "zip_add_dir mem junk now za name = zip_dir_add mem junk now za name 0"

end
