(* ===== verification/Zip_Archive_Names.thy ===== *)
theory Zip_Archive_Names
  imports Zip_Archive
begin

text \<open>
  The name table and the entries of an archive agree: the current index of a name is the entry that
  shows that name, its index as opened the entry that had it when the archive was opened. The
  operations of \<open>Zip_Archive\<close> keep this while memory lasts.
\<close>

section \<open>Names as values\<close>

definition name_of :: "zip_string option \<Rightarrow> bytes" where
  "name_of s = (case s of
     None \<Rightarrow> []
   | Some s \<Rightarrow>
       let enc = (if str_encoding s = ZIP_ENCODING_UNKNOWN then guess_scan (str_raw s) ZIP_ENCODING_ASCII
                  else str_encoding s)
       in if enc = ZIP_ENCODING_CP437
          then (case str_converted s of Some c \<Rightarrow> c | None \<Rightarrow> cp437_fill (str_raw s))
          else str_raw s)"

definition str_ok :: "zip_string option \<Rightarrow> bool" where
  "str_ok s = (case s of None \<Rightarrow> True | Some s \<Rightarrow> str_raw s \<noteq> [])"

lemma str_ok_None [simp]: "str_ok None" "name_of None = []"
  by (simp_all add: str_ok_def name_of_def)

lemma guess_unknown: "zip_guess_encoding (Some s) ZIP_ENCODING_UNKNOWN =
    (if str_encoding s = ZIP_ENCODING_UNKNOWN then guess_scan (str_raw s) ZIP_ENCODING_ASCII else str_encoding s,
     Some (s\<lparr>str_encoding := (if str_encoding s = ZIP_ENCODING_UNKNOWN then guess_scan (str_raw s) ZIP_ENCODING_ASCII
                                else str_encoding s)\<rparr>))"
  by (simp add: zip_guess_encoding_def Let_def)

lemma guess_scan_not_unknown: "enc \<noteq> ZIP_ENCODING_UNKNOWN \<Longrightarrow> guess_scan cs enc \<noteq> ZIP_ENCODING_UNKNOWN"
  by (induction cs enc rule: guess_scan.induct) (auto split: option.splits)

text \<open>Looking at a name returns it and does not change it.\<close>

lemma zip_string_get_name:
  assumes "str_ok s" "flags AND ZIP_FL_ENC_RAW = 0" "flags AND ZIP_FL_ENC_STRICT = 0"
  shows "\<exists>n s'. zip_string_get malloc_ok s flags err = (Some (name_of s, n), s', err) \<and>
           str_ok s' \<and> name_of s' = name_of s \<and> (s' = None \<longleftrightarrow> s = None)"
proof (cases s)
  case None
  then show ?thesis by (simp add: zip_string_get_def)
next
  case (Some t)
  define u where "u = (if str_encoding t = ZIP_ENCODING_UNKNOWN
    then t\<lparr>str_encoding := guess_scan (str_raw t) ZIP_ENCODING_ASCII\<rparr> else t)"
  have raw: "str_raw u = str_raw t" "str_converted u = str_converted t" by (simp_all add: u_def)
  have ne: "str_raw t \<noteq> []" using assms(1) Some by (simp add: str_ok_def)
  have known: "str_encoding u \<noteq> ZIP_ENCODING_UNKNOWN" by (simp add: u_def guess_scan_not_unknown)
  have name: "name_of s = (if str_encoding u = ZIP_ENCODING_CP437
      then (case str_converted t of Some c \<Rightarrow> c | None \<Rightarrow> cp437_fill (str_raw t)) else str_raw t)"
    by (simp add: name_of_def Some u_def Let_def)
  have get: "zip_string_get malloc_ok s flags err =
      (if str_encoding u = ZIP_ENCODING_CP437
       then case str_converted t of
              Some c \<Rightarrow> (Some (c, str_converted_length u), Some u, err)
            | None \<Rightarrow> (Some (cp437_fill (str_raw t), cp437_buflen (str_raw t) - 1),
                Some (u\<lparr>str_converted := Some (cp437_fill (str_raw t)), str_converted_length := cp437_buflen (str_raw t) - 1\<rparr>), err)
       else (Some (str_raw t, ucast (str_length u)), Some u, err))"
    using assms(2,3) ne
    by (simp add: zip_string_get_def Some Let_def guess_unknown u_def zip_cp437_to_utf8_def split: option.splits)
  show ?thesis unfolding get name
    using ne known raw Some by (auto simp: str_ok_def name_of_def Let_def split: option.splits)
qed

section \<open>What an entry shows\<close>

definition vis_dirent :: "'s zip_entry \<Rightarrow> zip_dirent option" where
  "vis_dirent e = (if en_changes e \<noteq> None then en_changes e else if en_deleted e then None else en_orig e)"

definition dirent_name :: "zip_dirent \<Rightarrow> bytes" where
  "dirent_name d = name_of (de_filename d)"

definition cur_name :: "'s zip_entry \<Rightarrow> bytes option" where
  "cur_name e = map_option dirent_name (vis_dirent e)"

definition orig_name :: "'s zip_entry \<Rightarrow> bytes option" where
  "orig_name e = map_option dirent_name (en_orig e)"

text \<open>The strings of an entry are not empty, a deleted entry has no changes, and an entry not renamed
  has the name it had.\<close>

definition entry_ok :: "'s zip_entry \<Rightarrow> bool" where
  "entry_ok e =
     ((\<forall>d. en_orig e = Some d \<longrightarrow> str_ok (de_filename d)) \<and>
      (\<forall>d. en_changes e = Some d \<longrightarrow> str_ok (de_filename d)) \<and>
      (en_deleted e \<longrightarrow> en_changes e = None) \<and>
      (\<forall>d. en_changes e = Some d \<and> de_changed d AND ZIP_DIRENT_FILENAME = 0 \<longrightarrow>
         orig_name e = Some (dirent_name d)))"

definition cur_index :: "zip_hash \<Rightarrow> bytes \<Rightarrow> int" where
  "cur_index h n = index_get 0 (hash_map h n)"

definition orig_index :: "zip_hash \<Rightarrow> bytes \<Rightarrow> int" where
  "orig_index h n = index_orig (hash_map h n)"

text \<open>The names of a list of views: the entry showing a name, for names that are not empty.\<close>

definition index_agrees :: "(bytes \<Rightarrow> int) \<Rightarrow> bytes option list \<Rightarrow> bool" where
  "index_agrees f ns = (\<forall>n. n \<noteq> [] \<longrightarrow> f n \<ge> -1 \<and> (\<forall>i. f n = int i \<longleftrightarrow> i < length ns \<and> ns ! i = Some n))"

definition names_inv :: "'s zip_archive \<Rightarrow> bool" where
  "names_inv za =
     (hash_wf (za_names za) \<and> (\<forall>e \<in> set (za_entry za). entry_ok e) \<and>
      index_agrees (cur_index (za_names za)) (map cur_name (za_entry za)) \<and>
      index_agrees (orig_index (za_names za)) (map orig_name (za_entry za)))"

definition za_room :: "'s zip_archive \<Rightarrow> bool" where
  "za_room za = (unat (hash_nentries (za_names za)) + 1 < 2 ^ 64 \<and> length (za_entry za) \<le> 2 ^ 63)"

lemma index_agreesD: "index_agrees f ns \<Longrightarrow> n \<noteq> [] \<Longrightarrow> i < length ns \<Longrightarrow> ns ! i = Some n \<Longrightarrow> f n = int i"
  by (simp add: index_agrees_def)

lemma index_agreesE: "index_agrees f ns \<Longrightarrow> n \<noteq> [] \<Longrightarrow> f n = int i \<Longrightarrow> i < length ns \<and> ns ! i = Some n"
  by (simp add: index_agrees_def)

lemma index_agrees_set_other:
  "index_agrees f ns \<Longrightarrow> i < length ns \<Longrightarrow> ns ! i = v \<Longrightarrow> index_agrees f (ns[i := v])"
  by (metis list_update_id)

lemma index_agrees_append_none: "index_agrees f ns \<Longrightarrow> index_agrees f (ns @ [None])"
  unfolding index_agrees_def by (auto simp: nth_append less_Suc_eq)

lemma index_agrees_butlast: "index_agrees f (ns @ [None]) \<Longrightarrow> index_agrees f ns"
  unfolding index_agrees_def by (force simp: nth_append less_Suc_eq)

text \<open>An entry loses its name, or goes to a name nobody had.\<close>

lemma index_agrees_lose:
  assumes "index_agrees f ns" "i < length ns" "ns ! i = Some n"
    and g: "\<And>m. m \<noteq> [] \<Longrightarrow> g m = (if m = n then -1 else f m)"
  shows "index_agrees g (ns[i := None])"
  unfolding index_agrees_def
proof (intro allI impI conjI)
  fix m :: bytes and j assume m: "m \<noteq> []"
  have f: "f m \<ge> -1" "\<And>j. f m = int j \<longleftrightarrow> j < length ns \<and> ns ! j = Some m"
    using assms(1) m by (auto simp: index_agrees_def)
  show "- 1 \<le> g m" using f(1) g [OF m] by simp
  show "(g m = int j) = (j < length (ns[i := None]) \<and> ns[i := None] ! j = Some m)"
  proof (cases "m = n")
    case True
    have "j = i" if "j < length ns" "ns ! j = Some n"
      using f(2) [of i] f(2) [of j] that True assms(2,3) by simp
    then show ?thesis using g [OF m] True by (cases "j = i") (auto simp: nth_list_update)
  next
    case False
    then show ?thesis using g [OF m] f(2) [of j] assms(2,3) by (cases "j = i") (auto simp: nth_list_update)
  qed
qed

lemma index_agrees_gain:
  assumes "index_agrees f ns" "i < length ns" "ns ! i = None"
    and free: "n \<noteq> [] \<Longrightarrow> f n = -1"
    and g: "\<And>m. m \<noteq> [] \<Longrightarrow> g m = (if m = n then int i else f m)"
  shows "index_agrees g (ns[i := Some n])"
  unfolding index_agrees_def
proof (intro allI impI conjI)
  fix m :: bytes and j assume m: "m \<noteq> []"
  have f: "f m \<ge> -1" "\<And>j. f m = int j \<longleftrightarrow> j < length ns \<and> ns ! j = Some m"
    using assms(1) m by (auto simp: index_agrees_def)
  show "- 1 \<le> g m" using f(1) g [OF m] by simp
  show "(g m = int j) = (j < length (ns[i := Some n]) \<and> ns[i := Some n] ! j = Some m)"
  proof (cases "m = n")
    case True
    have "\<not> (j < length ns \<and> ns ! j = Some n)" using f(2) [of j] free m True by auto
    then show ?thesis using g [OF m] True assms(2) by (auto simp: nth_list_update)
  next
    case False
    then show ?thesis using g [OF m] f(2) [of j] assms(2,3) by (cases "j = i") (auto simp: nth_list_update)
  qed
qed

lemma index_agrees_cong:
  "index_agrees f ns \<Longrightarrow> (\<And>m. m \<noteq> [] \<Longrightarrow> g m = f m) \<Longrightarrow> index_agrees g ns"
  by (simp add: index_agrees_def)

section \<open>What the table operations do to the indices\<close>

lemma hash_add_index:
  assumes wf: "hash_wf h" and i: "idx \<le> ZIP_INT64_MAX" and room: "unat (hash_nentries h) + 1 < 2 ^ 64"
    and r: "zip_hash_add malloc_ok h (Some n) idx 0 err = (b, h', err')"
  shows "hash_wf h'" "b = (cur_index h n = -1)" "orig_index h' = orig_index h"
    "cur_index h' = (if b then (cur_index h)(n := uint idx) else cur_index h)"
    "unat (hash_nentries h') \<le> unat (hash_nentries h) + 1" "b \<Longrightarrow> err' = err"
proof -
  note s = zip_hash_add_spec [OF wf i room, where mem = malloc_ok and n = n and flags = 0 and err = err, unfolded r]
  have taken: "index_taken 0 (hash_map h n) \<longleftrightarrow> cur_index h n \<noteq> -1"
    by (simp add: index_taken_def cur_index_def index_get_def split: option.split)
  show "hash_wf h'" "unat (hash_nentries h') \<le> unat (hash_nentries h) + 1" using s by (simp_all add: hash_added_def)
  show b: "b = (cur_index h n = -1)" using s taken by (simp add: hash_added_def split: if_splits)
  show "b \<Longrightarrow> err' = err" using s by (simp add: hash_added_def split: if_splits)
  have m: "hash_map h' = (if b then (hash_map h)(n \<mapsto> index_put idx 0 (hash_map h n)) else hash_map h)"
    using s by (simp add: hash_added_def split: if_splits)
  show "orig_index h' = orig_index h"
    by (auto simp: orig_index_def m fun_eq_iff index_put_def index_orig_def)
  show "cur_index h' = (if b then (cur_index h)(n := uint idx) else cur_index h)"
    by (auto simp: cur_index_def m fun_eq_iff index_put_def index_get_def)
qed

lemma hash_delete_index:
  assumes wf: "hash_wf h" and r: "zip_hash_delete malloc_ok h (Some n) err = (b, h', err')"
  shows "hash_wf h'" "orig_index h' = orig_index h" "cur_index h' = (cur_index h)(n := -1)"
    "unat (hash_nentries h') \<le> unat (hash_nentries h)" "b = (hash_map h n \<noteq> None)" "b \<Longrightarrow> err' = err"
proof -
  note s = zip_hash_delete_spec [OF wf, where mem = malloc_ok and n = n and err = err, unfolded r]
  show "hash_wf h'" "unat (hash_nentries h') \<le> unat (hash_nentries h)" using s by (simp_all add: hash_deleted_def)
  show "b = (hash_map h n \<noteq> None)" "b \<Longrightarrow> err' = err" using s by (auto simp: hash_deleted_def split: if_splits)
  have m: "hash_map h' = (hash_map h)(n := index_drop (hash_map h n))"
    using s by (auto simp: hash_deleted_def index_drop_def index_orig_def split: if_splits)
  show "orig_index h' = orig_index h"
    by (auto simp: orig_index_def m fun_eq_iff index_drop_def index_orig_def split: option.splits)
  show "cur_index h' = (cur_index h)(n := -1)"
    by (auto simp: cur_index_def m fun_eq_iff index_drop_def index_orig_def index_get_def split: option.splits)
qed

lemma hash_revert_index:
  assumes wf: "hash_wf h" and r: "zip_hash_revert malloc_ok h err = (b, h', err')"
  shows "hash_wf h'" "orig_index h' = orig_index h" "cur_index h' = orig_index h" "b" "err' = err"
    "unat (hash_nentries h') \<le> unat (hash_nentries h)"
proof -
  note s = zip_hash_revert_spec [OF wf r]
  show "hash_wf h'" "unat (hash_nentries h') \<le> unat (hash_nentries h)" by (fact s)+
  show "b" "err' = err" using s(4) by (auto split: if_splits)
  show "orig_index h' = orig_index h"
    by (auto simp: orig_index_def s(2) fun_eq_iff index_revert_def index_orig_def split: option.splits)
  show "cur_index h' = orig_index h"
    by (auto simp: cur_index_def orig_index_def s(2) fun_eq_iff index_revert_def index_orig_def index_get_def split: option.splits)
qed

section \<open>Caching names changes nothing\<close>

definition same_str :: "zip_string option \<Rightarrow> zip_string option \<Rightarrow> bool" where
  "same_str s s' = (name_of s' = name_of s \<and> (str_ok s \<longrightarrow> str_ok s') \<and> (s' = None \<longleftrightarrow> s = None))"

definition same_dirent :: "zip_dirent \<Rightarrow> zip_dirent \<Rightarrow> bool" where
  "same_dirent d d' = (\<exists>s. d' = d\<lparr>de_filename := s\<rparr> \<and> same_str (de_filename d) s)"

definition same_entry :: "'s zip_entry \<Rightarrow> 's zip_entry \<Rightarrow> bool" where
  "same_entry e e' =
     (rel_option same_dirent (en_orig e) (en_orig e') \<and> rel_option same_dirent (en_changes e) (en_changes e') \<and>
      en_source e' = en_source e \<and> en_deleted e' = en_deleted e)"

definition same_za :: "'s zip_archive \<Rightarrow> 's zip_archive \<Rightarrow> bool" where
  "same_za za za' = (\<exists>es err. za' = za\<lparr>za_entry := es, za_error := err\<rparr> \<and> list_all2 same_entry (za_entry za) es)"

lemma same_str_refl [simp]: "same_str s s" by (simp add: same_str_def)

lemma same_str_trans: "same_str s t \<Longrightarrow> same_str t u \<Longrightarrow> same_str s u" by (auto simp: same_str_def)

lemma same_dirent_refl [simp]: "same_dirent d d"
  unfolding same_dirent_def by (rule exI [of _ "de_filename d"]) simp

lemma same_direntI: "same_str (de_filename d) s \<Longrightarrow> same_dirent d (d\<lparr>de_filename := s\<rparr>)"
  unfolding same_dirent_def by blast

lemma same_dirent_trans: "same_dirent d e \<Longrightarrow> same_dirent e f \<Longrightarrow> same_dirent d f"
  by (auto simp: same_dirent_def intro!: same_direntI [unfolded same_dirent_def] intro: same_str_trans)

lemma same_dirent_fields:
  assumes "same_dirent d d'"
  shows "dirent_name d' = dirent_name d" "de_changed d' = de_changed d" "de_comp_method d' = de_comp_method d"
    "str_ok (de_filename d) \<Longrightarrow> str_ok (de_filename d')" "de_filename d' = None \<longleftrightarrow> de_filename d = None"
  using assms by (auto simp: same_dirent_def dirent_name_def same_str_def)

lemma rel_same_refl [simp]: "rel_option same_dirent d d"
  by (rule option.rel_refl) simp

lemma same_entry_refl [simp]: "same_entry e e"
  by (simp add: same_entry_def)

lemma same_entry_trans: "same_entry e f \<Longrightarrow> same_entry f g \<Longrightarrow> same_entry e g"
  unfolding same_entry_def
  by (auto simp: option_rel_Some1 option_rel_Some2 elim!: option.rel_cases intro: same_dirent_trans)

lemma same_entry_views:
  assumes "same_entry e e'"
  shows "cur_name e' = cur_name e" "orig_name e' = orig_name e" "entry_ok e \<Longrightarrow> entry_ok e'"
    "en_deleted e' = en_deleted e" "en_orig e' = None \<longleftrightarrow> en_orig e = None"
    "en_changes e' = None \<longleftrightarrow> en_changes e = None" "ZIP_ENTRY_CHANGED e' f = ZIP_ENTRY_CHANGED e f"
  using assms unfolding same_entry_def cur_name_def orig_name_def vis_dirent_def entry_ok_def ZIP_ENTRY_CHANGED_def
  by (auto elim!: option.rel_cases simp: same_dirent_fields)

lemma same_za_refl [simp]: "same_za za za"
  unfolding same_za_def by (rule exI [of _ "za_entry za"], rule exI [of _ "za_error za"]) (simp add: list.rel_refl)

lemma same_zaI: "list_all2 same_entry (za_entry za) es \<Longrightarrow> same_za za (za\<lparr>za_entry := es, za_error := err\<rparr>)"
  unfolding same_za_def by blast

lemma same_zaI2: "list_all2 same_entry (za_entry za) es \<Longrightarrow> same_za za (za\<lparr>za_error := err, za_entry := es\<rparr>)"
  unfolding same_za_def by (rule exI [of _ es], rule exI [of _ err]) simp

lemma same_zaE:
  assumes "same_za za za'"
  obtains es err where "za' = za\<lparr>za_entry := es, za_error := err\<rparr>" "list_all2 same_entry (za_entry za) es"
  using assms unfolding same_za_def by blast

lemma same_za_trans: "same_za x y \<Longrightarrow> same_za y z \<Longrightarrow> same_za x z"
  by (elim same_zaE) (auto intro!: same_zaI intro: list_all2_trans [OF same_entry_trans])

lemma same_za_fields:
  assumes "same_za za za'"
  shows "za_names za' = za_names za" "length (za_entry za') = length (za_entry za)" "za_ch_flags za' = za_ch_flags za"
    "map cur_name (za_entry za') = map cur_name (za_entry za)"
    "map orig_name (za_entry za') = map orig_name (za_entry za)"
    "i < length (za_entry za) \<Longrightarrow> same_entry (za_entry za ! i) (za_entry za' ! i)"
    "(\<forall>e \<in> set (za_entry za). entry_ok e) \<Longrightarrow> (\<forall>e \<in> set (za_entry za'). entry_ok e)"
proof -
  obtain es err where za': "za' = za\<lparr>za_entry := es, za_error := err\<rparr>" and es: "list_all2 same_entry (za_entry za) es"
    using assms by (auto simp: same_za_def)
  note len = list_all2_lengthD [OF es] and nth = list_all2_nthD [OF es]
  show "za_names za' = za_names za" "length (za_entry za') = length (za_entry za)" "za_ch_flags za' = za_ch_flags za"
    using za' len by simp_all
  show "map cur_name (za_entry za') = map cur_name (za_entry za)" "map orig_name (za_entry za') = map orig_name (za_entry za)"
    using za' len nth by (auto intro!: nth_equalityI simp: same_entry_views)
  show "i < length (za_entry za) \<Longrightarrow> same_entry (za_entry za ! i) (za_entry za' ! i)" using za' nth by simp
  show "(\<forall>e \<in> set (za_entry za'). entry_ok e)" if ok: "\<forall>e \<in> set (za_entry za). entry_ok e"
  proof
    fix e assume "e \<in> set (za_entry za')"
    then obtain i where i: "i < length es" "e = es ! i" using za' by (auto simp: in_set_conv_nth)
    have "entry_ok (za_entry za ! i)" using ok i(1) len by simp
    then show "entry_ok e" using same_entry_views(3) nth i len by metis
  qed
qed

lemma same_za_inv: "same_za za za' \<Longrightarrow> names_inv za \<Longrightarrow> names_inv za'"
  using same_za_fields [of za za'] unfolding names_inv_def by simp

lemma same_za_room: "same_za za za' \<Longrightarrow> za_room za \<Longrightarrow> za_room za'"
  using same_za_fields [of za za'] unfolding za_room_def by simp

lemma za_reorder: "za\<lparr>za_names := n, za_error := e, za_entry := es\<rparr> = za\<lparr>za_entry := es, za_names := n, za_error := e\<rparr>"
  by simp

lemma same_za_put:
  assumes "same_za za za'" "za_has za idx" "same_entry (za_entry_at za idx) e"
  shows "same_za za (za_put_entry za' idx e)"
proof -
  obtain es err where za': "za' = za\<lparr>za_entry := es, za_error := err\<rparr>" and es: "list_all2 same_entry (za_entry za) es"
    using assms(1) by (rule same_zaE)
  have "list_all2 same_entry (za_entry za) (es[unat idx := e])"
    using es assms(2,3) by (auto simp: list_all2_conv_all_nth nth_list_update za_has_def za_entry_at_def)
  then have "same_za za (za\<lparr>za_error := err, za_entry := es[unat idx := e]\<rparr>)" by (rule same_zaI2)
  then show ?thesis by (simp add: za_put_entry_def za')
qed

lemma same_za_error2: "same_za za za' \<Longrightarrow> same_za za (za'\<lparr>za_error := e\<rparr>)"
  by (erule same_zaE) (simp add: same_zaI)

lemma same_za_error [simp]: "same_za za (za\<lparr>za_error := e\<rparr>)"
  by (rule same_za_error2) simp

lemma same_za_fail: "same_za za (snd (za_fail za ze))"
  by (simp add: za_fail_def)

lemma zip_string_get_any:
  assumes "str_ok s"
  shows "\<exists>v s'. zip_string_get malloc_ok s flags err = (Some v, s', err) \<and> same_str s s'"
proof (cases s)
  case None
  then show ?thesis by (simp add: zip_string_get_def)
next
  case (Some t)
  have ne: "str_raw t \<noteq> []" using assms Some by (simp add: str_ok_def)
  show ?thesis
    using ne Some
    by (auto simp: zip_string_get_def Let_def guess_unknown zip_cp437_to_utf8_def same_str_def str_ok_def
        name_of_def guess_scan_not_unknown split: option.splits)
qed

lemma zip_string_get_same:
  assumes "str_ok s" "flags AND ZIP_FL_ENC_RAW = 0" "flags AND ZIP_FL_ENC_STRICT = 0"
  shows "\<exists>n s'. zip_string_get malloc_ok s flags err = (Some (name_of s, n), s', err) \<and> same_str s s'"
  unfolding same_str_def using zip_string_get_name [OF assms] assms(1) by metis


text \<open>Names and lookups.\<close>

lemma entry_ok_strs:
  assumes "entry_ok e" "(if flags AND ZIP_FL_UNCHANGED \<noteq> 0 \<or> en_changes e = None then en_orig e else en_changes e) = Some de"
  shows "str_ok (de_filename de)"
  using assms by (auto simp: entry_ok_def split: if_splits)

lemma entry_cache_same:
  assumes "(if flags AND ZIP_FL_UNCHANGED \<noteq> 0 \<or> en_changes e = None then en_orig e else en_changes e) = Some de"
    and "same_str (de_filename de) s"
  shows "same_entry e (entry_cache_name flags e s)"
  using assms same_direntI [OF assms(2)] by (auto simp: same_entry_def entry_cache_name_def split: if_splits)

lemma zip_get_dirent_cases:
  obtains (fail) ze where "zip_get_dirent za idx flags err =
      (None, if err = None then snd (za_fail za ze) else za, err_set err ze)"
    "\<not> za_has za idx \<or> flags AND ZIP_FL_UNCHANGED \<noteq> 0 \<and> en_orig (za_entry_at za idx) = None \<or>
     flags AND ZIP_FL_UNCHANGED = 0 \<and> vis_dirent (za_entry_at za idx) = None"
  | (ok) de where "zip_get_dirent za idx flags err = (Some de, za, err)" "za_has za idx"
    "(if flags AND ZIP_FL_UNCHANGED \<noteq> 0 \<or> en_changes (za_entry_at za idx) = None
      then en_orig (za_entry_at za idx) else en_changes (za_entry_at za idx)) = Some de"
    "(if flags AND ZIP_FL_UNCHANGED \<noteq> 0 then en_orig (za_entry_at za idx) else vis_dirent (za_entry_at za idx)) = Some de"
proof (cases "fst (zip_get_dirent za idx flags err)")
  case None
  then show ?thesis
    using fail by (auto simp: zip_get_dirent_def Let_def vis_dirent_def split: if_splits)
next
  case (Some de)
  then show ?thesis
    using ok by (auto simp: zip_get_dirent_def Let_def vis_dirent_def split: if_splits)
qed

definition shown_name :: "u32 \<Rightarrow> 's zip_entry \<Rightarrow> bytes option" where
  "shown_name flags e = (if flags AND ZIP_FL_UNCHANGED \<noteq> 0 then orig_name e else cur_name e)"

lemma zip_get_name_spec:
  assumes ok: "\<forall>e \<in> set (za_entry za). entry_ok e"
    and r: "zip_get_name malloc_ok za idx flags err = (r, za', err')"
  shows "same_za za za'" "r = None \<longleftrightarrow> \<not> za_has za idx \<or> shown_name flags (za_entry_at za idx) = None"
    "flags AND ZIP_FL_ENC_RAW = 0 \<Longrightarrow> flags AND ZIP_FL_ENC_STRICT = 0 \<Longrightarrow> za_has za idx \<Longrightarrow>
       r = shown_name flags (za_entry_at za idx)"
    "err' = None \<longleftrightarrow> err = None" "r \<noteq> None \<Longrightarrow> err' = err"
proof -
  have "same_za za za' \<and> (r = None \<longleftrightarrow> \<not> za_has za idx \<or> shown_name flags (za_entry_at za idx) = None) \<and>
    (flags AND ZIP_FL_ENC_RAW = 0 \<and> flags AND ZIP_FL_ENC_STRICT = 0 \<and> za_has za idx \<longrightarrow>
       r = shown_name flags (za_entry_at za idx)) \<and> (err' = None \<longleftrightarrow> err = None) \<and> (r \<noteq> None \<longrightarrow> err' = err)"
  proof (cases rule: zip_get_dirent_cases [of za idx flags err])
    case (fail ze)
    then show ?thesis
      using r by (auto simp: zip_get_name_def same_za_fail err_set_def shown_name_def orig_name_def cur_name_def split: if_splits)
  next
    case (ok de)
    let ?e = "za_entry_at za idx"
    have "entry_ok ?e" using assms(1) ok(2) by (simp add: za_entry_at_def za_has_def)
    then have str: "str_ok (de_filename de)" using ok(3) by (rule entry_ok_strs)
    define er where "er = (case err of None \<Rightarrow> zip_error_init | Some e \<Rightarrow> e)"
    have er: "map_option (\<lambda>_. er) err = err" by (cases err) (simp_all add: er_def)
    obtain v s where get: "zip_string_get malloc_ok (de_filename de) flags er = (Some v, s, er)"
      and s: "same_str (de_filename de) s" using zip_string_get_any [OF str] by blast
    have shown: "shown_name flags ?e = Some (name_of (de_filename de))"
      using ok(4) by (auto simp: shown_name_def orig_name_def cur_name_def dirent_name_def split: if_splits)
    have raw: "fst v = name_of (de_filename de)" if "flags AND ZIP_FL_ENC_RAW = 0" "flags AND ZIP_FL_ENC_STRICT = 0"
      using zip_string_get_same [OF str that, of er] get by auto
    have "r = Some (fst v)" "za' = za_put_entry za idx (entry_cache_name flags ?e s)" "err' = err"
      using r get er unfolding zip_get_name_def ok(1) by (simp_all flip: er_def)
    then show ?thesis
      using same_za_put [OF same_za_refl ok(2) entry_cache_same [OF ok(3) s]] shown raw ok(2) by simp
  qed
  then show "same_za za za'" "r = None \<longleftrightarrow> \<not> za_has za idx \<or> shown_name flags (za_entry_at za idx) = None"
    "flags AND ZIP_FL_ENC_RAW = 0 \<Longrightarrow> flags AND ZIP_FL_ENC_STRICT = 0 \<Longrightarrow> za_has za idx \<Longrightarrow>
       r = shown_name flags (za_entry_at za idx)"
    "err' = None \<longleftrightarrow> err = None" "r \<noteq> None \<Longrightarrow> err' = err" by auto
qed

lemma zip_name_locate_hash:
  assumes "hash_wf (za_names za)" "flags AND (ZIP_FL_NOCASE OR ZIP_FL_NODIR OR ZIP_FL_ENC_CP437) = 0"
  shows "\<exists>err'. zip_name_locate mem za (Some n) flags err =
    ((if flags AND ZIP_FL_UNCHANGED \<noteq> 0 then orig_index (za_names za) n else cur_index (za_names za) n), za, err')"
  using assms
  by (auto simp: zip_name_locate_def zip_hash_lookup_spec cur_index_def orig_index_def index_get_def index_orig_def
      split: option.split)

lemma locate_scan_same:
  assumes "\<forall>e \<in> set (za_entry za). entry_ok e" "locate_scan malloc_ok flags fname is za err = (i, za', err')"
  shows "same_za za za' \<and> (i = -1 \<or> (\<exists>j \<in> set is. i = int j \<and> za_has za (of_nat j) \<and> shown_name flags (za_entry_at za (of_nat j)) \<noteq> None))"
  using assms
proof (induction "is" arbitrary: za err)
  case (Cons j js)
  obtain r za2 err2 where g: "zip_get_name malloc_ok za (of_nat j) flags err = (r, za2, err2)" by (metis prod_cases3)
  note get = zip_get_name_spec [OF Cons.prems(1) g]
  note f = same_za_fields [OF get(1)]
  have ok2: "\<forall>e \<in> set (za_entry za2). entry_ok e" using f(7) Cons.prems(1) by blast
  have shown: "shown_name flags (za_entry_at za2 k) = shown_name flags (za_entry_at za k)"
    and has: "za_has za2 k = za_has za k" if "za_has za k" for k
    using f(2) f(6) [of "unat k"] that same_entry_views(1,2)
    unfolding za_has_def za_entry_at_def shown_name_def by metis+
  show ?case
  proof (cases "\<exists>fn. r = Some fn \<and> name_matches flags fname fn")
    case True
    then have "i = int j" "za' = za2" using Cons.prems(2) g by auto
    then show ?thesis using get(1,2) True by auto
  next
    case False
    then have "locate_scan malloc_ok flags fname js za2 err2 = (i, za', err')"
      using Cons.prems(2) g by (auto split: option.splits)
    note IH = Cons.IH [OF ok2 this]
    have "za_has za k" if "za_has za2 k" for k using that f(2) by (simp add: za_has_def)
    then show ?thesis using IH same_za_trans [OF get(1)] shown by fastforce
  qed
qed simp

section \<open>Setting a name\<close>

lemma set_name_string_ok:
  assumes "set_name_string malloc_ok name flags err = (Some str, err')"
  shows "str_ok str"
proof (cases "name = None \<or> name = Some []")
  case True
  then show ?thesis using assms by (auto simp: set_name_string_def)
next
  case False
  then obtain n where n: "name = Some n" "n \<noteq> []" by auto
  have guess: "str_raw s' = str_raw s"
    if "zip_guess_encoding (Some s) x = (e, Some s')" for s s' e x
    using that by (auto simp: zip_guess_encoding_def Let_def split: if_splits prod.splits)
  have new: "str_raw s \<noteq> []" if "zip_string_new malloc_ok n (of_nat (length n)) flags err = (Some s, err2)" for s err2
  proof -
    have "(of_nat (length n) :: u16) \<noteq> 0" using that by (auto simp: zip_string_new_def)
    then have ne: "take (unat (of_nat (length n) :: u16)) n \<noteq> []" using n(2) by (auto simp: unat_eq_zero)
    then show ?thesis using that
      by (auto simp: zip_string_new_def Let_def split: if_splits option.splits prod.splits dest: guess)
  qed
  show ?thesis
  proof (cases "zip_string_new malloc_ok n (of_nat (length n)) flags err")
    case (Pair s err2)
    show ?thesis
    proof (cases s)
      case None
      then show ?thesis using assms n Pair by (simp add: set_name_string_def)
    next
      case (Some t)
      then show ?thesis using assms n Pair new [of t err2]
        by (auto simp: set_name_string_def str_ok_def guess_unknown split: if_splits)
    qed
  qed
qed

text \<open>The dirent a name change starts from.\<close>

definition held_dirent :: "'s zip_entry \<Rightarrow> zip_dirent" where
  "held_dirent e = (case en_changes e of Some d \<Rightarrow> d | None \<Rightarrow> (case en_orig e of Some d \<Rightarrow> d | None \<Rightarrow> zip_dirent_init))"

lemma dirent_flag_cleared: "d AND NOT f AND f = 0" for d f :: u32
  by (rule bit_word_eqI) (auto simp: bit_simps)

lemma dirent_flag_set: "f \<noteq> 0 \<Longrightarrow> (d OR f) AND f \<noteq> 0" for d f :: u32
  by (simp add: bit.conj_disj_distrib2)

lemma entry_okD:
  assumes "entry_ok e"
  shows "en_orig e = Some d \<Longrightarrow> str_ok (de_filename d)" "en_changes e = Some d \<Longrightarrow> str_ok (de_filename d)"
    "en_deleted e \<Longrightarrow> en_changes e = None"
    "en_changes e = Some d \<Longrightarrow> de_changed d AND ZIP_DIRENT_FILENAME = 0 \<Longrightarrow> orig_name e = Some (dirent_name d)"
  using assms by (auto simp: entry_ok_def)

lemma set_name_store_new:
  assumes "\<And>o1. en_orig e = Some o1 \<Longrightarrow> str_ok (de_filename o1)" "str_ok str" "\<not> en_deleted e" "en_changes e = Some d"
  shows "cur_name (set_name_store False str e) = Some (name_of str)"
    "orig_name (set_name_store False str e) = orig_name e" "entry_ok (set_name_store False str e)"
  using assms dirent_flag_set [of ZIP_DIRENT_FILENAME "de_changed d"]
  by (auto simp: set_name_store_def cur_name_def vis_dirent_def orig_name_def entry_ok_def dirent_name_def)

lemma set_name_store_same:
  assumes ok: "entry_ok e" "\<not> en_deleted e" and o: "en_orig e = Some o1"
  shows "cur_name (set_name_store True str e) = Some (dirent_name o1)"
    "orig_name (set_name_store True str e) = orig_name e" "entry_ok (set_name_store True str e)"
proof -
  have "cur_name (set_name_store True str e) = Some (dirent_name o1) \<and>
    orig_name (set_name_store True str e) = orig_name e \<and> entry_ok (set_name_store True str e)"
  proof (cases "\<exists>d. en_changes e = Some d \<and> de_changed d AND ZIP_DIRENT_FILENAME \<noteq> 0")
    case True
    then obtain d where d: "en_changes e = Some d" "de_changed d AND ZIP_DIRENT_FILENAME \<noteq> 0" by blast
    then show ?thesis using ok o entry_okD(1) [OF ok(1) o]
      by (auto simp: set_name_store_def Let_def cur_name_def vis_dirent_def orig_name_def entry_ok_def dirent_name_def)
  next
    case False
    then have "set_name_store True str e = e" by (auto simp: set_name_store_def split: option.split)
    then show ?thesis using ok o False entry_okD(4) [OF ok(1)]
      by (cases "en_changes e") (auto simp: cur_name_def vis_dirent_def orig_name_def)
  qed
  then show "cur_name (set_name_store True str e) = Some (dirent_name o1)"
    "orig_name (set_name_store True str e) = orig_name e" "entry_ok (set_name_store True str e)" by auto
qed

text \<open>What a name change needs of the entry: it shows a name, or it is fresh.\<close>

definition nameable :: "'s zip_entry \<Rightarrow> bool" where
  "nameable e = (entry_ok e \<and> (cur_name e \<noteq> None \<or> e = zip_entry_init))"

lemma nameable_not_deleted: "nameable e \<Longrightarrow> \<not> en_deleted e"
  by (auto simp: nameable_def cur_name_def vis_dirent_def zip_entry_init_def entry_ok_def split: if_splits)

lemma nameable_held: "nameable e \<Longrightarrow> cur_name e = None \<or> cur_name e = Some (dirent_name (held_dirent e))"
  using nameable_not_deleted [of e]
  by (auto simp: cur_name_def vis_dirent_def held_dirent_def split: option.splits)

text \<open>The new indices, after claiming one name and releasing another.\<close>

lemma index_agrees_rename:
  assumes ag: "index_agrees f ns" and i: "i < length ns" and ns: "ns ! i = None \<or> ns ! i = Some old"
    and free: "f new = -1" and g: "\<And>m. m \<noteq> [] \<Longrightarrow> g m = (if m = new then int i else if m = old then -1 else f m)"
    and fresh: "ns ! i = None \<Longrightarrow> old = []"
  shows "index_agrees g (ns[i := Some new])"
proof -
  define f1 where "f1 = (\<lambda>m. if m \<noteq> [] \<and> m = old then -1 else f m)"
  have ag1: "index_agrees f1 (ns[i := None])"
  proof (cases "ns ! i")
    case None
    then have "f1 = f" using fresh by (auto simp: f1_def)
    then show ?thesis using ag None by (metis list_update_id)
  next
    case (Some n)
    then show ?thesis using ns by (intro index_agrees_lose [OF ag i, of old]) (auto simp: f1_def)
  qed
  have "index_agrees g ((ns[i := None])[i := Some new])"
    using i free g by (intro index_agrees_gain [OF ag1]) (auto simp: f1_def)
  then show ?thesis by simp
qed


definition name_change :: "malloc \<Rightarrow> 's zip_archive \<Rightarrow> u64 \<Rightarrow> bytes \<Rightarrow> bytes option \<Rightarrow> 's zip_entry \<Rightarrow> 's zip_entry \<Rightarrow>
    int \<times> 's zip_archive" where
  "name_change mem za idx new old_name e e' =
     (case zip_hash_add mem (za_names za) (Some new) idx 0 (za_error za) of
        (False, names, err) \<Rightarrow> (-1, (za_put_entry za idx e)\<lparr>za_names := names, za_error := err\<rparr>)
      | (True, names, err) \<Rightarrow>
          (0, (za_put_entry za idx e')
                \<lparr>za_names := (if old_name = None then names
                              else fst (snd (zip_hash_delete mem names old_name zip_error_init))), za_error := err\<rparr>))"

lemma held_same:
  assumes "same_entry e e'"
  shows "dirent_name (held_dirent e') = dirent_name (held_dirent e)"
    "str_ok (de_filename (held_dirent e)) \<Longrightarrow> str_ok (de_filename (held_dirent e'))"
  using assms unfolding same_entry_def held_dirent_def
  by (auto elim!: option.rel_cases simp: same_dirent_fields)

lemma dirent_init_name [simp]: "de_filename zip_dirent_init = None"
  by (simp add: zip_dirent_init_def)

lemma cache_held:
  "same_str (de_filename (held_dirent e)) s \<Longrightarrow> en_changes e \<noteq> None \<or> en_orig e \<noteq> None \<Longrightarrow>
   same_entry e (entry_cache_name 0 e s)"
  by (auto simp: entry_cache_name_def same_entry_def held_dirent_def intro: same_direntI split: option.splits)

lemma set_name_change_steps:
  assumes ok: "nameable (za_entry_at za idx)" and str: "str_ok str"
  shows "\<exists>new old_name e e'. set_name_change malloc_ok za idx str = name_change malloc_ok za idx new old_name e e' \<and>
    orig_name e = orig_name (za_entry_at za idx) \<and> orig_name e' = orig_name (za_entry_at za idx) \<and>
    cur_name e' = Some new \<and> entry_ok e' \<and>
    (cur_name (za_entry_at za idx) \<noteq> None \<longrightarrow> cur_name e = cur_name (za_entry_at za idx) \<and> entry_ok e) \<and>
    (old_name = None \<longrightarrow> dirent_name (held_dirent (za_entry_at za idx)) = []) \<and>
    (old_name \<noteq> None \<longrightarrow> old_name = Some (dirent_name (held_dirent (za_entry_at za idx))))"
proof -
  let ?e = "za_entry_at za idx"
  define same where "same = (case en_orig ?e of None \<Rightarrow> False | Some d \<Rightarrow> zip_string_equal (de_filename d) str)"
  define changes where "changes = (if \<not> same \<and> en_changes ?e = None then zip_dirent_clone malloc_ok (en_orig ?e) else en_changes ?e)"
  define e1 where "e1 = ?e\<lparr>en_changes := changes\<rparr>"
  have eok: "entry_ok ?e" using ok by (simp add: nameable_def)
  have nd: "\<not> en_deleted ?e" using ok by (rule nameable_not_deleted)
  have orig: "\<exists>o1. en_orig ?e = Some o1" if same using that by (simp add: same_def split: option.splits)
  have ch: "\<exists>d. changes = Some d" if "\<not> same"
    using that by (auto simp: changes_def zip_dirent_clone_def)
  have held: "dirent_name (held_dirent e1) = dirent_name (held_dirent ?e)"
    by (auto simp: e1_def changes_def held_dirent_def zip_dirent_clone_def dirent_name_def split: option.split)
  have cur1: "cur_name e1 = cur_name ?e \<and> entry_ok e1" if "cur_name ?e \<noteq> None"
    using that eok nd entry_okD(1) [OF eok]
    by (auto simp: e1_def changes_def cur_name_def vis_dirent_def entry_ok_def orig_name_def zip_dirent_clone_def dirent_name_def
        split: option.splits)
  have orig1: "en_orig e1 = en_orig ?e" "\<not> en_deleted e1" using nd by (simp_all add: e1_def)
  have held_ok: "str_ok (de_filename (held_dirent e1))"
    using entry_okD(1,2) [OF eok]
    by (auto simp: e1_def changes_def held_dirent_def zip_dirent_clone_def split: option.split)
  define s0 where "s0 = (if same then de_filename (the (en_orig ?e)) else str)"
  have "str_ok s0" using str orig entry_okD(1) [OF eok] by (auto simp: s0_def)
  then obtain n1 s where get1: "zip_string_get malloc_ok s0 0 (za_error za) = (Some (name_of s0, n1), s, za_error za)"
    and s: "same_str s0 s" using zip_string_get_same [of s0 0 "za_error za"] by auto
  define e2 where "e2 = (if same then e1\<lparr>en_orig := map_option (\<lambda>d. d\<lparr>de_filename := s\<rparr>) (en_orig e1)\<rparr> else e1)"
  define str2 where "str2 = (if same then str else s)"
  have e2: "same_entry e1 e2"
    using s orig orig1(1) same_direntI by (auto simp: e2_def same_entry_def s0_def)
  define old_str where "old_str = (case en_changes e2 of Some d \<Rightarrow> de_filename d
      | None \<Rightarrow> (case en_orig e2 of Some d \<Rightarrow> de_filename d | None \<Rightarrow> None))"
  have old_held: "old_str = de_filename (held_dirent e2)" by (auto simp: old_str_def held_dirent_def split: option.split)
  have old: "name_of old_str = dirent_name (held_dirent ?e)" "str_ok old_str"
    using held_same [OF e2] held_ok held by (simp_all add: old_held dirent_name_def)
  obtain n2 t where get2: "zip_string_get malloc_ok old_str 0 (za_error za) = (Some (name_of old_str, n2), t, za_error za)"
    and t: "same_str old_str t" using zip_string_get_same [OF old(2), of 0 "za_error za"] by auto
  define e3 where "e3 = (if old_str = None then e2 else entry_cache_name 0 e2 t)"
  have e3: "same_entry e2 e3"
  proof (cases "old_str = None")
    case False
    then have "en_changes e2 \<noteq> None \<or> en_orig e2 \<noteq> None" by (auto simp: old_str_def split: option.splits)
    then show ?thesis using cache_held [OF t [unfolded old_held]] False by (simp add: e3_def)
  qed (simp add: e3_def)
  define old_name where "old_name = (if old_str = None then None else Some (name_of old_str))"
  have sel: "(case old_str of None \<Rightarrow> (Some None, None, za_error za)
      | Some x \<Rightarrow> (case zip_string_get malloc_ok old_str 0 (za_error za) of (r, s, err) \<Rightarrow> (map_option (Some \<circ> fst) r, s, err)))
    = (Some old_name, if old_str = None then None else t, za_error za)"
    using get2 by (cases old_str) (simp_all add: old_name_def)
  have step: "set_name_change malloc_ok za idx str =
      name_change malloc_ok za idx (name_of s0) old_name e3 (set_name_store same str2 e3)"
  proof -
    have c: "(\<not> same \<and> changes = None) = False" using ch by auto
    have s0': "(if same then de_filename (the (en_orig e1)) else str) = s0" by (simp add: s0_def orig1(1))
    have two: "name_change malloc_ok za idx (name_of s0) old_name
        (if old_str = None then e2 else entry_cache_name 0 e2 (if old_str = None then None else t)) x =
      name_change malloc_ok za idx (name_of s0) old_name e3 x" for x
      by (cases old_str) (simp_all add: e3_def)
    have three: "set_name_store same str2 (if old_str = None then e2 else entry_cache_name 0 e2 (if old_str = None then None else t)) =
        set_name_store same str2 e3"
      by (cases old_str) (simp_all add: e3_def)
    show ?thesis
      unfolding two [symmetric] unfolding set_name_change_def Let_def same_def [symmetric] changes_def [symmetric] e1_def [symmetric]
        c if_False s0' get1 option.case prod.case e2_def [symmetric] str2_def [symmetric] old_str_def [symmetric] sel three
        name_change_def ..
  qed
  note v13 = same_entry_views [OF same_entry_trans [OF e2 e3]]
  have fin: "cur_name (set_name_store same str2 e3) = Some (name_of s0) \<and>
      orig_name (set_name_store same str2 e3) = orig_name e3 \<and> entry_ok (set_name_store same str2 e3)"
  proof (cases same)
    case True
    then obtain o1 where o1: "en_orig ?e = Some o1" using orig by blast
    have "orig_name e3 = Some (name_of s0)" using v13(2) o1 True by (simp add: orig_name_def orig1(1) s0_def dirent_name_def)
    then obtain o3 where o3: "en_orig e3 = Some o3" "dirent_name o3 = name_of s0" by (auto simp: orig_name_def)
    have "entry_ok e3"
    proof (cases "cur_name ?e = None")
      case True
      then have "?e = zip_entry_init" using ok by (simp add: nameable_def)
      then show ?thesis using o1 by (simp add: zip_entry_init_def)
    next
      case False
      then show ?thesis using cur1 v13(3) by blast
    qed
    moreover have "\<not> en_deleted e3" using v13(4) orig1(2) by simp
    ultimately show ?thesis using set_name_store_same [OF _ _ o3(1), of str2] True o3(2) by simp
  next
    case False
    then have "en_changes e1 \<noteq> None" using ch by (simp add: e1_def)
    then obtain d3 where d3: "en_changes e3 = Some d3" using v13(6) by auto
    have "str_ok (de_filename o3)" if "en_orig e3 = Some o3" for o3
      using that same_entry_trans [OF e2 e3] entry_okD(1) [OF eok]
      by (auto simp: same_entry_def orig1(1) option_rel_Some2 same_dirent_fields)
    moreover have "str_ok str2" "name_of str2 = name_of s0" using s str False by (auto simp: str2_def s0_def same_str_def)
    moreover have "\<not> en_deleted e3" using v13(4) orig1(2) by simp
    ultimately show ?thesis using set_name_store_new [OF _ _ _ d3, of str2] False by auto
  qed
  have o: "orig_name e3 = orig_name ?e" using v13(2) by (simp add: orig_name_def orig1(1))
  show ?thesis
    using step fin o cur1 v13(1,3) old(1)
    by (intro exI [of _ "name_of s0"] exI [of _ old_name] exI [of _ e3] exI [of _ "set_name_store same str2 e3"])
       (auto simp: old_name_def)
qed


lemma names_inv_put:
  assumes inv: "names_inv za" and has: "za_has za idx" and e': "entry_ok e'" "orig_name e' = orig_name (za_entry_at za idx)"
    and h: "hash_wf names" "orig_index names = orig_index (za_names za)"
    and cur: "index_agrees (cur_index names) ((map cur_name (za_entry za))[unat idx := cur_name e'])"
  shows "names_inv ((za_put_entry za idx e')\<lparr>za_names := names, za_error := err\<rparr>)"
proof -
  have i: "unat idx < length (za_entry za)" using has by (simp add: za_has_def)
  have "map orig_name ((za_entry za)[unat idx := e']) = map orig_name (za_entry za)"
    using e'(2) i by (simp add: map_update za_entry_at_def list_update_same_conv)
  moreover have "\<forall>e \<in> set ((za_entry za)[unat idx := e']). entry_ok e"
    using inv e'(1) set_update_subset_insert [of "za_entry za" "unat idx" e'] by (auto simp: names_inv_def)
  ultimately show ?thesis
    using inv h cur by (simp add: names_inv_def za_put_entry_def map_update)
qed

lemma names_inv_same_index:
  assumes "names_inv za" "hash_wf names" "orig_index names = orig_index (za_names za)" "cur_index names = cur_index (za_names za)"
  shows "names_inv (za\<lparr>za_names := names, za_error := err\<rparr>)"
  using assms by (simp add: names_inv_def)

lemma room_index: "za_room za \<Longrightarrow> za_has za idx \<Longrightarrow> idx \<le> ZIP_INT64_MAX \<and> int (unat idx) = uint idx"
  by (simp add: za_room_def za_has_def word_le_nat_alt)

lemma set_name_change_inv:
  assumes inv: "names_inv za" and ok: "nameable (za_entry_at za idx)" and has: "za_has za idx" and room: "za_room za"
    and str: "str_ok str" and r: "set_name_change malloc_ok za idx str = (r, za')"
  shows "\<exists>e' names err. za' = (za_put_entry za idx e')\<lparr>za_names := names, za_error := err\<rparr> \<and> hash_wf names \<and>
    orig_index names = orig_index (za_names za) \<and> (r = 0 \<and> cur_name e' \<noteq> None \<or> r = -1 \<and> cur_index names = cur_index (za_names za)) \<and>
    (r = 0 \<or> cur_name (za_entry_at za idx) \<noteq> None \<longrightarrow> names_inv za')"
proof -
  let ?e = "za_entry_at za idx"
  obtain new old_name e e' where step: "set_name_change malloc_ok za idx str = name_change malloc_ok za idx new old_name e e'"
    and e: "orig_name e = orig_name ?e" "orig_name e' = orig_name ?e" "cur_name e' = Some new" "entry_ok e'"
      "cur_name ?e \<noteq> None \<longrightarrow> cur_name e = cur_name ?e \<and> entry_ok e"
    and old: "old_name = None \<longrightarrow> dirent_name (held_dirent ?e) = []"
      "old_name \<noteq> None \<longrightarrow> old_name = Some (dirent_name (held_dirent ?e))"
    using set_name_change_steps [OF ok str] by blast
  have i: "unat idx < length (za_entry za)" "?e = za_entry za ! unat idx" using has by (simp_all add: za_has_def za_entry_at_def)
  have wf: "hash_wf (za_names za)" and cur: "index_agrees (cur_index (za_names za)) (map cur_name (za_entry za))"
    using inv by (simp_all add: names_inv_def)
  note idx = room_index [OF room has]
  obtain b names err where a: "zip_hash_add malloc_ok (za_names za) (Some new) idx 0 (za_error za) = (b, names, err)"
    by (metis prod_cases3)
  have room': "unat (hash_nentries (za_names za)) + 1 < 2 ^ 64" using room by (simp add: za_room_def)
  note add = hash_add_index [OF wf conjunct1 [OF idx] room' a]
  show ?thesis
  proof (cases b)
    case False
    have za': "r = -1" "za' = (za_put_entry za idx e)\<lparr>za_names := names, za_error := err\<rparr>"
      using r step a False by (simp_all add: name_change_def)
    have "names_inv za'" if vis: "cur_name ?e \<noteq> None"
    proof -
      have "(map cur_name (za_entry za))[unat idx := cur_name e] = map cur_name (za_entry za)"
        using e(5) vis i by (simp add: list_update_same_conv)
      then show ?thesis unfolding za'(2) using add False e vis cur
        by (intro names_inv_put [OF inv has]) auto
    qed
    then show ?thesis using za' add False by auto
  next
    case True
    define names2 where "names2 = (if old_name = None then names else fst (snd (zip_hash_delete malloc_ok names old_name zip_error_init)))"
    have za': "r = 0" "za' = (za_put_entry za idx e')\<lparr>za_names := names2, za_error := err\<rparr>"
      using r step a True by (simp_all add: name_change_def names2_def)
    let ?old = "dirent_name (held_dirent ?e)"
    have n2: "hash_wf names2 \<and> orig_index names2 = orig_index names \<and>
        (\<forall>m. m \<noteq> [] \<longrightarrow> cur_index names2 m = (if m = ?old then -1 else cur_index names m))"
    proof (cases old_name)
      case None
      then show ?thesis using old(1) add(1) by (simp add: names2_def)
    next
      case (Some o1)
      obtain b2 names3 err2 where d: "zip_hash_delete malloc_ok names (Some o1) zip_error_init = (b2, names3, err2)"
        by (metis prod_cases3)
      show ?thesis using hash_delete_index [OF add(1) d] Some d old(2) by (simp add: names2_def)
    qed
    have free: "cur_index (za_names za) new = -1" using add(2) True by simp
    have at: "map cur_name (za_entry za) ! unat idx = cur_name ?e" using i by simp
    have held: "cur_name ?e = None \<or> cur_name ?e = Some ?old" using nameable_held [OF ok] .
    have fresh: "?old = []" if "cur_name ?e = None"
      using that ok by (auto simp: nameable_def zip_entry_init_def held_dirent_def dirent_name_def)
    have neq: "new \<noteq> ?old" if "new \<noteq> []"
    proof
      assume eq: "new = ?old"
      then have "cur_name ?e = Some ?old" using held fresh that by auto
      then have "cur_index (za_names za) ?old = int (unat idx)"
        using at i that eq by (intro index_agreesD [OF cur]) simp_all
      then have "uint idx = -1" using free eq by simp
      then show False using uint_ge_0 [of idx] by linarith
    qed
    have "index_agrees (cur_index names2) ((map cur_name (za_entry za))[unat idx := Some new])"
    proof (rule index_agrees_rename [OF cur])
      show "unat idx < length (map cur_name (za_entry za))" using i by simp
      show "map cur_name (za_entry za) ! unat idx = None \<or> map cur_name (za_entry za) ! unat idx = Some ?old"
        using held at by simp
      show "cur_index (za_names za) new = -1" by (rule free)
      show "cur_index names2 m = (if m = new then int (unat idx) else if m = ?old then -1 else cur_index (za_names za) m)"
        if "m \<noteq> []" for m using that n2 add(4) True neq idx by auto
      show "?old = []" if "map cur_name (za_entry za) ! unat idx = None" using fresh that at by simp
    qed
    then have "names_inv za'" unfolding za'(2)
      using n2 add(3) e by (intro names_inv_put [OF inv has]) auto
    then show ?thesis using za' n2 add(3) e(3) by auto
  qed
qed


lemma same_za_at:
  assumes "same_za za za'" "za_has za idx"
  shows "za_has za' idx" "same_entry (za_entry_at za idx) (za_entry_at za' idx)"
  using same_za_fields(2,6) [OF assms(1)] assms(2) by (simp_all add: za_has_def za_entry_at_def)

lemma set_name_locate:
  assumes "names_inv za"
  shows "fst (zip_name_locate malloc_ok za name 0 None) = (case name of None \<Rightarrow> -1 | Some n \<Rightarrow> cur_index (za_names za) n)"
proof (cases name)
  case None
  then show ?thesis by (simp add: zip_name_locate_def)
next
  case (Some n)
  have wf: "hash_wf (za_names za)" using assms by (simp add: names_inv_def)
  obtain err' where "zip_name_locate malloc_ok za (Some n) 0 None = (cur_index (za_names za) n, za, err')"
    using zip_name_locate_hash [OF wf, of 0 malloc_ok n None] by auto
  then show ?thesis using Some by simp
qed

text \<open>\<open>_zip_set_name\<close> keeps the invariant for an entry that shows a name; for a fresh entry it does so
  unless it fails, and then the indices are as before.\<close>

lemma zip_set_name_inv:
  assumes inv: "names_inv za" and ok: "za_has za idx \<Longrightarrow> nameable (za_entry_at za idx)" and room: "za_room za"
    and r: "zip_set_name malloc_ok za idx name flags = (r, za')"
  shows "(r = 0 \<or> r = -1) \<and> length (za_entry za') = length (za_entry za) \<and>
    (\<forall>i < length (za_entry za). i \<noteq> unat idx \<longrightarrow> za_entry za' ! i = za_entry za ! i) \<and>
    hash_wf (za_names za') \<and> orig_index (za_names za') = orig_index (za_names za) \<and>
    (r = -1 \<longrightarrow> cur_index (za_names za') = cur_index (za_names za)) \<and>
    (r = 0 \<or> cur_name (za_entry_at za idx) \<noteq> None \<longrightarrow> names_inv za') \<and>
    (r = 0 \<longrightarrow> za_has za idx \<and> nameable (za_entry_at za' idx))"
proof -
  have err: "names_inv (za\<lparr>za_error := e\<rparr>)" "hash_wf (za_names za)" for e
    using inv by (simp_all add: names_inv_def)
  have triv: ?thesis if "\<exists>e. za' = za\<lparr>za_error := e\<rparr>" "r = 0 \<and> za_has za idx \<or> r = -1"
    using that err ok by (auto simp: za_entry_at_def)
  show ?thesis
  proof (cases "\<not> za_has za idx \<or> ZIP_IS_RDONLY za \<or> fst (set_name_string malloc_ok name flags (za_error za)) = None")
    case True
    have "\<exists>e. za' = za\<lparr>za_error := e\<rparr>" "r = 0 \<and> za_has za idx \<or> r = -1"
      using True r unfolding zip_set_name_def
      by (auto simp: za_fail_def split: if_splits prod.splits option.splits)
    then show ?thesis by (rule triv)
  next
    case False
    then have has: "za_has za idx" by simp
    obtain str e where s: "set_name_string malloc_ok name flags (za_error za) = (Some str, e)"
      using False by (cases "set_name_string malloc_ok name flags (za_error za)") auto
    define i where "i = fst (zip_name_locate malloc_ok (za\<lparr>za_error := e\<rparr>) name 0 None)"
    have eq: "zip_set_name malloc_ok za idx name flags =
        (if i \<ge> 0 \<and> word_of_int i \<noteq> idx then za_fail (za\<lparr>za_error := e\<rparr>) ZIP_ER_EXISTS
         else if i \<ge> 0 then (0, za\<lparr>za_error := e\<rparr>) else set_name_change malloc_ok (za\<lparr>za_error := e\<rparr>) idx str)"
      using False s by (simp add: zip_set_name_def i_def)
    show ?thesis
    proof (cases "i \<ge> 0")
      case True
      have "\<exists>e. za' = za\<lparr>za_error := e\<rparr>" "r = 0 \<and> za_has za idx \<or> r = -1"
        using r eq True has by (auto simp: za_fail_def split: if_splits)
      then show ?thesis by (rule triv)
    next
      case neg: False
      have at: "za_entry_at (za\<lparr>za_error := e\<rparr>) idx = za_entry_at za idx" "za_has (za\<lparr>za_error := e\<rparr>) idx"
        "za_room (za\<lparr>za_error := e\<rparr>)"
        using has room by (simp_all add: za_entry_at_def za_has_def za_room_def)
      have "set_name_change malloc_ok (za\<lparr>za_error := e\<rparr>) idx str = (r, za')" using r eq neg by simp
      from set_name_change_inv [OF err(1) _ at(2,3) set_name_string_ok [OF s] this] ok [OF has] at(1)
      obtain e' names err where z: "za' = (za_put_entry (za\<lparr>za_error := e\<rparr>) idx e')\<lparr>za_names := names, za_error := err\<rparr>"
        "hash_wf names" "orig_index names = orig_index (za_names za)"
        "r = 0 \<and> cur_name e' \<noteq> None \<or> r = -1 \<and> cur_index names = cur_index (za_names za)"
        "r = 0 \<or> cur_name (za_entry_at za idx) \<noteq> None \<longrightarrow> names_inv za'" by auto
      have e': "za_entry_at za' idx = e'" using has by (simp add: z(1) za_put_entry_def za_entry_at_def za_has_def)
      have "nameable e'" if "r = 0"
        using z(4,5) that e' has by (auto simp: nameable_def names_inv_def z(1) za_put_entry_def za_has_def set_update_memI)
      then show ?thesis using z has e' by (auto simp: za_put_entry_def)
    qed
  qed
qed


section \<open>Adding and replacing\<close>

lemma dirent_comp_bits:
  "(x AND NOT ZIP_DIRENT_COMP_METHOD) AND ZIP_DIRENT_FILENAME = x AND ZIP_DIRENT_FILENAME"
  "(x OR ZIP_DIRENT_COMP_METHOD) AND ZIP_DIRENT_FILENAME = x AND ZIP_DIRENT_FILENAME" for x :: u32
proof -
  have c: "ZIP_DIRENT_COMP_METHOD AND ZIP_DIRENT_FILENAME = 0" by simp
  show "(x OR ZIP_DIRENT_COMP_METHOD) AND ZIP_DIRENT_FILENAME = x AND ZIP_DIRENT_FILENAME"
    unfolding bit.conj_disj_distrib2 c by simp
  have "NOT ZIP_DIRENT_COMP_METHOD AND ZIP_DIRENT_FILENAME = (ZIP_DIRENT_FILENAME :: u32)" by simp
  then show "(x AND NOT ZIP_DIRENT_COMP_METHOD) AND ZIP_DIRENT_FILENAME = x AND ZIP_DIRENT_FILENAME"
    by (metis and.assoc)
qed

lemma unchange_data_views:
  assumes ok: "entry_ok e" and nd: "\<not> en_deleted e"
  shows "cur_name (zip_unchange_data e) = cur_name e" "orig_name (zip_unchange_data e) = orig_name e"
    "entry_ok (zip_unchange_data e)" "\<not> en_deleted (zip_unchange_data e)" "en_orig (zip_unchange_data e) = en_orig e"
proof -
  show "\<not> en_deleted (zip_unchange_data e)" "en_orig (zip_unchange_data e) = en_orig e"
    by (auto simp: zip_unchange_data_def Let_def split: option.split)
  have "cur_name (zip_unchange_data e) = cur_name e \<and> orig_name (zip_unchange_data e) = orig_name e \<and>
      entry_ok (zip_unchange_data e)"
  proof (cases "\<exists>d. en_changes e = Some d \<and> de_changed d AND ZIP_DIRENT_COMP_METHOD \<noteq> 0 \<and>
      de_comp_method d = ZIP_CM_REPLACED_DEFAULT")
    case True
    then obtain d where d: "en_changes e = Some d" "de_changed d AND ZIP_DIRENT_COMP_METHOD \<noteq> 0"
      "de_comp_method d = ZIP_CM_REPLACED_DEFAULT" by blast
    let ?c = "de_changed d AND NOT ZIP_DIRENT_COMP_METHOD"
    have eq: "zip_unchange_data e = e\<lparr>en_source := None, en_deleted := False,
        en_changes := (if ?c = 0 then None else Some (d\<lparr>de_changed := ?c\<rparr>))\<rparr>"
      using d by (simp add: zip_unchange_data_def Let_def)
    show ?thesis
    proof (cases "?c = 0")
      case True
      have "de_changed d AND ZIP_DIRENT_FILENAME = ?c AND ZIP_DIRENT_FILENAME" by (rule dirent_comp_bits(1) [symmetric])
      also have "\<dots> = 0" unfolding True by simp
      finally have "de_changed d AND ZIP_DIRENT_FILENAME = 0" .
      then show ?thesis using entry_okD(4) [OF ok d(1)] ok d(1) True unfolding eq
        by (auto simp: cur_name_def vis_dirent_def orig_name_def entry_ok_def)
    next
      case False
      then show ?thesis using ok d(1) dirent_comp_bits(1) [of "de_changed d"] unfolding eq
        by (auto simp: cur_name_def vis_dirent_def orig_name_def entry_ok_def dirent_name_def)
    qed
  next
    case False
    then have "zip_unchange_data e = e\<lparr>en_source := None, en_deleted := False\<rparr>"
      by (auto simp: zip_unchange_data_def Let_def split: option.split)
    then show ?thesis using ok nd by (auto simp: cur_name_def vis_dirent_def orig_name_def entry_ok_def)
  qed
  then show "cur_name (zip_unchange_data e) = cur_name e" "orig_name (zip_unchange_data e) = orig_name e"
    "entry_ok (zip_unchange_data e)" by blast+
qed

text \<open>Replacing an entry by one with the same names.\<close>

lemma names_inv_keep:
  assumes inv: "names_inv za" and has: "za_has za idx" and e: "entry_ok e" "orig_name e = orig_name (za_entry_at za idx)"
    "cur_name e = cur_name (za_entry_at za idx)"
  shows "names_inv (za_put_entry za idx e)"
proof -
  have i: "unat idx < length (za_entry za)" using has by (simp add: za_has_def)
  have "(map cur_name (za_entry za))[unat idx := cur_name e] = map cur_name (za_entry za)"
    using e(3) i by (simp add: za_entry_at_def list_update_same_conv)
  then have "names_inv ((za_put_entry za idx e)\<lparr>za_names := za_names za, za_error := za_error za\<rparr>)"
    using inv e by (intro names_inv_put [OF inv has]) (auto simp: names_inv_def)
  then show ?thesis by (simp add: za_put_entry_def)
qed

lemma put_entry_twice [simp]: "za_put_entry (za_put_entry za idx e) idx e' = za_put_entry za idx e'"
  by (simp add: za_put_entry_def)

lemma set_entry_source_inv:
  assumes inv: "names_inv za" and has: "za_has za (word_of_int i)" and nd: "\<not> en_deleted (za_entry_at za (word_of_int i))"
    and r: "set_entry_source malloc_ok za i source = (r, za')"
  shows "names_inv za' \<and> r = i \<and> za_names za' = za_names za"
proof -
  let ?e = "za_entry_at za (word_of_int i)"
  let ?u = "zip_unchange_data ?e"
  have ok: "entry_ok ?e" using inv has by (simp add: names_inv_def za_entry_at_def za_has_def)
  note u = unchange_data_views [OF ok nd]
  have src: "cur_name (e\<lparr>en_source := x\<rparr>) = cur_name e" "orig_name (e\<lparr>en_source := x\<rparr>) = orig_name e"
    "entry_ok (e\<lparr>en_source := x\<rparr>) = entry_ok e" for e :: "'a zip_entry" and x
    by (auto simp: cur_name_def vis_dirent_def orig_name_def entry_ok_def)
  show ?thesis
  proof (cases "en_orig ?u \<noteq> None \<and>
      (case en_changes ?u of None \<Rightarrow> True | Some d \<Rightarrow> de_changed d AND ZIP_DIRENT_COMP_METHOD = 0)")
    case False
    then have "za' = za_put_entry za (word_of_int i) (?u\<lparr>en_source := Some source\<rparr>)" "r = i"
      using r unfolding set_entry_source_def Let_def by auto
    then show ?thesis using names_inv_keep [OF inv has, of "?u\<lparr>en_source := Some source\<rparr>"] u src by (simp add: za_put_entry_def)
  next
    case True
    define d where "d = (case en_changes ?u of None \<Rightarrow> (the (en_orig ?u))\<lparr>de_changed := 0, de_cloned := True\<rparr> | Some d \<Rightarrow> d)"
    let ?n = "?u\<lparr>en_changes := Some (d\<lparr>de_comp_method := ZIP_CM_REPLACED_DEFAULT,
        de_changed := de_changed d OR ZIP_DIRENT_COMP_METHOD\<rparr>), en_source := Some source\<rparr>"
    have c: "(if en_changes ?u = None then zip_dirent_clone malloc_ok (en_orig ?u) else en_changes ?u) = Some d"
      using True by (auto simp: d_def zip_dirent_clone_def split: option.split)
    have za': "za' = za_put_entry za (word_of_int i) ?n" "r = i"
      using r True c unfolding set_entry_source_def Let_def by auto
    have "cur_name ?n = cur_name ?u \<and> orig_name ?n = orig_name ?u \<and> entry_ok ?n"
      using True u(3,4) dirent_comp_bits(2) [of "de_changed d"]
      by (auto simp: d_def cur_name_def vis_dirent_def orig_name_def entry_ok_def dirent_name_def split: option.splits)
    then show ?thesis unfolding za' using names_inv_keep [OF inv has, of ?n] u by (simp add: za_put_entry_def)
  qed
qed


lemma unat_index: "za_room za \<Longrightarrow> j < length (za_entry za) \<Longrightarrow> unat (of_nat j :: u64) = j"
  by (simp add: za_room_def unat_of_nat)

lemma at_index: "za_room za \<Longrightarrow> j < length (za_entry za) \<Longrightarrow>
    za_has za (of_nat j) \<and> za_entry_at za (of_nat j) = za_entry za ! j"
  by (simp add: za_has_def za_entry_at_def unat_index)

lemma zip_name_locate_cur:
  assumes inv: "names_inv za" and room: "za_room za" and fl: "flags AND ZIP_FL_UNCHANGED = 0" and n: "n \<noteq> []"
    and r: "zip_name_locate malloc_ok za (Some n) flags err = (k, za1, err1)"
  shows "same_za za za1 \<and> (k = -1 \<or> (\<exists>j < length (za_entry za). k = int j \<and> cur_name (za_entry za ! j) \<noteq> None))"
proof (cases "flags AND (ZIP_FL_NOCASE OR ZIP_FL_NODIR OR ZIP_FL_ENC_CP437) = 0")
  case True
  have wf: "hash_wf (za_names za)" and ag: "index_agrees (cur_index (za_names za)) (map cur_name (za_entry za))"
    using inv by (simp_all add: names_inv_def)
  have k: "za1 = za" "k = cur_index (za_names za) n"
    using zip_name_locate_hash [OF wf True, of malloc_ok n err] r fl by auto
  have "k \<ge> -1" using ag n k by (simp add: index_agrees_def)
  show ?thesis
  proof (cases "k = -1")
    case False
    then have "cur_index (za_names za) n = int (nat k)" using \<open>k \<ge> -1\<close> k by simp
    from index_agreesE [OF ag n this] show ?thesis using False \<open>k \<ge> -1\<close> k by (auto intro!: exI [of _ "nat k"])
  qed (simp add: k)
next
  case False
  then have "locate_scan malloc_ok flags n [0..<length (za_entry za)] za err = (k, za1, err1)"
    using r by (simp add: zip_name_locate_def)
  moreover have "\<forall>e \<in> set (za_entry za). entry_ok e" using inv by (simp add: names_inv_def)
  ultimately have "same_za za za1 \<and> (k = -1 \<or> (\<exists>j \<in> set [0..<length (za_entry za)]. k = int j \<and>
      za_has za (of_nat j) \<and> shown_name flags (za_entry_at za (of_nat j)) \<noteq> None))"
    by (intro locate_scan_same)
  then show ?thesis using at_index [OF room] fl by (auto simp: shown_name_def)
qed

lemma fresh_views [simp]: "cur_name zip_entry_init = None" "orig_name zip_entry_init = None" "entry_ok zip_entry_init"
  "nameable zip_entry_init"
  by (auto simp: zip_entry_init_def cur_name_def vis_dirent_def orig_name_def entry_ok_def nameable_def)

lemma names_inv_fresh: "names_inv za \<Longrightarrow> names_inv (za\<lparr>za_nentry_alloc := n, za_entry := za_entry za @ [zip_entry_init]\<rparr>)"
  by (auto simp: names_inv_def intro: index_agrees_append_none)

definition target_found :: "'s zip_archive \<Rightarrow> 's zip_archive \<Rightarrow> int \<Rightarrow> bool" where
  "target_found za za' i = (\<exists>j < length (za_entry za'). i = int j \<and>
     (if length (za_entry za') = length (za_entry za) then cur_name (za_entry za' ! j) \<noteq> None
      else \<exists>es. za_entry za' = es @ [zip_entry_init] \<and> length es = length (za_entry za) \<and> j = length es \<and>
             names_inv (za'\<lparr>za_entry := es\<rparr>)))"

lemma replace_target_inv:
  assumes inv: "names_inv za" and room: "za_room za" and fl: "flags AND ZIP_FL_UNCHANGED = 0" and n: "n \<noteq> []"
    and r: "replace_target malloc_ok za ZIP_UINT64_MAX (Some n) flags = (i, za')"
  shows "names_inv za'" "za_names za' = za_names za" "i = -1 \<or> target_found za za' i"
proof -
  obtain k za1 where k: "(if flags AND ZIP_FL_OVERWRITE \<noteq> 0
      then case zip_name_locate malloc_ok za (Some n) flags None of (i, za, _) \<Rightarrow> (i, za) else (-1, za)) = (k, za1)"
    by (metis prod.exhaust)
  have k1: "same_za za za1 \<and> (k = -1 \<or> (\<exists>j < length (za_entry za). k = int j \<and> cur_name (za_entry za ! j) \<noteq> None))"
    using zip_name_locate_cur [OF inv room fl n] k by (auto split: if_splits prod.splits)
  note f = same_za_fields [OF conjunct1 [OF k1]]
  have inv1: "names_inv za1" using k1 inv same_za_inv by blast
  have r': "(i, za') = (if k = -1 then zip_add_entry malloc_ok za1 else (k, za1))"
    using r k by (simp add: replace_target_def)
  have "names_inv za' \<and> za_names za' = za_names za \<and> (i = -1 \<or> target_found za za' i)"
  proof (cases "k = -1")
    case False
    then obtain j where j: "j < length (za_entry za)" "k = int j" "cur_name (za_entry za ! j) \<noteq> None" using k1 by blast
    have "cur_name (za_entry za1 ! j) \<noteq> None" using same_entry_views(1) [OF f(6) [OF j(1)]] j(3) by simp
    then show ?thesis using False r' inv1 f(1,2) j by (auto simp: target_found_def)
  next
    case True
    then have a: "zip_add_entry malloc_ok za1 = (i, za')" using r' by simp
    have "(i = -1 \<and> (\<exists>e. za' = za1\<lparr>za_error := e\<rparr>)) \<or>
        (i = int (length (za_entry za1)) \<and> (\<exists>alloc. za' = za1\<lparr>za_nentry_alloc := alloc, za_entry := za_entry za1 @ [zip_entry_init]\<rparr>))"
      using a unfolding zip_add_entry_def Let_def za_fail_def
      by (auto split: if_splits intro: exI [of _ "za_nentry_alloc za1"])
    then show ?thesis
    proof
      assume "i = -1 \<and> (\<exists>e. za' = za1\<lparr>za_error := e\<rparr>)"
      then show ?thesis using inv1 f(1) by (auto simp: names_inv_def)
    next
      assume "i = int (length (za_entry za1)) \<and> (\<exists>alloc. za' = za1\<lparr>za_nentry_alloc := alloc, za_entry := za_entry za1 @ [zip_entry_init]\<rparr>)"
      then obtain alloc where za': "i = int (length (za_entry za1))"
        "za' = za1\<lparr>za_nentry_alloc := alloc, za_entry := za_entry za1 @ [zip_entry_init]\<rparr>" by blast
      have "names_inv (za'\<lparr>za_entry := za_entry za1\<rparr>)" using inv1 by (simp add: za' names_inv_def)
      then have "target_found za za' i" using za' f(2) by (simp add: target_found_def)
      then show ?thesis using za' names_inv_fresh [OF inv1] f(1) by auto
    qed
  qed
  then show "names_inv za'" "za_names za' = za_names za" "i = -1 \<or> target_found za za' i" by auto
qed

lemma zip_file_replace_add_inv:
  assumes inv: "names_inv za" and room: "za_room za" "length (za_entry za) < 2 ^ 63" and fl: "flags AND ZIP_FL_UNCHANGED = 0" and n: "name \<noteq> []"
    and r: "zip_file_replace_internal malloc_ok za ZIP_UINT64_MAX (Some name) source flags = (r, za')"
  shows "names_inv za'"
proof (cases "ZIP_IS_RDONLY za")
  case True
  then show ?thesis using r inv by (auto simp: zip_file_replace_internal_def za_fail_def names_inv_def)
next
  case False
  obtain i za1 where t: "replace_target malloc_ok za ZIP_UINT64_MAX (Some name) flags = (i, za1)" by (metis prod.exhaust)
  note tg = replace_target_inv [OF inv room(1) fl n t]
  show ?thesis
  proof (cases "i < 0")
    case True
    then show ?thesis using r False t tg by (simp add: zip_file_replace_internal_def)
  next
    case i: False
    then have found: "target_found za za1 i" using tg(3) by auto
    then obtain j where j: "j < length (za_entry za1)" "i = int j" by (auto simp: target_found_def)
    have len: "length (za_entry za1) \<le> length (za_entry za) + 1"
      using found by (auto simp: target_found_def split: if_splits)
    have idx: "unat (word_of_int i :: u64) = j"
      using j len room by (simp add: za_room_def unat_of_nat)
    let ?idx = "word_of_int i :: u64"
    have at: "za_has za1 ?idx" "za_entry_at za1 ?idx = za_entry za1 ! j" using idx j by (simp_all add: za_has_def za_entry_at_def)
    have "za_entry za1 ! j = zip_entry_init \<or> cur_name (za_entry za1 ! j) \<noteq> None"
      using found j by (auto simp: target_found_def nth_append split: if_splits)
    then have ok: "nameable (za_entry_at za1 ?idx)"
      using tg(1) j at by (auto simp: nameable_def names_inv_def)
    obtain q za2 where s: "zip_set_name malloc_ok za1 ?idx (Some name) flags = (q, za2)" by (metis prod.exhaust)
    have eq: "(r, za') = (if q \<noteq> 0
        then (-1, if length (za_entry za2) \<noteq> length (za_entry za) then za2\<lparr>za_entry := take (length (za_entry za)) (za_entry za2)\<rparr> else za2)
        else set_entry_source malloc_ok za2 i source)"
      using r False t i s by (simp add: zip_file_replace_internal_def Let_def)
    have room1: "za_room za1" using room len tg(2) by (simp add: za_room_def)
    note sn = zip_set_name_inv [OF tg(1) ok room1 s]
    show ?thesis
    proof (cases "q = 0")
      case True
      have inv2: "names_inv za2" using sn True by blast
      have at2: "za_has za2 ?idx" using sn at(1) by (simp add: za_has_def)
      have nd: "\<not> en_deleted (za_entry_at za2 ?idx)" using sn True nameable_not_deleted by blast
      have "set_entry_source malloc_ok za2 i source = (r, za')" using eq True by simp
      then show ?thesis using set_entry_source_inv [OF inv2 at2 nd] by blast
    next
      case False
      then have q: "q = -1" using sn by blast
      show ?thesis
      proof (cases "length (za_entry za1) = length (za_entry za)")
        case True
        then have "cur_name (za_entry_at za1 ?idx) \<noteq> None" using found j at by (auto simp: target_found_def)
        then show ?thesis using sn eq False True by simp
      next
        case new: False
        then obtain es where es: "za_entry za1 = es @ [zip_entry_init]" "length es = length (za_entry za)" "j = length es"
          "names_inv (za1\<lparr>za_entry := es\<rparr>)" using found j by (auto simp: target_found_def)
        have "take (length (za_entry za)) (za_entry za2) = es"
          using sn es idx by (intro nth_equalityI) (auto simp: nth_append)
        then have "za' = za2\<lparr>za_entry := es\<rparr>" using eq False new sn by simp
        then show ?thesis using es(4) sn q by (simp add: names_inv_def)
      qed
    qed
  qed
qed


section \<open>Deleting and restoring\<close>

definition entry_reset :: "'s zip_entry \<Rightarrow> 's zip_entry" where
  "entry_reset e = e\<lparr>en_changes := None, en_source := None, en_deleted := False\<rparr>"

lemma unchange_data_reset: "zip_unchange_data (e\<lparr>en_changes := None\<rparr>) = entry_reset e"
  by (simp add: zip_unchange_data_def entry_reset_def)

lemma entry_reset_views:
  "entry_ok e \<Longrightarrow> entry_ok (entry_reset e)" "orig_name (entry_reset e) = orig_name e"
  "cur_name (entry_reset e) = orig_name e" "\<not> en_deleted (entry_reset e)"
  "en_orig (entry_reset e) = en_orig e"
  by (auto simp: entry_reset_def entry_ok_def orig_name_def cur_name_def vis_dirent_def)

lemma unchange_duplicates:
  "za_has za idx \<Longrightarrow> zip_unchange_internal mem za idx True = (0, za_put_entry za idx (entry_reset (za_entry_at za idx)))"
  by (simp add: zip_unchange_internal_def Let_def unchange_data_reset)

text \<open>Calling \<open>_zip_get_name\<close> with the archive's own error.\<close>

lemma get_name_za:
  assumes ok: "\<forall>e \<in> set (za_entry za). entry_ok e" and has: "za_has za idx"
    and fl: "flags AND ZIP_FL_ENC_RAW = 0" "flags AND ZIP_FL_ENC_STRICT = 0"
    and r: "with_za_error (\<lambda>za. zip_get_name malloc_ok za idx flags) za = (n, za')"
  shows "same_za za za'" "n = shown_name flags (za_entry_at za idx)"
proof -
  obtain za1 err where g: "zip_get_name malloc_ok za idx flags (Some (za_error za)) = (n, za1, err)"
    and za': "za' = (case err of None \<Rightarrow> za1 | Some e \<Rightarrow> za1\<lparr>za_error := e\<rparr>)"
    using r by (auto simp: with_za_error_def split: prod.splits)
  note s = zip_get_name_spec [OF ok g]
  show "same_za za za'" using s(1) za' same_za_error2 by (auto split: option.split)
  show "n = shown_name flags (za_entry_at za idx)" using s(3) fl has by simp
qed

lemma zip_delete_inv:
  assumes inv: "names_inv za" and r: "zip_delete malloc_ok za idx = (q, za')"
  shows "names_inv za'"
proof (cases "\<not> za_has za idx \<or> ZIP_IS_RDONLY za")
  case True
  then show ?thesis using r inv by (auto simp: zip_delete_def za_fail_def names_inv_def split: if_splits)
next
  case False
  then have has: "za_has za idx" by simp
  have oks: "\<forall>e \<in> set (za_entry za). entry_ok e" using inv by (simp add: names_inv_def)
  obtain n za1 where g: "with_za_error (\<lambda>za. zip_get_name malloc_ok za idx 0) za = (n, za1)" by (metis prod.exhaust)
  have n: "same_za za za1" "n = shown_name 0 (za_entry_at za idx)" using get_name_za [OF oks has _ _ g] by simp_all
  have inv1: "names_inv za1" using same_za_inv [OF n(1) inv] .
  note at = same_za_at [OF n(1) has]
  show ?thesis
  proof (cases n)
    case None
    then show ?thesis using r False g inv1 by (simp add: zip_delete_def)
  next
    case (Some name)
    have cur: "cur_name (za_entry_at za1 idx) = Some name"
      using n(2) Some same_entry_views(1) [OF at(2)] by (simp add: shown_name_def)
    obtain b names err where d: "zip_hash_delete malloc_ok (za_names za1) (Some name) (za_error za1) = (b, names, err)"
      by (metis prod_cases3)
    have wf: "hash_wf (za_names za1)" using inv1 by (simp add: names_inv_def)
    note del = hash_delete_index [OF wf d]
    show ?thesis
    proof (cases b)
      case False
      have "hash_map (za_names za1) name = None" using False del(5) by blast
      then have "cur_index names = cur_index (za_names za1)"
        using del(3) by (auto simp: cur_index_def index_get_def fun_eq_iff)
      then have "names_inv (za1\<lparr>za_names := names, za_error := err\<rparr>)"
        using inv1 del(1,2) by (intro names_inv_same_index)
      then show ?thesis using r \<open>\<not> (\<not> za_has za idx \<or> ZIP_IS_RDONLY za)\<close> g Some d False by (simp add: zip_delete_def)
    next
      case True
      let ?e = "(entry_reset (za_entry_at za1 idx))\<lparr>en_deleted := True\<rparr>"
      have has2: "za_has (za1\<lparr>za_names := names, za_error := err\<rparr>) idx" using at(1) by (simp add: za_has_def)
      have za': "za' = (za_put_entry za1 idx ?e)\<lparr>za_names := names, za_error := err\<rparr>"
        using r False g Some d True unchange_duplicates [OF has2, of malloc_ok] at(1)
        by (auto simp: zip_delete_def za_put_entry_def za_entry_at_def za_has_def za_reorder)
      have ok1: "entry_ok (za_entry_at za1 idx)" using inv1 at(1) by (simp add: names_inv_def za_entry_at_def za_has_def)
      have e: "entry_ok ?e" "orig_name ?e = orig_name (za_entry_at za1 idx)" "cur_name ?e = None"
        using ok1 by (auto simp: entry_reset_def entry_ok_def orig_name_def cur_name_def vis_dirent_def)
      have i: "unat idx < length (map cur_name (za_entry za1))" "map cur_name (za_entry za1) ! unat idx = Some name"
        using at(1) cur by (simp_all add: za_has_def za_entry_at_def)
      have ag: "index_agrees (cur_index (za_names za1)) (map cur_name (za_entry za1))"
        using inv1 by (simp add: names_inv_def)
      show ?thesis unfolding za'
        using del(1,2,3) e i by (intro names_inv_put [OF inv1 at(1)]) (auto intro: index_agrees_lose [OF ag i])
    qed
  qed
qed

text \<open>Restoring one entry. For an entry that was deleted this is not so, see
  \<open>zip_unchange_deleted_lost\<close>.\<close>

lemma unchange_not_renamed:
  assumes ok: "entry_ok e" and nd: "\<not> en_deleted e" and c: "\<not> ZIP_ENTRY_CHANGED e ZIP_DIRENT_FILENAME"
  shows "cur_name e = orig_name e"
  using entry_okD(4) [OF ok] nd c
  by (cases "en_changes e") (auto simp: ZIP_ENTRY_CHANGED_def cur_name_def vis_dirent_def orig_name_def)

lemma unchange_names_inv:
  assumes inv: "names_inv za" and room: "za_room za" and has: "za_has za idx"
    and O: "orig_name (za_entry_at za idx) = orig" and C: "cur_name (za_entry_at za idx) = Some changed"
    and r: "unchange_names malloc_ok za idx orig changed = (b, za')"
  shows "if b then names_inv (za_put_entry za' idx (entry_reset (za_entry_at za' idx))) else names_inv za'"
proof -
  let ?h = "za_names za"
  have wf: "hash_wf ?h" and ag: "index_agrees (cur_index ?h) (map cur_name (za_entry za))"
    using inv by (simp_all add: names_inv_def)
  have ok: "entry_ok (za_entry_at za idx)" using inv has by (simp add: names_inv_def za_entry_at_def za_has_def)
  note idx = room_index [OF room has]
  have i: "unat idx < length (map cur_name (za_entry za))" "map cur_name (za_entry za) ! unat idx = Some changed"
    using has C by (simp_all add: za_has_def za_entry_at_def)
  have curC: "changed \<noteq> [] \<Longrightarrow> cur_index ?h changed = int (unat idx)" using index_agreesD [OF ag _ i] .
  obtain b1 h1 err1 where a: "(if orig \<noteq> None then zip_hash_add malloc_ok ?h orig idx 0 (za_error za)
      else (True, ?h, za_error za)) = (b1, h1, err1)" by (metis prod_cases3)
  have h1: "hash_wf h1" "orig_index h1 = orig_index ?h"
    "cur_index h1 = (case orig of None \<Rightarrow> cur_index ?h | Some n \<Rightarrow> if b1 then (cur_index ?h)(n := uint idx) else cur_index ?h)"
    "orig = Some n \<Longrightarrow> b1 = (cur_index ?h n = -1)" "orig = None \<Longrightarrow> b1" for n
  proof -
    have room': "unat (hash_nentries ?h) + 1 < 2 ^ 64" using room by (simp add: za_room_def)
    note add = hash_add_index [OF wf conjunct1 [OF idx] room', where err = "za_error za"]
    show "hash_wf h1" "orig_index h1 = orig_index ?h"
      "cur_index h1 = (case orig of None \<Rightarrow> cur_index ?h | Some n \<Rightarrow> if b1 then (cur_index ?h)(n := uint idx) else cur_index ?h)"
      "orig = Some n \<Longrightarrow> b1 = (cur_index ?h n = -1)" "orig = None \<Longrightarrow> b1"
      using a wf add by (cases orig; auto)+
  qed
  obtain b2 h2 err2 where d: "zip_hash_delete malloc_ok h1 (Some changed) err1 = (b2, h2, err2)" by (metis prod_cases3)
  note del = hash_delete_index [OF h1(1) d]
  have eq: "(b, za') = (if \<not> b1 then (False, za\<lparr>za_names := h1, za_error := err1\<rparr>)
      else if b2 then (True, za\<lparr>za_names := h2, za_error := err2\<rparr>)
      else (False, za\<lparr>za_names := fst (snd (zip_hash_delete malloc_ok h2 orig zip_error_init)), za_error := err2\<rparr>))"
    using r d unfolding unchange_names_def a by (cases b1; cases b2; simp)
  have reset: "za_entry_at (za\<lparr>za_names := x, za_error := y\<rparr>) idx = za_entry_at za idx" for x y
    by (simp add: za_entry_at_def)
  show ?thesis
  proof (cases b1)
    case False
    have "names_inv (za\<lparr>za_names := h1, za_error := err1\<rparr>)"
      using h1 False by (intro names_inv_same_index [OF inv]) (auto split: option.split)
    then show ?thesis using eq False by simp
  next
    case True
    show ?thesis
    proof (cases b2)
      case b2: True
      let ?e = "entry_reset (za_entry_at za idx)"
      have za': "b" "za' = za\<lparr>za_names := h2, za_error := err2\<rparr>" using eq True b2 by simp_all
      have cur: "cur_name ?e = orig" using O entry_reset_views(3) by metis
      have "index_agrees (cur_index h2) ((map cur_name (za_entry za))[unat idx := orig])"
      proof (cases orig)
        case None
        then show ?thesis using index_agrees_lose [OF ag i] del(3) h1(3) by simp
      next
        case (Some n)
        have free: "cur_index ?h n = -1" using h1(4) Some True by simp
        have neq: "n \<noteq> changed" if "n \<noteq> []"
        proof
          assume "n = changed"
          then have "uint idx = -1" using free curC that by simp
          then show False using uint_ge_0 [of idx] by linarith
        qed
        have "cur_index h2 m = (if m = n then int (unat idx) else if m = changed then -1 else cur_index ?h m)"
          if "m \<noteq> []" for m using del(3) h1(3) Some True neq that idx by auto
        then show ?thesis unfolding Some using i free by (intro index_agrees_rename [OF ag]) auto
      qed
      then have "names_inv ((za_put_entry za idx ?e)\<lparr>za_names := h2, za_error := err2\<rparr>)"
        using del(1,2) h1(2) cur entry_reset_views(1,2) ok by (intro names_inv_put [OF inv has]) simp_all
      then show ?thesis using za' reset by (simp add: za_put_entry_def za_reorder)
    next
      case b2: False
      have none: "hash_map h1 changed = None" using b2 del(5) by blast
      have c2: "cur_index h2 = cur_index h1" using del(3) none by (auto simp: cur_index_def index_get_def fun_eq_iff)
      let ?h3 = "fst (snd (zip_hash_delete malloc_ok h2 orig zip_error_init))"
      have "hash_wf ?h3 \<and> orig_index ?h3 = orig_index ?h \<and> cur_index ?h3 = cur_index ?h"
      proof (cases orig)
        case None
        then show ?thesis using del(1,2) h1(2,3) c2 by (simp add: zip_hash_delete_def)
      next
        case (Some n)
        obtain b4 h4 err4 where d4: "zip_hash_delete malloc_ok h2 (Some n) zip_error_init = (b4, h4, err4)" by (metis prod_cases3)
        show ?thesis using hash_delete_index [OF del(1) d4] del(2) h1(2-4) c2 Some True d4 by (auto simp: fun_eq_iff)
      qed
      then have "names_inv (za\<lparr>za_names := ?h3, za_error := err2\<rparr>)" by (intro names_inv_same_index [OF inv]) auto
      then show ?thesis using eq True b2 by simp
    qed
  qed
qed

lemma zip_unchange_inv:
  assumes inv: "names_inv za" and room: "za_room za" and nd: "za_has za idx \<Longrightarrow> \<not> en_deleted (za_entry_at za idx)"
    and r: "zip_unchange malloc_ok za idx = (q, za')"
  shows "names_inv za'"
proof (cases "za_has za idx")
  case False
  then show ?thesis using r inv by (auto simp: zip_unchange_def zip_unchange_internal_def za_fail_def names_inv_def)
next
  case has: True
  have oks: "\<forall>e \<in> set (za_entry za). entry_ok e" using inv by (simp add: names_inv_def)
  then have ok: "entry_ok (za_entry_at za idx)" using has by (simp add: za_entry_at_def za_has_def)
  show ?thesis
  proof (cases "ZIP_ENTRY_CHANGED (za_entry_at za idx) ZIP_DIRENT_FILENAME")
    case False
    then have za': "za' = za_put_entry za idx (entry_reset (za_entry_at za idx))"
      using r has by (simp add: zip_unchange_def zip_unchange_internal_def Let_def unchange_data_reset)
    show ?thesis unfolding za'
      using unchange_not_renamed [OF ok nd [OF has] False] entry_reset_views [of "za_entry_at za idx"] ok
      by (intro names_inv_keep [OF inv has]) simp_all
  next
    case ch: True
    let ?e = "za_entry_at za idx"
    have "en_changes ?e \<noteq> None" using ch by (auto simp: ZIP_ENTRY_CHANGED_def split: option.splits)
    then obtain C where C: "cur_name ?e = Some C" by (auto simp: cur_name_def vis_dirent_def)
    define first where "first = (if en_orig ?e \<noteq> None
      then case with_za_error (\<lambda>za. zip_get_name malloc_ok za idx ZIP_FL_UNCHANGED) za of
             (None, za) \<Rightarrow> (None, za)
           | (Some nm, za) \<Rightarrow>
               let i = fst (zip_name_locate malloc_ok za (Some nm) 0 None)
               in if i \<ge> 0 \<and> word_of_int i \<noteq> idx then (None, snd (za_fail za ZIP_ER_EXISTS))
                  else (Some (Some nm), za)
      else (Some None, za))"
    obtain o1 za1 where f: "first = (o1, za1)" by (metis prod.exhaust)
    have same1: "same_za za za1" and o1: "o1 = None \<or> o1 = Some (orig_name ?e)"
    proof -
      obtain n za2 where g: "with_za_error (\<lambda>za. zip_get_name malloc_ok za idx ZIP_FL_UNCHANGED) za = (n, za2)"
        by (metis prod.exhaust)
      have n: "same_za za za2" "n = orig_name ?e"
        using get_name_za [OF oks has _ _ g] by (simp_all add: shown_name_def)
      have "same_za za (snd (za_fail za2 ze))" for ze using same_za_trans [OF n(1) same_za_fail] .
      then show "same_za za za1" "o1 = None \<or> o1 = Some (orig_name ?e)"
        using f n unfolding first_def g
        by (auto simp: Let_def orig_name_def split: if_splits option.splits)
    qed
    have inv1: "names_inv za1" using same_za_inv [OF same1 inv] .
    note at1 = same_za_at [OF same1 has] and v1 = same_entry_views [OF same_za_at(2) [OF same1 has]]
    have oks1: "\<forall>e \<in> set (za_entry za1). entry_ok e" using inv1 by (simp add: names_inv_def)
    obtain n za2 where g: "with_za_error (\<lambda>za. zip_get_name malloc_ok za idx 0) za1 = (n, za2)" by (metis prod.exhaust)
    have n: "same_za za1 za2" "n = Some C"
      using get_name_za [OF oks1 at1(1) _ _ g] v1(1) C by (simp_all add: shown_name_def)
    note at2 = same_za_at [OF n(1) at1(1)] and v2 = same_entry_views [OF same_za_at(2) [OF n(1) at1(1)]]
    have inv2: "names_inv za2" using same_za_inv [OF n(1) inv1] .
    have room2: "za_room za2" using same_za_room n(1) same1 room by blast
    obtain b za3 where u: "unchange_names malloc_ok za2 idx (orig_name ?e) C = (b, za3)" by (metis prod.exhaust)
    have fin: "if b then names_inv (za_put_entry za3 idx (entry_reset (za_entry_at za3 idx))) else names_inv za3"
      using C v1(1,2) v2(1,2) by (intro unchange_names_inv [OF inv2 room2 at2(1) _ _ u]) simp_all
    have eq: "(q, za') = (case o1 of None \<Rightarrow> (-1, za1)
        | Some orig \<Rightarrow> (case unchange_names malloc_ok za2 idx orig C of (False, za) \<Rightarrow> (-1, za)
            | (True, za) \<Rightarrow> (0, za_put_entry za idx (entry_reset (za_entry_at za idx)))))"
      using r has ch f g n(2) unfolding zip_unchange_def zip_unchange_internal_def Let_def first_def [unfolded Let_def]
      by (simp add: unchange_data_reset split: option.splits prod.splits bool.splits)
    show ?thesis
    proof (cases o1)
      case None
      then show ?thesis using eq inv1 by simp
    next
      case (Some orig)
      then show ?thesis using eq o1 u fin by (cases b) simp_all
    qed
  qed
qed


lemma zip_file_rename_inv:
  assumes inv: "names_inv za" and room: "za_room za" and r: "zip_file_rename malloc_ok za idx name flags = (q, za')"
  shows "names_inv za'"
proof (cases "\<not> za_has za idx \<or> (case name of None \<Rightarrow> False | Some n \<Rightarrow> length n > ZIP_UINT16_MAX) \<or> ZIP_IS_RDONLY za")
  case True
  then show ?thesis using r inv by (auto simp: zip_file_rename_def za_fail_def names_inv_def split: if_splits)
next
  case False
  then have has: "za_has za idx" by simp
  have oks: "\<forall>e \<in> set (za_entry za). entry_ok e" using inv by (simp add: names_inv_def)
  obtain n za1 where g: "with_za_error (\<lambda>za. zip_get_name malloc_ok za idx 0) za = (n, za1)" by (metis prod.exhaust)
  have n: "same_za za za1" "n = shown_name 0 (za_entry_at za idx)" using get_name_za [OF oks has _ _ g] by simp_all
  have inv1: "names_inv za1" using same_za_inv [OF n(1) inv] .
  note at = same_za_at [OF n(1) has]
  show ?thesis
  proof (cases "n = None \<or> (case name of None \<Rightarrow> False | Some n \<Rightarrow> is_dir_name n) \<noteq> is_dir_name (the n)")
    case True
    then have "za' = za1 \<or> (\<exists>e. za' = za1\<lparr>za_error := e\<rparr>)"
      using r False g by (auto simp: zip_file_rename_def za_fail_def split: option.splits)
    then show ?thesis using inv1 by (auto simp: names_inv_def)
  next
    case vis: False
    then have "zip_set_name malloc_ok za1 idx name flags = (q, za')"
      using r False g by (auto simp: zip_file_rename_def)
    moreover have cur: "cur_name (za_entry_at za1 idx) \<noteq> None"
      using vis n(2) same_entry_views(1) [OF at(2)] by (simp add: shown_name_def)
    moreover have "nameable (za_entry_at za1 idx)"
      using cur inv1 at(1) by (simp add: nameable_def names_inv_def za_entry_at_def za_has_def)
    ultimately show ?thesis using zip_set_name_inv [OF inv1 _ same_za_room [OF n(1) room]] by blast
  qed
qed

lemma zip_file_replace_inv:
  assumes inv: "names_inv za" and nd: "za_has za idx \<Longrightarrow> \<not> en_deleted (za_entry_at za idx)" and room: "za_room za"
    and r: "zip_file_replace malloc_ok za idx source flags = (q, za')"
  shows "names_inv za'"
proof (cases "source = None \<or> \<not> za_has za idx \<or> ZIP_IS_RDONLY za")
  case True
  then show ?thesis using r inv
    by (auto simp: zip_file_replace_def zip_file_replace_internal_def za_fail_def names_inv_def split: option.splits if_splits)
next
  case False
  then obtain src where src: "source = Some src" and has: "za_has za idx" by auto
  have ne: "idx \<noteq> ZIP_UINT64_MAX" using room_index [OF room has] by auto
  have w: "word_of_int (uint idx) = idx" "\<not> uint idx < 0" by (simp_all add: not_less)
  obtain r2 za2 where s: "set_entry_source malloc_ok za (uint idx) src = (r2, za2)" by (metis prod.exhaust)
  have "za' = za2" using r src has False ne w s
    by (simp add: zip_file_replace_def zip_file_replace_internal_def replace_target_def Let_def)
  then show ?thesis using set_entry_source_inv [OF inv _ _ s] has nd w by simp
qed

text \<open>Restoring everything, for any archive.\<close>

lemma unchange_steps:
  assumes "n \<le> length (za_entry za)" "length (za_entry za) \<le> 2 ^ 63"
  shows "foldl (unchange_step mem) (0, za) [0..<n] =
    (0, za\<lparr>za_entry := map entry_reset (take n (za_entry za)) @ drop n (za_entry za)\<rparr>)"
  using assms(1)
proof (induction n)
  case (Suc n)
  let ?es = "map entry_reset (take n (za_entry za)) @ drop n (za_entry za)"
  have n: "unat (of_nat n :: u64) = n" using Suc.prems assms(2) by (simp add: unat_of_nat)
  have at: "?es ! n = za_entry za ! n" "n < length ?es" using Suc.prems by (auto simp: nth_append)
  have "?es[n := entry_reset (za_entry za ! n)] = map entry_reset (take (Suc n) (za_entry za)) @ drop (Suc n) (za_entry za)"
    using Suc.prems by (auto simp: list_update_append take_Suc_conv_app_nth Cons_nth_drop_Suc [symmetric])
  then show ?case
    using Suc at n unchange_duplicates [of "za\<lparr>za_entry := ?es\<rparr>" "of_nat n" mem]
    by (simp add: unchange_step_def za_has_def za_entry_at_def za_put_entry_def)
qed simp

lemma zip_unchange_all_result:
  assumes wf: "hash_wf (za_names za)" and len: "length (za_entry za) \<le> 2 ^ 63"
    and r: "zip_unchange_all malloc_ok za = (q, za')"
  shows "q = 0" "za_entry za' = map entry_reset (za_entry za)" "za_ch_flags za' = za_flags za"
    "za_comment_changed za' = False" "za_comment_orig za' = za_comment_orig za"
    "hash_wf (za_names za')" "cur_index (za_names za') = orig_index (za_names za)"
    "orig_index (za_names za') = orig_index (za_names za)"
proof -
  obtain b names err where v: "zip_hash_revert malloc_ok (za_names za) (za_error za) = (b, names, err)" by (metis prod_cases3)
  note rv = hash_revert_index [OF wf v]
  have "(q, za') = (case zip_unchange_archive (za\<lparr>za_names := names, za_error := err, za_entry := map entry_reset (za_entry za)\<rparr>) of
      (r, za) \<Rightarrow> (0 OR r, za))"
    using r v rv(4) unchange_steps [of "length (za_entry za)" "za\<lparr>za_names := names, za_error := err\<rparr>" malloc_ok] len
    by (simp add: zip_unchange_all_def)
  then show "q = 0" "za_entry za' = map entry_reset (za_entry za)" "za_ch_flags za' = za_flags za"
    "za_comment_changed za' = False" "za_comment_orig za' = za_comment_orig za"
    "hash_wf (za_names za')" "cur_index (za_names za') = orig_index (za_names za)"
    "orig_index (za_names za') = orig_index (za_names za)"
    using rv by (auto simp: zip_unchange_archive_def Let_def)
qed

lemma zip_unchange_all_inv:
  assumes inv: "names_inv za" and len: "length (za_entry za) \<le> 2 ^ 63" and r: "zip_unchange_all malloc_ok za = (q, za')"
  shows "names_inv za'"
proof -
  have wf: "hash_wf (za_names za)" using inv by (simp add: names_inv_def)
  note u = zip_unchange_all_result [OF wf len r]
  show ?thesis using inv u(2,6-8)
    by (auto simp: names_inv_def comp_def entry_reset_views)
qed


section \<open>Sequences of operations\<close>

text \<open>
  One call. The table has room for another name and the entry array for another entry, which holds
  in any real memory. Replacing or restoring an entry that was deleted is left out, because the code
  does not give it its name back (\<open>zip_unchange_deleted_lost\<close>); so is adding under an empty
  name, which the table does not follow through a renaming.
\<close>

inductive za_step :: "'s zip_archive \<Rightarrow> 's zip_archive \<Rightarrow> bool" where
  step_add: "za_room za \<Longrightarrow> length (za_entry za) < 2 ^ 63 \<Longrightarrow> name \<noteq> [] \<Longrightarrow> flags AND ZIP_FL_UNCHANGED = 0 \<Longrightarrow>
    zip_file_add malloc_ok za (Some name) source flags = (r, za') \<Longrightarrow> za_step za za'"
| step_replace: "za_room za \<Longrightarrow> (za_has za idx \<Longrightarrow> \<not> en_deleted (za_entry_at za idx)) \<Longrightarrow>
    zip_file_replace malloc_ok za idx source flags = (r, za') \<Longrightarrow> za_step za za'"
| step_rename: "za_room za \<Longrightarrow> zip_file_rename malloc_ok za idx name' flags = (r, za') \<Longrightarrow> za_step za za'"
| step_delete: "zip_delete malloc_ok za idx = (r, za') \<Longrightarrow> za_step za za'"
| step_unchange: "za_room za \<Longrightarrow> (za_has za idx \<Longrightarrow> \<not> en_deleted (za_entry_at za idx)) \<Longrightarrow>
    zip_unchange malloc_ok za idx = (r, za') \<Longrightarrow> za_step za za'"
| step_unchange_all: "za_room za \<Longrightarrow> zip_unchange_all malloc_ok za = (r, za') \<Longrightarrow> za_step za za'"
| step_name: "with_za_error (\<lambda>za. zip_get_name malloc_ok za idx flags) za = (n, za') \<Longrightarrow> za_step za za'"

lemma with_za_error_names:
  assumes inv: "names_inv za" and r: "with_za_error (\<lambda>za. zip_get_name malloc_ok za idx flags) za = (n, za')"
  shows "names_inv za'"
proof -
  have oks: "\<forall>e \<in> set (za_entry za). entry_ok e" using inv by (simp add: names_inv_def)
  obtain za1 err where g: "zip_get_name malloc_ok za idx flags (Some (za_error za)) = (n, za1, err)"
    and za': "za' = (case err of None \<Rightarrow> za1 | Some e \<Rightarrow> za1\<lparr>za_error := e\<rparr>)"
    using r by (auto simp: with_za_error_def split: prod.splits)
  show ?thesis
    using same_za_inv [OF zip_get_name_spec(1) [OF oks g] inv] za' by (auto simp: names_inv_def split: option.split)
qed

lemma za_step_inv: "za_step za za' \<Longrightarrow> names_inv za \<Longrightarrow> names_inv za'"
proof (induction rule: za_step.induct)
  case (step_add za name flags source r za')
  show ?case
  proof (cases source)
    case None
    then show ?thesis using step_add by (auto simp: zip_file_add_def za_fail_def names_inv_def)
  next
    case (Some src)
    then have "zip_file_replace_internal malloc_ok za ZIP_UINT64_MAX (Some name) src flags = (r, za')"
      using step_add by (simp add: zip_file_add_def)
    from zip_file_replace_add_inv [OF step_add(6) step_add(1,2,4,3) this] show ?thesis .
  qed
next
  case (step_replace za idx source flags r za')
  show ?case by (rule zip_file_replace_inv [OF step_replace(4) step_replace(2,1,3)])
next
  case (step_rename za idx name' flags r za')
  show ?case by (rule zip_file_rename_inv [OF step_rename(3,1,2)])
next
  case (step_delete za idx r za')
  show ?case by (rule zip_delete_inv [OF step_delete(2,1)])
next
  case (step_unchange za idx r za')
  show ?case by (rule zip_unchange_inv [OF step_unchange(4,1,2,3)])
next
  case (step_unchange_all za r za')
  then show ?case using zip_unchange_all_inv by (auto simp: za_room_def)
next
  case (step_name idx flags za n za')
  show ?case by (rule with_za_error_names [OF step_name(2,1)])
qed

lemma za_steps_inv: "za_step\<^sup>*\<^sup>* za za' \<Longrightarrow> names_inv za \<Longrightarrow> names_inv za'"
  by (induction rule: rtranclp_induct) (auto intro: za_step_inv)

lemma locate_name_index:
  assumes inv: "names_inv za" and n: "n \<noteq> []"
  shows "(fst (zip_name_locate malloc_ok za (Some n) 0 err) = int i) =
    (i < length (za_entry za) \<and> cur_name (za_entry za ! i) = Some n)"
proof -
  have wf: "hash_wf (za_names za)" and ag: "index_agrees (cur_index (za_names za)) (map cur_name (za_entry za))"
    using inv by (simp_all add: names_inv_def)
  have "fst (zip_name_locate malloc_ok za (Some n) 0 err) = cur_index (za_names za) n"
    using zip_name_locate_hash [OF wf, of 0 malloc_ok n err] by auto
  then show ?thesis using ag n unfolding index_agrees_def by auto
qed


text \<open>The linear search finds the first entry showing the name.\<close>

lemma locate_scan_find:
  assumes f: "flags AND ZIP_FL_NOCASE = 0" "flags AND ZIP_FL_NODIR = 0" "flags AND ZIP_FL_UNCHANGED = 0"
    "flags AND ZIP_FL_ENC_RAW = 0" "flags AND ZIP_FL_ENC_STRICT = 0"
  shows "(\<forall>e \<in> set (za_entry za). entry_ok e) \<Longrightarrow> (\<forall>j \<in> set is. j < length (za_entry za)) \<Longrightarrow> length (za_entry za) \<le> 2 ^ 63 \<Longrightarrow>
    fst (locate_scan malloc_ok flags n is za err) =
      (case find (\<lambda>j. cur_name (za_entry za ! j) = Some n) is of None \<Rightarrow> -1 | Some j \<Rightarrow> int j)"
proof (induction "is" arbitrary: za err)
  case (Cons j js)
  obtain r za2 err2 where g: "zip_get_name malloc_ok za (of_nat j) flags err = (r, za2, err2)" by (metis prod_cases3)
  note get = zip_get_name_spec [OF Cons.prems(1) g]
  note s = same_za_fields [OF get(1)]
  have j: "za_has za (of_nat j)" "za_entry_at za (of_nat j) = za_entry za ! j"
    using Cons.prems by (simp_all add: za_has_def za_entry_at_def unat_of_nat)
  have r: "r = cur_name (za_entry za ! j)" using get(3) [OF f(4,5) j(1)] j f(3) by (simp add: shown_name_def)
  have "map cur_name (za_entry za2) = map cur_name (za_entry za)" by (rule s(4))
  then have cur: "cur_name (za_entry za2 ! k) = cur_name (za_entry za ! k)" if "k < length (za_entry za)" for k
    using that s(2) by (metis nth_map)
  have "find (\<lambda>j. cur_name (za_entry za2 ! j) = Some n) js = find (\<lambda>j. cur_name (za_entry za ! j) = Some n) js"
    using cur Cons.prems(2) by (intro find_cong) auto
  moreover have "fst (locate_scan malloc_ok flags n js za2 err2) =
      (case find (\<lambda>j. cur_name (za_entry za2 ! j) = Some n) js of None \<Rightarrow> -1 | Some j \<Rightarrow> int j)"
    using Cons.prems s(2,7) by (intro Cons.IH) auto
  ultimately show ?case
    using g r f(1,2) by (auto simp: name_matches_def split: option.splits)
qed simp

lemma locate_scan_unique:
  assumes inv: "names_inv za" and n: "n \<noteq> []"
  shows "(case find (\<lambda>j. cur_name (za_entry za ! j) = Some n) [0..<length (za_entry za)] of None \<Rightarrow> -1 | Some j \<Rightarrow> int j) =
    cur_index (za_names za) n"
proof -
  have ag: "index_agrees (cur_index (za_names za)) (map cur_name (za_entry za))" using inv by (simp add: names_inv_def)
  show ?thesis
  proof (cases "find (\<lambda>j. cur_name (za_entry za ! j) = Some n) [0..<length (za_entry za)]")
    case None
    then have none: "\<not> (i < length (za_entry za) \<and> cur_name (za_entry za ! i) = Some n)" for i
      by (auto simp: find_None_iff)
    have "cur_index (za_names za) n = int (nat (cur_index (za_names za) n)) \<Longrightarrow> False"
      using index_agreesE [OF ag n] none by (metis length_map nth_map)
    moreover have "cur_index (za_names za) n \<ge> -1" using ag n by (simp add: index_agrees_def)
    ultimately show ?thesis using None by (cases "cur_index (za_names za) n = -1") auto
  next
    case (Some j)
    then have "j < length (za_entry za)" "cur_name (za_entry za ! j) = Some n" by (auto simp: find_Some_iff)
    then show ?thesis using index_agreesD [OF ag n, of j] Some by simp
  qed
qed

lemma zip_delete_result:
  assumes inv: "names_inv za" and has: "za_has za idx" and rd: "\<not> ZIP_IS_RDONLY za"
    and n: "cur_name (za_entry_at za idx) = Some n" "n \<noteq> []"
  shows "\<exists>za1 names err. zip_delete malloc_ok za idx =
      (0, (za_put_entry za1 idx ((entry_reset (za_entry_at za1 idx))\<lparr>en_deleted := True\<rparr>))\<lparr>za_names := names, za_error := err\<rparr>) \<and>
    same_za za za1 \<and> hash_wf names \<and> cur_index names = (cur_index (za_names za))(n := -1)"
proof -
  have oks: "\<forall>e \<in> set (za_entry za). entry_ok e" and wf: "hash_wf (za_names za)"
    and ag: "index_agrees (cur_index (za_names za)) (map cur_name (za_entry za))"
    using inv by (simp_all add: names_inv_def)
  obtain m za1 where g: "with_za_error (\<lambda>za. zip_get_name malloc_ok za idx 0) za = (m, za1)" by (metis prod.exhaust)
  have m: "same_za za za1" "m = Some n" using get_name_za [OF oks has _ _ g] n by (simp_all add: shown_name_def)
  note at = same_za_at [OF m(1) has]
  have names: "za_names za1 = za_names za" by (rule same_za_fields(1) [OF m(1)])
  obtain b names err where d: "zip_hash_delete malloc_ok (za_names za1) (Some n) (za_error za1) = (b, names, err)"
    by (metis prod_cases3)
  note del = hash_delete_index [OF wf d [unfolded names]]
  have "cur_index (za_names za) n = int (unat idx)"
    using n has by (intro index_agreesD [OF ag]) (simp_all add: za_has_def za_entry_at_def)
  then have ge: "cur_index (za_names za) n \<ge> 0" by simp
  have "hash_map (za_names za) n \<noteq> None"
  proof
    assume "hash_map (za_names za) n = None"
    then have "cur_index (za_names za) n = -1" by (simp add: cur_index_def index_get_def)
    then show False using ge by linarith
  qed
  then have b: b using del(5) by simp
  have has2: "za_has (za1\<lparr>za_names := names, za_error := err\<rparr>) idx" using at(1) by (simp add: za_has_def)
  have "zip_delete malloc_ok za idx =
      (0, (za_put_entry za1 idx ((entry_reset (za_entry_at za1 idx))\<lparr>en_deleted := True\<rparr>))\<lparr>za_names := names, za_error := err\<rparr>)"
    using has rd g m(2) d b unchange_duplicates [OF has2, of malloc_ok] at(1)
    by (auto simp: zip_delete_def za_put_entry_def za_entry_at_def za_has_def za_reorder)
  then show ?thesis using m(1) del(1,3) by blast
qed

section \<open>Properties\<close>

text \<open>An archive with one entry, for the witnesses.\<close>

definition archive_small :: "unit zip_archive" where
  "archive_small =
     \<lparr>za_src = None, za_open_flags = 0, za_error = zip_error_init, za_flags = 0, za_ch_flags = 0,
      za_default_password = None, za_comment_orig = None, za_comment_changes = None, za_comment_changed = False,
      za_nentry_alloc = 16,
      za_entry = [\<lparr>en_orig = Some (zip_dirent_init\<lparr>de_filename := Some \<lparr>str_raw = [97], str_length = 1,
          str_encoding = ZIP_ENCODING_ASCII, str_converted = None, str_converted_length = 0\<rparr>\<rparr>),
        en_changes = None, en_source = None, en_deleted = False\<rparr>],
      za_names = hash_small (Some ([97], 0, 0)), za_prefixdata = None\<rparr>"

lemma archive_small_inv: "names_inv archive_small" "za_room archive_small" "za_has archive_small 0"
  "cur_name (za_entry archive_small ! 0) = Some [97]" "length (za_entry archive_small) = 1"
proof -
  show cur: "cur_name (za_entry archive_small ! 0) = Some [97]"
    by (simp add: archive_small_def cur_name_def vis_dirent_def dirent_name_def name_of_def)
  have orig: "orig_name (za_entry archive_small ! 0) = Some [97]"
    by (simp add: archive_small_def orig_name_def dirent_name_def name_of_def)
  show "names_inv archive_small"
    using cur orig
    by (auto simp: names_inv_def archive_small_def entry_ok_def str_ok_def index_agrees_def cur_index_def orig_index_def
        index_get_def index_orig_def)
  show "za_room archive_small" "za_has archive_small 0" "length (za_entry archive_small) = 1"
    using hash_small(5) [of "Some ([97], 0, 0)"] by (simp_all add: za_room_def za_has_def archive_small_def)
qed



text \<open>C21. When names are unique, the linear search that a flag forces finds the same entry as the hash
  table.\<close>

theorem zip_name_locate_scan_hash:
  assumes "names_inv za" "length (za_entry za) \<le> 2 ^ 63" "n \<noteq> []"
  shows "fst (zip_name_locate malloc_ok za (Some n) ZIP_FL_ENC_CP437 err) = fst (zip_name_locate malloc_ok za (Some n) 0 err)"
proof -
  have wf: "hash_wf (za_names za)" and oks: "\<forall>e \<in> set (za_entry za). entry_ok e" using assms(1) by (simp_all add: names_inv_def)
  have "fst (zip_name_locate malloc_ok za (Some n) ZIP_FL_ENC_CP437 err) = cur_index (za_names za) n"
    using locate_scan_find [of ZIP_FL_ENC_CP437 za "[0..<length (za_entry za)]" n err] oks assms(2)
      locate_scan_unique [OF assms(1,3)] by (simp add: zip_name_locate_def)
  also have "\<dots> = fst (zip_name_locate malloc_ok za (Some n) 0 err)"
    using zip_name_locate_hash [OF wf, of 0 malloc_ok n err] by auto
  finally show ?thesis .
qed

theorem zip_name_locate_scan_hash_witness:
  "fst (zip_name_locate malloc_ok archive_small (Some [97]) ZIP_FL_ENC_CP437 None) = 0"
  using zip_name_locate_scan_hash [of archive_small "[97]" None]
    locate_name_index [OF archive_small_inv(1), of "[97]" None 0] archive_small_inv by simp




text \<open>C23. \<open>zip_unchange\<close> does not bring the name of a deleted entry back: after deleting an entry and
  restoring it, the entry shows its name again but looking that name up fails.\<close>

theorem zip_unchange_deleted_lost:
  assumes "names_inv za" "za_has za idx" "\<not> ZIP_IS_RDONLY za" "orig_name (za_entry_at za idx) = Some n" "n \<noteq> []"
    and "cur_name (za_entry_at za idx) = Some n"
  shows "\<exists>za1 za2. zip_delete malloc_ok za idx = (0, za1) \<and> zip_unchange malloc_ok za1 idx = (0, za2) \<and>
    fst (zip_get_name malloc_ok za2 idx 0 err) = Some n \<and> fst (zip_name_locate malloc_ok za2 (Some n) 0 err) = -1"
proof -
  obtain za0 names e where d: "zip_delete malloc_ok za idx =
      (0, (za_put_entry za0 idx ((entry_reset (za_entry_at za0 idx))\<lparr>en_deleted := True\<rparr>))\<lparr>za_names := names, za_error := e\<rparr>)"
    and za0: "same_za za za0" and names: "hash_wf names" "cur_index names = (cur_index (za_names za))(n := -1)"
    using zip_delete_result [OF assms(1-3,6,5)] by blast
  define za1 where "za1 = (za_put_entry za0 idx ((entry_reset (za_entry_at za0 idx))\<lparr>en_deleted := True\<rparr>))\<lparr>za_names := names, za_error := e\<rparr>"
  note at = same_za_at [OF za0 assms(2)]
  have e0: "orig_name (za_entry_at za0 idx) = Some n" using same_entry_views(2) [OF at(2)] assms(4) by simp
  have at1: "za_has za1 idx" "za_entry_at za1 idx = (entry_reset (za_entry_at za0 idx))\<lparr>en_deleted := True\<rparr>"
    using at(1) by (simp_all add: za1_def za_has_def za_entry_at_def za_put_entry_def)
  define za2 where "za2 = za_put_entry za1 idx (entry_reset (za_entry_at za0 idx))"
  have "entry_reset (za_entry_at za1 idx) = entry_reset (za_entry_at za0 idx)" by (simp add: at1 entry_reset_def)
  moreover have "\<not> ZIP_ENTRY_CHANGED (za_entry_at za1 idx) ZIP_DIRENT_FILENAME"
    by (simp add: at1 entry_reset_def ZIP_ENTRY_CHANGED_def)
  ultimately have u: "zip_unchange malloc_ok za1 idx = (0, za2)"
    using at1(1) by (simp add: zip_unchange_def zip_unchange_internal_def Let_def unchange_data_reset za2_def)
  have at2: "za_has za2 idx" "za_entry_at za2 idx = entry_reset (za_entry_at za0 idx)"
    using at1(1) by (simp_all add: za2_def za_has_def za_entry_at_def za_put_entry_def)
  have oks: "\<forall>e \<in> set (za_entry za). entry_ok e" using assms(1) by (simp add: names_inv_def)
  have oks0: "\<forall>e \<in> set (za_entry za0). entry_ok e" by (rule same_za_fields(7) [OF za0 oks])
  then have "entry_ok (entry_reset (za_entry_at za0 idx))"
    using at(1) by (intro entry_reset_views(1)) (simp add: za_entry_at_def za_has_def)
  then have oks2: "\<forall>e \<in> set (za_entry za2). entry_ok e"
    using oks0 by (auto simp: za2_def za1_def za_put_entry_def dest!: set_update_subset_insert [THEN subsetD])
  obtain r za3 err3 where g: "zip_get_name malloc_ok za2 idx 0 err = (r, za3, err3)" by (metis prod_cases3)
  have r: "r = Some n"
    using zip_get_name_spec(3) [OF oks2 g] at2 e0 by (simp add: shown_name_def entry_reset_views)
  have "za_names za2 = names" by (simp add: za2_def za1_def za_put_entry_def)
  then have "fst (zip_name_locate malloc_ok za2 (Some n) 0 err) = -1"
    using zip_name_locate_hash [of za2 0 malloc_ok n err] names by auto
  then show ?thesis using d u g r unfolding za1_def [symmetric] by auto
qed

theorem zip_unchange_deleted_lost_witness:
  "\<exists>za1 za2. zip_delete malloc_ok archive_small 0 = (0, za1) \<and> zip_unchange malloc_ok za1 0 = (0, za2) \<and>
    fst (zip_get_name malloc_ok za2 0 0 None) = Some [97] \<and> fst (zip_name_locate malloc_ok za2 (Some [97]) 0 None) = -1"
proof (rule zip_unchange_deleted_lost [OF archive_small_inv(1,3)])
  show "orig_name (za_entry_at archive_small 0) = Some [97]"
    by (simp add: za_entry_at_def archive_small_def orig_name_def dirent_name_def name_of_def)
  show "cur_name (za_entry_at archive_small 0) = Some [97]" using archive_small_inv(4) by (simp add: za_entry_at_def)
qed (simp_all add: ZIP_IS_RDONLY_def archive_small_def)

end
