(* ===== verification/Zip_Attributes_Facts.thy ===== *)
theory Zip_Attributes_Facts
  imports Zip_Attributes Zip_Archive_Names
begin

text \<open>
  What the setters of \<open>Zip_Attributes\<close> achieve: an archive made read-only stays as it is, setters
  keep the agreement of names and entries, and what was set is what is read, with the exceptions the
  code makes.
\<close>

section \<open>What the setters do\<close>

lemma za_at_put [simp]:
  "za_has za idx \<Longrightarrow> za_entry_at (za_put_entry za idx e) idx = e"
  "za_has (za_put_entry za idx e) idx = za_has za idx"
  "ZIP_IS_RDONLY (za_put_entry za idx e) = ZIP_IS_RDONLY za"
  "za_put_entry (za\<lparr>za_error := err\<rparr>) idx e = (za_put_entry za idx e)\<lparr>za_error := err\<rparr>"
  by (simp_all add: za_entry_at_def za_put_entry_def za_has_def ZIP_IS_RDONLY_def)

lemma za_at_error [simp]:
  "za_entry_at (za\<lparr>za_error := err\<rparr>) idx = za_entry_at za idx" "za_has (za\<lparr>za_error := err\<rparr>) idx = za_has za idx"
  "ZIP_IS_RDONLY (za\<lparr>za_error := err\<rparr>) = ZIP_IS_RDONLY za"
  by (simp_all add: za_entry_at_def za_has_def ZIP_IS_RDONLY_def)

text \<open>The dirent a change is stored in: the changes, or a clone of the original.\<close>

definition edited_dirent :: "'s zip_entry \<Rightarrow> zip_dirent" where
  "edited_dirent e =
     (case en_changes e of
        Some d \<Rightarrow> d
      | None \<Rightarrow> (case en_orig e of Some d \<Rightarrow> d | None \<Rightarrow> zip_dirent_init)\<lparr>de_changed := 0, de_cloned := True\<rparr>)"

lemma entry_change_ok:
  "entry_change malloc_ok za idx f =
    (0, za_put_entry za idx ((za_entry_at za idx)\<lparr>en_changes := Some (f (edited_dirent (za_entry_at za idx)))\<rparr>))"
  by (auto simp: entry_change_def edited_dirent_def zip_dirent_clone_def Let_def split: option.splits)

text \<open>A guarded setter that succeeds ran on an entry that shows something.\<close>

lemma set_guarded_ok:
  assumes "set_guarded za idx f = (0, za')"
  shows "za_has za idx" "\<not> ZIP_IS_RDONLY za" "f za = (0, za')" "vis_dirent (za_entry_at za idx) \<noteq> None"
  using assms
  by (cases rule: zip_get_dirent_cases [of za idx 0 None]; auto simp: set_guarded_def za_fail_def split: if_splits)+

lemma set_guarded_rdonly:
  assumes "set_guarded za idx f = (r, za')" "ZIP_IS_RDONLY za"
  shows "r = -1 \<and> (\<exists>err. za' = za\<lparr>za_error := err\<rparr>)"
proof (cases rule: zip_get_dirent_cases [of za idx 0 None])
  case (fail ze)
  then show ?thesis using assms by (auto simp: set_guarded_def za_fail_def)
next
  case (ok de)
  then show ?thesis using assms by (auto simp: set_guarded_def za_fail_def)
qed

section \<open>An archive made read-only stays as it is\<close>

text \<open>Every operation that changes entries or the archive's own attributes, whatever its arguments
  and whether or not memory lasts.\<close>

inductive modify_step :: "'s zip_archive \<Rightarrow> 's zip_archive \<Rightarrow> bool" where
  mod_add: "zip_file_add mem za name source flags = (r, za') \<Longrightarrow> modify_step za za'"
| mod_replace: "zip_file_replace mem za idx source flags = (r, za') \<Longrightarrow> modify_step za za'"
| mod_rename: "zip_file_rename mem za idx name' flags = (r, za') \<Longrightarrow> modify_step za za'"
| mod_name: "zip_set_name mem za idx name' flags = (r, za') \<Longrightarrow> modify_step za za'"
| mod_delete: "zip_delete mem za idx = (r, za') \<Longrightarrow> modify_step za za'"
| mod_comment: "zip_file_set_comment mem za idx comment len flags = (r, za') \<Longrightarrow> modify_step za za'"
| mod_mtime: "zip_file_set_mtime mem za idx mtime = (r, za') \<Longrightarrow> modify_step za za'"
| mod_attributes: "zip_file_set_external_attributes mem za idx flags opsys attrs = (r, za') \<Longrightarrow> modify_step za za'"
| mod_compression: "zip_set_file_compression mem za idx meth flags = (r, za') \<Longrightarrow> modify_step za za'"
| mod_encryption: "zip_file_set_encryption mem za idx em password = (r, za') \<Longrightarrow> modify_step za za'"
| mod_archive_comment: "zip_set_archive_comment mem za comment len = (r, za') \<Longrightarrow> modify_step za za'"
| mod_flag: "zip_set_archive_flag za flag v = (r, za') \<Longrightarrow> modify_step za za'"

lemma modify_step_rdonly: "modify_step za za' \<Longrightarrow> ZIP_IS_RDONLY za \<Longrightarrow> \<exists>err. za' = za\<lparr>za_error := err\<rparr>"
proof (induction rule: modify_step.induct)
  case (mod_comment mem za idx comment len flags r za')
  show ?case using set_guarded_rdonly [OF mod_comment [unfolded zip_file_set_comment_def]] by simp
next
  case (mod_mtime mem za idx mtime r za')
  show ?case using set_guarded_rdonly [OF mod_mtime [unfolded zip_file_set_mtime_def]] by simp
next
  case (mod_attributes mem za idx flags opsys attrs r za')
  show ?case using set_guarded_rdonly [OF mod_attributes [unfolded zip_file_set_external_attributes_def]] by simp
next
  case (mod_flag za flag v r za')
  then show ?case
    by (auto simp: zip_set_archive_flag_def za_fail_def Let_def intro!: exI [of _ "za_error za'"] split: if_splits)
qed (auto simp: zip_file_add_def zip_file_replace_def zip_file_replace_internal_def zip_file_rename_def zip_set_name_def
    zip_delete_def zip_set_file_compression_def zip_file_set_encryption_def zip_set_archive_comment_def za_fail_def
    split: option.splits if_splits)



section \<open>Setters keep the names\<close>

text \<open>A function on dirents that keeps the name and the mark of a change of name.\<close>

definition keeps_name :: "(zip_dirent \<Rightarrow> zip_dirent) \<Rightarrow> bool" where
  "keeps_name f = (\<forall>d. de_filename (f d) = de_filename d \<and>
     de_changed (f d) AND ZIP_DIRENT_FILENAME = de_changed d AND ZIP_DIRENT_FILENAME)"

lemma keeps_nameI:
  "(\<And>d. de_filename (f d) = de_filename d) \<Longrightarrow>
   (\<And>d. de_changed (f d) = de_changed d OR x) \<Longrightarrow> x AND ZIP_DIRENT_FILENAME = 0 \<Longrightarrow> keeps_name f"
  by (simp add: keeps_name_def bit.conj_disj_distrib2)

lemma edited_dirent_name:
  assumes "entry_ok e" "vis_dirent e \<noteq> None"
  shows "Some (dirent_name (edited_dirent e)) = cur_name e" "str_ok (de_filename (edited_dirent e))"
    "de_changed (edited_dirent e) AND ZIP_DIRENT_FILENAME = 0 \<Longrightarrow> orig_name e = cur_name e" "\<not> en_deleted e"
  using assms
  by (auto simp: edited_dirent_def cur_name_def vis_dirent_def dirent_name_def orig_name_def entry_ok_def
      split: option.splits if_splits)

lemma edit_entry_views:
  assumes ok: "entry_ok e" "vis_dirent e \<noteq> None" and f: "keeps_name f"
  shows "entry_ok (e\<lparr>en_changes := Some (f (edited_dirent e))\<rparr>)"
    "orig_name (e\<lparr>en_changes := Some (f (edited_dirent e))\<rparr>) = orig_name e"
    "cur_name (e\<lparr>en_changes := Some (f (edited_dirent e))\<rparr>) = cur_name e"
proof -
  note ed = edited_dirent_name [OF ok]
  have fd: "de_filename (f d) = de_filename d" "de_changed (f d) AND ZIP_DIRENT_FILENAME = de_changed d AND ZIP_DIRENT_FILENAME" for d
    using f by (simp_all add: keeps_name_def)
  show "orig_name (e\<lparr>en_changes := Some (f (edited_dirent e))\<rparr>) = orig_name e" by (simp add: orig_name_def)
  show cur: "cur_name (e\<lparr>en_changes := Some (f (edited_dirent e))\<rparr>) = cur_name e"
    using ed(1) by (simp add: cur_name_def vis_dirent_def dirent_name_def fd)
  show "entry_ok (e\<lparr>en_changes := Some (f (edited_dirent e))\<rparr>)"
    using ok(1) ed(2-4) unfolding entry_ok_def ed(1) [symmetric]
    by (auto simp: fd orig_name_def dirent_name_def)
qed

lemma drop_entry_views:
  assumes ok: "entry_ok e" "vis_dirent e \<noteq> None" and f: "keeps_name f" and flag: "flag AND ZIP_DIRENT_FILENAME = 0"
  shows "entry_ok (entry_drop_change flag f e)" "orig_name (entry_drop_change flag f e) = orig_name e"
    "cur_name (entry_drop_change flag f e) = cur_name e"
proof -
  have fd: "de_filename (f d) = de_filename d" "de_changed (f d) AND ZIP_DIRENT_FILENAME = de_changed d AND ZIP_DIRENT_FILENAME" for d
    using f by (simp_all add: keeps_name_def)
  have bits: "(c AND NOT flag) AND ZIP_DIRENT_FILENAME = c AND ZIP_DIRENT_FILENAME" for c :: u32
  proof -
    have "bit flag n \<Longrightarrow> \<not> bit ZIP_DIRENT_FILENAME n" for n using flag by (auto simp: bit_eq_iff bit_simps)
    then show ?thesis by (intro bit_word_eqI) (auto simp: bit_simps)
  qed
  have zero: "c AND ZIP_DIRENT_FILENAME = 0" if "c AND NOT flag = 0" for c
    using bits [of c] that by simp
  have *: "entry_ok (entry_drop_change flag f e) \<and> orig_name (entry_drop_change flag f e) = orig_name e \<and>
    cur_name (entry_drop_change flag f e) = cur_name e"
  proof (cases "en_changes e")
    case None
    then show ?thesis using ok by (simp add: entry_drop_change_def)
  next
    case (Some d)
    show ?thesis
    proof (cases "de_changed d AND NOT flag = 0")
      case True
      then have "orig_name e = Some (dirent_name d)" using ok(1) Some zero by (simp add: entry_ok_def)
      moreover have "\<not> en_deleted e" using ok(1) Some by (auto simp: entry_ok_def)
      ultimately show ?thesis
        using ok Some True
        by (auto simp: entry_drop_change_def entry_ok_def orig_name_def cur_name_def vis_dirent_def)
    next
      case False
      then show ?thesis
        using ok Some
        by (auto simp: entry_drop_change_def entry_ok_def orig_name_def cur_name_def vis_dirent_def dirent_name_def fd bits)
    qed
  qed
  then show "entry_ok (entry_drop_change flag f e)" "orig_name (entry_drop_change flag f e) = orig_name e"
    "cur_name (entry_drop_change flag f e) = cur_name e" by auto
qed


text \<open>A successful guarded setter either edits the changes or takes one back.\<close>

lemma entry_ok_at: "names_inv za \<Longrightarrow> za_has za idx \<Longrightarrow> entry_ok (za_entry_at za idx)"
  by (simp add: names_inv_def za_has_def za_entry_at_def)

lemma names_inv_edit:
  assumes "names_inv za" "za_has za idx" "vis_dirent (za_entry_at za idx) \<noteq> None" "keeps_name f"
  shows "names_inv (za_put_entry za idx ((za_entry_at za idx)\<lparr>en_changes := Some (f (edited_dirent (za_entry_at za idx)))\<rparr>))"
  using assms entry_ok_at by (intro names_inv_keep edit_entry_views) auto

lemma names_inv_drop:
  assumes "names_inv za" "za_has za idx" "vis_dirent (za_entry_at za idx) \<noteq> None" "keeps_name f" "flag AND ZIP_DIRENT_FILENAME = 0"
  shows "names_inv (za_put_entry za idx (entry_drop_change flag f (za_entry_at za idx)))"
  using assms entry_ok_at by (intro names_inv_keep drop_entry_views) auto

text \<open>What an entry shows after a change is taken back.\<close>

lemma drop_vis_dirent:
  assumes ok: "entry_ok e" "vis_dirent e \<noteq> None" and flag: "flag AND ZIP_DIRENT_FILENAME = 0"
  shows "vis_dirent (entry_drop_change flag f e) =
    (case en_changes e of None \<Rightarrow> en_orig e
     | Some d \<Rightarrow> if de_changed d AND NOT flag = 0 then en_orig e else Some (f (d\<lparr>de_changed := de_changed d AND NOT flag\<rparr>)))"
    "en_orig (entry_drop_change flag f e) = en_orig e"
  using ok by (auto simp: entry_drop_change_def vis_dirent_def entry_ok_def split: option.splits if_splits)

lemma changed_zero_orig:
  assumes "entry_ok e" "en_changes e = Some d" "de_changed d AND NOT flag = 0" "flag AND ZIP_DIRENT_FILENAME = 0"
  shows "en_orig e \<noteq> None"
proof -
  have "bit flag n \<Longrightarrow> \<not> bit ZIP_DIRENT_FILENAME n" for n using assms(4) by (auto simp: bit_eq_iff bit_simps)
  then have "de_changed d AND ZIP_DIRENT_FILENAME = (de_changed d AND NOT flag) AND ZIP_DIRENT_FILENAME"
    by (intro bit_word_eqI) (auto simp: bit_simps)
  then show ?thesis using assms(1-3) by (auto simp: entry_ok_def orig_name_def)
qed

section \<open>Set, then get\<close>

text \<open>The entry of the small archive has no changes and default attributes.\<close>

lemma archive_small_attributes:
  "set_guarded archive_small 0 f = f archive_small" "orig_attributes (za_entry_at archive_small 0) = ZIP_EXT_ATTRIB_DEFAULT"
  "en_changes (za_entry_at archive_small 0) = None" "\<not> en_deleted (za_entry_at archive_small 0)"
  "\<exists>d. en_orig (za_entry_at archive_small 0) = Some d \<and> de_comment d = None \<and> de_last_mod d = 0"
proof -
  have e: "en_changes (za_entry_at archive_small 0) = None" "\<not> en_deleted (za_entry_at archive_small 0)"
    "\<exists>d. en_orig (za_entry_at archive_small 0) = Some d \<and> de_comment d = None \<and> de_last_mod d = 0 \<and>
       de_ext_attrib d = ZIP_EXT_ATTRIB_DEFAULT"
    by (simp_all add: archive_small_def za_entry_at_def zip_dirent_init_def)
  then show "en_changes (za_entry_at archive_small 0) = None" "\<not> en_deleted (za_entry_at archive_small 0)"
    "\<exists>d. en_orig (za_entry_at archive_small 0) = Some d \<and> de_comment d = None \<and> de_last_mod d = 0"
    "orig_attributes (za_entry_at archive_small 0) = ZIP_EXT_ATTRIB_DEFAULT"
    by (auto simp: orig_attributes_def)
  have "\<not> ZIP_IS_RDONLY archive_small" by (simp add: archive_small_def ZIP_IS_RDONLY_def)
  then show "set_guarded archive_small 0 f = f archive_small"
    using e archive_small_inv(3) by (auto simp: set_guarded_def zip_get_dirent_def Let_def)
qed

lemma get_attributes_vis:
  "za_has za idx \<Longrightarrow> vis_dirent (za_entry_at za idx) = Some d \<Longrightarrow>
   fst (zip_file_get_external_attributes za idx 0) = Some (ucast (drop_bit 8 (de_version_madeby d) AND 0xff), de_ext_attrib d)"
  by (cases rule: zip_get_dirent_cases [of za idx 0 None]) (auto simp: zip_file_get_external_attributes_def)

lemma set_attributes_byte:
  "(ucast (drop_bit 8 (de_version_madeby (dirent_set_attributes opsys a d)) AND 0xff) :: u8) = opsys"
  "de_ext_attrib (dirent_set_attributes opsys a d) = a"
  by (simp_all add: dirent_set_attributes_def) (rule bit_word_eqI, auto simp: bit_simps)

lemma put_other_entry: "j \<noteq> unat idx \<Longrightarrow> za_entry (za_put_entry za idx e) ! j = za_entry za ! j"
  by (simp add: za_put_entry_def)

text \<open>C25. Setting the external attributes of an entry and reading them gives what was set, whatever
  changes the entry had; the other entries and all names stay.\<close>

theorem zip_external_attributes_set_get:
  assumes inv: "names_inv za" and set: "zip_file_set_external_attributes malloc_ok za idx flags opsys attrs = (0, za')"
  shows "fst (zip_file_get_external_attributes za' idx 0) = Some (opsys, attrs) \<and> names_inv za' \<and>
    (\<forall>j. j \<noteq> unat idx \<longrightarrow> za_entry za' ! j = za_entry za ! j)"
proof -
  note g = set_guarded_ok [OF set [unfolded zip_file_set_external_attributes_def]]
  let ?e = "za_entry_at za idx"
  have ok: "entry_ok ?e" by (rule entry_ok_at [OF inv g(1)])
  show ?thesis
  proof (cases "opsys \<noteq> orig_opsys ?e \<or> attrs \<noteq> orig_attributes ?e")
    case True
    let ?f = "\<lambda>d. (dirent_set_attributes opsys attrs d)\<lparr>de_changed := de_changed d OR ZIP_DIRENT_ATTRIBUTES\<rparr>"
    have za': "za' = za_put_entry za idx (?e\<lparr>en_changes := Some (?f (edited_dirent ?e))\<rparr>)"
      using g(3) True by (simp add: entry_change_ok Let_def)
    have keep: "keeps_name ?f"
      by (rule keeps_nameI [where x = ZIP_DIRENT_ATTRIBUTES]) (simp_all add: dirent_set_attributes_def)
    have "fst (zip_file_get_external_attributes za' idx 0) = Some (opsys, attrs)"
      using get_attributes_vis [of za' idx "?f (edited_dirent ?e)"] g(1) za' set_attributes_byte [of opsys attrs]
      by (simp add: vis_dirent_def dirent_set_attributes_def)
    then show ?thesis using za' names_inv_edit [OF inv g(1,4) keep] put_other_entry by auto
  next
    case False
    let ?f = "dirent_set_attributes (orig_opsys ?e) (orig_attributes ?e)"
    have za': "za' = za_put_entry za idx (entry_drop_change ZIP_DIRENT_ATTRIBUTES ?f ?e)"
      using g(3) False by (simp add: Let_def)
    have keep: "keeps_name ?f" by (simp add: keeps_name_def dirent_set_attributes_def)
    obtain d where d: "vis_dirent (entry_drop_change ZIP_DIRENT_ATTRIBUTES ?f ?e) = Some d"
      "ucast (drop_bit 8 (de_version_madeby d) AND 0xff) = opsys" "de_ext_attrib d = attrs"
    proof (cases "\<exists>c. en_changes ?e = Some c \<and> de_changed c AND NOT ZIP_DIRENT_ATTRIBUTES \<noteq> 0")
      case True
      then show ?thesis
        using that drop_vis_dirent [OF ok g(4), of ZIP_DIRENT_ATTRIBUTES ?f] False set_attributes_byte by auto
    next
      case no: False
      then have "vis_dirent (entry_drop_change ZIP_DIRENT_ATTRIBUTES ?f ?e) = en_orig ?e"
        using drop_vis_dirent [OF ok g(4), of ZIP_DIRENT_ATTRIBUTES ?f] by (auto split: option.splits)
      moreover have "en_orig ?e \<noteq> None"
        using no changed_zero_orig [OF ok, of _ ZIP_DIRENT_ATTRIBUTES] g(4) by (cases "en_changes ?e") (auto simp: vis_dirent_def split: if_splits)
      ultimately show ?thesis using that False by (auto simp: orig_opsys_def orig_attributes_def)
    qed
    then have "fst (zip_file_get_external_attributes za' idx 0) = Some (opsys, attrs)"
      using get_attributes_vis [of za' idx d] g(1) za' by simp
    then show ?thesis using za' names_inv_drop [OF inv g(1,4) keep, of ZIP_DIRENT_ATTRIBUTES] put_other_entry by auto
  qed
qed

theorem zip_external_attributes_set_get_witness:
  "\<exists>za'. zip_file_set_external_attributes malloc_ok archive_small 0 0 5 7 = (0, za') \<and>
     fst (zip_file_get_external_attributes za' 0 0) = Some (5, 7)"
proof -
  obtain r za' where set: "zip_file_set_external_attributes malloc_ok archive_small 0 0 5 7 = (r, za')" by (metis prod.exhaust)
  have "r = 0"
    using set archive_small_attributes by (simp add: zip_file_set_external_attributes_def Let_def entry_change_ok)
  with set zip_external_attributes_set_get [OF archive_small_inv(1), of 0 0 5 7 za'] show ?thesis by simp
qed

subsection \<open>Comments\<close>

lemma guess_raw:
  "zip_guess_encoding (Some s) x = (e, Some s') \<Longrightarrow> str_raw s' = str_raw s \<and> str_length s' = str_length s"
  by (auto simp: zip_guess_encoding_def Let_def split: if_splits prod.splits)

lemma string_new_raw:
  assumes "zip_string_new mem c len flags err = (Some s, err')" "length c = unat len"
  shows "str_raw s = c \<and> str_length s = len \<and> err' = err"
  using assms by (auto simp: zip_string_new_def Let_def split: if_splits option.splits prod.splits dest: guess_raw)

text \<open>A comment as text and length; \<open>None\<close> is the empty one.\<close>

definition comment_text :: "zip_string option \<Rightarrow> bytes \<times> u16" where
  "comment_text s = (case s of None \<Rightarrow> ([], 0) | Some s \<Rightarrow> (str_raw s, str_length s))"

lemma comment_string_text:
  assumes "comment_string mem c len flags err = (Some cstr, err')" "length c = unat len"
  shows "comment_text cstr = (c, len) \<and> (cstr = None \<longleftrightarrow> len = 0)"
proof (cases "len > 0")
  case False
  then show ?thesis using assms by (auto simp: comment_string_def comment_text_def word_gt_0)
next
  case True
  then obtain s err1 where n: "zip_string_new mem c len flags err = (Some s, err1)"
    using assms by (auto simp: comment_string_def split: prod.splits option.splits)
  note raw = string_new_raw [OF n assms(2)]
  show ?thesis
    using assms True n raw by (auto simp: comment_string_def comment_text_def guess_unknown split: if_splits)
qed

definition orig_comment :: "'s zip_entry \<Rightarrow> bytes \<times> u16" where
  "orig_comment e = comment_text (case en_orig e of None \<Rightarrow> None | Some d \<Rightarrow> de_comment d)"

text \<open>Changes other than the given one.\<close>

definition pending :: "u32 \<Rightarrow> 's zip_entry \<Rightarrow> bool" where
  "pending flag e = (\<exists>d. en_changes e = Some d \<and> de_changed d AND NOT flag \<noteq> 0)"

lemma get_comment_vis:
  assumes "za_has za idx" "vis_dirent (za_entry_at za idx) = Some d"
  shows "fst (zip_file_get_comment mem za idx ZIP_FL_ENC_RAW) =
    Some (fst (comment_text (de_comment d)), ucast (snd (comment_text (de_comment d))))"
  using assms
  by (cases rule: zip_get_dirent_cases [of za idx ZIP_FL_ENC_RAW None])
    (auto simp: zip_file_get_comment_def comment_text_def zip_string_get_def Let_def split: option.split)

lemma comment_changed_text:
  assumes "comment_text cstr = (c, len)" "cstr = None \<longleftrightarrow> len = 0"
  shows "\<not> comment_changed e cstr \<Longrightarrow> orig_comment e = (c, len)"
    "comment_changed e cstr \<Longrightarrow> orig_comment e = (c, len) \<Longrightarrow> c = [] \<and> len = 0 \<or> len = 0"
  using assms
  by (auto simp: comment_changed_def orig_comment_def comment_text_def zip_string_equal_def split: option.splits)

lemma comment_clear_views:
  assumes "entry_ok e" "vis_dirent e \<noteq> None"
  shows "entry_ok (comment_clear e)" "vis_dirent (comment_clear e) \<noteq> None" "en_orig (comment_clear e) = en_orig e"
proof -
  have bits: "(c AND NOT ZIP_DIRENT_COMMENT) AND ZIP_DIRENT_FILENAME = c AND ZIP_DIRENT_FILENAME" for c :: u32
    by (rule bit_word_eqI) (auto simp: bit_simps)
  show "entry_ok (comment_clear e)"
    using assms bits [simplified] by (auto simp: comment_clear_def entry_ok_def orig_name_def dirent_name_def)
  show "vis_dirent (comment_clear e) \<noteq> None" "en_orig (comment_clear e) = en_orig e"
    using assms(2) by (simp_all add: comment_clear_def vis_dirent_def split: if_splits)
qed



subsection \<open>Modification times\<close>

lemma stat_index_vis:
  assumes oks: "\<forall>e \<in> set (za_entry za). entry_ok e" and has: "za_has za idx"
    and v: "vis_dirent (za_entry_at za idx) = Some d" and src: "en_source (za_entry_at za idx) = None"
  shows "\<exists>st' za'. zip_stat_index malloc_ok za idx 0 st = (0, st', za') \<and> st_mtime st' = de_last_mod d \<and>
    st_size st' = de_uncomp_size d \<and> st_name st' = Some (dirent_name d)"
proof -
  obtain n za1 where g: "with_za_error (\<lambda>za. zip_get_name malloc_ok za idx 0) za = (n, za1)" by (metis prod.exhaust)
  note name = get_name_za [OF oks has _ _ g]
  have n: "n = Some (dirent_name d)" using name(2) v by (simp add: shown_name_def cur_name_def)
  have "same_entry (za_entry_at za idx) (za_entry_at za1 idx)"
    using same_za_fields(6) [OF name(1)] has by (simp add: za_entry_at_def za_has_def)
  then have "en_source (za_entry_at za1 idx) = None" using src by (simp add: same_entry_def)
  then show ?thesis
    using v has g n
    by (cases rule: zip_get_dirent_cases [of za idx 0 None])
      (auto simp: zip_stat_index_def Let_def ZIP_ENTRY_DATA_CHANGED_def dirent_stat_def)
qed



subsection \<open>The archive comment\<close>

text \<open>C28. Setting the archive comment and reading it gives the text set; but removing the comment of an
  archive that has one is not seen: reading still gives the original.\<close>

theorem zip_archive_comment_set_get:
  assumes len: "length c = unat len" and set: "zip_set_archive_comment malloc_ok za (Some c) len = (0, za')"
  shows "map_option fst (fst (zip_get_archive_comment mem za' ZIP_FL_ENC_RAW)) =
      Some (if c = [] then fst (comment_text (za_comment_orig za)) else c) \<and>
    za_comment_changed za' = (comment_text (za_comment_orig za) \<noteq> (c, len) \<or> c = [] \<and> za_comment_orig za \<noteq> None)"
proof (cases "len > 0")
  case False
  then have "len = 0" "c = []" using len by (simp_all add: word_gt_0)
  then show ?thesis
    using set by (auto simp: zip_set_archive_comment_def za_fail_def zip_get_archive_comment_def Let_def zip_string_get_def
        comment_text_def zip_string_equal_def split: option.splits if_splits)
next
  case True
  then have ne: "c \<noteq> []" using len by (auto simp: word_gt_0 unat_eq_zero)
  obtain s err where n: "zip_string_new malloc_ok c len ZIP_FL_ENC_GUESS (za_error za) = (Some s, err)"
    using set True by (auto simp: zip_set_archive_comment_def za_fail_def split: if_splits prod.splits option.splits)
  note raw = string_new_raw [OF n len]
  show ?thesis
    using set True ne n raw
    by (auto simp: zip_set_archive_comment_def za_fail_def zip_get_archive_comment_def Let_def zip_string_get_def
        comment_text_def zip_string_equal_def guess_unknown split: option.splits if_splits)
qed

theorem zip_archive_comment_set_get_witness:
  "\<exists>za'. zip_set_archive_comment malloc_ok archive_small (Some [104, 105]) 2 = (0, za') \<and>
     map_option fst (fst (zip_get_archive_comment malloc_ok za' ZIP_FL_ENC_RAW)) = Some [104, 105]"
proof -
  obtain r za' where set: "zip_set_archive_comment malloc_ok archive_small (Some [104, 105]) 2 = (r, za')" by (metis prod.exhaust)
  have "r = 0"
    using set by (auto simp: zip_set_archive_comment_def archive_small_def zip_string_new_def expected_encoding_def
        guess_unknown plain_char_def ZIP_IS_RDONLY_def split: if_splits)
  with set zip_archive_comment_set_get [of "[104, 105]" 2 archive_small za' malloc_ok] show ?thesis by simp
qed

subsection \<open>Setters that do not look whether the entry was deleted\<close>

text \<open>C29. \<open>zip_set_file_compression\<close> accepts a deleted entry and makes it show its name again, while
  it stays marked as deleted and cannot be found by that name.\<close>

theorem zip_set_file_compression_deleted:
  assumes inv: "names_inv za" "za_has za idx" "\<not> ZIP_IS_RDONLY za"
    and o1: "en_orig (za_entry_at za idx) = Some o1" "de_comp_method o1 \<noteq> meth" "zip_compression_method_supported meth"
    and n: "cur_name (za_entry_at za idx) = Some n" "dirent_name o1 = n" "n \<noteq> []"
  shows "\<exists>za1 za2. zip_delete malloc_ok za idx = (0, za1) \<and> fst (zip_get_name malloc_ok za1 idx 0 err) = None \<and>
    zip_set_file_compression malloc_ok za1 idx meth 0 = (0, za2) \<and> en_deleted (za_entry_at za2 idx) \<and>
    fst (zip_get_name malloc_ok za2 idx 0 err) = Some n \<and> fst (zip_name_locate malloc_ok za2 (Some n) 0 err) = -1"
proof -
  obtain za0 names e where d: "zip_delete malloc_ok za idx =
      (0, (za_put_entry za0 idx ((entry_reset (za_entry_at za0 idx))\<lparr>en_deleted := True\<rparr>))\<lparr>za_names := names, za_error := e\<rparr>)"
    and za0: "same_za za za0" and names: "hash_wf names" "cur_index names = (cur_index (za_names za))(n := -1)"
    using zip_delete_result [OF inv n(1,3)] by blast
  let ?e1 = "(entry_reset (za_entry_at za0 idx))\<lparr>en_deleted := True\<rparr>"
  define za1 where "za1 = (za_put_entry za0 idx ?e1)\<lparr>za_names := names, za_error := e\<rparr>"
  note at = same_za_at [OF za0 inv(2)]
  have at1: "za_has za1 idx" "za_entry_at za1 idx = ?e1" "\<not> ZIP_IS_RDONLY za1" "za_names za1 = names"
    using at(1) same_za_fields(3) [OF za0] inv(3)
    by (simp_all add: za1_def za_has_def za_entry_at_def za_put_entry_def ZIP_IS_RDONLY_def)
  have oks0: "\<forall>e \<in> set (za_entry za0). entry_ok e"
    using inv(1) by (intro same_za_fields(7) [OF za0]) (simp add: names_inv_def)
  have ok0: "entry_ok (za_entry_at za0 idx)" using oks0 at(1) by (simp add: za_entry_at_def za_has_def)
  obtain o2 where o2: "en_orig (za_entry_at za0 idx) = Some o2" "same_dirent o1 o2"
    using at(2) o1(1) by (auto simp: same_entry_def option_rel_Some1)
  note o2s = same_dirent_fields [OF o2(2)]
  let ?d = "o2\<lparr>de_cloned := True, de_comp_method := meth, de_compression_level := 0, de_changed := ZIP_DIRENT_COMP_METHOD\<rparr>"
  let ?e2 = "?e1\<lparr>en_changes := Some ?d\<rparr>"
  have e1: "en_orig ?e1 = Some o2" "en_changes ?e1 = None" "en_deleted ?e1" by (simp_all add: entry_reset_def o2)
  have set: "zip_set_file_compression malloc_ok za1 idx meth 0 = (0, za_put_entry za1 idx ?e2)"
    using at1 o1 o2s e1 by (simp add: zip_set_file_compression_def Let_def entry_change_ok edited_dirent_def)
  have none: "fst (zip_get_name malloc_ok za1 idx 0 err) = None"
    using at1 e1 by (simp add: zip_get_name_def zip_get_dirent_def Let_def)
  have str: "str_ok (de_filename o2)" using ok0 o2(1) by (simp add: entry_ok_def)
  define er where "er = (case err of None \<Rightarrow> zip_error_init | Some e \<Rightarrow> e)"
  obtain len s' where "zip_string_get malloc_ok (de_filename o2) 0 er = (Some (name_of (de_filename o2), len), s', er)"
    using zip_string_get_same [OF str, of 0 er] by auto
  then have "fst (zip_get_name malloc_ok (za_put_entry za1 idx ?e2) idx 0 err) = Some n"
    using at1 o2s(1) n(2) by (simp add: zip_get_name_def zip_get_dirent_def Let_def dirent_name_def flip: er_def)
  moreover have "fst (zip_name_locate malloc_ok (za_put_entry za1 idx ?e2) (Some n) 0 err) = -1"
    using zip_name_locate_hash [of "za_put_entry za1 idx ?e2" 0 malloc_ok n err] names at1(4)
    by (auto simp: za_put_entry_def)
  ultimately show ?thesis
    using d set none at1 by (intro exI [of _ za1] exI [of _ "za_put_entry za1 idx ?e2"]) (simp add: za1_def [symmetric])
qed

theorem zip_set_file_compression_deleted_witness:
  "\<exists>za1 za2. zip_delete malloc_ok archive_small 0 = (0, za1) \<and> fst (zip_get_name malloc_ok za1 0 0 None) = None \<and>
    zip_set_file_compression malloc_ok za1 0 8 0 = (0, za2) \<and> en_deleted (za_entry_at za2 0) \<and>
    fst (zip_get_name malloc_ok za2 0 0 None) = Some [97] \<and> fst (zip_name_locate malloc_ok za2 (Some [97]) 0 None) = -1"
  using zip_set_file_compression_deleted [OF archive_small_inv(1,3), of "the (en_orig (za_entry_at archive_small 0))" 8 "[97]" None]
  by (simp add: archive_small_def za_entry_at_def ZIP_IS_RDONLY_def zip_dirent_init_def cur_name_def vis_dirent_def
      dirent_name_def name_of_def zip_compression_method_supported_def get_algorithm_def ZIP_CM_ACTUAL_def
      ZIP_CM_IS_DEFAULT_def implementations_def)

end
