(* ===== verification/Zip_Open_Facts.thy ===== *)
theory Zip_Open_Facts
  imports Zip_Open Zip_Attributes_Facts Zip_Source_Buffer_File
begin

text \<open>
  What opening an archive guarantees: every slot of the directory is filled, the directory does not
  reach past its end record, names are looked up as the first entry that has them, and there are no
  changes. Consistency checks compare every entry with its local header.
\<close>

section \<open>Searching\<close>

lemma memmem_from_None:
  "memmem_from big little p = None \<Longrightarrow> little \<noteq> [] \<Longrightarrow> take (length little) (drop j big) \<noteq> little"
proof (induction big little p arbitrary: j rule: memmem_from.induct)
  case (1 little p)
  then show ?case by simp
next
  case (2 c big little p)
  have little: "little = little ! 0 # drop 1 little" using 2(3) by (cases little) auto
  show ?case
  proof (cases "length (c # big) < length little")
    case True
    show ?thesis
    proof
      assume "take (length little) (drop j (c # big)) = little"
      then have "length (take (length little) (drop j (c # big))) = length little" by simp
      then show False using True by simp
    qed
  next
    case False
    then have no: "\<not> (c = little ! 0 \<and> take (length little - 1) big = drop 1 little)"
      and rec: "memmem_from big little (p + 1) = None"
      using 2(2) by (auto split: if_splits)
    show ?thesis
    proof (cases j)
      case 0
      then show ?thesis using no little by (cases little) auto
    next
      case (Suc k)
      then show ?thesis using 2(1) [OF False no rec 2(3)] by simp
    qed
  qed
qed

lemma memmem_from_Some:
  "memmem_from big little p = Some k \<Longrightarrow> little \<noteq> [] \<Longrightarrow>
   p \<le> k \<and> take (length little) (drop (k - p) big) = little \<and>
   (\<forall>j < k - p. take (length little) (drop j big) \<noteq> little)"
proof (induction big little p rule: memmem_from.induct)
  case (1 little p)
  then show ?case by simp
next
  case (2 c big little p)
  have len: "\<not> length (c # big) < length little" using 2(2) by (auto split: if_splits)
  show ?case
  proof (cases "c = little ! 0 \<and> take (length little - 1) big = drop 1 little")
    case True
    then show ?thesis using 2(2,3) len by (cases little) auto
  next
    case False
    then have "memmem_from big little (p + 1) = Some k" using 2(2) len by auto
    from 2(1) [OF len False this 2(3)]
    have ih: "p + 1 \<le> k" "take (length little) (drop (k - (p + 1)) big) = little"
      "\<forall>j < k - (p + 1). take (length little) (drop j big) \<noteq> little" by auto
    have k: "k - p = Suc (k - (p + 1))" using ih(1) by simp
    have "take (length little) (drop j (c # big)) \<noteq> little" if "j < k - p" for j
      using that ih(3) False 2(3) k by (cases j; cases little) auto
    then show ?thesis using ih(1,2) k by simp
  qed
qed

text \<open>C35. The search for a magic number finds its first occurrence and nothing else.\<close>

theorem zip_memmem_first:
  assumes "little \<noteq> []"
  shows "zip_memmem big little =
    (if \<exists>k. take (length little) (drop k big) = little
     then Some (LEAST k. take (length little) (drop k big) = little) else None)"
proof (cases "zip_memmem big little")
  case None
  have "take (length little) (drop k big) \<noteq> little" for k
  proof (cases "length big < length little")
    case True
    then have "length (take (length little) (drop k big)) < length little" by simp
    then show ?thesis by (metis less_irrefl)
  next
    case False
    then show ?thesis using None memmem_from_None assms by (auto simp: zip_memmem_def split: if_splits)
  qed
  then show ?thesis using None by simp
next
  case (Some k)
  then have m: "memmem_from big little 0 = Some k" by (auto simp: zip_memmem_def split: if_splits)
  note s = memmem_from_Some [OF m assms]
  have "(LEAST k. take (length little) (drop k big) = little) = k"
    using s by (intro Least_equality) (auto simp: not_less [symmetric])
  then show ?thesis using Some s by auto
qed

theorem zip_memmem_first_witness:
  "(LEAST k. take (length EOCD_MAGIC) (drop k [1, 0x50, 0x4b, 5, 6, 0x50, 0x4b, 5, 6]) = EOCD_MAGIC) = 1"
proof -
  have "zip_memmem [1, 0x50, 0x4b, 5, 6, 0x50, 0x4b, 5, 6] EOCD_MAGIC = Some 1" by (simp add: zip_memmem_def)
  then show ?thesis
    using zip_memmem_first [of EOCD_MAGIC "[1, 0x50, 0x4b, 5, 6, 0x50, 0x4b, 5, 6]"] by (metis list.discI option.inject option.simps(3))
qed

section \<open>Reading the directory\<close>

definition fresh_entry :: "'s zip_entry \<Rightarrow> bool" where
  "fresh_entry e = (en_changes e = None \<and> en_source e = None \<and> \<not> en_deleted e)"

text \<open>A directory whose first \<open>i\<close> entries have been read.\<close>

definition cdir_upto :: "nat \<Rightarrow> 's zip_cdir \<Rightarrow> bool" where
  "cdir_upto i cd = (length (cd_entry cd) = unat (cd_nentry_alloc cd) \<and> cd_nentry_alloc cd \<le> CDIR_MAX_ENTRIES \<and>
     (\<forall>e \<in> set (cd_entry cd). fresh_entry e) \<and> i \<le> length (cd_entry cd) \<and>
     (\<forall>j < i. en_orig (cd_entry cd ! j) \<noteq> None))"

definition cdir_read :: "'s zip_cdir \<Rightarrow> bool" where
  "cdir_read cd = cdir_upto (length (cd_entry cd)) cd"

lemma fresh_init [simp]: "fresh_entry zip_entry_init"
  by (simp add: fresh_entry_def zip_entry_init_def)

lemma cdir_grow_upto:
  assumes "cdir_upto i cd" "zip_cdir_grow mem cd n err = (ok, cd', err')"
  shows "cdir_upto i cd'" "cd_offset cd' = cd_offset cd" "cd_size cd' = cd_size cd" "cd_is_zip64 cd' = cd_is_zip64 cd"
    "length (cd_entry cd) \<le> length (cd_entry cd')"
proof -
  let ?n = "cd_nentry_alloc cd + n"
  have add: "unat ?n = unat (cd_nentry_alloc cd) + unat n" if "\<not> ?n < n"
    using that unat_bounds(4) [of n] unat_bounds(4) [of "cd_nentry_alloc cd"]
    by (cases "unat (cd_nentry_alloc cd) + unat n < 2 ^ 64") (auto simp: unat_word_ariths word_less_nat_alt le_mod_geq not_less)
  show "cdir_upto i cd'" "cd_offset cd' = cd_offset cd" "cd_size cd' = cd_size cd" "cd_is_zip64 cd' = cd_is_zip64 cd"
    "length (cd_entry cd) \<le> length (cd_entry cd')"
    using assms add
    by (auto simp: zip_cdir_grow_def cdir_upto_def Let_def nth_append split: if_splits)
qed

lemma cdir_new_upto:
  assumes "zip_cdir_new mem n err = (Some cd, err')"
  shows "cdir_upto 0 cd" "cd_comment cd = None"
proof -
  let ?cd = "\<lparr>cd_entry = [], cd_nentry_alloc = 0, cd_size = 0, cd_offset = 0, cd_comment = None, cd_is_zip64 = False\<rparr>"
  have "cdir_upto 0 (?cd :: 'a zip_cdir)" by (simp add: cdir_upto_def)
  then show "cdir_upto 0 cd"
    using assms cdir_grow_upto(1) [of 0 ?cd mem n err] by (auto simp: zip_cdir_new_def split: if_splits prod.splits)
  show "cd_comment cd = None"
    using assms by (auto simp: zip_cdir_new_def zip_cdir_grow_def Let_def split: if_splits prod.splits)
qed

lemma cdir_upto_set:
  assumes "cdir_upto i cd" "i < length (cd_entry cd)"
  shows "cdir_upto (i + 1) (cd\<lparr>cd_entry := (cd_entry cd)[i := (cd_entry cd ! i)\<lparr>en_orig := Some de\<rparr>]\<rparr>)"
proof -
  have "fresh_entry (cd_entry cd ! i)" using assms by (simp add: cdir_upto_def)
  then have "fresh_entry ((cd_entry cd ! i)\<lparr>en_orig := Some de\<rparr>)" by (simp add: fresh_entry_def)
  then show ?thesis
    using assms set_update_subset_insert [of "cd_entry cd" i "(cd_entry cd ! i)\<lparr>en_orig := Some de\<rparr>"]
    by (auto simp: cdir_upto_def nth_list_update less_Suc_eq)
qed

lemma read_cdir_loop_upto:
  "cdir_upto i cd \<Longrightarrow> read_cdir_loop mem ext b cd i left src err = (Some (cd', i', left'), b', src', err') \<Longrightarrow>
   cdir_upto i' cd' \<and> cd_offset cd' = cd_offset cd \<and> cd_size cd' = cd_size cd \<and> i \<le> i'"
proof (induction mem ext b cd i left src err rule: read_cdir_loop.induct)
  case (1 mem ext b cd i left src err)
  show ?case
  proof (cases "left = 0 \<or> length (cd_entry cd) \<le> i \<and> (cd_is_zip64 cd \<or> left < CDENTRYSIZE)")
    case True
    then have "(cd', i', left') = (cd, i, left)"
      using 1(3) by (subst (asm) read_cdir_loop.simps) (auto simp: Let_def split: if_splits)
    then show ?thesis using 1(2) by simp
  next
    case False
    let ?extra = "i \<ge> length (cd_entry cd)"
    obtain ok cd1 err1 where g: "(if ?extra then zip_cdir_grow mem cd 0x10000 err else (True, cd, err)) = (ok, cd1, err1)"
      by (metis prod_cases3)
    note up = cdir_grow_upto [OF 1(2)]
    have cd1: "cdir_upto i cd1" "cd_offset cd1 = cd_offset cd" "cd_size cd1 = cd_size cd"
      using g 1(2) up by (auto split: if_splits)
    have ok: "ok" "i < length (cd_entry cd1)" using 1(3) False g
      by (subst (asm) read_cdir_loop.simps, auto simp: Let_def split: if_splits bool.splits)+
    obtain r b1 src1 err2 where e: "read_cdir_entry mem ext src b ?extra err1 = (r, b1, src1, err2)" by (metis prod_cases4)
    obtain de n where r: "r = Some (de, n)"
      using 1(3) False g e ok by (subst (asm) read_cdir_loop.simps) (auto simp: Let_def split: if_splits option.splits)
    have okT: "ok = True" using ok(1) by simp
    let ?cd2 = "cd1\<lparr>cd_entry := (cd_entry cd1)[i := (cd_entry cd1 ! i)\<lparr>en_orig := Some de\<rparr>]\<rparr>"
    have step: "read_cdir_loop mem ext b cd i left src err = read_cdir_loop mem ext b1 ?cd2 (i + 1) (left - word_of_int n) src1 err2"
      using False g e ok r by (subst read_cdir_loop.simps) (auto simp: Let_def)
    have ih: "cdir_upto (i + 1) ?cd2 \<Longrightarrow> read_cdir_loop mem ext b1 ?cd2 (i + 1) (left - word_of_int n) src1 err2 =
        (Some (cd', i', left'), b', src', err') \<Longrightarrow>
      cdir_upto i' cd' \<and> cd_offset cd' = cd_offset ?cd2 \<and> cd_size cd' = cd_size ?cd2 \<and> i + 1 \<le> i'"
      by (rule 1(1) [OF _ refl _ g [symmetric] okT refl _ e [symmetric] r refl refl refl]) (use False ok in auto)
    show ?thesis using ih [OF cdir_upto_set [OF cd1(1) ok(2)]] 1(3) cd1(2,3) unfolding step by auto
  qed
qed

lemma cdir_upto_fields [simp]:
  "cdir_upto i (cd\<lparr>cd_is_zip64 := z\<rparr>) = cdir_upto i cd" "cdir_upto i (cd\<lparr>cd_size := sz\<rparr>) = cdir_upto i cd"
  "cdir_upto i (cd\<lparr>cd_offset := off\<rparr>) = cdir_upto i cd" "cdir_upto i (cd\<lparr>cd_comment := c\<rparr>) = cdir_upto i cd"
  by (simp_all add: cdir_upto_def)

lemma read_eocd_upto: "zip_read_eocd mem b base flags err = (Some cd, err') \<Longrightarrow> cdir_upto 0 cd"
  by (auto simp: zip_read_eocd_def Let_def dest: cdir_new_upto(1) split: if_splits prod.splits option.splits)

lemma read_eocd64_record_upto:
  "read_eocd64_record mem b base loc off nd ed flags err = (Some cd, err') \<Longrightarrow> cdir_upto 0 cd"
  by (auto simp: read_eocd64_record_def Let_def dest: cdir_new_upto(1) split: if_splits prod.splits option.splits)

lemma read_eocd64_upto:
  assumes "zip_read_eocd64 mem src b base flags err = (Some cd, src', err')"
  shows "cdir_upto 0 cd"
  using assms
  by (auto simp: zip_read_eocd64_def Let_def split: if_splits prod.splits option.splits dest: read_eocd64_record_upto)

lemma read_cdir_loop_start:
  "read_cdir_loop mem ext b (cd\<lparr>cd_comment := c\<rparr>) 0 left src err = (Some (cd', i', left'), b', src', err') \<Longrightarrow>
   cdir_upto 0 cd \<Longrightarrow> cdir_upto i' cd' \<and> cd_offset cd' = cd_offset cd \<and> cd_size cd' = cd_size cd"
  using read_cdir_loop_upto [of 0 "cd\<lparr>cd_comment := c\<rparr>"] by simp

lemma zip_read_cdir_read:
  assumes "zip_read_cdir mem ext src flags open_flags b base err = (Some cd, src', err')"
  shows "cdir_read cd \<and> cd_offset cd + cd_size cd \<le> base + zip_buffer_offset b"
  using assms
  by (auto simp: zip_read_cdir_def Let_def cdir_read_def not_less
      dest!: read_cdir_loop_start dest: read_eocd64_upto read_eocd_upto
      split: if_splits prod.splits option.splits)


text \<open>An archive with one entry, an empty file: local header, central directory at 31 and end record
  at 78.\<close>

definition archive_image :: bytes where
  "archive_image =
     [0x50, 0x4b, 3, 4, 10, 0, 0, 0, 0, 0, 0, 0, 0x21, 0x28, 0, 0, 0, 0, 0, 0, 0, 0, 0, 0, 0, 0, 1, 0, 0, 0, 97] @
     [0x50, 0x4b, 1, 2, 63, 3, 10, 0, 0, 0, 0, 0, 0, 0, 0x21, 0x28, 0, 0, 0, 0, 0, 0, 0, 0, 0, 0, 0, 0, 1, 0, 0, 0, 0, 0,
      0, 0, 0, 0, 0, 0, 0, 0, 0, 0, 0, 0, 97] @
     [0x50, 0x4b, 5, 6, 0, 0, 0, 0, 1, 0, 1, 0, 47, 0, 0, 0, 31, 0, 0, 0, 0, 0]"

definition image_buffer :: zip_buffer where
  "image_buffer = \<lparr>buf_ok = True, buf_free_data = False, buf_data = archive_image, buf_size = 100, buf_offset = 78\<rparr>"

definition idle_source :: "unit zip_source" where
  "idle_source = \<lparr>src_src = None, src_cb = \<lambda>s _. ((0, No_data), s), src_ud = (), src_error = zip_error_init,
     src_supports = 0, src_open_count = 0, src_write_state = ZIP_SOURCE_WRITE_CLOSED, src_source_closed = False,
     src_source_archive = None, src_refcount = 1, src_eof = False, src_had_read_error = False\<rparr>"


section \<open>Consistency checks\<close>

lemma checkcons_loop_result:
  "checkcons_loop mem ext is low high cd src err = (r, cd', src', err') \<Longrightarrow> cdir_upto n cd \<Longrightarrow> \<forall>i \<in> set is. i < n \<Longrightarrow>
   cdir_upto n cd' \<and> cd_offset cd' = cd_offset cd \<and> cd_comment cd' = cd_comment cd \<and>
   length (cd_entry cd') = length (cd_entry cd)"
proof (induction mem ext "is" low high cd src err rule: checkcons_loop.induct)
  case (1 mem ext low high cd src err)
  then show ?case by simp
next
  case (2 mem ext i "is" low high cd src err)
  have n: "i < n" "i < length (cd_entry cd)" using 2(3,4) by (auto simp: cdir_upto_def)
  have "fresh_entry (cd_entry cd ! i)" using 2(3) n(2) by (simp add: cdir_upto_def)
  then have up: "cdir_upto n (cd\<lparr>cd_entry := (cd_entry cd)[i := (cd_entry cd ! i)\<lparr>en_orig := Some d\<rparr>]\<rparr>)" for d
    using 2(3) n set_update_subset_insert [of "cd_entry cd" i "(cd_entry cd ! i)\<lparr>en_orig := Some d\<rparr>"]
    by (auto simp: cdir_upto_def nth_list_update fresh_entry_def)
  show ?case
    using 2(2,3,4) up
    by (auto simp: Let_def split: if_splits prod.splits option.splits dest!: 2(1) [rotated -3])
qed

lemma zip_checkcons_result:
  assumes "zip_checkcons mem ext src cd err = (a, cd', src', err')" "cdir_read cd"
  shows "cdir_read cd' \<and> cd_offset cd' = cd_offset cd \<and> cd_comment cd' = cd_comment cd"
proof -
  obtain "is" low high r src1 err1 where "checkcons_loop mem ext is low high cd src err = (r, cd', src1, err1)"
    "\<forall>i \<in> set is. i < length (cd_entry cd)"
    using assms(1) by (auto simp: zip_checkcons_def Let_def split: prod.splits option.splits)
  from checkcons_loop_result [OF this(1) assms(2) [unfolded cdir_read_def] this(2)] show ?thesis by (simp add: cdir_read_def)
qed

lemma cdir_better_read:
  assumes "cdir_better mem ext open_flags cdir best cdirnew src err = (r, best', src', err')"
    "cdir_read cdirnew" "\<forall>cd. cdir = Some cd \<longrightarrow> cdir_read cd"
  shows "\<forall>cd. r = Some cd \<longrightarrow> cdir_read cd"
  using assms
  by (auto simp: cdir_better_def split: option.splits prod.splits if_splits dest!: zip_checkcons_result)

lemma find_cdir_loop_read:
  "find_cdir_loop mem ext flags open_flags base b m cdir best src err = (r, best', src', err') \<Longrightarrow>
   \<forall>cd. cdir = Some cd \<longrightarrow> cdir_read cd \<Longrightarrow> \<forall>cd. r = Some cd \<longrightarrow> cdir_read cd"
proof (induction mem ext flags open_flags base b m cdir best src err rule: find_cdir_loop.induct)
  case (1 mem ext flags open_flags base b m cdir best src err)
  show ?case
  proof (cases "zip_memmem (take (unat (zip_buffer_left b - (EOCDLEN - 4))) (drop m (buf_data b))) EOCD_MAGIC")
    case None
    then show ?thesis using 1(2,3) by (subst (asm) find_cdir_loop.simps) simp
  next
    case (Some k)
    let ?b = "snd (zip_buffer_set_offset b (of_nat (m + k)))"
    define st where "st = (case zip_read_cdir mem ext src flags open_flags ?b base err of
        (None, src, err) \<Rightarrow> (cdir, best, src, err)
      | (Some cdirnew, src, err) \<Rightarrow> cdir_better mem ext open_flags cdir best cdirnew src err)"
    obtain c1 b1 s1 e1 where st: "st = (c1, b1, s1, e1)" by (metis prod_cases4)
    have c1: "\<forall>cd. c1 = Some cd \<longrightarrow> cdir_read cd"
      using st 1(3)
      by (auto simp: st_def split: prod.splits option.splits dest!: zip_read_cdir_read dest: cdir_better_read)
    have step: "find_cdir_loop mem ext flags open_flags base b m cdir best src err =
        find_cdir_loop mem ext flags open_flags base (snd (zip_buffer_set_offset ?b (of_nat (m + k + 1)))) (m + k + 1) c1 b1 s1 e1"
      by (subst find_cdir_loop.simps) (simp only: Some option.case Let_def st_def [symmetric] st prod.case)
    show ?thesis
      by (rule 1(1) [OF Some refl refl st_def st [symmetric] refl refl 1(2) [unfolded step] c1])
  qed
qed

lemma zip_find_central_dir_read:
  assumes "zip_find_central_dir mem ext src flags open_flags len za_err = (Some cd, src', err')"
  shows "cdir_read cd"
proof -
  obtain base b m s e best s1 e1 where
    "find_cdir_loop mem ext flags open_flags base b m None (-1) s e = (Some cd, best, s1, e1)"
    using assms by (auto simp: zip_find_central_dir_def Let_def split: if_splits prod.splits option.splits)
  from find_cdir_loop_read [OF this] show ?thesis by simp
qed

section \<open>Names of an opened archive\<close>

text \<open>Looking at a name works exactly when it gives the name.\<close>

lemma string_get_value:
  assumes "zip_string_get malloc_ok s 0 err = (Some (n, l), s', err')"
  shows "n = name_of s \<and> same_str s s' \<and> err' = err"
proof (cases s)
  case None
  then show ?thesis using assms by (simp add: zip_string_get_def)
next
  case (Some t)
  define u where "u = (if str_encoding t = ZIP_ENCODING_UNKNOWN
    then t\<lparr>str_encoding := guess_scan (str_raw t) ZIP_ENCODING_ASCII\<rparr> else t)"
  have u: "str_raw u = str_raw t" "str_converted u = str_converted t" "str_encoding u \<noteq> ZIP_ENCODING_UNKNOWN"
    by (simp_all add: u_def guess_scan_not_unknown)
  have name: "name_of s = (if str_encoding u = ZIP_ENCODING_CP437
      then (case str_converted t of Some c \<Rightarrow> c | None \<Rightarrow> cp437_fill (str_raw t)) else str_raw t)"
    by (simp add: name_of_def Some u_def Let_def)
  have get: "zip_string_get malloc_ok s 0 err =
      (if str_encoding u = ZIP_ENCODING_CP437
       then case str_converted t of
              Some c \<Rightarrow> (Some (c, str_converted_length u), Some u, err)
            | None \<Rightarrow> (case zip_cp437_to_utf8 malloc_ok (str_raw t) err of
                        (None, err') \<Rightarrow> (None, Some u, err')
                      | (Some (c, n), err') \<Rightarrow> (Some (c, n), Some (u\<lparr>str_converted := Some c, str_converted_length := n\<rparr>), err'))
       else (Some (str_raw t, ucast (str_length u)), Some u, err))"
    by (simp add: zip_string_get_def Some Let_def guess_unknown u_def zip_cp437_to_utf8_def split: option.split)
  have nu: "name_of (Some u) = name_of s" unfolding name using u by (simp add: name_of_def Let_def split: option.split)
  have nc: "name_of (Some (u\<lparr>str_converted := Some (cp437_fill (str_raw t)), str_converted_length := k\<rparr>)) = name_of s"
    if "str_encoding u = ZIP_ENCODING_CP437" "str_converted t = None" for k
    unfolding name using u that by (simp add: name_of_def Let_def)
  have ok: "str_ok s \<longrightarrow> str_ok (Some u)" "str_ok s \<longrightarrow> str_ok (Some (u\<lparr>str_converted := c, str_converted_length := k\<rparr>))" for c k
    using Some u(1) by (simp_all add: str_ok_def)
  show ?thesis
  proof (cases "str_encoding u = ZIP_ENCODING_CP437")
    case False
    then show ?thesis using assms nu ok name Some unfolding get by (auto simp: same_str_def)
  next
    case True
    then show ?thesis
      using assms nu nc [OF True] ok name Some unfolding get
      by (cases "str_converted t") (auto simp: same_str_def zip_cp437_to_utf8_def split: if_splits)
  qed
qed

text \<open>The position of the first occurrence of a name.\<close>

definition first_index :: "bytes list \<Rightarrow> bytes \<Rightarrow> int" where
  "first_index ns n = (if n \<in> set ns then int (LEAST i. i < length ns \<and> ns ! i = n) else -1)"

lemma first_index_snoc:
  "first_index (ns @ [x]) n = (if n \<in> set ns then first_index ns n else if n = x then int (length ns) else -1)"
proof (cases "n \<in> set ns")
  case True
  then obtain i where i: "i < length ns" "ns ! i = n" by (auto simp: in_set_conv_nth)
  let ?k = "LEAST i. i < length ns \<and> ns ! i = n"
  have k: "?k < length ns \<and> ns ! ?k = n" by (rule LeastI [of "\<lambda>i. i < length ns \<and> ns ! i = n" i]) (use i in simp)
  have "(LEAST i. i < length (ns @ [x]) \<and> (ns @ [x]) ! i = n) = ?k"
  proof (rule Least_equality)
    show "?k < length (ns @ [x]) \<and> (ns @ [x]) ! ?k = n" using k by (simp add: nth_append)
    fix j assume j: "j < length (ns @ [x]) \<and> (ns @ [x]) ! j = n"
    show "?k \<le> j"
    proof (cases "j < length ns")
      case True
      then show ?thesis using j by (intro Least_le) (simp add: nth_append)
    next
      case False
      then show ?thesis using k by simp
    qed
  qed
  then show ?thesis using True by (simp add: first_index_def)
next
  case False
  have "(LEAST i. i < length (ns @ [x]) \<and> (ns @ [x]) ! i = x) = length ns" if "n = x"
    using False that by (intro Least_equality) (auto simp: nth_append not_less split: if_splits)
  then show ?thesis using False by (auto simp: first_index_def)
qed

lemma first_index_distinct:
  assumes "distinct ns"
  shows "first_index ns n \<ge> -1" "(first_index ns n = int i) = (i < length ns \<and> ns ! i = n)"
proof -
  show "first_index ns n \<ge> -1" by (simp add: first_index_def)
  show "(first_index ns n = int i) = (i < length ns \<and> ns ! i = n)"
  proof (cases "n \<in> set ns")
    case True
    then obtain j where j: "j < length ns" "ns ! j = n" by (auto simp: in_set_conv_nth)
    have "(LEAST i. i < length ns \<and> ns ! i = n) = j"
      using j assms by (intro Least_equality) (auto simp: nth_eq_iff_index_eq)
    then show ?thesis using True j assms by (auto simp: first_index_def nth_eq_iff_index_eq)
  qed (auto simp: first_index_def)
qed

text \<open>The names of entries as they were read.\<close>

definition file_name :: "'s zip_entry \<Rightarrow> bytes" where
  "file_name e = dirent_name (the (en_orig e))"

text \<open>A table over the names of the first entries.\<close>

definition names_of_prefix :: "zip_hash \<Rightarrow> bytes list \<Rightarrow> bool" where
  "names_of_prefix h ns = (hash_wf h \<and> unat (hash_nentries h) \<le> length ns \<and>
     (\<forall>n. hash_map h n = (if n \<in> set ns then Some (first_index ns n, first_index ns n) else None)))"

lemma names_prefix_add:
  assumes h: "names_of_prefix h ns" and len: "length ns < 2 ^ 63"
    and r: "zip_hash_add malloc_ok h (Some n) (of_nat (length ns)) ZIP_FL_UNCHANGED err = (ok, h', err')"
  shows "names_of_prefix h' (ns @ [n])" "ok = (n \<notin> set ns)" "\<not> ok \<Longrightarrow> zip_err err' = ZIP_ER_EXISTS"
proof -
  have wf: "hash_wf h" and size: "unat (hash_nentries h) \<le> length ns"
    and m: "\<And>n. hash_map h n = (if n \<in> set ns then Some (first_index ns n, first_index ns n) else None)"
    using h by (auto simp: names_of_prefix_def)
  have u: "unat (of_nat (length ns) :: u64) = length ns" using len by (simp add: unat_of_nat)
  have i: "(of_nat (length ns) :: u64) \<le> ZIP_INT64_MAX" using u len by (simp add: word_le_nat_alt)
  have ui: "uint (of_nat (length ns) :: u64) = int (length ns)" using u by (metis uint_nat)
  have room: "unat (hash_nentries h) + 1 < 2 ^ 64" using size len by simp
  note s = zip_hash_add_spec [OF wf i room, where mem = malloc_ok and n = n and flags = ZIP_FL_UNCHANGED and err = err, unfolded r]
  have pos: "first_index ns n \<noteq> -1" if "n \<in> set ns" using that by (simp add: first_index_def)
  have taken: "index_taken ZIP_FL_UNCHANGED (hash_map h n) = (n \<in> set ns)"
    using pos by (simp add: index_taken_def m)
  show ok: "ok = (n \<notin> set ns)" using s taken by (auto simp: hash_added_def split: if_splits)
  show "\<not> ok \<Longrightarrow> zip_err err' = ZIP_ER_EXISTS" using s taken ok by (auto simp: hash_added_def split: if_splits)
  have m': "hash_map h' = (if ok then (hash_map h)(n \<mapsto> (int (length ns), int (length ns))) else hash_map h)"
    using s taken ok ui by (auto simp: hash_added_def index_put_def split: if_splits)
  have "hash_wf h'" "unat (hash_nentries h') \<le> length (ns @ [n])" using s size by (auto simp: hash_added_def)
  then show "names_of_prefix h' (ns @ [n])"
    using ok by (auto simp: names_of_prefix_def m' m first_index_snoc)
qed

text \<open>Only cached conversions of the names change while they are entered.\<close>

definition opened_entry :: "'s zip_entry \<Rightarrow> 's zip_entry \<Rightarrow> bool" where
  "opened_entry e e' = (same_entry e e' \<and> fresh_entry e' \<and> en_orig e' \<noteq> None)"

lemma open_names_result:
  "open_names malloc_ok flags [k..<length (za_entry za)] za err = (True, za', err') \<Longrightarrow>
   k \<le> length (za_entry za) \<Longrightarrow> length (za_entry za) < 2 ^ 63 \<Longrightarrow>
   (\<forall>e \<in> set (za_entry za). fresh_entry e \<and> en_orig e \<noteq> None) \<Longrightarrow>
   names_of_prefix (za_names za) (take k (map file_name (za_entry za))) \<Longrightarrow>
   flags AND ZIP_CHECKCONS \<noteq> 0 \<longrightarrow> distinct (take k (map file_name (za_entry za))) \<Longrightarrow>
   names_of_prefix (za_names za') (map file_name (za_entry za')) \<and>
   list_all2 same_entry (za_entry za) (za_entry za') \<and>
   (\<exists>es h e. za' = za\<lparr>za_names := h, za_error := e, za_entry := es\<rparr>) \<and>
   (flags AND ZIP_CHECKCONS \<noteq> 0 \<longrightarrow> distinct (map file_name (za_entry za')))"
proof (induction "length (za_entry za) - k" arbitrary: k za err)
  case 0
  then have "za' = za" by simp
  moreover have "\<exists>es h e. za = za\<lparr>za_names := h, za_error := e, za_entry := es\<rparr>"
    by (intro exI [of _ "za_entry za"] exI [of _ "za_names za"] exI [of _ "za_error za"]) simp
  ultimately show ?case using 0 by (auto intro: list.rel_refl)
next
  case (Suc m)
  have k: "k < length (za_entry za)" using Suc(2) by simp
  then have upt: "[k..<length (za_entry za)] = k # [Suc k..<length (za_entry za)]" by (rule upt_conv_Cons)
  let ?e = "za_entry za ! k" and ?ns = "take k (map file_name (za_entry za))"
  obtain d where d: "en_orig ?e = Some d" and fresh: "fresh_entry ?e" using Suc(6) k by (metis nth_mem option.exhaust)
  obtain r s err1 where g: "zip_string_get malloc_ok (de_filename d) 0 err = (r, s, err1)" by (metis prod_cases3)
  then obtain name l where r: "r = Some (name, l)" using Suc(3) d by (auto simp: upt Let_def split: option.splits)
  note val = string_get_value [OF g [unfolded r]]
  have name: "name = file_name ?e" using val d by (simp add: file_name_def dirent_name_def)
  obtain ok h za_err where a: "zip_hash_add malloc_ok (za_names za) (Some name) (of_nat k) ZIP_FL_UNCHANGED (za_error za) = (ok, h, za_err)"
    by (metis prod_cases3)
  have len: "length ?ns = k" using k by simp
  note add = names_prefix_add [OF Suc(7), of name, unfolded len, OF _ a]
  define e1 where "e1 = ?e\<lparr>en_orig := Some (d\<lparr>de_filename := s\<rparr>)\<rparr>"
  define za1 where "za1 = za\<lparr>za_names := h, za_error := za_err, za_entry := (za_entry za)[k := e1]\<rparr>"
  have same: "same_entry ?e e1"
    using val d same_direntI [of d s] by (auto simp: same_entry_def e1_def)
  have fn: "file_name e1 = file_name ?e" using val d by (simp add: file_name_def dirent_name_def e1_def same_str_def)
  have names: "map file_name (za_entry za1) = map file_name (za_entry za)"
    using k fn by (simp add: za1_def map_update list_update_same_conv)
  have nxt: "open_names malloc_ok flags [Suc k..<length (za_entry za1)] za1 err1 = (True, za', err')"
    and dup: "flags AND ZIP_CHECKCONS \<noteq> 0 \<longrightarrow> ok"
    using Suc(3) d g r a add(3) k by (auto simp: upt Let_def za1_def e1_def split: if_splits)
  have tk: "take (Suc k) (map file_name (za_entry za1)) = ?ns @ [name]"
    using k names name by (simp add: take_Suc_conv_app_nth)
  have ih: "names_of_prefix (za_names za') (map file_name (za_entry za')) \<and>
      list_all2 same_entry (za_entry za1) (za_entry za') \<and>
      (\<exists>es h e. za' = za1\<lparr>za_names := h, za_error := e, za_entry := es\<rparr>) \<and>
      (flags AND ZIP_CHECKCONS \<noteq> 0 \<longrightarrow> distinct (map file_name (za_entry za')))"
  proof (rule Suc(1) [OF _ nxt])
    show "m = length (za_entry za1) - Suc k" "Suc k \<le> length (za_entry za1)" "length (za_entry za1) < 2 ^ 63"
      using Suc(2,5) k by (simp_all add: za1_def)
    show "\<forall>e\<in>set (za_entry za1). fresh_entry e \<and> en_orig e \<noteq> None"
      using Suc(6) fresh set_update_subset_insert [of "za_entry za" k e1] by (auto simp: za1_def e1_def fresh_entry_def)
    show "names_of_prefix (za_names za1) (take (Suc k) (map file_name (za_entry za1)))"
      unfolding tk using add(1) k Suc(5) by (simp add: za1_def)
    show "flags AND ZIP_CHECKCONS \<noteq> 0 \<longrightarrow> distinct (take (Suc k) (map file_name (za_entry za1)))"
      unfolding tk using Suc(8) dup add(2) k Suc(5) by auto
  qed
  have "list_all2 same_entry (za_entry za) (za_entry za1)"
    using same k by (auto simp: za1_def list_all2_conv_all_nth nth_list_update)
  then have "list_all2 same_entry (za_entry za) (za_entry za')"
    using ih by (auto intro: list_all2_trans [OF same_entry_trans])
  then show ?case using ih by (auto simp: za1_def)
qed

lemma names_prefix_nil: "zip_hash_new mem err = (Some h, err') \<Longrightarrow> names_of_prefix h []"
  using zip_hash_new_spec [of mem err h err']
  by (auto simp: names_of_prefix_def first_index_def zip_hash_new_def split: if_splits)

lemma allocate_new_fields:
  assumes "zip_allocate_new mem src flags err = (Some za, err')"
  shows "za_entry za = []" "za_ch_flags za = za_flags za" "\<not> za_comment_changed za" "names_of_prefix (za_names za) []"
    "za_open_flags za = flags" "za_flags za AND ZIP_CHECKCONS = 0" "ZIP_IS_RDONLY za = (flags AND ZIP_RDONLY \<noteq> 0)"
  using assms names_prefix_nil
  by (auto simp: zip_allocate_new_def zip_new_def Let_def ZIP_IS_RDONLY_def split: if_splits option.splits prod.splits)

text \<open>What every opened archive is like.\<close>

definition opened_archive :: "u32 \<Rightarrow> 's zip_archive \<Rightarrow> bool" where
  "opened_archive flags za =
     (names_of_prefix (za_names za) (map file_name (za_entry za)) \<and>
      (\<forall>e \<in> set (za_entry za). fresh_entry e \<and> en_orig e \<noteq> None) \<and> length (za_entry za) < 2 ^ 59 \<and>
      za_ch_flags za = za_flags za \<and> \<not> za_comment_changed za \<and>
      (flags AND ZIP_CHECKCONS \<noteq> 0 \<longrightarrow> distinct (map file_name (za_entry za))))"

lemma same_entry_fresh: "same_entry e e' \<Longrightarrow> fresh_entry e' = fresh_entry e"
  by (auto simp: same_entry_def fresh_entry_def elim!: option.rel_cases)

lemma zip_open_result:
  assumes "zip_open_internal malloc_ok ext src flags err = (Some za, src', err')"
  shows "opened_archive flags za"
proof -
  obtain r st src1 where stat: "zip_source_stat src (Some stat_new) = (r, st, src1)" by (metis prod_cases3)
  have valid: "\<not> r < 0" "st_valid (the st) AND ZIP_STAT_SIZE \<noteq> 0"
    using assms stat by (simp_all add: zip_open_internal_def split: if_splits)
  obtain na err1 where new0: "zip_allocate_new malloc_ok src1 flags err = (na, err1)" by (metis prod.exhaust)
  obtain za0 where na: "na = Some za0" using assms stat valid new0 by (cases na) (simp_all add: zip_open_internal_def)
  note new = new0 [unfolded na]
  note za0 = allocate_new_fields [OF new]
  show ?thesis
  proof (cases "st_size (the st) = 0")
    case True
    then have "za = za0" using assms stat valid new by (simp add: zip_open_internal_def)
    then show ?thesis using za0 by (simp add: opened_archive_def)
  next
    case False
    obtain fc src2 za_err where find0:
      "zip_find_central_dir malloc_ok ext src1 (za_flags za0) (za_open_flags za0) (st_size (the st)) (za_error za0) = (fc, src2, za_err)"
      by (metis prod_cases3)
    obtain cdir where fc: "fc = Some cdir"
      using assms stat valid new False find0 by (cases fc) (simp_all add: zip_open_internal_def)
    note find = find0 [unfolded fc]
    obtain b names za_err2 where res:
      "zip_hash_reserve_capacity malloc_ok (za_names za0) (of_nat (length (cd_entry cdir))) za_err = (b, names, za_err2)"
      by (metis prod_cases3)
    define za1 where "za1 = za0\<lparr>za_src := Some src2, za_entry := cd_entry cdir, za_nentry_alloc := cd_nentry_alloc cdir,
        za_comment_orig := cd_comment cdir, za_names := names, za_error := za_err2\<rparr>"
    have entries: "za_entry za1 = cd_entry cdir" by (simp add: za1_def)
    obtain ok za2 err2 where names0: "open_names malloc_ok flags [0..<length (cd_entry cdir)] za1 err1 = (ok, za2, err2)"
      by (metis prod_cases3)
    have ok: "ok" and za: "za = za2\<lparr>za_ch_flags := za_flags za2\<rparr>"
      using assms stat valid new False find res names0
      by (cases ok; simp add: zip_open_internal_def flip: za1_def)+
    have names: "open_names malloc_ok flags [0..<length (za_entry za1)] za1 err1 = (True, za2, err2)"
      using names0 ok entries by simp
    note read = zip_find_central_dir_read [OF find]
    have len: "length (za_entry za1) < 2 ^ 59" and fresh: "\<forall>e \<in> set (za_entry za1). fresh_entry e \<and> en_orig e \<noteq> None"
      using read by (auto simp: cdir_read_def cdir_upto_def za1_def word_le_nat_alt in_set_conv_nth)
    have wf0: "hash_wf (za_names za0)" using za0(4) by (simp add: names_of_prefix_def)
    note rs = zip_hash_reserve_spec(1-3) [OF wf0 res]
    have "names_of_prefix names []"
      using za0(4) rs by (simp add: names_of_prefix_def)
    then have pre: "names_of_prefix (za_names za1) (take 0 (map file_name (za_entry za1)))" by (simp add: za1_def)
    note r = open_names_result [OF names _ _ fresh pre]
    have l2: "list_all2 same_entry (za_entry za1) (za_entry za2)" using r len by simp
    have "fresh_entry e \<and> en_orig e \<noteq> None" if "e \<in> set (za_entry za2)" for e
      using that fresh l2 same_entry_fresh same_entry_views(5)
      by (metis in_set_conv_nth list_all2_conv_all_nth)
    moreover have "length (za_entry za2) < 2 ^ 59" using len list_all2_lengthD [OF l2] by simp
    moreover have "\<not> za_comment_changed za2" using r len za0(3) by (auto simp: za1_def)
    ultimately show ?thesis using r len za by (auto simp: opened_archive_def)
  qed
qed

lemma opened_index:
  assumes "opened_archive flags za"
  shows "cur_index (za_names za) = first_index (map file_name (za_entry za))"
    "orig_index (za_names za) = first_index (map file_name (za_entry za))" "hash_wf (za_names za)"
  using assms
  by (auto simp: opened_archive_def names_of_prefix_def cur_index_def orig_index_def index_get_def index_orig_def
      first_index_def fun_eq_iff)

text \<open>C30. In an archive just opened, looking up a name gives the first entry that has it, as opened and
  as it is now; there are no changes; and with consistency checks no two entries have the same name.\<close>

theorem zip_open_lookup:
  assumes "zip_open_internal malloc_ok ext src flags err = (Some za, src', err')"
  shows "fst (zip_name_locate malloc_ok za (Some n) 0 e) = first_index (map file_name (za_entry za)) n \<and>
    fst (zip_name_locate malloc_ok za (Some n) ZIP_FL_UNCHANGED e) = first_index (map file_name (za_entry za)) n \<and>
    zip_changed za = (False, length (za_entry za)) \<and>
    (flags AND ZIP_CHECKCONS \<noteq> 0 \<longrightarrow> distinct (map file_name (za_entry za)))"
proof -
  note op = zip_open_result [OF assms]
  note ix = opened_index [OF op]
  have "fst (zip_name_locate malloc_ok za (Some n) 0 e) = first_index (map file_name (za_entry za)) n"
    "fst (zip_name_locate malloc_ok za (Some n) ZIP_FL_UNCHANGED e) = first_index (map file_name (za_entry za)) n"
    using zip_name_locate_hash [OF ix(3), of 0 malloc_ok n e] zip_name_locate_hash [OF ix(3), of ZIP_FL_UNCHANGED malloc_ok n e] ix
    by auto
  moreover have "filter (\<lambda>e. \<not> en_deleted e) (za_entry za) = za_entry za"
    using op by (simp add: opened_archive_def fresh_entry_def filter_id_conv)
  ultimately show ?thesis
    using op by (auto simp: opened_archive_def zip_changed_def list_ex_iff fresh_entry_def ZIP_ENTRY_HAS_CHANGES_def
        ZIP_ENTRY_DATA_CHANGED_def ZIP_ENTRY_CHANGED_def)
qed

text \<open>The image in an in-memory source.\<close>

definition image_source :: "read_data zip_source" where
  "image_source = snd (zip_source_open
     (the (fst (zip_source_buffer_create malloc_ok 0 0 (Some archive_image) 100 False zip_error_init))))"

theorem zip_open_lookup_witness:
  "\<exists>za src' err'. zip_open_internal malloc_ok fixed_external image_source ZIP_CHECKCONS zip_error_init = (Some za, src', err') \<and>
     fst (zip_name_locate malloc_ok za (Some [97]) 0 None) = 0 \<and> zip_changed za = (False, 1)"
proof -
  obtain r src' err' where o1: "zip_open_internal malloc_ok fixed_external image_source ZIP_CHECKCONS zip_error_init = (r, src', err')"
    by (metis prod_cases3)
  have "case zip_open_internal malloc_ok fixed_external image_source ZIP_CHECKCONS zip_error_init of
      (Some za, _) \<Rightarrow> map file_name (za_entry za) = [[97]] | _ \<Rightarrow> False"
    by code_simp
  then obtain za where za: "r = Some za" "map file_name (za_entry za) = [[97]]" using o1 by (cases r) auto
  have "length (za_entry za) = 1" using arg_cong [OF za(2), of length] by simp
  moreover have "first_index [[97]] [97 :: u8] = 0" using first_index_distinct(2) [of "[[97 :: u8]]" "[97]" 0] by simp
  ultimately show ?thesis
    using zip_open_lookup [OF o1 [unfolded za(1)], of "[97]" None] za o1 by simp
qed



section \<open>Consistency checks that are made\<close>

lemma checkcons_loop_sound:
  "checkcons_loop mem ext is low high cd src err = (Some (lo, hi), cd', src', err') \<Longrightarrow> distinct is \<Longrightarrow>
   \<forall>i \<in> set is. i < length (cd_entry cd) \<Longrightarrow>
   lo \<le> low \<and> high \<le> hi \<and> (is \<noteq> [] \<longrightarrow> hi \<le> cd_offset cd) \<and> (\<forall>j. j \<notin> set is \<longrightarrow> cd_entry cd' ! j = cd_entry cd ! j) \<and>
   (\<forall>i \<in> set is. let d = the (en_orig (cd_entry cd ! i)) in
      checkcons_end d \<le> hi \<and> lo \<le> de_offset d \<and>
      (\<exists>temp. zip_headercomp d temp = 0 \<and> en_orig (cd_entry cd' ! i) = Some (dirent_merge_local d temp)))"
proof (induction mem ext "is" low high cd src err rule: checkcons_loop.induct)
  case (1 mem ext low high cd src err)
  then show ?case by simp
next
  case (2 mem ext i "is" low high cd src err)
  let ?e = "cd_entry cd ! i" and ?d = "the (en_orig (cd_entry cd ! i))"
  define low' where "low' = (if de_offset ?d < low then de_offset ?d else low)"
  define high' where "high' = (if checkcons_end ?d > high then checkcons_end ?d else high)"
  have ok: "\<not> low' > cd_offset cd" "\<not> high' > cd_offset cd"
    using 2(2) by (auto simp: Let_def low'_def high'_def split: if_splits)
  obtain r src1 where seek: "zip_source_seek src (sint (de_offset ?d)) SEEK_SET = (r, src1)" by (metis prod.exhaust)
  have r: "\<not> r < 0" using 2(2) ok seek by (simp add: Let_def low'_def [symmetric] high'_def [symmetric] split: if_splits)
  obtain rd b src2 err2 where read: "zip_dirent_read mem ext src1 None True err = (rd, b, src2, err2)" by (metis prod_cases4)
  obtain temp n where rd: "rd = Some (temp, n)"
    using 2(2) ok seek r read by (cases rd) (auto simp: Let_def low'_def [symmetric] high'_def [symmetric])
  have comp: "zip_headercomp ?d temp = 0"
    using 2(2) ok seek r read rd by (simp add: Let_def low'_def [symmetric] high'_def [symmetric] split: if_splits)
  define cd1 where "cd1 = cd\<lparr>cd_entry := (cd_entry cd)[i := ?e\<lparr>en_orig := Some (dirent_merge_local ?d temp)\<rparr>]\<rparr>"
  have rest: "checkcons_loop mem ext is low' high' cd1 src2 err2 = (Some (lo, hi), cd', src', err')"
    using 2(2) ok seek r read rd comp by (simp add: Let_def low'_def [symmetric] high'_def [symmetric] cd1_def)
  have i: "i < length (cd_entry cd)" "i \<notin> set is" "distinct is" using 2(3,4) by auto
  have "\<not> zip_headercomp ?d temp \<noteq> 0" using comp by simp
  note ih0 = 2(1) [OF refl refl low'_def ok(1) high'_def ok(2) seek [symmetric] r read [symmetric] rd refl refl refl this,
      folded cd1_def, OF rest i(3)]
  have ih: "lo \<le> low'" "high' \<le> hi" "is \<noteq> [] \<longrightarrow> hi \<le> cd_offset cd1" "\<forall>j. j \<notin> set is \<longrightarrow> cd_entry cd' ! j = cd_entry cd1 ! j"
    "\<forall>k \<in> set is. let d = the (en_orig (cd_entry cd1 ! k)) in
      checkcons_end d \<le> hi \<and> lo \<le> de_offset d \<and>
      (\<exists>temp. zip_headercomp d temp = 0 \<and> en_orig (cd_entry cd' ! k) = Some (dirent_merge_local d temp))"
    using ih0 2(4) by (simp_all add: cd1_def)
  have others: "cd_entry cd1 ! j = cd_entry cd ! j" if "j \<noteq> i" for j using that by (simp add: cd1_def)
  have "cd_entry cd' ! i = ?e\<lparr>en_orig := Some (dirent_merge_local ?d temp)\<rparr>" using ih(4) i(1,2) by (simp add: cd1_def)
  then have here: "en_orig (cd_entry cd' ! i) = Some (dirent_merge_local ?d temp)" by simp
  have bounds: "lo \<le> low" "high \<le> hi" "checkcons_end ?d \<le> hi" "lo \<le> de_offset ?d"
    using ih(1,2) by (auto simp: low'_def high'_def split: if_splits)
  have top: "hi \<le> cd_offset cd"
  proof (cases "is = []")
    case True
    then show ?thesis using rest ok(2) by simp
  next
    case False
    then show ?thesis using ih(3) by (simp add: cd1_def)
  qed
  have "\<forall>k \<in> set is. cd_entry cd1 ! k = cd_entry cd ! k" using others i(2) by metis
  then show ?case using bounds top here comp ih(4,5) others by (auto simp: Let_def)
qed



section \<open>Consistency checks that are not made\<close>

lemma eocd_flags:
  assumes "flags AND ZIP_CHECKCONS = 0"
  shows "zip_read_eocd mem b base flags err = zip_read_eocd mem b base 0 err"
  unfolding zip_read_eocd_def assms zero_and_eq by (rule refl)

lemma eocd64_record_flags:
  assumes "flags AND ZIP_CHECKCONS = 0"
  shows "read_eocd64_record mem b base l o' n d flags = read_eocd64_record mem b base l o' n d 0"
  by (rule ext, unfold read_eocd64_record_def assms zero_and_eq, rule refl)

lemma eocd64_flags:
  assumes "flags AND ZIP_CHECKCONS = 0"
  shows "zip_read_eocd64 mem s b base flags err = zip_read_eocd64 mem s b base 0 err"
  unfolding zip_read_eocd64_def eocd64_record_flags [OF assms] by (rule refl)


text \<open>The image with a byte between the directory and its end record opens with consistency checks.\<close>

definition gap_source :: "read_data zip_source" where
  "gap_source = snd (zip_source_open (the (fst (zip_source_buffer_create malloc_ok 0 0
     (Some (take 78 archive_image @ [0] @ drop 78 archive_image)) 101 False zip_error_init))))"


end
