(* ===== verification/Zip_Source_Layers.thy ===== *)
theory Zip_Source_Layers
  imports Zip_Attributes
begin

text \<open>
  The layered sources of the library: \<open>zip_source_crc.c\<close>, \<open>zip_source_window.c\<close>,
  \<open>zip_source_pkware.c\<close> and \<open>zip_source_compress.c\<close>. Each is a context and a callback over any lower
  source; the callbacks reach the lower source through its operations, as the C code does. Status
  records that C leaves on the stack uninitialised start as \<open>stat_blank\<close>; only fields the lower source
  has set are looked at.
\<close>

section \<open>Replies\<close>

abbreviation layer_done :: "int \<Rightarrow> 'l zip_source \<Rightarrow> 'c \<Rightarrow> reply \<times> 'l zip_source \<times> 'c" where
  "layer_done r src ctx \<equiv> ((r, No_data), src, ctx)"

definition stat_blank :: zip_stat where
  "stat_blank = \<lparr>st_valid = 0, st_name = None, st_index = 0, st_size = 0, st_comp_size = 0, st_mtime = 0, st_crc = 0,
     st_comp_method = 0, st_encryption_method = 0, st_flags = 0\<rparr>"

text \<open>\<open>zip_error_to_data\<close> into a buffer of two integers.\<close>

definition error_reply :: "zip_error \<Rightarrow> reply" where
  "error_reply e = (8, Error_data (zip_err e) (sys_err e))"

text \<open>A status of the lower source, as the callbacks ask for it.\<close>

definition stat_lower :: "'l zip_source \<Rightarrow> int \<times> zip_stat \<times> 'l zip_source" where
  "stat_lower src = (case zip_source_stat src (Some stat_blank) of (r, st, src) \<Rightarrow> (r, the st, src))"

section \<open>Checksums\<close>

record crc_context =
  cr_validate :: bool
  cr_crc_complete :: bool
  cr_error :: zip_error
  cr_size :: u64
  cr_position :: u64
  cr_crc_position :: u64
  cr_crc :: u32

text \<open>\<open>crc32\<close> takes lengths below \<open>2 ^ 32\<close>; longer data goes in pieces.\<close>

function crc_update :: "external \<Rightarrow> u32 \<Rightarrow> bytes \<Rightarrow> u32" where
  "crc_update ext c bs =
     (if bs = [] then c
      else crc_update ext (ext_crc32 ext c (take (2 ^ 32 - 1) bs)) (drop (2 ^ 32 - 1) bs))"
  by pat_completeness auto
termination by (relation "measure (\<lambda>(_, _, bs). length bs)") auto

declare crc_update.simps [simp del]

text \<open>After the last byte: the checksum is complete when all bytes went into it.\<close>

definition crc_finish ::
  "'l zip_source \<Rightarrow> crc_context \<Rightarrow> bool \<times> 'l zip_source \<times> crc_context" where
  "crc_finish src ctx =
     (if cr_crc_position ctx \<noteq> cr_position ctx then (True, src, ctx)
      else
      let ctx = ctx\<lparr>cr_crc_complete := True, cr_size := cr_position ctx\<rparr>
      in if \<not> cr_validate ctx then (True, src, ctx)
         else case stat_lower src of
           (r, st, src) \<Rightarrow>
             if r < 0 then (False, src, ctx\<lparr>cr_error := zip_error_set_from_source (cr_error ctx) src\<rparr>)
             else if st_valid st AND ZIP_STAT_CRC \<noteq> 0 \<and> st_crc st \<noteq> cr_crc ctx
             then (False, src, ctx\<lparr>cr_error := zip_error_set (cr_error ctx) ZIP_ER_CRC 0\<rparr>)
             else if st_valid st AND ZIP_STAT_SIZE \<noteq> 0 \<and> st_size st \<noteq> cr_size ctx
             then (False, src, ctx\<lparr>cr_error := zip_error_set (cr_error ctx) ZIP_ER_INCONS 0\<rparr>)
             else (True, src, ctx))"

definition crc_take :: "external \<Rightarrow> bytes \<Rightarrow> crc_context \<Rightarrow> crc_context" where
  "crc_take ext d ctx =
     (if \<not> cr_crc_complete ctx \<and> cr_position ctx \<le> cr_crc_position ctx
      then let i = unat (cr_crc_position ctx - cr_position ctx)
           in if i < length d
              then ctx\<lparr>cr_crc := crc_update ext (cr_crc ctx) (drop i d),
                       cr_crc_position := cr_crc_position ctx + of_nat (length d - i)\<rparr>
              else ctx
      else ctx)"

definition crc_stat :: "crc_context \<Rightarrow> zip_stat \<Rightarrow> zip_stat" where
  "crc_stat ctx st =
     (if cr_crc_complete ctx
      then st\<lparr>st_size := cr_size ctx, st_crc := cr_crc ctx, st_comp_size := cr_size ctx, st_comp_method := 0,
              st_encryption_method := ZIP_EM_NONE,
              st_valid := st_valid st OR ZIP_STAT_SIZE OR ZIP_STAT_CRC OR ZIP_STAT_COMP_SIZE OR
                ZIP_STAT_COMP_METHOD OR ZIP_STAT_ENCRYPTION_METHOD\<rparr>
      else st)"

fun crc_read :: "external \<Rightarrow> ('l, crc_context) layered_callback" where
  "crc_read ext src ctx ZIP_SOURCE_OPEN = layer_done 0 src (ctx\<lparr>cr_position := 0\<rparr>)"
| "crc_read ext src ctx (ZIP_SOURCE_READ len) =
     (case zip_source_read src len of
        (n, d, src) \<Rightarrow>
          if n < 0 then layer_done (-1) src (ctx\<lparr>cr_error := zip_error_set_from_source (cr_error ctx) src\<rparr>)
          else if n = 0
          then case crc_finish src ctx of
                 (ok, src, ctx) \<Rightarrow> if ok then ((0, Read_data d), src, ctx) else layer_done (-1) src ctx
          else let ctx = crc_take ext d ctx
               in ((n, Read_data d), src, ctx\<lparr>cr_position := cr_position ctx + word_of_int n\<rparr>))"
| "crc_read ext src ctx ZIP_SOURCE_CLOSE = layer_done 0 src ctx"
| "crc_read ext src ctx (ZIP_SOURCE_STAT st) = ((0, Stat_data (crc_stat ctx st)), src, ctx)"
| "crc_read ext src ctx ZIP_SOURCE_ERROR = (error_reply (cr_error ctx), src, ctx)"
| "crc_read ext src ctx ZIP_SOURCE_FREE = layer_done 0 src ctx"
| "crc_read ext src ctx ZIP_SOURCE_SUPPORTS =
     (let mask = zip_source_supports src
      in if sint mask < 0
         then layer_done (-1) src (ctx\<lparr>cr_error := zip_error_set_from_source (cr_error ctx) src\<rparr>)
         else layer_done (sint (mask AND NOT (zip_source_make_command_bitmap
                [ZIP_SOURCE_BEGIN_WRITE, ZIP_SOURCE_COMMIT_WRITE, ZIP_SOURCE_ROLLBACK_WRITE,
                 ZIP_SOURCE_SEEK_WRITE 0 SEEK_SET, ZIP_SOURCE_TELL_WRITE, ZIP_SOURCE_REMOVE,
                 ZIP_SOURCE_GET_COMPRESSION_FLAGS]))) src ctx)"
| "crc_read ext src ctx (ZIP_SOURCE_SEEK offset wh) =
     (case zip_source_seek src offset wh of
        (r, src) \<Rightarrow>
          if r < 0 then layer_done (-1) src (ctx\<lparr>cr_error := zip_error_set_from_source (cr_error ctx) src\<rparr>)
          else case zip_source_tell src of
                 (t, src) \<Rightarrow>
                   if t < 0 then layer_done (-1) src (ctx\<lparr>cr_error := zip_error_set_from_source (cr_error ctx) src\<rparr>)
                   else layer_done 0 src (ctx\<lparr>cr_position := word_of_int t\<rparr>))"
| "crc_read ext src ctx ZIP_SOURCE_TELL = layer_done (sint (cr_position ctx)) src ctx"
| "crc_read ext src ctx _ = layer_done (-1) src (ctx\<lparr>cr_error := zip_error_set (cr_error ctx) ZIP_ER_OPNOTSUPP 0\<rparr>)"

text \<open>\<open>crc32(0, NULL, 0)\<close> is the initial value, 0.\<close>

definition crc_context_new :: "bool \<Rightarrow> crc_context" where
  "crc_context_new validate =
     \<lparr>cr_validate = validate, cr_crc_complete = False, cr_error = zip_error_init, cr_size = 0, cr_position = 0,
      cr_crc_position = 0, cr_crc = 0\<rparr>"

definition zip_source_crc ::
  "malloc \<Rightarrow> external \<Rightarrow> zip_error \<Rightarrow> 'l zip_source option \<Rightarrow> bool \<Rightarrow>
   ('l zip_source \<times> crc_context) zip_source option \<times> zip_error" where
  "zip_source_crc mem ext err src validate =
     (case src of
        None \<Rightarrow> (None, zip_error_set err ZIP_ER_INVAL 0)
      | Some src \<Rightarrow>
          if \<not> mem A_crc then (None, zip_error_set err ZIP_ER_MEMORY 0)
          else zip_source_layered_create mem src (crc_read ext) (crc_context_new validate) err)"

section \<open>Windows\<close>

text \<open>
  A window onto the bytes from \<open>start\<close> to \<open>end\<close> of the lower source. When it is for an entry of an
  archive, the window is relative to the data of the entry until it is first opened; its lower source
  is then the source of the archive, and of the archive itself only the original entries are looked at,
  which stay as they are while it is open. An entry without an original is \<open>None\<close>.
\<close>

record window =
  wi_start :: u64
  wi_end :: u64
  wi_source_archive :: "zip_dirent option list option"
  wi_source_index :: u64
  wi_offset :: u64
  wi_stat :: zip_stat
  wi_compression_flags :: int
  wi_error :: zip_error
  wi_supports :: u64
  wi_needs_seek :: bool

definition zip_file_get_offset ::
  "malloc \<Rightarrow> zip_dirent option list \<Rightarrow> 's zip_source \<Rightarrow> u64 \<Rightarrow> zip_error \<Rightarrow> u64 \<times> 's zip_source \<times> zip_error" where
  "zip_file_get_offset mem origs src idx err =
     (case origs ! unat idx of
        None \<Rightarrow> (0, src, zip_error_set err ZIP_ER_INTERNAL 0)
      | Some orig \<Rightarrow>
          let offset = de_offset orig
          in case zip_source_seek src (sint offset) SEEK_SET of
               (r, src) \<Rightarrow>
                 if r < 0 then (0, src, zip_error_set_from_source err src)
                 else case zip_dirent_size mem src ZIP_EF_LOCAL err of
                   (hsize, src, err) \<Rightarrow>
                     if hsize < 0 then (0, src, err)
                     else if offset + word_of_int hsize > ZIP_INT64_MAX then (0, src, zip_error_set err ZIP_ER_SEEK EFBIG)
                     else (offset + word_of_int hsize, src, err))"

text \<open>\<open>DATADES_MAGIC\<close> is \<open>PK\<close>, 7, 8.\<close>

definition zip_file_get_end ::
  "malloc \<Rightarrow> zip_dirent option list \<Rightarrow> 's zip_source \<Rightarrow> u64 \<Rightarrow> zip_error \<Rightarrow> u64 \<times> 's zip_source \<times> zip_error" where
  "zip_file_get_end mem origs src idx err =
     (case zip_file_get_offset mem origs src idx err of
        (offset, src, err) \<Rightarrow>
          if offset = 0 then (0, src, err)
          else
          let entry = the (origs ! unat idx)
          in if offset + de_comp_size entry < offset \<or> offset + de_comp_size entry > ZIP_INT64_MAX
             then (0, src, zip_error_set err ZIP_ER_SEEK EFBIG)
             else
             let offset = offset + de_comp_size entry
             in if de_bitflags entry AND ZIP_GPBF_DATA_DESCRIPTOR = 0 then (offset, src, err)
                else case zip_source_seek src (sint offset) SEEK_SET of
                  (r, src) \<Rightarrow>
                    if r < 0 then (0, src, zip_error_set_from_source err src)
                    else case zip_source_read src 4 of
                      (n, buf, src) \<Rightarrow>
                        if n \<noteq> 4 then (0, src, zip_error_set_from_source err src)
                        else
                        let offset = (if buf = [0x50, 0x4b, 7, 8] then offset + 4 else offset);
                            offset = offset + 12;
                            offset = (if zip_dirent_needs_zip64 entry 0 then offset + 8 else offset)
                        in if offset > ZIP_INT64_MAX then (0, src, zip_error_set err ZIP_ER_SEEK EFBIG)
                           else (offset, src, err))"

text \<open>Skipping to the start of a window on a source that cannot seek, 8192 bytes at a time. The counter
  stays below \<open>start\<close> while the loop runs.\<close>

function window_skip :: "'l zip_source \<Rightarrow> nat \<Rightarrow> nat \<Rightarrow> zip_error \<Rightarrow> bool \<times> 'l zip_source \<times> zip_error" where
  "window_skip src n start err =
     (if n \<ge> start then (True, src, err)
      else case zip_source_read src (of_nat (min 8192 (start - n))) of
        (ret, _, src) \<Rightarrow>
          if ret < 0 then (False, src, zip_error_set_from_source err src)
          else if ret = 0 then (False, src, zip_error_set err ZIP_ER_EOF 0)
          else window_skip src (n + nat ret) start err)"
  by pat_completeness auto
termination by (relation "measure (\<lambda>(_, n, start, _). start - n)") auto

declare window_skip.simps [simp del]

text \<open>The part of \<open>ZIP_SOURCE_OPEN\<close> that makes the window absolute; false after an error.\<close>

definition window_locate :: "malloc \<Rightarrow> 'l zip_source \<Rightarrow> window \<Rightarrow> bool \<times> 'l zip_source \<times> window" where
  "window_locate mem src ctx =
     (case wi_source_archive ctx of
        None \<Rightarrow> (True, src, ctx)
      | Some origs \<Rightarrow>
          (case zip_file_get_offset mem origs src (wi_source_index ctx) (wi_error ctx) of
             (offset, src, err) \<Rightarrow>
               let ctx = ctx\<lparr>wi_error := err\<rparr>
               in if offset = 0 then (False, src, ctx)
                  else if wi_end ctx + offset < wi_end ctx
                  then (False, src, ctx\<lparr>wi_error := zip_error_set (wi_error ctx) ZIP_ER_INCONS 0\<rparr>)
                  else (True, src, ctx\<lparr>wi_start := wi_start ctx + offset, wi_end := wi_end ctx + offset,
                                     wi_source_archive := None\<rparr>)))"

definition window_open :: "malloc \<Rightarrow> 'l zip_source \<Rightarrow> window \<Rightarrow> reply \<times> 'l zip_source \<times> window" where
  "window_open mem src ctx =
     (case window_locate mem src ctx of
        (False, src, ctx) \<Rightarrow> layer_done (-1) src ctx
      | (True, src, ctx) \<Rightarrow>
          (case (if wi_needs_seek ctx then (True, src, wi_error ctx)
                 else window_skip src 0 (unat (wi_start ctx)) (wi_error ctx)) of
             (ok, src, err) \<Rightarrow>
               let ctx = ctx\<lparr>wi_error := err\<rparr>
               in if ok then layer_done 0 src (ctx\<lparr>wi_offset := wi_start ctx\<rparr>) else layer_done (-1) src ctx))"

definition window_get :: "'l zip_source \<Rightarrow> window \<Rightarrow> u64 \<Rightarrow> reply \<times> 'l zip_source \<times> window" where
  "window_get src ctx len =
     (let len = (if len > wi_end ctx - wi_offset ctx then wi_end ctx - wi_offset ctx else len)
      in if len = 0 then ((0, Read_data []), src, ctx)
         else case (if wi_needs_seek ctx then zip_source_seek src (sint (wi_offset ctx)) SEEK_SET else (0, src)) of
           (r, src) \<Rightarrow>
             if r < 0 then layer_done (-1) src (ctx\<lparr>wi_error := zip_error_set_from_source (wi_error ctx) src\<rparr>)
             else case zip_source_read src len of
               (ret, d, src) \<Rightarrow>
                 if ret < 0 then layer_done (-1) src (ctx\<lparr>wi_error := zip_error_set (wi_error ctx) ZIP_ER_EOF 0\<rparr>)
                 else
                 let ctx = ctx\<lparr>wi_offset := wi_offset ctx + word_of_int ret\<rparr>
                 in if ret = 0 \<and> wi_offset ctx < wi_end ctx
                    then layer_done (-1) src (ctx\<lparr>wi_error := zip_error_set (wi_error ctx) ZIP_ER_EOF 0\<rparr>)
                    else ((ret, Read_data d), src, ctx))"

fun window_read :: "malloc \<Rightarrow> ('l, window) layered_callback" where
  "window_read mem src ctx ZIP_SOURCE_CLOSE = layer_done 0 src ctx"
| "window_read mem src ctx ZIP_SOURCE_ERROR = (error_reply (wi_error ctx), src, ctx)"
| "window_read mem src ctx ZIP_SOURCE_FREE = layer_done 0 src ctx"
| "window_read mem src ctx ZIP_SOURCE_OPEN = window_open mem src ctx"
| "window_read mem src ctx (ZIP_SOURCE_READ len) = window_get src ctx len"
| "window_read mem src ctx (ZIP_SOURCE_SEEK offset wh) =
     (case zip_source_seek_compute_offset (wi_offset ctx - wi_start ctx) (wi_end ctx - wi_start ctx) offset wh (wi_error ctx) of
        (new_offset, err) \<Rightarrow>
          let ctx = ctx\<lparr>wi_error := err\<rparr>
          in if new_offset < 0 then layer_done (-1) src ctx
             else layer_done 0 src (ctx\<lparr>wi_offset := word_of_int new_offset + wi_start ctx\<rparr>))"
| "window_read mem src ctx (ZIP_SOURCE_STAT st) = ((0, Stat_data (zip_stat_merge st (wi_stat ctx))), src, ctx)"
| "window_read mem src ctx ZIP_SOURCE_GET_COMPRESSION_FLAGS = layer_done (wi_compression_flags ctx) src ctx"
| "window_read mem src ctx ZIP_SOURCE_SUPPORTS = layer_done (sint (wi_supports ctx)) src ctx"
| "window_read mem src ctx ZIP_SOURCE_TELL = layer_done (sint (wi_offset ctx - wi_start ctx)) src ctx"
| "window_read mem src ctx _ = layer_done (-1) src (ctx\<lparr>wi_error := zip_error_set (wi_error ctx) ZIP_ER_OPNOTSUPP 0\<rparr>)"

definition zip_source_window_new ::
  "malloc \<Rightarrow> 'l zip_source option \<Rightarrow> u64 \<Rightarrow> u64 \<Rightarrow> zip_stat option \<Rightarrow> int \<Rightarrow> zip_dirent option list option \<Rightarrow> u64 \<Rightarrow> zip_error \<Rightarrow>
   ('l zip_source \<times> window) zip_source option \<times> zip_error" where
  "zip_source_window_new mem src start len st compression_flags source_archive source_index err =
     (case src of
        None \<Rightarrow> (None, zip_error_set err ZIP_ER_INVAL 0)
      | Some src \<Rightarrow>
          if start + len < start \<or> source_archive = None \<and> source_index \<noteq> 0
          then (None, zip_error_set err ZIP_ER_INVAL 0)
          else if \<not> mem A_window then (None, zip_error_set err ZIP_ER_MEMORY 0)
          else
          let supports = (zip_source_supports src AND ZIP_SOURCE_SUPPORTS_SEEKABLE) OR
                zip_source_make_command_bitmap [ZIP_SOURCE_GET_COMPRESSION_FLAGS, ZIP_SOURCE_SUPPORTS, ZIP_SOURCE_TELL];
              stat = zip_stat_init stat_blank
          in zip_source_layered_create mem src (window_read mem)
               \<lparr>wi_start = start, wi_end = start + len, wi_source_archive = source_archive, wi_source_index = source_index,
                wi_offset = 0, wi_stat = (case st of None \<Rightarrow> stat | Some st \<Rightarrow> zip_stat_merge stat st),
                wi_compression_flags = compression_flags, wi_error = zip_error_init, wi_supports = supports,
                wi_needs_seek = (supports AND ZIP_SOURCE_MAKE_COMMAND_BITMASK (ZIP_SOURCE_SEEK 0 SEEK_SET) \<noteq> 0)\<rparr> err)"

definition zip_source_window ::
  "malloc \<Rightarrow> zip_error \<Rightarrow> 'l zip_source option \<Rightarrow> u64 \<Rightarrow> u64 \<Rightarrow> ('l zip_source \<times> window) zip_source option \<times> zip_error" where
  "zip_source_window mem err src start len = zip_source_window_new mem src start len None 0 None 0 err"

text \<open>Called when the archive goes away, so that the source is not used any more.\<close>

definition zip_source_invalidate :: "'s zip_source \<Rightarrow> 's zip_source" where
  "zip_source_invalidate src =
     (let src = src\<lparr>src_source_closed := True\<rparr>
      in if zip_error_code_zip (src_error src) = ZIP_ER_OK
         then src\<lparr>src_error := zip_error_set (src_error src) ZIP_ER_ZIPCLOSED 0\<rparr> else src)"

section \<open>Traditional encryption\<close>

record trad_pkware =
  pk_error :: zip_error
  pk_key0 :: u32
  pk_key1 :: u32
  pk_key2 :: u32

abbreviation HEADERLEN :: u64 where "HEADERLEN \<equiv> 12"
abbreviation KEY0 :: u32 where "KEY0 \<equiv> 305419896"
abbreviation KEY1 :: u32 where "KEY1 \<equiv> 591751049"
abbreviation KEY2 :: u32 where "KEY2 \<equiv> 878082192"

text \<open>One raw step of the checksum register, from zlib's conditioned one.\<close>

definition crc_byte :: "external \<Rightarrow> u32 \<Rightarrow> u8 \<Rightarrow> u32" where
  "crc_byte ext key b = ext_crc32 ext (key XOR 0xffffffff) [b] XOR 0xffffffff"

definition update_keys :: "external \<Rightarrow> trad_pkware \<Rightarrow> u8 \<Rightarrow> trad_pkware" where
  "update_keys ext ctx b =
     (let key0 = crc_byte ext (pk_key0 ctx) b;
          key1 = (pk_key1 ctx + (key0 AND 0xff)) * 134775813 + 1;
          key2 = crc_byte ext (pk_key2 ctx) (ucast (drop_bit 24 key1))
      in ctx\<lparr>pk_key0 := key0, pk_key1 := key1, pk_key2 := key2\<rparr>)"

text \<open>The byte of the key stream: a product in 32 bits of a 16-bit value, shifted and cut.\<close>

definition key_byte :: "trad_pkware \<Rightarrow> u8" where
  "key_byte ctx =
     (let tmp = ucast (pk_key2 ctx OR 2) :: u16;
          tmp = ucast (drop_bit 8 ((ucast tmp :: u32) * ucast (tmp XOR 1))) :: u16
      in ucast tmp)"

fun decrypt :: "external \<Rightarrow> trad_pkware \<Rightarrow> bytes \<Rightarrow> bool \<Rightarrow> bytes \<times> trad_pkware" where
  "decrypt ext ctx [] update_only = ([], ctx)"
| "decrypt ext ctx (b # bs) update_only =
     (let b = (if update_only then b else b XOR key_byte ctx)
      in case decrypt ext (update_keys ext ctx b) bs update_only of (out, ctx) \<Rightarrow> (b # out, ctx))"

text \<open>The last byte of the header is checked against the checksum or the time, when the lower source
  has a status.\<close>

definition decrypt_header ::
  "external \<Rightarrow> 'l zip_source \<Rightarrow> trad_pkware \<Rightarrow> bool \<times> 'l zip_source \<times> trad_pkware" where
  "decrypt_header ext src ctx =
     (case zip_source_read src HEADERLEN of
        (n, header, src) \<Rightarrow>
          if n < 0 then (False, src, ctx\<lparr>pk_error := zip_error_set_from_source (pk_error ctx) src\<rparr>)
          else if n \<noteq> uint HEADERLEN then (False, src, ctx\<lparr>pk_error := zip_error_set (pk_error ctx) ZIP_ER_EOF 0\<rparr>)
          else case decrypt ext ctx header False of
            (header, ctx) \<Rightarrow>
              (case stat_lower src of
                 (r, st, src) \<Rightarrow>
                   if r < 0 then (True, src, ctx)
                   else
                   let (dostime, dosdate) = zip_u2d_time ext (st_mtime st);
                       check = header ! 11
                   in if (ucast check :: u32) \<noteq> drop_bit 24 (st_crc st) \<and> (ucast check :: u16) \<noteq> drop_bit 8 dostime
                      then (False, src, ctx\<lparr>pk_error := zip_error_set (pk_error ctx) ZIP_ER_WRONGPASSWD 0\<rparr>)
                      else (True, src, ctx)))"

definition pkware_stat :: "zip_stat \<Rightarrow> zip_stat" where
  "pkware_stat st =
     (let st = st\<lparr>st_encryption_method := ZIP_EM_NONE, st_valid := st_valid st OR ZIP_STAT_ENCRYPTION_METHOD\<rparr>
      in if st_valid st AND ZIP_STAT_COMP_SIZE \<noteq> 0 then st\<lparr>st_comp_size := st_comp_size st - HEADERLEN\<rparr> else st)"

fun pkware_decrypt :: "external \<Rightarrow> ('l, trad_pkware) layered_callback" where
  "pkware_decrypt ext src ctx ZIP_SOURCE_OPEN =
     (case decrypt_header ext src ctx of (ok, src, ctx) \<Rightarrow> layer_done (if ok then 0 else -1) src ctx)"
| "pkware_decrypt ext src ctx (ZIP_SOURCE_READ len) =
     (case zip_source_read src len of
        (n, d, src) \<Rightarrow>
          if n < 0 then layer_done (-1) src (ctx\<lparr>pk_error := zip_error_set_from_source (pk_error ctx) src\<rparr>)
          else case decrypt ext ctx d False of (d, ctx) \<Rightarrow> ((n, Read_data d), src, ctx))"
| "pkware_decrypt ext src ctx ZIP_SOURCE_CLOSE = layer_done 0 src ctx"
| "pkware_decrypt ext src ctx (ZIP_SOURCE_STAT st) = ((0, Stat_data (pkware_stat st)), src, ctx)"
| "pkware_decrypt ext src ctx ZIP_SOURCE_SUPPORTS =
     layer_done (sint (zip_source_make_command_bitmap
       [ZIP_SOURCE_OPEN, ZIP_SOURCE_READ 0, ZIP_SOURCE_CLOSE, ZIP_SOURCE_STAT stat_blank, ZIP_SOURCE_ERROR,
        ZIP_SOURCE_FREE])) src ctx"
| "pkware_decrypt ext src ctx ZIP_SOURCE_ERROR = (error_reply (pk_error ctx), src, ctx)"
| "pkware_decrypt ext src ctx ZIP_SOURCE_FREE = layer_done 0 src ctx"
| "pkware_decrypt ext src ctx _ = layer_done (-1) src (ctx\<lparr>pk_error := zip_error_set (pk_error ctx) ZIP_ER_INVAL 0\<rparr>)"

definition pkware_context_new :: "external \<Rightarrow> bytes \<Rightarrow> trad_pkware" where
  "pkware_context_new ext password =
     snd (decrypt ext \<lparr>pk_error = zip_error_init, pk_key0 = KEY0, pk_key1 = KEY1, pk_key2 = KEY2\<rparr> password True)"

text \<open>\<open>encode\<close> is the flag \<open>ZIP_CODEC_ENCODE\<close>. The password is without its terminating NUL.\<close>

definition zip_source_pkware ::
  "malloc \<Rightarrow> external \<Rightarrow> zip_error \<Rightarrow> 'l zip_source option \<Rightarrow> u16 \<Rightarrow> bool \<Rightarrow> bytes option \<Rightarrow>
   ('l zip_source \<times> trad_pkware) zip_source option \<times> zip_error" where
  "zip_source_pkware mem ext err src em encode password =
     (case (password, src) of
        (Some password, Some src) \<Rightarrow>
          if em \<noteq> ZIP_EM_TRAD_PKWARE then (None, zip_error_set err ZIP_ER_INVAL 0)
          else if encode then (None, zip_error_set err ZIP_ER_ENCRNOTSUPP 0)
          else if \<not> mem A_pkware then (None, zip_error_set err ZIP_ER_MEMORY 0)
          else zip_source_layered_create mem src (pkware_decrypt ext) (pkware_context_new ext password) err
      | _ \<Rightarrow> (None, zip_error_set err ZIP_ER_INVAL 0))"

section \<open>Compression\<close>

datatype zip_compression_status =
  ZIP_COMPRESSION_OK | ZIP_COMPRESSION_END | ZIP_COMPRESSION_ERROR | ZIP_COMPRESSION_NEED_DATA

text \<open>
  The operations of a compression algorithm on its own context \<open>'d\<close>. The algorithm is given a pointer
  to the error of the source when it is allocated, so its operations take that error and return it.
  \<open>al_process\<close> says how many bytes it claims to have written and gives those it has written.
\<close>

record 'd zip_compression_algorithm =
  al_allocate :: "malloc \<Rightarrow> u16 \<Rightarrow> int \<Rightarrow> 'd option"
  al_compression_flags :: "'d \<Rightarrow> int"
  al_start :: "'d \<Rightarrow> zip_error \<Rightarrow> bool \<times> 'd \<times> zip_error"
  al_end :: "'d \<Rightarrow> zip_error \<Rightarrow> bool \<times> 'd \<times> zip_error"
  al_input :: "'d \<Rightarrow> bytes \<Rightarrow> zip_error \<Rightarrow> bool \<times> 'd \<times> zip_error"
  al_end_of_input :: "'d \<Rightarrow> 'd"
  al_process :: "'d \<Rightarrow> u64 \<Rightarrow> zip_error \<Rightarrow> zip_compression_status \<times> u64 \<times> bytes \<times> 'd \<times> zip_error"

record 'd compress_context =
  co_error :: zip_error
  co_end_of_input :: bool
  co_end_of_stream :: bool
  co_can_store :: bool
  co_is_stored :: bool
  co_compress :: bool
  co_method :: int
  co_size :: u64
  co_first_read :: int
  co_buffer :: bytes
  co_algorithm :: "'d zip_compression_algorithm"
  co_ud :: 'd
  co_stuck :: bool

text \<open>
  \<open>co_algorithm\<close> is one of the tables of function pointers. \<open>co_stuck\<close> is not in C: it records that a
  read did not come back. Of \<open>buffer\<close> only the bytes of the last read matter.
\<close>

definition co_fail :: "'d compress_context \<Rightarrow> int \<Rightarrow> int \<Rightarrow> 'd compress_context" where
  "co_fail ctx ze se = ctx\<lparr>co_error := zip_error_set (co_error ctx) ze se\<rparr>"

text \<open>Bytes an algorithm claims but has not written are those the caller's buffer held; 0 stands for them.\<close>

definition claimed :: "u64 \<Rightarrow> bytes \<Rightarrow> bytes" where
  "claimed n d = take (unat n) (d @ replicate (unat n - length d) 0)"

text \<open>More input: false when the loop ends.\<close>

definition compress_need_data :: "'l zip_source \<Rightarrow> 'd compress_context \<Rightarrow> bool \<times> 'l zip_source \<times> 'd compress_context" where
  "compress_need_data src ctx =
     (if co_end_of_input ctx then (False, src, ctx)
      else case zip_source_read src 8192 of
        (n, d, src) \<Rightarrow>
          if n < 0 then (False, src, ctx\<lparr>co_error := zip_error_set_from_source (co_error ctx) src\<rparr>)
          else if n = 0
          then (True, src, ctx\<lparr>co_end_of_input := True, co_ud := al_end_of_input (co_algorithm ctx) (co_ud ctx),
                  co_first_read := (if co_first_read ctx < 0 then 0 else co_first_read ctx)\<rparr>)
          else
          let ctx = (if co_first_read ctx \<ge> 0 then ctx\<lparr>co_can_store := False\<rparr> else ctx\<lparr>co_first_read := n\<rparr>);
              (_, ud, err) = al_input (co_algorithm ctx) (co_ud ctx) d (co_error ctx)
          in (True, src, ctx\<lparr>co_buffer := d, co_ud := ud, co_error := err\<rparr>))"

text \<open>The loop of \<open>compress_read\<close>: \<open>out\<close> is what is in the caller's buffer. It can go on for ever, when the
  algorithm neither takes nor gives anything; then it is \<open>None\<close>. The flag of the result says that the
  input is returned as it is.\<close>

partial_function (option) compress_loop ::
  "'l zip_source \<Rightarrow> 'd compress_context \<Rightarrow> bytes \<Rightarrow> u64 \<Rightarrow> u64 \<Rightarrow>
   (bool \<times> bytes \<times> u64 \<times> 'l zip_source \<times> 'd compress_context) option" where
  "compress_loop src ctx out out_offset len =
     (if out_offset \<ge> len then Some (False, out, out_offset, src, ctx)
      else case al_process (co_algorithm ctx) (co_ud ctx) (len - out_offset) (co_error ctx) of
        (ret, out_len, d, ud, err) \<Rightarrow>
          (case ret of
             ZIP_COMPRESSION_ERROR \<Rightarrow>
               (let ctx = ctx\<lparr>co_error := err, co_ud := ud\<rparr>
                in Some (False, out, out_offset, src,
                     if zip_error_code_zip (co_error ctx) = ZIP_ER_OK then co_fail ctx ZIP_ER_INTERNAL 0 else ctx))
           | ZIP_COMPRESSION_END \<Rightarrow>
               (let ctx = ctx\<lparr>co_error := err, co_end_of_stream := True, co_ud := ud\<rparr>;
                    out = out @ claimed out_len d; out_offset = out_offset + out_len
                in if co_first_read ctx < 0 then Some (False, out, out_offset, src, co_fail ctx ZIP_ER_INTERNAL 0)
                   else if co_can_store ctx \<and> word_of_int (co_first_read ctx) \<le> out_offset
                   then Some (True, take (nat (co_first_read ctx)) (co_buffer ctx), out_offset, src,
                          ctx\<lparr>co_is_stored := True, co_size := word_of_int (co_first_read ctx)\<rparr>)
                   else Some (False, out, out_offset, src, ctx))
           | ZIP_COMPRESSION_OK \<Rightarrow>
               compress_loop src (ctx\<lparr>co_error := err, co_ud := ud\<rparr>) (out @ claimed out_len d) (out_offset + out_len) len
           | ZIP_COMPRESSION_NEED_DATA \<Rightarrow>
               (case compress_need_data src (ctx\<lparr>co_error := err, co_ud := ud\<rparr>) of
                  (again, src, ctx) \<Rightarrow>
                    if again then compress_loop src ctx (out @ claimed out_len d) (out_offset + out_len) len
                    else Some (False, out @ claimed out_len d, out_offset + out_len, src, ctx))))"

definition compress_read :: "'l zip_source \<Rightarrow> 'd compress_context \<Rightarrow> u64 \<Rightarrow> reply \<times> 'l zip_source \<times> 'd compress_context" where
  "compress_read src ctx len =
     (if zip_error_code_zip (co_error ctx) \<noteq> ZIP_ER_OK then layer_done (-1) src ctx
      else if len = 0 \<or> co_end_of_stream ctx then layer_done 0 src ctx
      else case compress_loop src ctx [] 0 len of
        None \<Rightarrow> layer_done (-1) src (ctx\<lparr>co_stuck := True\<rparr>)
      | Some (stored, out, out_offset, src, ctx) \<Rightarrow>
          if stored then ((sint (co_size ctx), Read_data out), src, ctx)
          else if out_offset > 0
          then ((sint out_offset, Read_data out), src,
                ctx\<lparr>co_can_store := False, co_size := co_size ctx + out_offset\<rparr>)
          else layer_done (if zip_error_code_zip (co_error ctx) = ZIP_ER_OK then 0 else -1) src ctx)"

definition compress_stat :: "'d compress_context \<Rightarrow> zip_stat \<Rightarrow> zip_stat" where
  "compress_stat ctx st =
     (if co_compress ctx
      then if co_end_of_stream ctx
           then st\<lparr>st_comp_method := (if co_is_stored ctx then 0 else ZIP_CM_ACTUAL (co_method ctx)), st_comp_size := co_size ctx,
                   st_valid := st_valid st OR ZIP_STAT_COMP_SIZE OR ZIP_STAT_COMP_METHOD\<rparr>
           else st\<lparr>st_valid := st_valid st AND NOT (ZIP_STAT_COMP_SIZE OR ZIP_STAT_COMP_METHOD)\<rparr>
      else let st = st\<lparr>st_comp_method := 0, st_valid := st_valid st OR ZIP_STAT_COMP_METHOD\<rparr>
           in if co_end_of_stream ctx
              then st\<lparr>st_size := co_size ctx, st_valid := st_valid st OR ZIP_STAT_SIZE\<rparr>
              else st\<lparr>st_valid := st_valid st AND NOT ZIP_STAT_SIZE\<rparr>)"

fun compress_callback :: "('l, 'd compress_context) layered_callback" where
  "compress_callback src ctx ZIP_SOURCE_OPEN =
     (let ctx = ctx\<lparr>co_size := 0, co_end_of_input := False, co_end_of_stream := False, co_is_stored := False,
                   co_first_read := -1\<rparr>;
          (ok, ud, err) = al_start (co_algorithm ctx) (co_ud ctx) (co_error ctx)
      in layer_done (if ok then 0 else -1) src (ctx\<lparr>co_error := err, co_ud := ud\<rparr>))"
| "compress_callback src ctx (ZIP_SOURCE_READ len) = compress_read src ctx len"
| "compress_callback src ctx ZIP_SOURCE_CLOSE =
     (let (ok, ud, err) = al_end (co_algorithm ctx) (co_ud ctx) (co_error ctx)
      in layer_done (if ok then 0 else -1) src (ctx\<lparr>co_error := err, co_ud := ud\<rparr>))"
| "compress_callback src ctx (ZIP_SOURCE_STAT st) = ((0, Stat_data (compress_stat ctx st)), src, ctx)"
| "compress_callback src ctx ZIP_SOURCE_GET_COMPRESSION_FLAGS =
     layer_done (if co_is_stored ctx then 0 else al_compression_flags (co_algorithm ctx) (co_ud ctx)) src ctx"
| "compress_callback src ctx ZIP_SOURCE_ERROR = (error_reply (co_error ctx), src, ctx)"
| "compress_callback src ctx ZIP_SOURCE_FREE = layer_done 0 src ctx"
| "compress_callback src ctx ZIP_SOURCE_SUPPORTS =
     layer_done (sint (ZIP_SOURCE_SUPPORTS_READABLE OR
       zip_source_make_command_bitmap [ZIP_SOURCE_GET_COMPRESSION_FLAGS])) src ctx"
| "compress_callback src ctx _ = layer_done (-1) src (co_fail ctx ZIP_ER_INTERNAL 0)"

text \<open>The fields \<open>malloc\<close> leaves unset are set when the source is opened.\<close>

definition context_new ::
  "malloc \<Rightarrow> int \<Rightarrow> bool \<Rightarrow> int \<Rightarrow> 'd zip_compression_algorithm \<Rightarrow> 'd compress_context option" where
  "context_new mem meth compress compression_flags algorithm =
     (if \<not> mem A_compress then None
      else map_option (\<lambda>ud. \<lparr>co_error = zip_error_init, co_end_of_input = False, co_end_of_stream = False,
             co_can_store = (compress \<and> ZIP_CM_IS_DEFAULT meth), co_is_stored = False, co_compress = compress,
             co_method = meth, co_size = 0, co_first_read = 0, co_buffer = [], co_algorithm = algorithm, co_ud = ud,
             co_stuck = False\<rparr>) (al_allocate algorithm mem (ZIP_CM_ACTUAL meth) compression_flags))"

text \<open>\<open>algorithm\<close> is the table for the direction; \<open>get_algorithm\<close> says whether there is one for the method.\<close>

definition compression_source_new ::
  "malloc \<Rightarrow> (bool \<Rightarrow> 'd zip_compression_algorithm) \<Rightarrow> zip_error \<Rightarrow> 'l zip_source option \<Rightarrow> int \<Rightarrow> bool \<Rightarrow> int \<Rightarrow>
   ('l zip_source \<times> 'd compress_context) zip_source option \<times> zip_error" where
  "compression_source_new mem algorithm err src meth compress compression_flags =
     (case src of
        None \<Rightarrow> (None, zip_error_set err ZIP_ER_INVAL 0)
      | Some src \<Rightarrow>
          if get_algorithm meth = None then (None, zip_error_set err ZIP_ER_COMPNOTSUPP 0)
          else case context_new mem meth compress compression_flags (algorithm compress) of
            None \<Rightarrow> (None, zip_error_set err ZIP_ER_MEMORY 0)
          | Some ctx \<Rightarrow> zip_source_layered_create mem src compress_callback ctx err)"

definition zip_source_compress ::
  "malloc \<Rightarrow> (bool \<Rightarrow> 'd zip_compression_algorithm) \<Rightarrow> zip_error \<Rightarrow> 'l zip_source option \<Rightarrow> int \<Rightarrow> int \<Rightarrow>
   ('l zip_source \<times> 'd compress_context) zip_source option \<times> zip_error" where
  "zip_source_compress mem algorithm err src meth compression_flags =
     compression_source_new mem algorithm err src meth True compression_flags"

definition zip_source_decompress ::
  "malloc \<Rightarrow> (bool \<Rightarrow> 'd zip_compression_algorithm) \<Rightarrow> zip_error \<Rightarrow> 'l zip_source option \<Rightarrow> int \<Rightarrow>
   ('l zip_source \<times> 'd compress_context) zip_source option \<times> zip_error" where
  "zip_source_decompress mem algorithm err src meth = compression_source_new mem algorithm err src meth False 0"

end
