(* ===== verification/Zip_Deflate.thy ===== *)
theory Zip_Deflate
  imports Zip_Source_Layers
begin

text \<open>
  The deflate algorithm over zlib: \<open>zip_algorithm_deflate.c\<close>. zlib itself is a parameter: its functions on a
  stream, with the input that is waiting and the room for output, give a return code, the input left, the
  bytes written and the new stream.
\<close>

section \<open>zlib\<close>

record 'z zlib =
  zl_deflateInit2 :: "int \<Rightarrow> int \<times> 'z"
  zl_inflateInit2 :: "int \<times> 'z"
  zl_deflate :: "'z \<Rightarrow> bytes \<Rightarrow> u32 \<Rightarrow> bool \<Rightarrow> int \<times> bytes \<times> bytes \<times> 'z"
  zl_inflate :: "'z \<Rightarrow> bytes \<Rightarrow> u32 \<Rightarrow> int \<times> bytes \<times> bytes \<times> 'z"
  zl_deflateEnd :: "'z \<Rightarrow> int"
  zl_inflateEnd :: "'z \<Rightarrow> int"

abbreviation Z_OK :: int where "Z_OK \<equiv> 0"
abbreviation Z_STREAM_END :: int where "Z_STREAM_END \<equiv> 1"
abbreviation Z_BUF_ERROR :: int where "Z_BUF_ERROR \<equiv> -5"
abbreviation Z_BEST_COMPRESSION :: int where "Z_BEST_COMPRESSION \<equiv> 9"
abbreviation ZIP_ER_ZLIB :: int where "ZIP_ER_ZLIB \<equiv> 13"
abbreviation UINT_MAX :: u64 where "UINT_MAX \<equiv> 0xffffffff"

text \<open>What zlib documents: it takes a first part of the input and writes no more than there is room for.\<close>

definition zlib_step :: "bytes \<Rightarrow> u32 \<Rightarrow> int \<times> bytes \<times> bytes \<times> 'z \<Rightarrow> bool" where
  "zlib_step inp avail_out r \<longleftrightarrow> (case r of (_, rest, out, _) \<Rightarrow>
     (\<exists>k \<le> length inp. rest = drop k inp) \<and> length out \<le> unat avail_out)"

definition zlib_ok :: "'z zlib \<Rightarrow> bool" where
  "zlib_ok zl \<longleftrightarrow> (\<forall>z inp n fin. zlib_step inp n (zl_deflate zl z inp n fin)) \<and>
     (\<forall>z inp n. zlib_step inp n (zl_inflate zl z inp n))"

section \<open>The algorithm\<close>

text \<open>\<open>df_in\<close> are the \<open>avail_in\<close> bytes at \<open>next_in\<close>; the buffer they are in is not overwritten before they
  are used up. A stream not started is \<open>None\<close>.\<close>

record 'z deflate_ctx =
  df_compress :: bool
  df_compression_flags :: int
  df_end_of_input :: bool
  df_in :: bytes
  df_zstr :: "'z option"

definition deflate_allocate :: "bool \<Rightarrow> malloc \<Rightarrow> u16 \<Rightarrow> int \<Rightarrow> 'z deflate_ctx option" where
  "deflate_allocate compress mem meth compression_flags =
     (if \<not> mem A_deflate then None
      else Some \<lparr>df_compress = compress,
             df_compression_flags = (if compression_flags < 1 \<or> compression_flags > 9 then Z_BEST_COMPRESSION else compression_flags),
             df_end_of_input = False, df_in = [], df_zstr = None\<rparr>)"

definition deflate_compression_flags :: "'z deflate_ctx \<Rightarrow> int" where
  "deflate_compression_flags ctx =
     (if \<not> df_compress ctx then 0
      else if df_compression_flags ctx < 3 then 2
      else if df_compression_flags ctx > 7 then 1 else 0)"

definition deflate_start :: "'z zlib \<Rightarrow> 'z deflate_ctx \<Rightarrow> zip_error \<Rightarrow> bool \<times> 'z deflate_ctx \<times> zip_error" where
  "deflate_start zl ctx err =
     (let (ret, z) = (if df_compress ctx then zl_deflateInit2 zl (df_compression_flags ctx) else zl_inflateInit2 zl);
          ctx = ctx\<lparr>df_in := [], df_zstr := Some z\<rparr>
      in if ret \<noteq> Z_OK then (False, ctx, zip_error_set err ZIP_ER_ZLIB ret) else (True, ctx, err))"

definition deflate_end :: "'z zlib \<Rightarrow> 'z deflate_ctx \<Rightarrow> zip_error \<Rightarrow> bool \<times> 'z deflate_ctx \<times> zip_error" where
  "deflate_end zl ctx err =
     (let e = (case df_zstr ctx of None \<Rightarrow> Z_OK
               | Some z \<Rightarrow> if df_compress ctx then zl_deflateEnd zl z else zl_inflateEnd zl z)
      in if e \<noteq> Z_OK then (False, ctx, zip_error_set err ZIP_ER_ZLIB e) else (True, ctx, err))"

definition deflate_input :: "'z deflate_ctx \<Rightarrow> bytes \<Rightarrow> zip_error \<Rightarrow> bool \<times> 'z deflate_ctx \<times> zip_error" where
  "deflate_input ctx data err =
     (if int (length data) > uint UINT_MAX \<or> df_in ctx \<noteq> [] then (False, ctx, zip_error_set err ZIP_ER_INVAL 0)
      else (True, ctx\<lparr>df_in := data\<rparr>, err))"

definition deflate_end_of_input :: "'z deflate_ctx \<Rightarrow> 'z deflate_ctx" where
  "deflate_end_of_input ctx = ctx\<lparr>df_end_of_input := True\<rparr>"

text \<open>\<open>len\<close> is the room; the length claimed is \<open>*length - avail_out\<close> after the call. The callback is only
  asked to process after it was started.\<close>

definition deflate_process ::
  "'z zlib \<Rightarrow> 'z deflate_ctx \<Rightarrow> u64 \<Rightarrow> zip_error \<Rightarrow> zip_compression_status \<times> u64 \<times> bytes \<times> 'z deflate_ctx \<times> zip_error" where
  "deflate_process zl ctx len err =
     (case df_zstr ctx of
        None \<Rightarrow> (ZIP_COMPRESSION_ERROR, 0, [], ctx, zip_error_set err ZIP_ER_ZLIB (-2))
      | Some z \<Rightarrow>
          let avail_out = ucast (if len < UINT_MAX then len else UINT_MAX) :: u32;
              (ret, rest, out, z) =
                (if df_compress ctx then zl_deflate zl z (df_in ctx) avail_out (df_end_of_input ctx)
                 else zl_inflate zl z (df_in ctx) avail_out);
              avail_out = avail_out - of_nat (length out);
              out_len = len - ucast avail_out;
              ctx = ctx\<lparr>df_in := rest, df_zstr := Some z\<rparr>
          in if ret = Z_OK then (ZIP_COMPRESSION_OK, out_len, out, ctx, err)
             else if ret = Z_STREAM_END then (ZIP_COMPRESSION_END, out_len, out, ctx, err)
             else if ret = Z_BUF_ERROR \<and> df_in ctx = [] then (ZIP_COMPRESSION_NEED_DATA, out_len, out, ctx, err)
             else (ZIP_COMPRESSION_ERROR, out_len, out, ctx, zip_error_set err ZIP_ER_ZLIB ret))"

text \<open>The two tables of functions, for compressing (\<open>True\<close>) and decompressing.\<close>

definition zip_algorithm_deflate :: "'z zlib \<Rightarrow> bool \<Rightarrow> 'z deflate_ctx zip_compression_algorithm" where
  "zip_algorithm_deflate zl compress =
     \<lparr>al_allocate = deflate_allocate compress, al_compression_flags = deflate_compression_flags,
      al_start = deflate_start zl, al_end = deflate_end zl, al_input = deflate_input,
      al_end_of_input = deflate_end_of_input, al_process = deflate_process zl\<rparr>"

end
