(* ===== verification/Zip_Dirent_Codec.thy ===== *)
theory Zip_Dirent_Codec
  imports Zip_Dirent
begin

text \<open>
  The headers that \<open>_zip_dirent_write\<close> stores are read back by \<open>_zip_dirent_read\<close>. The
  written image is described as a function of the entry (\<open>dirent_image\<close>); each part of the
  reader is shown to take its part of an image off the buffer; the properties put them together.
\<close>

section \<open>Reading the parts\<close>

lemma get_from_ex:
  "buf_from b (x # r) \<Longrightarrow> \<exists>b'. zip_buffer_get_8 b = (x, b') \<and> buf_from b' r"
  "buf_from b (le16 h @ r) \<Longrightarrow> \<exists>b'. zip_buffer_get_16 b = (h, b') \<and> buf_from b' r"
  "buf_from b (le32 w @ r) \<Longrightarrow> \<exists>b'. zip_buffer_get_32 b = (w, b') \<and> buf_from b' r"
  "buf_from b (le64 q @ r) \<Longrightarrow> \<exists>b'. zip_buffer_get_64 b = (q, b') \<and> buf_from b' r"
  using f8.get_from [of b x r] f16.get_from [of b h r] f32.get_from [of b w r] f64.get_from [of b q r]
  by (simp_all add: prod_eq_iff)

lemma get_bytes_ex:
  "buf_from b (e @ r) \<Longrightarrow> unat len = length e \<Longrightarrow>
   \<exists>p b'. zip_buffer_get b len = (Some p, b') \<and> buf_bytes b' p (length e) = e \<and> buf_from b' r"
  using zip_buffer_get_from [of b e r len] by (metis prod.collapse)

text \<open>The entry made from the values of the fixed part.\<close>

definition dirent_fixed ::
  "external \<Rightarrow> u16 \<Rightarrow> u16 \<Rightarrow> u16 \<Rightarrow> u16 \<Rightarrow> u16 \<Rightarrow> u16 \<Rightarrow> u32 \<Rightarrow> u32 \<Rightarrow> u32 \<Rightarrow> u16 \<Rightarrow> u16 \<Rightarrow> u32 \<Rightarrow> u32 \<Rightarrow> zip_dirent" where
  "dirent_fixed ext vm vn bf cm t d crc cs us dn ia ea off =
     zip_dirent_init
       \<lparr>de_version_madeby := vm, de_version_needed := vn, de_bitflags := bf, de_comp_method := uint cm,
        de_last_mod := zip_d2u_time ext t d, de_crc := crc, de_comp_size := ucast cs,
        de_uncomp_size := ucast us, de_disk_number := ucast dn, de_int_attrib := ia, de_ext_attrib := ea,
        de_offset := ucast off,
        de_encryption_method :=
          (if bf AND ZIP_GPBF_ENCRYPTED \<noteq> 0
           then if bf AND ZIP_GPBF_STRONG_ENCRYPTION \<noteq> 0 then ZIP_EM_UNKNOWN else ZIP_EM_TRAD_PKWARE
           else ZIP_EM_NONE)\<rparr>"

lemma dirent_read_fixed_head:
  assumes "buf_from b (le16 vn @ le16 bf @ le16 cm @ le16 t @ le16 d @ le32 crc @ le32 cs @ le32 us @
      le16 fl @ le16 el @ R)"
  obtains b1 b2 b3 b4 b5 b6 b7 b8 b9 b10 where
    "zip_buffer_get_16 b = (vn, b1)" "zip_buffer_get_16 b1 = (bf, b2)" "zip_buffer_get_16 b2 = (cm, b3)"
    "zip_buffer_get_16 b3 = (t, b4)" "zip_buffer_get_16 b4 = (d, b5)" "zip_buffer_get_32 b5 = (crc, b6)"
    "zip_buffer_get_32 b6 = (cs, b7)" "zip_buffer_get_32 b7 = (us, b8)" "zip_buffer_get_16 b8 = (fl, b9)"
    "zip_buffer_get_16 b9 = (el, b10)" "buf_from b10 R"
proof -
  obtain b1 where 1: "zip_buffer_get_16 b = (vn, b1)" and f: "buf_from b1 (le16 bf @ le16 cm @ le16 t @ le16 d @
      le32 crc @ le32 cs @ le32 us @ le16 fl @ le16 el @ R)" using get_from_ex(2) [OF assms] by blast
  obtain b2 where 2: "zip_buffer_get_16 b1 = (bf, b2)" and f: "buf_from b2 (le16 cm @ le16 t @ le16 d @
      le32 crc @ le32 cs @ le32 us @ le16 fl @ le16 el @ R)" using get_from_ex(2) [OF f] by blast
  obtain b3 where 3: "zip_buffer_get_16 b2 = (cm, b3)" and f: "buf_from b3 (le16 t @ le16 d @
      le32 crc @ le32 cs @ le32 us @ le16 fl @ le16 el @ R)" using get_from_ex(2) [OF f] by blast
  obtain b4 where 4: "zip_buffer_get_16 b3 = (t, b4)" and f: "buf_from b4 (le16 d @
      le32 crc @ le32 cs @ le32 us @ le16 fl @ le16 el @ R)" using get_from_ex(2) [OF f] by blast
  obtain b5 where 5: "zip_buffer_get_16 b4 = (d, b5)" and f: "buf_from b5 (
      le32 crc @ le32 cs @ le32 us @ le16 fl @ le16 el @ R)" using get_from_ex(2) [OF f] by blast
  obtain b6 where 6: "zip_buffer_get_32 b5 = (crc, b6)" and f: "buf_from b6 (
      le32 cs @ le32 us @ le16 fl @ le16 el @ R)" using get_from_ex(3) [OF f] by blast
  obtain b7 where 7: "zip_buffer_get_32 b6 = (cs, b7)" and f: "buf_from b7 (
      le32 us @ le16 fl @ le16 el @ R)" using get_from_ex(3) [OF f] by blast
  obtain b8 where 8: "zip_buffer_get_32 b7 = (us, b8)" and f: "buf_from b8 (
      le16 fl @ le16 el @ R)" using get_from_ex(3) [OF f] by blast
  obtain b9 where 9: "zip_buffer_get_16 b8 = (fl, b9)" and f: "buf_from b9 (
      le16 el @ R)" using get_from_ex(2) [OF f] by blast
  obtain b10 where "zip_buffer_get_16 b9 = (el, b10)" "buf_from b10 R"
    using get_from_ex(2) [OF f] by blast
  then show thesis using that 1 2 3 4 5 6 7 8 9 by blast
qed

lemma dirent_read_fixed_local:
  assumes "buf_from b (le16 vn @ le16 bf @ le16 cm @ le16 t @ le16 d @ le32 crc @ le32 cs @ le32 us @
      le16 fl @ le16 el @ R)"
  shows "\<exists>b'. dirent_read_fixed ext True b =
      (dirent_fixed ext 0 vn bf cm t d crc cs us 0 0 0 0, fl, el, 0, b') \<and> buf_from b' R"
  by (rule dirent_read_fixed_head [OF assms]) (simp add: dirent_read_fixed_def dirent_fixed_def)

lemma dirent_read_fixed_central:
  assumes "buf_from b (le16 vm @ le16 vn @ le16 bf @ le16 cm @ le16 t @ le16 d @ le32 crc @ le32 cs @ le32 us @
      le16 fl @ le16 el @ le16 cl @ le16 dn @ le16 ia @ le32 ea @ le32 off @ R)"
  shows "\<exists>b'. dirent_read_fixed ext False b =
      (dirent_fixed ext vm vn bf cm t d crc cs us dn ia ea off, fl, el, cl, b') \<and> buf_from b' R"
proof -
  obtain b0 where 0: "zip_buffer_get_16 b = (vm, b0)" and f: "buf_from b0 (le16 vn @ le16 bf @ le16 cm @ le16 t @
      le16 d @ le32 crc @ le32 cs @ le32 us @ le16 fl @ le16 el @ le16 cl @ le16 dn @ le16 ia @ le32 ea @
      le32 off @ R)" using get_from_ex(2) [OF assms] by blast
  show ?thesis
  proof (rule dirent_read_fixed_head [OF f])
    fix b1 b2 b3 b4 b5 b6 b7 b8 b9 b10
    assume *: "zip_buffer_get_16 b0 = (vn, b1)" "zip_buffer_get_16 b1 = (bf, b2)" "zip_buffer_get_16 b2 = (cm, b3)"
      "zip_buffer_get_16 b3 = (t, b4)" "zip_buffer_get_16 b4 = (d, b5)" "zip_buffer_get_32 b5 = (crc, b6)"
      "zip_buffer_get_32 b6 = (cs, b7)" "zip_buffer_get_32 b7 = (us, b8)" "zip_buffer_get_16 b8 = (fl, b9)"
      "zip_buffer_get_16 b9 = (el, b10)" and f: "buf_from b10 (le16 cl @ le16 dn @ le16 ia @ le32 ea @ le32 off @ R)"
    obtain c1 where 1: "zip_buffer_get_16 b10 = (cl, c1)" and f: "buf_from c1 (le16 dn @ le16 ia @ le32 ea @
        le32 off @ R)" using get_from_ex(2) [OF f] by blast
    obtain c2 where 2: "zip_buffer_get_16 c1 = (dn, c2)" and f: "buf_from c2 (le16 ia @ le32 ea @
        le32 off @ R)" using get_from_ex(2) [OF f] by blast
    obtain c3 where 3: "zip_buffer_get_16 c2 = (ia, c3)" and f: "buf_from c3 (le32 ea @ le32 off @ R)"
      using get_from_ex(2) [OF f] by blast
    obtain c4 where 4: "zip_buffer_get_32 c3 = (ea, c4)" and f: "buf_from c4 (le32 off @ R)"
      using get_from_ex(3) [OF f] by blast
    obtain c5 where "zip_buffer_get_32 c4 = (off, c5)" "buf_from c5 R" using get_from_ex(3) [OF f] by blast
    then show ?thesis using 0 * 1 2 3 4 by (simp add: dirent_read_fixed_def dirent_fixed_def)
  qed
qed

definition str_shape :: "zip_string option \<Rightarrow> (bytes \<times> u16) option" where
  "str_shape s = map_option (\<lambda>s. (str_raw s, str_length s)) s"

lemma zip_read_string_buffer:
  assumes "buf_from b (raw @ R)" "length raw = unat len" "len \<noteq> 0" "nulp \<longrightarrow> 0 \<notin> set raw"
    "mem A_read_data" "mem A_string" "mem A_string_raw"
  shows "\<exists>b'. zip_read_string mem (Some b) src len nulp err =
      (Some \<lparr>str_raw = raw, str_length = len, str_encoding = ZIP_ENCODING_UNKNOWN, str_converted = None,
             str_converted_length = 0\<rparr>, Some b', src, err) \<and> buf_from b' R"
proof -
  have nul: "0 \<notin> set raw \<Longrightarrow> nul_to_space raw = raw"
    unfolding nul_to_space_def by (rule map_idI) auto
  have "(ucast len :: u64) \<noteq> 0" using assms(3) by (metis unat_eq_zero unat_widen(2))
  then obtain b' where "zip_read_data mem (Some b) src (ucast len) nulp err =
      (Some (if nulp then nul_to_space raw else raw), Some b', src, err)" "buf_from b' R"
    using zip_read_data_buffer [of b "raw @ R" mem "ucast len" nulp src err] assms(1,2,4,5) by auto
  then show ?thesis
    using assms nul
    by (auto simp: zip_read_string_def zip_string_new_def expected_encoding_def Let_def)
qed

lemma guess_scan_range:
  "enc = ZIP_ENCODING_ASCII \<or> enc = ZIP_ENCODING_UTF8_GUESSED \<or> enc = ZIP_ENCODING_CP437 \<Longrightarrow>
   guess_scan cs enc = ZIP_ENCODING_ASCII \<or> guess_scan cs enc = ZIP_ENCODING_UTF8_GUESSED \<or>
   guess_scan cs enc = ZIP_ENCODING_CP437"
  by (induction cs enc rule: guess_scan.induct) (auto split: option.splits)

lemma ucast_u16_u64 [simp]: "ucast (ucast (x :: u16) :: u64) = x"
  by (rule bit_word_eqI) (auto simp: bit_simps dest: bit_imp_le_length)

lemma dirent_check_utf8_ok:
  assumes "str_encoding s = ZIP_ENCODING_UNKNOWN"
    and "de_bitflags zde AND ZIP_GPBF_ENCODING_UTF_8 \<noteq> 0 \<longrightarrow> guess_scan (str_raw s) ZIP_ENCODING_ASCII \<noteq> ZIP_ENCODING_CP437"
  shows "\<exists>s'. dirent_check_utf8 zde s err = (Some s', err) \<and> str_raw s' = str_raw s \<and> str_length s' = str_length s"
  using assms guess_scan_range [of ZIP_ENCODING_ASCII "str_raw s"]
  by (auto simp: dirent_check_utf8_def zip_guess_encoding_def Let_def)

lemma dirent_read_filename_ok:
  assumes "buf_from b (raw @ R)" "length raw = unat len" "0 \<notin> set raw" "de_filename zde = None"
    "de_bitflags zde AND ZIP_GPBF_ENCODING_UTF_8 \<noteq> 0 \<longrightarrow> guess_scan raw ZIP_ENCODING_ASCII \<noteq> ZIP_ENCODING_CP437"
    "mem A_read_data" "mem A_string" "mem A_string_raw"
  shows "\<exists>s b'. dirent_read_filename mem zde (Some b) src len err =
      (Some (zde\<lparr>de_filename := s\<rparr>), Some b', src, err) \<and> buf_from b' R \<and>
      str_shape s = (if len = 0 then None else Some (raw, len))"
proof (cases "len = 0")
  case True
  then show ?thesis using assms(1,2,4) by (auto simp: dirent_read_filename_def str_shape_def intro!: exI [of _ None])
next
  case False
  let ?s = "\<lparr>str_raw = raw, str_length = len, str_encoding = ZIP_ENCODING_UNKNOWN, str_converted = None,
             str_converted_length = 0\<rparr>"
  obtain b' where "zip_read_string mem (Some b) src len True err = (Some ?s, Some b', src, err)" "buf_from b' R"
    using zip_read_string_buffer [OF assms(1,2) False, of True] assms(3,6-8) by blast
  then show ?thesis
    using dirent_check_utf8_ok [of ?s zde err] assms(5) False
    by (force simp: dirent_read_filename_def str_shape_def)
qed

lemma dirent_read_comment_ok:
  assumes "buf_from b (raw @ R)" "length raw = unat len" "de_comment zde = None"
    "de_bitflags zde AND ZIP_GPBF_ENCODING_UTF_8 \<noteq> 0 \<longrightarrow> guess_scan raw ZIP_ENCODING_ASCII \<noteq> ZIP_ENCODING_CP437"
    "mem A_read_data" "mem A_string" "mem A_string_raw"
  shows "\<exists>s b'. dirent_read_comment mem zde (Some b) src len err =
      (Some (zde\<lparr>de_comment := s\<rparr>), Some b', src, err) \<and> buf_from b' R \<and>
      str_shape s = (if len = 0 then None else Some (raw, len))"
proof (cases "len = 0")
  case True
  then show ?thesis using assms(1,2,3) by (auto simp: dirent_read_comment_def str_shape_def intro!: exI [of _ None])
next
  case False
  let ?s = "\<lparr>str_raw = raw, str_length = len, str_encoding = ZIP_ENCODING_UNKNOWN, str_converted = None,
             str_converted_length = 0\<rparr>"
  obtain b' where "zip_read_string mem (Some b) src len False err = (Some ?s, Some b', src, err)" "buf_from b' R"
    using zip_read_string_buffer [OF assms(1,2) False, of False] assms(5-7) by blast
  then show ?thesis
    using dirent_check_utf8_ok [of ?s zde err] assms(4) False
    by (force simp: dirent_read_comment_def str_shape_def)
qed

lemma dirent_read_ef_ok:
  assumes "buf_from b (ef_encs efs @ R)" "length (ef_encs efs) = unat len" "list_all ef_wf efs"
    "de_extra_fields zde = []" "mem A_read_data" "mem A_buffer" "mem A_ef" "mem A_ef_data"
  shows "\<exists>lr b'. dirent_read_ef mem local zde (Some b) src len err =
      (Some (zde\<lparr>de_extra_fields := map (\<lambda>e. e\<lparr>ef_flags := if local then ZIP_EF_LOCAL else ZIP_EF_CENTRAL\<rparr>) efs,
                 de_local_extra_fields_read := lr\<rparr>), Some b', src, err) \<and> buf_from b' R"
proof (cases "len = 0")
  case True
  then have "efs = []" using assms(2) by (cases efs) (auto simp: ef_enc_def)
  then show ?thesis using assms(1,4) True
    by (auto simp: dirent_read_ef_def intro!: exI [of _ "de_local_extra_fields_read zde"])
next
  case False
  then have "(ucast len :: u64) \<noteq> 0" by (metis unat_eq_zero unat_widen(2))
  then obtain b' where "zip_read_data mem (Some b) src (ucast len) False err =
      (Some (ef_encs efs), Some b', src, err)" "buf_from b' R"
    using zip_read_data_buffer [of b "ef_encs efs @ R" mem "ucast len" False src err] assms(1,2,5) by auto
  then show ?thesis
    using False zip_ef_parse_encs [OF assms(3,2,6-8)]
    by (intro exI [of _ "local \<or> de_local_extra_fields_read zde"]) (simp add: dirent_read_ef_def)
qed

section \<open>Looking up internal fields\<close>

lemma zip_ef_get_first:
  assumes "list_all (\<lambda>e. ef_id e \<noteq> i) pre" "ef_id e = i" "ef_in flags e" "ef_wf e"
  shows "zip_ef_get_by_id (pre @ e # post) i 0 flags err = (Some (ef_data e, ef_size e), err)"
proof -
  have "ef_get_loop (pre @ e # post) i 0 flags 0 = Some e"
    using assms(1-3) by (induction pre) auto
  then show ?thesis using assms(4) by (auto simp: zip_ef_get_by_id_def ef_wf_def word_neq_0_conv [symmetric])
qed

lemma zip_ef_get_none:
  assumes "list_all (\<lambda>e. ef_id e \<noteq> i) efs"
  shows "zip_ef_get_by_id efs i 0 flags err = (None, zip_error_set err ZIP_ER_NOENT 0)"
proof -
  have "ef_get_loop efs i 0 flags 0 = None" using assms by (induction efs) auto
  then show ?thesis by (simp add: zip_ef_get_by_id_def)
qed

text \<open>Where the data is found.\<close>

definition ef_at :: "zip_extra_field list \<Rightarrow> u16 \<Rightarrow> bytes \<Rightarrow> bool" where
  "ef_at efs i d \<longleftrightarrow> (\<exists>pre e post. efs = pre @ e # post \<and> list_all (\<lambda>e. ef_id e \<noteq> i) pre \<and> ef_id e = i \<and>
     ef_wf e \<and> ef_data e = d)"

definition ef_absent :: "zip_extra_field list \<Rightarrow> u16 \<Rightarrow> bool" where
  "ef_absent efs i \<longleftrightarrow> list_all (\<lambda>e. ef_id e \<noteq> i) efs"

lemma ef_at_get:
  assumes "ef_at efs i d" "list_all (\<lambda>e. ef_flags e = fl) efs" "fl AND flags AND ZIP_EF_BOTH \<noteq> 0"
  shows "\<exists>sz. zip_ef_get_by_id efs i 0 flags err = (Some (d, sz), err) \<and> unat sz = length d"
proof -
  obtain pre e post where *: "efs = pre @ e # post" "list_all (\<lambda>e. ef_id e \<noteq> i) pre" "ef_id e = i"
    "ef_wf e" "ef_data e = d" using assms(1) by (auto simp: ef_at_def)
  moreover have "ef_in flags e" using assms(2,3) *(1) by (simp add: ef_in_def)
  ultimately show ?thesis using zip_ef_get_first [OF *(2,3)] by (auto simp: ef_wf_def)
qed

lemma zip_dirent_process_ef_utf_8_shape:
  assumes "ef_absent (de_extra_fields de) i \<or>
      ef_at (de_extra_fields de) i (1 # le32 c @ raw) \<and> str_shape str = Some (raw, len) \<and> length raw = unat len"
    and "list_all (\<lambda>e. ef_flags e = fl) (de_extra_fields de)" "fl AND ZIP_EF_BOTH \<noteq> 0"
    and "mem A_buffer" "mem A_string" "mem A_string_raw"
  shows "str_shape (zip_dirent_process_ef_utf_8 mem ext de i str) = str_shape str"
  using assms(1)
proof (elim disjE conjE)
  assume "ef_absent (de_extra_fields de) i"
  then show ?thesis
    using zip_ef_get_none [of i "de_extra_fields de" ZIP_EF_BOTH zip_error_init]
    by (simp add: zip_dirent_process_ef_utf_8_def ef_absent_def)
next
  assume at: "ef_at (de_extra_fields de) i (1 # le32 c @ raw)" and s: "str_shape str = Some (raw, len)"
    and len: "length raw = unat len"
  let ?d = "1 # le32 c @ raw"
  obtain sz where sz: "zip_ef_get_by_id (de_extra_fields de) i 0 ZIP_EF_BOTH zip_error_init = (Some (?d, sz), zip_error_init)"
    "unat sz = length ?d"
    using ef_at_get [OF at assms(2), of ZIP_EF_BOTH] assms(3) by auto
  have "length ?d = unat (ucast sz :: u64)" using sz(2) by simp
  then obtain b where b: "zip_buffer_new mem (Some ?d) (ucast sz) = Some b" "buf_from b ?d"
    using buf_from_new assms(4) by blast
  obtain b1 where b1: "zip_buffer_get_8 b = (1, b1)" "buf_from b1 (le32 c @ raw)"
    using get_from_ex(1) [OF b(2)] by blast
  obtain b2 where b2: "zip_buffer_get_32 b1 = (c, b2)" "buf_from b2 raw"
    using get_from_ex(3) [OF b1(2)] by blast
  have left: "ucast (zip_buffer_left b2) = len"
  proof -
    have "unat (zip_buffer_left b2) = unat len" using buf_from_ok [OF b2(2)] len by simp
    then have "zip_buffer_left b2 = ucast len" by (metis unat_widen(2) unsigned_word_eqI)
    then show ?thesis by simp
  qed
  obtain p b3 where b3: "zip_buffer_get b2 (ucast len) = (Some p, b3)" "buf_bytes b3 p (length raw) = raw"
    using get_bytes_ex [of b2 raw "[]" "ucast len"] b2(2) len by auto
  have sz5: "\<not> sz < 5" using sz(2) by (simp add: word_less_nat_alt)
  have new: "fst (zip_string_new mem raw len ZIP_FL_ENC_UTF_8 zip_error_init) = Some s' \<Longrightarrow>
      str_shape (Some s') = Some (raw, len)" for s'
    using len by (auto simp: zip_string_new_def expected_encoding_def Let_def zip_guess_encoding_def str_shape_def
        split: if_splits)
  show ?thesis
    using sz(1) b b1 b2 b3 left sz5 s len new
    by (auto simp: zip_dirent_process_ef_utf_8_def Let_def str_shape_def split: option.splits)
qed

section \<open>The zip64 field\<close>

definition size32 :: "u64 \<Rightarrow> u32" where
  "size32 x = (if x < ZIP_UINT32_MAX then ucast x else 0xffffffff)"

lemma size32_back:
  "x < ZIP_UINT32_MAX \<Longrightarrow> ucast (size32 x) = x" "\<not> x < ZIP_UINT32_MAX \<Longrightarrow> ucast (size32 x) = ZIP_UINT32_MAX"
proof -
  assume x: "x < ZIP_UINT32_MAX"
  then have "unat x < 2 ^ 32" by (simp add: word_less_nat_alt)
  then have "unat (ucast (ucast x :: u32) :: u64) = unat x"
    by (simp only: unat_widen) (simp add: unsigned_ucast_eq take_bit_nat_eq_self)
  then have "ucast (ucast x :: u32) = x" by (rule unsigned_word_eqI)
  then show "ucast (size32 x) = x" using x by (simp only: size32_def if_True)
qed (simp add: size32_def)

lemma size32_max: "ucast (size32 x) = ZIP_UINT32_MAX \<longleftrightarrow> ZIP_UINT32_MAX \<le> x"
  "ucast (size32 x) \<noteq> ZIP_UINT32_MAX \<Longrightarrow> ucast (size32 x) = x"
  using size32_back [of x] by (cases "x < ZIP_UINT32_MAX"; force simp: not_less)+

definition zip64_data :: "bool \<Rightarrow> u64 \<Rightarrow> u64 \<Rightarrow> u64 \<Rightarrow> bytes" where
  "zip64_data local us cs off =
     (if local then le64 us @ le64 cs
      else (if us \<ge> ZIP_UINT32_MAX then le64 us else []) @ (if cs \<ge> ZIP_UINT32_MAX then le64 cs else []) @
           (if off \<ge> ZIP_UINT32_MAX then le64 off else []))"

lemma buf_eof_nil: "buf_from b [] \<Longrightarrow> zip_buffer_eof b"
  by (simp add: buf_from_def zip_buffer_eof_eq)

lemma get64_if:
  assumes "buf_from b ((if c then le64 x else []) @ R)"
  shows "\<exists>b'. (if c then zip_buffer_get_64 b else (y, b)) = (if c then x else y, b') \<and> buf_from b' R"
  using assms get_from_ex(4) [of b x R] by (cases c) auto

lemma dirent_read_zip64_ok:
  assumes "if local then (if big then de_uncomp_size zde = ZIP_UINT32_MAX \<and> de_comp_size zde = ZIP_UINT32_MAX
        else us < ZIP_UINT32_MAX \<and> cs < ZIP_UINT32_MAX \<and> de_uncomp_size zde = us \<and> de_comp_size zde = cs) \<and>
        de_offset zde = 0 \<and> off = 0
      else de_uncomp_size zde = ucast (size32 us) \<and> de_comp_size zde = ucast (size32 cs) \<and>
        de_offset zde = ucast (size32 off) \<and> de_disk_number zde \<noteq> 0xffff \<and>
        (big \<longleftrightarrow> us \<ge> ZIP_UINT32_MAX \<or> cs \<ge> ZIP_UINT32_MAX \<or> off \<ge> ZIP_UINT32_MAX)"
    and "big \<longrightarrow> ef_at (de_extra_fields zde) ZIP_EF_ZIP64 (zip64_data local us cs off)"
    and "list_all (\<lambda>e. ef_flags e = (if local then ZIP_EF_LOCAL else ZIP_EF_CENTRAL)) (de_extra_fields zde)"
    and "mem A_buffer"
  shows "dirent_read_zip64 mem local zde err =
    (Some (zde\<lparr>de_uncomp_size := us, de_comp_size := cs, de_offset := off\<rparr>), err)"
proof (cases big)
  case False
  then have "de_uncomp_size zde = us" "de_comp_size zde = cs" "de_offset zde = off"
    "us < ZIP_UINT32_MAX" "cs < ZIP_UINT32_MAX" "off < ZIP_UINT32_MAX"
    using assms(1) size32_back(1) by (auto split: if_splits simp: not_le)
  then show ?thesis by (auto simp: dirent_read_zip64_def)
next
  case True
  let ?D = "zip64_data local us cs off" and ?fl = "if local then ZIP_EF_LOCAL else ZIP_EF_CENTRAL"
  obtain sz where sz: "zip_ef_get_by_id (de_extra_fields zde) ZIP_EF_ZIP64 0 ?fl err = (Some (?D, sz), err)"
    "unat sz = length ?D"
    using ef_at_get [OF assms(2) [rule_format, OF True] assms(3), of ?fl] by (cases local) auto
  have "length ?D = unat (ucast sz :: u64)" using sz(2) by simp
  then obtain b where b: "zip_buffer_new mem (Some ?D) (ucast sz) = Some b" "buf_from b ?D"
    using buf_from_new assms(4) by blast
  show ?thesis
  proof (cases local)
    case True
    obtain b1 where b1: "zip_buffer_get_64 b = (us, b1)" "buf_from b1 (le64 cs)"
      using get_from_ex(4) [of b us "le64 cs"] b(2) True by (auto simp: zip64_data_def)
    obtain b2 where b2: "zip_buffer_get_64 b1 = (cs, b2)" "buf_from b2 []"
      using get_from_ex(4) [of b1 cs "[]"] b1(2) by auto
    show ?thesis
      using sz(1) b(1) b1 b2 buf_eof_nil [OF b2(2)] True \<open>big\<close> assms(1)
      by (simp add: dirent_read_zip64_def)
  next
    case False
    have u: "us \<ge> ZIP_UINT32_MAX \<longleftrightarrow> de_uncomp_size zde = ZIP_UINT32_MAX"
      "cs \<ge> ZIP_UINT32_MAX \<longleftrightarrow> de_comp_size zde = ZIP_UINT32_MAX"
      "off \<ge> ZIP_UINT32_MAX \<longleftrightarrow> de_offset zde = ZIP_UINT32_MAX"
      "de_uncomp_size zde \<noteq> ZIP_UINT32_MAX \<longrightarrow> de_uncomp_size zde = us"
      "de_comp_size zde \<noteq> ZIP_UINT32_MAX \<longrightarrow> de_comp_size zde = cs"
      "de_offset zde \<noteq> ZIP_UINT32_MAX \<longrightarrow> de_offset zde = off"
      using assms(1) False size32_max [of us] size32_max [of cs] size32_max [of off] by simp_all
    let ?u = "de_uncomp_size zde = ZIP_UINT32_MAX" and ?c = "de_comp_size zde = ZIP_UINT32_MAX"
      and ?o = "de_offset zde = ZIP_UINT32_MAX"
    have f: "buf_from b ((if ?u then le64 us else []) @ (if ?c then le64 cs else []) @ (if ?o then le64 off else []) @ [])"
      using b(2) False unfolding zip64_data_def u(1-3) by simp
    obtain b1 where b1: "(if ?u then zip_buffer_get_64 b else (de_uncomp_size zde, b)) = (us, b1)"
      and f: "buf_from b1 ((if ?c then le64 cs else []) @ (if ?o then le64 off else []) @ [])"
      using get64_if [OF f, of "de_uncomp_size zde"] u(4) by auto
    obtain b2 where b2: "(if ?c then zip_buffer_get_64 b1 else (de_comp_size zde, b1)) = (cs, b2)"
      and f: "buf_from b2 ((if ?o then le64 off else []) @ [])"
      using get64_if [OF f, of "de_comp_size zde"] u(5) by auto
    obtain b3 where b3: "(if ?o then zip_buffer_get_64 b2 else (de_offset zde, b2)) = (off, b3)"
      and f: "buf_from b3 []"
      using get64_if [OF f, of "de_offset zde"] u(6) by auto
    have "?u \<or> ?c \<or> ?o" using \<open>big\<close> assms(1) False u(1-3) by auto
    moreover have "de_disk_number zde \<noteq> 0xffff" using assms(1) False by simp
    ultimately show ?thesis
      using sz(1) b(1) b1 b2 b3 buf_eof_nil [OF f] False by (auto simp: dirent_read_zip64_def)
  qed
qed

section \<open>The WinZip AES field\<close>

lemma aes_mode_of_method:
  "dirent_is_aes de \<Longrightarrow> aes_mode_method (ucast (de_encryption_method de AND 0xff)) = Some (de_encryption_method de)"
  by (auto simp: dirent_is_aes_def aes_mode_method_def)

lemma zip_dirent_process_winzip_aes_ok:
  assumes "if aes then de_comp_method zde = ZIP_CM_WINZIP_AES \<and> aes_mode_method m = Some em \<and>
        ef_at (de_extra_fields zde) ZIP_EF_WINZIP_AES (le16 2 @ [0x41, 0x45] @ [m] @ le16 cm)
      else de_comp_method zde \<noteq> ZIP_CM_WINZIP_AES"
    and "list_all (\<lambda>e. ef_flags e = fl) (de_extra_fields zde)" "fl AND ZIP_EF_BOTH \<noteq> 0" "mem A_buffer"
  shows "zip_dirent_process_winzip_aes mem zde err =
    (Some (if aes then zde\<lparr>de_crc_valid := \<not> de_uncomp_size zde < 20, de_encryption_method := em,
                           de_comp_method := uint cm\<rparr> else zde), err)"
proof (cases aes)
  case False
  then show ?thesis using assms(1) by (simp add: zip_dirent_process_winzip_aes_def)
next
  case True
  let ?D = "le16 2 @ [0x41, 0x45] @ [m] @ le16 cm"
  have at: "ef_at (de_extra_fields zde) ZIP_EF_WINZIP_AES ?D" using assms(1) True by simp
  obtain sz where sz: "zip_ef_get_by_id (de_extra_fields zde) ZIP_EF_WINZIP_AES 0 ZIP_EF_BOTH zip_error_init =
      (Some (?D, sz), zip_error_init)" "unat sz = length ?D"
    using ef_at_get [OF at assms(2), of ZIP_EF_BOTH] assms(3) by auto
  have "unat sz = unat (7 :: u16)" using sz(2) by simp
  then have sz7: "sz = 7" by (rule unsigned_word_eqI)
  have "length ?D = unat (ucast sz :: u64)" using sz(2) by simp
  then obtain b where b: "zip_buffer_new mem (Some ?D) (ucast sz) = Some b" "buf_from b ?D"
    using buf_from_new assms(4) by blast
  obtain b1 where b1: "zip_buffer_get_16 b = (2, b1)" "buf_from b1 ([0x41, 0x45] @ [m] @ le16 cm)"
    using get_from_ex(2) [OF b(2)] by blast
  obtain p b2 where b2: "zip_buffer_get b1 2 = (Some p, b2)" "buf_bytes b2 p (length [0x41, 0x45 :: u8]) = [0x41, 0x45]"
    "buf_from b2 ([m] @ le16 cm)"
    using get_bytes_ex [OF b1(2), of 2] by auto
  obtain b3 where b3: "zip_buffer_get_8 b2 = (m, b3)" "buf_from b3 (le16 cm @ [])"
    using get_from_ex(1) [of b2 m "le16 cm"] b2(3) by auto
  obtain b4 where b4: "zip_buffer_get_16 b3 = (cm, b4)"
    using get_from_ex(2) [OF b3(2)] by auto
  have "buf_bytes b2 p 2 = [0x41, 0x45]" using b2(2) by (simp add: numeral_2_eq_2)
  then show ?thesis
    using True assms(1) sz(1) sz7 b(1) b1(1) b2(1) b3(1) b4
    by (simp add: zip_dirent_process_winzip_aes_def)
qed

section \<open>Lists with internal fields\<close>

lemma ef_at_append:
  "ef_at xs i d \<Longrightarrow> ef_at (xs @ ys) i d" "ef_absent xs i \<Longrightarrow> ef_at ys i d \<Longrightarrow> ef_at (xs @ ys) i d"
proof -
  assume "ef_at xs i d"
  then obtain pre e post where "xs = pre @ e # post" "list_all (\<lambda>e. ef_id e \<noteq> i) pre" "ef_id e = i"
    "ef_wf e" "ef_data e = d" by (auto simp: ef_at_def)
  then show "ef_at (xs @ ys) i d" unfolding ef_at_def by (intro exI [of _ pre] exI [of _ e] exI [of _ "post @ ys"]) simp
next
  assume xs: "ef_absent xs i" and "ef_at ys i d"
  then obtain pre e post where "ys = pre @ e # post" "list_all (\<lambda>e. ef_id e \<noteq> i) pre" "ef_id e = i"
    "ef_wf e" "ef_data e = d" by (auto simp: ef_at_def)
  then show "ef_at (xs @ ys) i d"
    using xs unfolding ef_at_def ef_absent_def
    by (intro exI [of _ "xs @ pre"] exI [of _ e] exI [of _ post]) simp
qed

lemma ef_at_map: "ef_at xs i d \<Longrightarrow> ef_at (map (\<lambda>e. e\<lparr>ef_flags := fl\<rparr>) xs) i d"
proof -
  assume "ef_at xs i d"
  then obtain pre e post where "xs = pre @ e # post" "list_all (\<lambda>e. ef_id e \<noteq> i) pre" "ef_id e = i"
    "ef_wf e" "ef_data e = d" by (auto simp: ef_at_def)
  then show ?thesis
    unfolding ef_at_def
    by (intro exI [of _ "map (\<lambda>e. e\<lparr>ef_flags := fl\<rparr>) pre"] exI [of _ "e\<lparr>ef_flags := fl\<rparr>"]
        exI [of _ "map (\<lambda>e. e\<lparr>ef_flags := fl\<rparr>) post"]) (auto simp: list_all_iff ef_wf_def)
qed

lemma ef_at_Cons:
  "ef_wf e \<Longrightarrow> ef_id e = i \<Longrightarrow> ef_at (e # es) i (ef_data e)"
  "ef_id e \<noteq> i \<Longrightarrow> ef_at es i d \<Longrightarrow> ef_at (e # es) i d"
  using ef_at_append(2) [of "[e]" i es d] by (auto simp: ef_at_def ef_absent_def intro: exI [of _ "[]"])

lemma ef_absent_simps [simp]:
  "ef_absent [] i" "ef_absent (e # es) i \<longleftrightarrow> ef_id e \<noteq> i \<and> ef_absent es i"
  "ef_absent (xs @ ys) i \<longleftrightarrow> ef_absent xs i \<and> ef_absent ys i"
  "ef_absent (map (\<lambda>e. e\<lparr>ef_flags := fl\<rparr>) xs) i = ef_absent xs i"
  by (auto simp: ef_absent_def list_all_iff)

text \<open>What the list holds for a string: nothing, or its UTF-8 field.\<close>

definition ef_string :: "zip_extra_field list \<Rightarrow> u16 \<Rightarrow> zip_string option \<Rightarrow> bool" where
  "ef_string efs i str \<longleftrightarrow> ef_absent efs i \<or>
     (\<exists>c raw len. ef_at efs i (1 # le32 c @ raw) \<and> str_shape str = Some (raw, len) \<and> length raw = unat len)"

lemma ef_string_shape:
  assumes "ef_string (de_extra_fields de) i str"
    "list_all (\<lambda>e. ef_flags e = fl) (de_extra_fields de)" "fl AND ZIP_EF_BOTH \<noteq> 0"
    "mem A_buffer" "mem A_string" "mem A_string_raw"
  shows "str_shape (zip_dirent_process_ef_utf_8 mem ext de i str) = str_shape str"
  using assms(1) zip_dirent_process_ef_utf_8_shape [of de i _ _ str _ fl mem ext] assms(2-)
  unfolding ef_string_def by blast

lemma ef_string_cong: "str_shape s = str_shape t \<Longrightarrow> ef_string efs i s = ef_string efs i t"
  by (simp add: ef_string_def)

section \<open>What follows the strings\<close>

lemma dirent_read_finish_ok:
  assumes "ef_string (de_extra_fields zde) ZIP_EF_UTF_8_NAME (de_filename zde)"
    and "ef_string (de_extra_fields zde) ZIP_EF_UTF_8_COMMENT (de_comment zde)"
    and fl: "list_all (\<lambda>e. ef_flags e = (if local then ZIP_EF_LOCAL else ZIP_EF_CENTRAL)) (de_extra_fields zde)"
    and z64: "\<And>n c. dirent_read_zip64 mem local (zde\<lparr>de_filename := n, de_comment := c\<rparr>) err =
      (Some (zde\<lparr>de_filename := n, de_comment := c, de_uncomp_size := us, de_comp_size := cs, de_offset := off\<rparr>), err)"
    and aes: "if aes then de_comp_method zde = ZIP_CM_WINZIP_AES \<and> aes_mode_method m = Some em \<and>
        ef_at (de_extra_fields zde) ZIP_EF_WINZIP_AES (le16 2 @ [0x41, 0x45] @ [m] @ le16 cm)
      else de_comp_method zde \<noteq> ZIP_CM_WINZIP_AES"
    and "off \<le> ZIP_INT64_MAX" "mem A_buffer" "mem A_string" "mem A_string_raw"
  shows "\<exists>n c. str_shape n = str_shape (de_filename zde) \<and> str_shape c = str_shape (de_comment zde) \<and>
    (let z = zde\<lparr>de_filename := n, de_comment := c, de_uncomp_size := us, de_comp_size := cs, de_offset := off\<rparr>;
         z = (if aes then z\<lparr>de_crc_valid := \<not> us < 20, de_encryption_method := em, de_comp_method := uint cm\<rparr> else z)
     in dirent_read_finish mem ext local True zde err =
          (Some (z\<lparr>de_extra_fields := zip_ef_remove_internal (de_extra_fields zde)\<rparr>), err))"
proof -
  let ?fl = "if local then ZIP_EF_LOCAL else ZIP_EF_CENTRAL"
  obtain n where pn: "zip_dirent_process_ef_utf_8 mem ext zde ZIP_EF_UTF_8_NAME (de_filename zde) = n" by blast
  obtain c where pc: "zip_dirent_process_ef_utf_8 mem ext (zde\<lparr>de_filename := n\<rparr>) ZIP_EF_UTF_8_COMMENT
      (de_comment zde) = c" by blast
  let ?z = "zde\<lparr>de_filename := n, de_comment := c, de_uncomp_size := us, de_comp_size := cs, de_offset := off\<rparr>"
  have fl0: "?fl AND ZIP_EF_BOTH \<noteq> 0" by simp
  have n: "str_shape n = str_shape (de_filename zde)"
    unfolding pn [symmetric] by (rule ef_string_shape [OF assms(1) fl fl0 assms(7-9)])
  have c: "str_shape c = str_shape (de_comment zde)"
    unfolding pc [symmetric] by (rule ef_string_shape [where fl = ?fl]) (use assms(2,7-9) fl fl0 in simp_all)
  have a: "zip_dirent_process_winzip_aes mem ?z err =
      (Some (if aes then ?z\<lparr>de_crc_valid := \<not> de_uncomp_size ?z < 20, de_encryption_method := em,
                           de_comp_method := uint cm\<rparr> else ?z), err)"
    by (rule zip_dirent_process_winzip_aes_ok [where fl = ?fl and m = m]) (use aes fl fl0 assms(7) in \<open>cases aes; simp\<close>)+
  show ?thesis
  proof (intro exI conjI)
    show "let z = ?z;
        z = (if aes then z\<lparr>de_crc_valid := \<not> us < 20, de_encryption_method := em, de_comp_method := uint cm\<rparr> else z)
      in dirent_read_finish mem ext local True zde err =
          (Some (z\<lparr>de_extra_fields := zip_ef_remove_internal (de_extra_fields zde)\<rparr>), err)"
      using a assms(6)
      by (cases aes) (simp_all add: dirent_read_finish_def pn pc z64)
  qed (fact n c)+
qed

section \<open>Writing the parts\<close>

definition str_bytes :: "zip_string option \<Rightarrow> bytes" where
  "str_bytes s = (case s of None \<Rightarrow> [] | Some str \<Rightarrow> str_raw str)"

text \<open>What \<open>_zip_string_new\<close> establishes for a string and guessing its encoding keeps.\<close>

definition str_wf :: "zip_string option \<Rightarrow> bool" where
  "str_wf s = (case s of None \<Rightarrow> True | Some str \<Rightarrow>
     str_length str \<noteq> 0 \<and> length (str_raw str) = unat (str_length str) \<and>
     (str_encoding str = ZIP_ENCODING_ASCII \<or> str_encoding str = ZIP_ENCODING_UTF8_KNOWN \<longrightarrow>
        guess_scan (str_raw str) ZIP_ENCODING_ASCII \<noteq> ZIP_ENCODING_CP437))"

lemma str_wf_shape:
  "str_wf s \<Longrightarrow> length (str_bytes s) = unat (zip_string_length s) \<and>
     str_shape s = (if zip_string_length s = 0 then None else Some (str_bytes s, zip_string_length s))"
  by (auto simp: str_wf_def str_bytes_def zip_string_length_def str_shape_def split: option.splits)

lemma str_shape_cong:
  "str_shape s = str_shape t \<Longrightarrow> str_bytes s = str_bytes t \<and> zip_string_length s = zip_string_length t"
  by (cases s; cases t) (auto simp: str_shape_def str_bytes_def zip_string_length_def)

lemma zip_string_new_wf:
  "fst (zip_string_new mem raw len flags err) = Some s \<Longrightarrow> unat len \<le> length raw \<Longrightarrow> str_wf (Some s)"
  using guess_scan_range [of ZIP_ENCODING_ASCII "take (unat len) raw"]
  by (auto simp: zip_string_new_def str_wf_def zip_guess_encoding_def Let_def expected_encoding_def
      split: if_splits)

text \<open>Guessing only caches; a string taken for ASCII or UTF-8 is.\<close>

lemma zip_guess_shape:
  assumes "str_wf s" "zip_guess_encoding s ZIP_ENCODING_UNKNOWN = (enc, s')"
  shows "str_shape s' = str_shape s" "str_wf s'"
    and "enc = ZIP_ENCODING_ASCII \<or> enc = ZIP_ENCODING_UTF8_KNOWN \<Longrightarrow>
      guess_scan (str_bytes s) ZIP_ENCODING_ASCII \<noteq> ZIP_ENCODING_CP437"
    and "enc = ZIP_ENCODING_UTF8_KNOWN \<Longrightarrow> s \<noteq> None"
  using assms guess_scan_range [of ZIP_ENCODING_ASCII "str_bytes s"]
  by (auto simp: zip_guess_encoding_def Let_def str_shape_def str_wf_def str_bytes_def
      split: option.splits if_splits)

lemma put_all_new:
  assumes "zip_buffer_new mem (Some (replicate (unat sz) 0)) sz = Some b" "length (fields_enc fs) \<le> unat sz"
  shows "zip_buffer_ok (put_all b fs)" "zip_buffer_offset (put_all b fs) = of_nat (length (fields_enc fs))"
    "take (length (fields_enc fs)) (zip_buffer_data (put_all b fs)) = fields_enc fs"
proof -
  have "buf_at b [] (unat sz)"
    using assms(1) by (auto simp: zip_buffer_new_def buf_at_def wf_buf_def buf_written_def split: if_splits)
  then have at: "buf_at (put_all b fs) (fields_enc fs) (unat sz)"
    using put_all_at [of b "[]" "unat sz" fs] assms(2) by simp
  then show "zip_buffer_ok (put_all b fs)" by (simp add: buf_at_def zip_buffer_ok_def)
  show "zip_buffer_offset (put_all b fs) = of_nat (length (fields_enc fs))" by (rule buf_at_offset [OF at])
  show "take (length (fields_enc fs)) (zip_buffer_data (put_all b fs)) = fields_enc fs"
    using buf_at_taken [OF at] by (simp add: zip_buffer_data_def)
qed

lemma unat_of_nat_u16: "n < 65536 \<Longrightarrow> unat (of_nat n :: u16) = n"
  by (simp add: unsigned_of_nat take_bit_nat_eq_self)

lemma ucast_of_nat_u16: "(ucast (of_nat n :: u64) :: u16) = of_nat n"
  by (rule bit_word_eqI) (auto simp: bit_simps)

definition internal_ef :: "u16 \<Rightarrow> bytes \<Rightarrow> zip_extra_field" where
  "internal_ef i d = \<lparr>ef_flags = ZIP_EF_BOTH, ef_id = i, ef_size = of_nat (length d), ef_data = d\<rparr>"

lemma internal_ef_simps [simp]:
  "ef_id (internal_ef i d) = i" "ef_data (internal_ef i d) = d" "ef_flags (internal_ef i d) = ZIP_EF_BOTH"
  "length d < 65536 \<Longrightarrow> ef_wf (internal_ef i d)"
  by (simp_all add: internal_ef_def ef_wf_def unsigned_of_nat take_bit_nat_eq_self)

lemma add_ef_buffer_ok:
  assumes "length (fields_enc fs) \<le> unat room" "unat room < 65536" "mem A_buffer" "mem A_ef" "mem A_ef_data"
  shows "add_ef_buffer mem i room fs efs err = (Some (internal_ef i (fields_enc fs) # efs), err)"
proof -
  obtain b where b: "zip_buffer_new mem (Some (replicate (unat room) 0)) room = Some b"
    using assms(3) by (auto simp: zip_buffer_new_def)
  have "unat (of_nat (length (fields_enc fs)) :: u16) = length (fields_enc fs)"
    using assms(1,2) by (simp add: unsigned_of_nat take_bit_nat_eq_self)
  then show ?thesis
    using put_all_new [OF b assms(1)] b zip_ef_new_eq [of mem, OF assms(4,5)]
    by (simp add: add_ef_buffer_def Let_def ucast_of_nat_u16 internal_ef_def)
qed

lemma zip_ef_utf8_ok:
  assumes "str_wf s" "s \<noteq> None" "length (str_bytes s) \<le> 65530" "mem A_buffer" "mem A_buffer_data" "mem A_ef" "mem A_ef_data"
  shows "\<exists>c. zip_ef_utf8 mem ext i s err = (Some (internal_ef i (1 # le32 c @ str_bytes s)), err)"
proof -
  obtain str where s: "s = Some str" using assms(2) by auto
  let ?c = "zip_string_crc32 (ext_crc32 ext) (Some str)" and ?raw = "str_raw str" and ?len = "ucast (str_length str) :: u32"
  have len: "length ?raw = unat (str_length str)" "unat (str_length str) \<le> 65530"
    using assms(1,3) s by (auto simp: str_wf_def str_bytes_def)
  have "unat ?len + unat (5 :: u32) < 2 ^ LENGTH(32)" using len(2) by simp
  then have "unat (?len + 5) = unat ?len + unat (5 :: u32)" by (rule unat_add_lem [THEN iffD1])
  then have l5: "unat (?len + 5) = unat (str_length str) + 5" by (simp only: unat_widen) simp
  then have small: "\<not> ?len + 5 > 0xffff" using len(2) by (simp add: word_less_nat_alt)
  let ?fs = "[P8 1, P32 ?c, PB (take (unat (str_length str)) ?raw)]" and ?sz = "ucast (?len + 5) :: u64"
  obtain e where e: "fields_enc ?fs = e" by blast
  have enc: "e = 1 # le32 ?c @ ?raw" "length e = unat (str_length str) + 5" using len(1) e by auto
  have sz: "unat ?sz = unat (str_length str) + 5" by (simp only: unat_widen l5)
  obtain b where b: "zip_buffer_new mem None ?sz = Some b" using assms(4,5) by (auto simp: zip_buffer_new_def)
  obtain B where B: "put_all b ?fs = B" by blast
  have at: "buf_at B e (unat ?sz)"
    using put_all_at [OF zip_buffer_new_at [OF b], of ?fs] enc e B sz by simp
  have tk: "take (length e) (zip_buffer_data B) = e" "zip_buffer_ok B" "zip_buffer_offset B = of_nat (length e)"
    using buf_at_taken [OF at] at buf_at_offset [OF at] by (simp_all add: zip_buffer_data_def buf_at_def zip_buffer_ok_def)
  have "unat (of_nat (length e) :: u16) = length e"
    by (rule unat_of_nat_u16) (use enc len in simp)
  then have "zip_ef_utf8 mem ext i s err = (Some (internal_ef i e), err)"
    using small b tk B zip_ef_new_eq [of mem, OF assms(6,7)]
    by (simp add: zip_ef_utf8_def zip_string_get_def Let_def ucast_of_nat_u16 internal_ef_def s)
  then show ?thesis using enc s by (auto simp: str_bytes_def)
qed

section \<open>The encoding flag and its fields\<close>

definition utf8_efs_for :: "bool \<Rightarrow> zip_extra_field list \<Rightarrow> zip_string option \<Rightarrow> zip_string option \<Rightarrow> bool" where
  "utf8_efs_for local efs n c \<longleftrightarrow> ef_string efs ZIP_EF_UTF_8_NAME n \<and>
     (if local then ef_absent efs ZIP_EF_UTF_8_COMMENT else ef_string efs ZIP_EF_UTF_8_COMMENT c) \<and>
     list_all (\<lambda>e. ef_wf e \<and> ef_flags e = ZIP_EF_BOTH \<and> (ef_id e = ZIP_EF_UTF_8_NAME \<or> ef_id e = ZIP_EF_UTF_8_COMMENT)) efs \<and>
     length (ef_encs efs) \<le> length (str_bytes n) + length (str_bytes c) + 18"

lemma dirent_write_encoding_ok:
  assumes "str_wf (de_filename de)" "str_wf (de_comment de)"
    and "length (str_bytes (de_filename de)) \<le> 65530" "length (str_bytes (de_comment de)) \<le> 65530"
    and mem: "mem A_buffer" "mem A_buffer_data" "mem A_ef" "mem A_ef_data"
    and l: "local \<longleftrightarrow> flags AND ZIP_FL_LOCAL \<noteq> 0"
  shows "\<exists>n c utf efs. dirent_write_encoding mem ext de flags err =
      (de\<lparr>de_filename := n, de_comment := c,
          de_bitflags := if utf then de_bitflags de OR ZIP_GPBF_ENCODING_UTF_8
                         else de_bitflags de AND NOT ZIP_GPBF_ENCODING_UTF_8\<rparr>, Some efs, err) \<and>
    str_shape n = str_shape (de_filename de) \<and> str_shape c = str_shape (de_comment de) \<and> str_wf n \<and> str_wf c \<and>
    utf8_efs_for local efs n c \<and>
    (utf \<longrightarrow> guess_scan (str_bytes n) ZIP_ENCODING_ASCII \<noteq> ZIP_ENCODING_CP437 \<and>
            guess_scan (str_bytes c) ZIP_ENCODING_ASCII \<noteq> ZIP_ENCODING_CP437)"
proof -
  obtain ne n where n: "zip_guess_encoding (de_filename de) ZIP_ENCODING_UNKNOWN = (ne, n)" by fastforce
  obtain ce c where c: "zip_guess_encoding (de_comment de) ZIP_ENCODING_UNKNOWN = (ce, c)" by fastforce
  note N = zip_guess_shape [OF assms(1) n] and C = zip_guess_shape [OF assms(2) c]
  have Nb: "str_bytes n = str_bytes (de_filename de)" and Cb: "str_bytes c = str_bytes (de_comment de)"
    using str_shape_cong N(1) C(1) by blast+
  let ?utf = "ne = ZIP_ENCODING_UTF8_KNOWN \<and> ce = ZIP_ENCODING_ASCII \<or>
      ne = ZIP_ENCODING_ASCII \<and> ce = ZIP_ENCODING_UTF8_KNOWN \<or>
      ne = ZIP_ENCODING_UTF8_KNOWN \<and> ce = ZIP_ENCODING_UTF8_KNOWN"
  show ?thesis
  proof (cases ?utf)
    case True
    then have "dirent_write_encoding mem ext de flags err =
      (de\<lparr>de_filename := n, de_comment := c, de_bitflags := de_bitflags de OR ZIP_GPBF_ENCODING_UTF_8\<rparr>, Some [], err)"
      using n c by (auto simp: dirent_write_encoding_def)
    moreover have "utf8_efs_for local [] n c" by (simp add: utf8_efs_for_def ef_string_def)
    moreover have "guess_scan (str_bytes n) ZIP_ENCODING_ASCII \<noteq> ZIP_ENCODING_CP437"
      "guess_scan (str_bytes c) ZIP_ENCODING_ASCII \<noteq> ZIP_ENCODING_CP437"
      using True N(3) C(3) Nb Cb by auto
    ultimately show ?thesis using N(1,2) C(1,2) by (intro exI [of _ n] exI [of _ c] exI [of _ True] exI [of _ "[]"]) simp
  next
    case False
    let ?K = "ZIP_ENCODING_UTF8_KNOWN"
    have some: "ne = ?K \<Longrightarrow> n \<noteq> None" "ce = ?K \<Longrightarrow> c \<noteq> None"
      using N(1,4) C(1,4) by (auto simp: str_shape_def)
    obtain nf where nf: "ne = ?K \<Longrightarrow> zip_ef_utf8 mem ext ZIP_EF_UTF_8_NAME n err =
        (Some (internal_ef ZIP_EF_UTF_8_NAME (1 # le32 nf @ str_bytes n)), err)"
      using zip_ef_utf8_ok [OF N(2) some(1) _ mem, of ext ZIP_EF_UTF_8_NAME err] assms(3) Nb by auto
    obtain cf where cf: "ce = ?K \<Longrightarrow> zip_ef_utf8 mem ext ZIP_EF_UTF_8_COMMENT c err =
        (Some (internal_ef ZIP_EF_UTF_8_COMMENT (1 # le32 cf @ str_bytes c)), err)"
      using zip_ef_utf8_ok [OF C(2) some(2) _ mem, of ext ZIP_EF_UTF_8_COMMENT err] assms(4) Cb by auto
    let ?ne = "internal_ef ZIP_EF_UTF_8_NAME (1 # le32 nf @ str_bytes n)"
      and ?ce = "internal_ef ZIP_EF_UTF_8_COMMENT (1 # le32 cf @ str_bytes c)"
    let ?efs = "(if \<not> local \<and> ce = ?K then [?ce] else []) @ (if ne = ?K then [?ne] else [])"
    have w: "dirent_write_encoding mem ext de flags err =
      (de\<lparr>de_filename := n, de_comment := c, de_bitflags := de_bitflags de AND NOT ZIP_GPBF_ENCODING_UTF_8\<rparr>,
       Some ?efs, err)"
      using False unfolding dirent_write_encoding_def n c prod.case Let_def if_not_P [OF False] l
      by (cases "ne = ?K"; cases "ce = ?K"; simp add: nf cf)
    have small: "length (str_bytes n) \<le> 65530" "length (str_bytes c) \<le> 65530" using assms(3,4) Nb Cb by simp_all
    then have wf: "ef_wf ?ne" "ef_wf ?ce" by simp_all
    have len: "length (ef_enc ?ne) = length (str_bytes n) + 9" "length (ef_enc ?ce) = length (str_bytes c) + 9"
      by (simp_all add: ef_enc_def)
    have sh: "s \<noteq> None \<Longrightarrow> str_wf s \<Longrightarrow> \<exists>len. str_shape s = Some (str_bytes s, len) \<and> length (str_bytes s) = unat len" for s
      by (auto simp: str_wf_def str_shape_def str_bytes_def)
    have at: "ef_at (?ne # es) ZIP_EF_UTF_8_NAME (1 # le32 nf @ str_bytes n)"
      "ef_at (?ce # es) ZIP_EF_UTF_8_COMMENT (1 # le32 cf @ str_bytes c)" for es
      using ef_at_Cons(1) [OF wf(1), of ZIP_EF_UTF_8_NAME es] ef_at_Cons(1) [OF wf(2), of ZIP_EF_UTF_8_COMMENT es]
      by simp_all
    have "ef_at ?efs ZIP_EF_UTF_8_NAME (1 # le32 nf @ str_bytes n)" if "ne = ?K"
      using that at(1) [of "[]"] ef_at_Cons(2) [of ?ce ZIP_EF_UTF_8_NAME "[?ne]", OF _ at(1) [of "[]"]] by simp
    then have "ef_string ?efs ZIP_EF_UTF_8_NAME n"
      unfolding ef_string_def using sh [OF some(1) N(2)] by (cases "ne = ?K") (blast, simp)
    moreover have "if local then ef_absent ?efs ZIP_EF_UTF_8_COMMENT else ef_string ?efs ZIP_EF_UTF_8_COMMENT c"
    proof (cases "\<not> local \<and> ce = ?K")
      case True
      have "ef_at ?efs ZIP_EF_UTF_8_COMMENT (1 # le32 cf @ str_bytes c)"
        using True at(2) [of "if ne = ?K then [?ne] else []"] by simp
      then show ?thesis unfolding ef_string_def using sh [OF some(2) C(2)] True by auto
    next
      case False
      then have "ef_absent ?efs ZIP_EF_UTF_8_COMMENT" by simp
      then show ?thesis by (simp only: ef_string_def simp_thms if_cancel)
    qed
    moreover have "length (ef_encs ?efs) \<le> length (str_bytes n) + length (str_bytes c) + 18"
      using len by simp
    moreover have "list_all (\<lambda>e. ef_wf e \<and> ef_flags e = ZIP_EF_BOTH \<and>
        (ef_id e = ZIP_EF_UTF_8_NAME \<or> ef_id e = ZIP_EF_UTF_8_COMMENT)) ?efs"
      using wf by simp
    ultimately have "utf8_efs_for local ?efs n c" unfolding utf8_efs_for_def by (intro conjI)
    then show ?thesis using w N(1,2) C(1,2)
      by (intro exI [of _ n] exI [of _ c] exI [of _ False] exI [of _ ?efs]) simp
  qed
qed

section \<open>Writing an entry\<close>

definition dirent_own_efs :: "zip_dirent \<Rightarrow> u32 \<Rightarrow> zip_extra_field list \<Rightarrow> zip_extra_field list" where
  "dirent_own_efs de flags u =
     (if dirent_is_aes de
      then [internal_ef ZIP_EF_WINZIP_AES
              (le16 2 @ [0x41, 0x45] @ [ucast (de_encryption_method de AND 0xff)] @ le16 (word_of_int (de_comp_method de)))]
      else []) @
     (if dirent_is_zip64 de flags then [internal_ef ZIP_EF_ZIP64 (fields_enc (zip64_fields de flags))] else []) @ u"

lemma zip64_fields_length: "length (fields_enc (zip64_fields de flags)) \<le> 24"
  by (simp add: zip64_fields_def Let_def)

definition dirent_ef_total :: "zip_dirent \<Rightarrow> u32 \<Rightarrow> zip_extra_field list \<Rightarrow> u32" where
  "dirent_ef_total de flags own =
     ucast (zip_ef_size (de_extra_fields de) flags) + ucast (zip_ef_size own ZIP_EF_BOTH)"

lemma dirent_fields_length:
  "length (fields_enc (dirent_fields ext de flags t)) = unat (dirent_hsize (flags AND ZIP_FL_LOCAL \<noteq> 0))"
  by (simp add: dirent_fields_def dirent_hsize_def Let_def split: prod.split)

definition dirent_image :: "external \<Rightarrow> zip_dirent \<Rightarrow> u32 \<Rightarrow> zip_extra_field list \<Rightarrow> bytes" where
  "dirent_image ext de flags own =
     fields_enc (dirent_fields ext de flags (dirent_ef_total de flags own)) @ str_bytes (de_filename de) @
     ef_encs own @ ef_bytes flags (de_extra_fields de) @
     (if flags AND ZIP_FL_LOCAL \<noteq> 0 then [] else str_bytes (de_comment de))"

lemma ef_bytes_both: "list_all (\<lambda>e. ef_flags e = ZIP_EF_BOTH) efs \<Longrightarrow> ef_bytes ZIP_EF_BOTH efs = ef_encs efs"
  by (induction efs) (auto simp: ef_in_def)

context byte_sink begin

lemma dirent_emit_appends:
  assumes "sinks za bs" "mem A_buffer" "list_all ef_wf efs" "list_all ef_wf (de_extra_fields de)"
    "length bs + length hdr + length (str_bytes (de_filename de)) + length (ef_bytes ZIP_EF_BOTH efs) +
     length (ef_bytes flags (de_extra_fields de)) + length (str_bytes (de_comment de)) < room"
  shows "\<exists>za'. dirent_emit mem za hdr de efs flags = (0, za') \<and> snd za' = snd za \<and>
    sinks za' (bs @ hdr @ str_bytes (de_filename de) @ ef_bytes ZIP_EF_BOTH efs @
      ef_bytes flags (de_extra_fields de) @ (if flags AND ZIP_FL_LOCAL \<noteq> 0 then [] else str_bytes (de_comment de)))"
proof -
  obtain z1 where z1: "zip_write za hdr = (0, z1)" "sinks z1 (bs @ hdr)" "snd z1 = snd za"
    using zip_write_appends [OF assms(1), of hdr] assms(5) by auto
  obtain z2 where z2: "zip_string_write z1 (de_filename de) = (0, z2)"
    "sinks z2 ((bs @ hdr) @ str_bytes (de_filename de))" "snd z2 = snd za"
    using zip_string_write_appends [OF z1(2), of "de_filename de"] assms(5) z1(3) unfolding str_bytes_def by auto
  obtain z3 where z3: "(if efs = [] then (0, z2) else zip_ef_write mem z2 efs ZIP_EF_BOTH) = (0, z3)"
    "sinks z3 (((bs @ hdr) @ str_bytes (de_filename de)) @ ef_bytes ZIP_EF_BOTH efs)" "snd z3 = snd za"
    using zip_ef_write_appends [OF z2(2), where mem = mem and efs = efs and flags = ZIP_EF_BOTH] assms(2,3,5) z2
    by (cases "efs = []") auto
  obtain z4 where z4: "(if de_extra_fields de = [] then (0, z3) else zip_ef_write mem z3 (de_extra_fields de) flags) = (0, z4)"
    "sinks z4 ((((bs @ hdr) @ str_bytes (de_filename de)) @ ef_bytes ZIP_EF_BOTH efs) @ ef_bytes flags (de_extra_fields de))"
    "snd z4 = snd za"
    using zip_ef_write_appends [OF z3(2), where mem = mem and efs = "de_extra_fields de" and flags = flags]
      assms(2,4,5) z3 by (cases "de_extra_fields de = []") auto
  obtain z5 where z5: "zip_string_write z4 (de_comment de) = (0, z5)"
    "sinks z5 (((((bs @ hdr) @ str_bytes (de_filename de)) @ ef_bytes ZIP_EF_BOTH efs) @
       ef_bytes flags (de_extra_fields de)) @ str_bytes (de_comment de))" "snd z5 = snd za"
    using zip_string_write_appends [OF z4(2), of "de_comment de"] assms(5) z4(3) unfolding str_bytes_def by auto
  show ?thesis
    using z1 z2 z3 z4 z5
    by (cases "flags AND ZIP_FL_LOCAL = 0") (auto simp: dirent_emit_def)
qed

lemma zip_dirent_write_appends:
  assumes "sinks za bs" "str_wf (de_filename de)" "str_wf (de_comment de)" "list_all ef_wf (de_extra_fields de)"
    and "length (str_bytes (de_filename de)) \<le> 65530" "length (str_bytes (de_comment de)) \<le> 65530"
    and "length (ef_bytes flags (de_extra_fields de)) < 65536" "length bs + 400000 < room"
    and mem: "mem A_buffer" "mem A_buffer_data" "mem A_ef" "mem A_ef_data"
    and l: "local \<longleftrightarrow> flags AND ZIP_FL_LOCAL \<noteq> 0"
  shows "\<exists>n c bf u za'.
    (let de1 = de\<lparr>de_filename := n, de_comment := c, de_bitflags := bf\<rparr>
     in zip_dirent_write mem ext za de flags = (if dirent_is_zip64 de flags then 1 else 0, za', de1) \<and>
        sinks za' (bs @ dirent_image ext de1 flags (dirent_own_efs de1 flags u)) \<and> snd za' = snd za) \<and>
    str_shape n = str_shape (de_filename de) \<and> str_shape c = str_shape (de_comment de) \<and> str_wf n \<and> str_wf c \<and>
    utf8_efs_for local u n c \<and>
    (bf AND ZIP_GPBF_ENCODING_UTF_8 \<noteq> 0 \<longrightarrow> guess_scan (str_bytes n) ZIP_ENCODING_ASCII \<noteq> ZIP_ENCODING_CP437 \<and>
            guess_scan (str_bytes c) ZIP_ENCODING_ASCII \<noteq> ZIP_ENCODING_CP437) \<and>
    (bf AND ZIP_GPBF_ENCRYPTED \<noteq> 0 \<longleftrightarrow> de_encryption_method de \<noteq> ZIP_EM_NONE) \<and>
    bf AND ZIP_GPBF_STRONG_ENCRYPTION = de_bitflags de AND ZIP_GPBF_STRONG_ENCRYPTION"
proof -
  obtain n c utf u where w: "dirent_write_encoding mem ext de flags (snd za) =
      (de\<lparr>de_filename := n, de_comment := c,
          de_bitflags := if utf then de_bitflags de OR ZIP_GPBF_ENCODING_UTF_8
                         else de_bitflags de AND NOT ZIP_GPBF_ENCODING_UTF_8\<rparr>, Some u, snd za)"
    and sh: "str_shape n = str_shape (de_filename de)" "str_shape c = str_shape (de_comment de)" "str_wf n" "str_wf c"
    and u: "utf8_efs_for local u n c"
    and g: "utf \<longrightarrow> guess_scan (str_bytes n) ZIP_ENCODING_ASCII \<noteq> ZIP_ENCODING_CP437 \<and>
            guess_scan (str_bytes c) ZIP_ENCODING_ASCII \<noteq> ZIP_ENCODING_CP437"
    using dirent_write_encoding_ok [OF assms(2,3,5,6) mem l, of ext "snd za"] by blast
  obtain b0 where b0: "(if utf then de_bitflags de OR ZIP_GPBF_ENCODING_UTF_8
      else de_bitflags de AND NOT ZIP_GPBF_ENCODING_UTF_8) = b0" by blast
  obtain bf where bf: "(if de_encryption_method de = ZIP_EM_NONE then b0 AND NOT ZIP_GPBF_ENCRYPTED
      else b0 OR ZIP_GPBF_ENCRYPTED) = bf" by blast
  have bits: "bf AND ZIP_GPBF_ENCODING_UTF_8 \<noteq> 0 \<longleftrightarrow> utf"
    "bf AND ZIP_GPBF_ENCRYPTED \<noteq> 0 \<longleftrightarrow> de_encryption_method de \<noteq> ZIP_EM_NONE"
    "bf AND ZIP_GPBF_STRONG_ENCRYPTION = de_bitflags de AND ZIP_GPBF_STRONG_ENCRYPTION"
    unfolding bf [symmetric] b0 [symmetric]
    by (simp_all add: bit.conj_disj_distrib2 and.assoc)
  let ?de1 = "de\<lparr>de_filename := n, de_comment := c, de_bitflags := bf\<rparr>"
  let ?own = "dirent_own_efs ?de1 flags u"
  have z: "dirent_is_zip64 (de\<lparr>de_filename := n, de_comment := c, de_bitflags := x\<rparr>) flags = dirent_is_zip64 de flags" for x
    by (simp add: dirent_is_zip64_def zip_dirent_needs_zip64_def)
  have f: "zip64_fields (de\<lparr>de_filename := n, de_comment := c, de_bitflags := x\<rparr>) flags = zip64_fields de flags" for x
    unfolding zip64_fields_def Let_def by simp
  have own: "\<exists>efs. dirent_write_zip64_ef mem ?de1 flags u err = (Some efs, err) \<and>
      dirent_write_aes_ef mem ?de1 efs err = (Some ?own, err)" for err
    using add_ef_buffer_ok [of "zip64_fields de flags" EFZIP64SIZE mem ZIP_EF_ZIP64 u err] zip64_fields_length [of de flags]
      add_ef_buffer_ok [of "[P16 2, PB [0x41, 0x45], P8 (ucast (de_encryption_method de AND 0xff)),
              P16 (word_of_int (de_comp_method de))]" EF_WINZIP_AES_SIZE mem ZIP_EF_WINZIP_AES _ err] mem
    by (auto simp: dirent_write_zip64_ef_def dirent_write_aes_ef_def dirent_own_efs_def z f dirent_is_aes_def)
  have u': "list_all ef_wf u" "list_all (\<lambda>e. ef_flags e = ZIP_EF_BOTH) u"
    and ul: "length (ef_encs u) \<le> length (str_bytes n) + length (str_bytes c) + 18"
    using u by (auto simp: utf8_efs_for_def list_all_iff)
  have nb: "str_bytes n = str_bytes (de_filename de)" "str_bytes c = str_bytes (de_comment de)"
    using str_shape_cong sh(1,2) by blast+
  have ownwf: "list_all ef_wf ?own" "list_all (\<lambda>e. ef_flags e = ZIP_EF_BOTH) ?own"
    using u' zip64_fields_length [of ?de1 flags] by (simp_all add: dirent_own_efs_def)
  have ownl: "length (ef_encs ?own) \<le> length (str_bytes n) + length (str_bytes c) + 57"
    using ul zip64_fields_length [of ?de1 flags] by (simp add: dirent_own_efs_def ef_enc_def)
  let ?fs = "dirent_fields ext ?de1 flags (dirent_ef_total ?de1 flags ?own)"
  have fl: "length (fields_enc ?fs) \<le> unat CDENTRYSIZE"
    by (simp add: dirent_fields_length dirent_hsize_def)
  obtain b where b: "zip_buffer_new mem (Some (replicate (unat CDENTRYSIZE) 0)) CDENTRYSIZE = Some b"
    using mem by (auto simp: zip_buffer_new_def)
  have "unat (of_nat (length (fields_enc ?fs)) :: u64) = length (fields_enc ?fs)"
    using fl by (simp add: unsigned_of_nat take_bit_nat_eq_self)
  then have tk: "zip_buffer_ok (put_all b ?fs)"
    "take (unat (zip_buffer_offset (put_all b ?fs))) (zip_buffer_data (put_all b ?fs)) = fields_enc ?fs"
    using put_all_new [OF b fl] by (simp_all only:)
  have "sinks (fst za, snd za) bs" using assms(1) by simp
  then obtain za' where e: "dirent_emit mem (fst za, snd za) (fields_enc ?fs) ?de1 ?own flags = (0, za')" "snd za' = snd za"
    "sinks za' (bs @ dirent_image ext ?de1 flags ?own)"
    using dirent_emit_appends [of "(fst za, snd za)" bs mem ?own ?de1 "fields_enc ?fs" flags]
      mem(1) ownwf(1) assms(4-8) fl ownl nb ef_bytes_both [OF ownwf(2)] by (auto simp: dirent_image_def)
  obtain efs where o: "dirent_write_zip64_ef mem ?de1 flags u (snd za) = (Some efs, snd za)"
    "dirent_write_aes_ef mem ?de1 efs (snd za) = (Some ?own, snd za)" using own by blast
  have enc: "(if de_encryption_method de = ZIP_EM_NONE
      then de\<lparr>de_filename := n, de_comment := c, de_bitflags := b0 AND NOT ZIP_GPBF_ENCRYPTED\<rparr>
      else de\<lparr>de_filename := n, de_comment := c, de_bitflags := b0 OR ZIP_GPBF_ENCRYPTED\<rparr>) = ?de1"
    using bf by auto
  have "zip_dirent_write mem ext za de flags = (if dirent_is_zip64 de flags then 1 else 0, za', ?de1)"
    unfolding zip_dirent_write_def w b0 prod.case option.case Let_def if_distrib [of "\<lambda>d. d\<lparr>de_bitflags := _\<rparr>"]
    using enc o b tk e(1) z [of bf]
    by (simp add: dirent_ef_total_def Let_def cong: if_cong)
  then show ?thesis
    using sh u g bits e
    by (intro exI [of _ n] exI [of _ c] exI [of _ bf] exI [of _ u] exI [of _ za']) simp
qed
end

section \<open>Reading back what was written\<close>

definition dirent_encodable :: "zip_dirent \<Rightarrow> u32 \<Rightarrow> bool" where
  "dirent_encodable de flags \<longleftrightarrow>
     str_wf (de_filename de) \<and> str_wf (de_comment de) \<and> 0 \<notin> set (str_bytes (de_filename de)) \<and>
     length (str_bytes (de_filename de)) \<le> 65530 \<and> length (str_bytes (de_comment de)) \<le> 65530 \<and>
     list_all (\<lambda>e. ef_wf e \<and> \<not> ZIP_EF_IS_INTERNAL (ef_id e)) (de_extra_fields de) \<and>
     length (str_bytes (de_filename de)) + length (str_bytes (de_comment de)) +
       length (ef_bytes flags (de_extra_fields de)) + 57 < 65536 \<and>
     0 \<le> de_comp_method de \<and> de_comp_method de < 65536 \<and> de_comp_method de \<noteq> ZIP_CM_WINZIP_AES \<and>
     de_disk_number de < 0xffff \<and>
     (de_encryption_method de = ZIP_EM_NONE \<or> de_encryption_method de = ZIP_EM_TRAD_PKWARE \<or> dirent_is_aes de) \<and>
     de_bitflags de AND ZIP_GPBF_STRONG_ENCRYPTION = 0"

text \<open>The first condition excludes the entries for which the writer stores an empty zip64 field.\<close>

definition dirent_storable :: "zip_dirent \<Rightarrow> u32 \<Rightarrow> bool" where
  "dirent_storable de flags \<longleftrightarrow> dirent_encodable de flags \<and>
     (zip_dirent_needs_zip64 de flags \<longrightarrow> zip64_fields de flags \<noteq> []) \<and> de_offset de \<le> ZIP_INT64_MAX"

lemmas dirent_storable_defs = dirent_storable_def dirent_encodable_def

definition dirent_read_back :: "external \<Rightarrow> u32 \<Rightarrow> zip_dirent \<Rightarrow> zip_dirent \<Rightarrow> bool" where
  "dirent_read_back ext flags de r \<longleftrightarrow>
     (let local = (flags AND ZIP_FL_LOCAL \<noteq> 0)
      in str_shape (de_filename r) = str_shape (de_filename de) \<and>
         de_extra_fields r = map (\<lambda>e. e\<lparr>ef_flags := if local then ZIP_EF_LOCAL else ZIP_EF_CENTRAL\<rparr>)
           (filter (ef_in flags) (de_extra_fields de)) \<and>
         de_comp_method r = de_comp_method de \<and>
         de_encryption_method r = de_encryption_method de \<and>
         (case zip_u2d_time ext (de_last_mod de) of (t, d) \<Rightarrow> de_last_mod r = zip_d2u_time ext t d) \<and>
         de_crc_valid r = (\<not> (dirent_is_aes de \<and> de_uncomp_size de < 20)) \<and>
         (de_crc_valid r \<longrightarrow> de_crc r = de_crc de) \<and>
         de_comp_size r = de_comp_size de \<and> de_uncomp_size r = de_uncomp_size de \<and>
         (\<not> local \<longrightarrow> str_shape (de_comment r) = str_shape (de_comment de) \<and>
            de_disk_number r = de_disk_number de \<and> de_int_attrib r = de_int_attrib de \<and>
            de_ext_attrib r = de_ext_attrib de \<and> de_offset r = de_offset de))"

definition dirent_header_entry :: "external \<Rightarrow> zip_dirent \<Rightarrow> u32 \<Rightarrow> zip_dirent" where
  "dirent_header_entry ext de flags =
     (let local = (flags AND ZIP_FL_LOCAL \<noteq> 0);
          z = zip_dirent_needs_zip64 de flags;
          both = (local \<and> (de_comp_size de \<ge> ZIP_UINT32_MAX \<or> de_uncomp_size de \<ge> ZIP_UINT32_MAX))
      in dirent_fixed ext
           (if local then 0 else if z then 45 else de_version_madeby de)
           (if z then 45 else de_version_needed de)
           (de_bitflags de)
           (if dirent_is_aes de then 99 else word_of_int (de_comp_method de))
           (fst (zip_u2d_time ext (de_last_mod de)))
           (snd (zip_u2d_time ext (de_last_mod de)))
           (if dirent_is_aes de \<and> de_uncomp_size de < 20 then 0 else de_crc de)
           (if both then 0xffffffff else size32 (de_comp_size de))
           (if both then 0xffffffff else size32 (de_uncomp_size de))
           (if local then 0 else ucast (de_disk_number de))
           (if local then 0 else de_int_attrib de)
           (if local then 0 else de_ext_attrib de)
           (if local then 0 else size32 (de_offset de)))"

lemma dirent_fields_local:
  assumes "flags AND ZIP_FL_LOCAL \<noteq> 0"
  shows "\<exists>vn cm crc cs us. fields_enc (dirent_fields ext de flags t) = LOCAL_MAGIC @ le16 vn @ le16 (de_bitflags de) @
      le16 cm @ le16 (fst (zip_u2d_time ext (de_last_mod de))) @ le16 (snd (zip_u2d_time ext (de_last_mod de))) @
      le32 crc @ le32 cs @ le32 us @ le16 (zip_string_length (de_filename de)) @ le16 (ucast t) \<and>
    dirent_header_entry ext de flags = dirent_fixed ext 0 vn (de_bitflags de) cm
      (fst (zip_u2d_time ext (de_last_mod de))) (snd (zip_u2d_time ext (de_last_mod de))) crc cs us 0 0 0 0"
  unfolding dirent_header_entry_def Let_def
  using assms by (intro exI conjI) (auto simp: dirent_fields_def Let_def size32_def split: prod.splits)

lemma dirent_fields_central:
  assumes "flags AND ZIP_FL_LOCAL = 0"
  shows "\<exists>vm vn cm crc cs us off. fields_enc (dirent_fields ext de flags t) = CENTRAL_MAGIC @ le16 vm @ le16 vn @
      le16 (de_bitflags de) @ le16 cm @ le16 (fst (zip_u2d_time ext (de_last_mod de))) @
      le16 (snd (zip_u2d_time ext (de_last_mod de))) @ le32 crc @ le32 cs @ le32 us @
      le16 (zip_string_length (de_filename de)) @ le16 (ucast t) @ le16 (zip_string_length (de_comment de)) @
      le16 (ucast (de_disk_number de)) @ le16 (de_int_attrib de) @ le32 (de_ext_attrib de) @ le32 off \<and>
    dirent_header_entry ext de flags = dirent_fixed ext vm vn (de_bitflags de) cm
      (fst (zip_u2d_time ext (de_last_mod de))) (snd (zip_u2d_time ext (de_last_mod de))) crc cs us
      (ucast (de_disk_number de)) (de_int_attrib de) (de_ext_attrib de) off"
  unfolding dirent_header_entry_def Let_def
  using assms by (intro exI conjI) (auto simp: dirent_fields_def Let_def size32_def split: prod.splits)

lemma dirent_read_fixed_image:
  assumes "buf_from b (fields_enc (dirent_fields ext de flags t) @ R)" "local \<longleftrightarrow> flags AND ZIP_FL_LOCAL \<noteq> 0"
  shows "\<exists>p b1 b2. zip_buffer_get b 4 = (Some p, b1) \<and> buf_bytes b1 p 4 = dirent_magic local \<and>
    dirent_read_fixed ext local b1 = (dirent_header_entry ext de flags, zip_string_length (de_filename de), ucast t,
      if local then 0 else zip_string_length (de_comment de), b2) \<and> buf_from b2 R"
proof (cases local)
  case True
  then obtain vn cm crc cs us where f: "fields_enc (dirent_fields ext de flags t) = LOCAL_MAGIC @ le16 vn @ le16 (de_bitflags de) @
      le16 cm @ le16 (fst (zip_u2d_time ext (de_last_mod de))) @ le16 (snd (zip_u2d_time ext (de_last_mod de))) @
      le32 crc @ le32 cs @ le32 us @ le16 (zip_string_length (de_filename de)) @ le16 (ucast t)"
    "dirent_header_entry ext de flags = dirent_fixed ext 0 vn (de_bitflags de) cm
      (fst (zip_u2d_time ext (de_last_mod de))) (snd (zip_u2d_time ext (de_last_mod de))) crc cs us 0 0 0 0"
    using dirent_fields_local [of flags ext de t] assms(2) by blast
  obtain p b1 where b1: "zip_buffer_get b 4 = (Some p, b1)" "buf_bytes b1 p (length LOCAL_MAGIC) = LOCAL_MAGIC"
    "buf_from b1 (le16 vn @ le16 (de_bitflags de) @ le16 cm @ le16 (fst (zip_u2d_time ext (de_last_mod de))) @
      le16 (snd (zip_u2d_time ext (de_last_mod de))) @ le32 crc @ le32 cs @ le32 us @
      le16 (zip_string_length (de_filename de)) @ le16 (ucast t) @ R)"
    using get_bytes_ex [of b LOCAL_MAGIC _ 4] assms(1) f(1) by fastforce
  show ?thesis
    using b1(1,2) dirent_read_fixed_local [OF b1(3)] True f(2)
    by (auto simp: dirent_magic_def numeral_eq_Suc)
next
  case False
  then obtain vm vn cm crc cs us off where f: "fields_enc (dirent_fields ext de flags t) = CENTRAL_MAGIC @ le16 vm @ le16 vn @
      le16 (de_bitflags de) @ le16 cm @ le16 (fst (zip_u2d_time ext (de_last_mod de))) @
      le16 (snd (zip_u2d_time ext (de_last_mod de))) @ le32 crc @ le32 cs @ le32 us @
      le16 (zip_string_length (de_filename de)) @ le16 (ucast t) @ le16 (zip_string_length (de_comment de)) @
      le16 (ucast (de_disk_number de)) @ le16 (de_int_attrib de) @ le32 (de_ext_attrib de) @ le32 off"
    "dirent_header_entry ext de flags = dirent_fixed ext vm vn (de_bitflags de) cm
      (fst (zip_u2d_time ext (de_last_mod de))) (snd (zip_u2d_time ext (de_last_mod de))) crc cs us
      (ucast (de_disk_number de)) (de_int_attrib de) (de_ext_attrib de) off"
    using dirent_fields_central [of flags ext de t] assms(2) by blast
  obtain p b1 where b1: "zip_buffer_get b 4 = (Some p, b1)" "buf_bytes b1 p (length CENTRAL_MAGIC) = CENTRAL_MAGIC"
    "buf_from b1 (le16 vm @ le16 vn @ le16 (de_bitflags de) @ le16 cm @ le16 (fst (zip_u2d_time ext (de_last_mod de))) @
      le16 (snd (zip_u2d_time ext (de_last_mod de))) @ le32 crc @ le32 cs @ le32 us @
      le16 (zip_string_length (de_filename de)) @ le16 (ucast t) @ le16 (zip_string_length (de_comment de)) @
      le16 (ucast (de_disk_number de)) @ le16 (de_int_attrib de) @ le32 (de_ext_attrib de) @ le32 off @ R)"
    using get_bytes_ex [of b CENTRAL_MAGIC _ 4] assms(1) f(1) by fastforce
  show ?thesis
    using b1(1,2) dirent_read_fixed_central [OF b1(3)] False f(2)
    by (auto simp: dirent_magic_def numeral_eq_Suc)
qed

lemma zip64_fields_data:
  assumes "zip64_fields de flags \<noteq> []"
  shows "fields_enc (zip64_fields de flags) =
    zip64_data (flags AND ZIP_FL_LOCAL \<noteq> 0) (de_uncomp_size de) (de_comp_size de) (de_offset de)"
  using assms by (auto simp: zip64_fields_def zip64_data_def Let_def split: if_splits)

lemma zip_ef_remove_internal_own:
  "list_all (\<lambda>e. ZIP_EF_IS_INTERNAL (ef_id e)) xs \<Longrightarrow> list_all (\<lambda>e. \<not> ZIP_EF_IS_INTERNAL (ef_id e)) ys \<Longrightarrow>
   zip_ef_remove_internal (xs @ ys) = ys"
proof (induction xs)
  case Nil
  then show ?case by (induction ys) auto
qed simp

lemma dirent_header_entry_simps [simp]:
  "de_filename (dirent_header_entry ext de flags) = None" "de_comment (dirent_header_entry ext de flags) = None"
  "de_extra_fields (dirent_header_entry ext de flags) = []"
  "de_bitflags (dirent_header_entry ext de flags) = de_bitflags de"
  by (simp_all add: dirent_header_entry_def dirent_fixed_def zip_dirent_init_def Let_def)

lemma ef_string_append:
  assumes "ef_absent pre i" "ef_absent ext i" "ef_string u i s"
  shows "ef_string (pre @ u @ ext) i s"
proof (cases "ef_absent u i")
  case True
  then show ?thesis using assms(1,2) by (simp add: ef_string_def)
next
  case False
  then obtain c raw len where "ef_at u i (1 # le32 c @ raw)" "str_shape s = Some (raw, len)" "length raw = unat len"
    using assms(3) by (auto simp: ef_string_def)
  then show ?thesis
    unfolding ef_string_def using ef_at_append(2) [OF assms(1) ef_at_append(1)] by blast
qed

text \<open>The own fields of an entry, where the reader looks for them.\<close>

lemma dirent_own_efs_facts:
  fixes de :: zip_dirent and flags :: u32 and ext :: "zip_extra_field list"
  assumes "utf8_efs_for local u n c" "length (str_bytes n) \<le> 65530" "length (str_bytes c) \<le> 65530"
  defines "own \<equiv> dirent_own_efs de flags u"
  shows "list_all (\<lambda>e. ef_wf e \<and> ef_flags e = ZIP_EF_BOTH \<and> ZIP_EF_IS_INTERNAL (ef_id e)) own"
    and "length (ef_encs own) \<le> length (str_bytes n) + length (str_bytes c) + 57"
    and "ef_absent ext ZIP_EF_UTF_8_NAME \<Longrightarrow> ef_string (own @ ext) ZIP_EF_UTF_8_NAME n"
    and "ef_absent ext ZIP_EF_UTF_8_COMMENT \<Longrightarrow>
      if local then ef_absent (own @ ext) ZIP_EF_UTF_8_COMMENT else ef_string (own @ ext) ZIP_EF_UTF_8_COMMENT c"
    and "dirent_is_zip64 de flags \<Longrightarrow> ef_at (own @ ext) ZIP_EF_ZIP64 (fields_enc (zip64_fields de flags))"
    and "dirent_is_aes de \<Longrightarrow> ef_at (own @ ext) ZIP_EF_WINZIP_AES
      (le16 2 @ [0x41, 0x45] @ [ucast (de_encryption_method de AND 0xff)] @ le16 (word_of_int (de_comp_method de)))"
proof -
  let ?z = "internal_ef ZIP_EF_ZIP64 (fields_enc (zip64_fields de flags))"
    and ?a = "internal_ef ZIP_EF_WINZIP_AES (le16 2 @ [0x41, 0x45] @ [ucast (de_encryption_method de AND 0xff)] @
      le16 (word_of_int (de_comp_method de)))"
  let ?pre = "(if dirent_is_aes de then [?a] else []) @ (if dirent_is_zip64 de flags then [?z] else [])"
  have own: "own = ?pre @ u" by (simp add: own_def dirent_own_efs_def)
  have wf: "ef_wf ?z" "ef_wf ?a" using zip64_fields_length [of de flags] by simp_all
  show "list_all (\<lambda>e. ef_wf e \<and> ef_flags e = ZIP_EF_BOTH \<and> ZIP_EF_IS_INTERNAL (ef_id e)) own"
    using assms(1) wf unfolding own utf8_efs_for_def
    by (auto simp: list_all_iff ZIP_EF_IS_INTERNAL_def)
  show "length (ef_encs own) \<le> length (str_bytes n) + length (str_bytes c) + 57"
    using assms(1) zip64_fields_length [of de flags] unfolding own utf8_efs_for_def by (auto simp: ef_enc_def)
  have pre: "ef_absent ?pre ZIP_EF_UTF_8_NAME" "ef_absent ?pre ZIP_EF_UTF_8_COMMENT" by simp_all
  have str: "ef_string (own @ ext) i s" if "ef_string u i s" "ef_absent ?pre i" "ef_absent ext i" for i s
    using ef_string_append [OF that(2,3,1)] unfolding own by (simp only: append_assoc)
  show "ef_string (own @ ext) ZIP_EF_UTF_8_NAME n" if "ef_absent ext ZIP_EF_UTF_8_NAME"
    using str [OF _ pre(1) that, of n] assms(1) by (simp add: utf8_efs_for_def)
  show "if local then ef_absent (own @ ext) ZIP_EF_UTF_8_COMMENT else ef_string (own @ ext) ZIP_EF_UTF_8_COMMENT c"
    if "ef_absent ext ZIP_EF_UTF_8_COMMENT"
    using str [OF _ pre(2) that, of c] that assms(1) pre(2) by (cases local) (simp_all add: utf8_efs_for_def own)
  show "ef_at (own @ ext) ZIP_EF_WINZIP_AES (le16 2 @ [0x41, 0x45] @ [ucast (de_encryption_method de AND 0xff)] @
      le16 (word_of_int (de_comp_method de)))" if "dirent_is_aes de"
    using that ef_at_Cons(1) [OF wf(2), of ZIP_EF_WINZIP_AES] by (simp add: own)
  show "ef_at (own @ ext) ZIP_EF_ZIP64 (fields_enc (zip64_fields de flags))" if "dirent_is_zip64 de flags"
    using that ef_at_Cons(1) [OF wf(1), of ZIP_EF_ZIP64] ef_at_Cons(2) [of ?a ZIP_EF_ZIP64]
    by (simp add: own)
qed

lemma ef_string_map: "ef_string xs i s \<Longrightarrow> ef_string (map (\<lambda>e. e\<lparr>ef_flags := fl\<rparr>) xs) i s"
  using ef_at_map unfolding ef_string_def by (metis ef_absent_simps(4))

lemma unat_ef_total:
  assumes "list_all ef_wf (de_extra_fields de)" "list_all ef_wf own" "list_all (\<lambda>e. ef_flags e = ZIP_EF_BOTH) own"
    and "length (ef_encs own) + length (ef_bytes flags (de_extra_fields de)) < 65536"
  shows "unat (ucast (dirent_ef_total de flags own) :: u16) =
    length (ef_encs own) + length (ef_bytes flags (de_extra_fields de))"
proof -
  let ?a = "length (ef_bytes flags (de_extra_fields de))" and ?b = "length (ef_encs own)"
  have "unat (zip_ef_size (de_extra_fields de) flags) = ?a" "unat (zip_ef_size own ZIP_EF_BOTH) = ?b"
    using assms(4) unat_of_nat_u16 [of ?a] unat_of_nat_u16 [of ?b]
    by (simp_all add: zip_ef_size_eq [OF assms(1)] zip_ef_size_eq [OF assms(2)] ef_bytes_both [OF assms(3)])
  then have "unat (dirent_ef_total de flags own) = ?a + ?b"
    using assms(4) unfolding dirent_ef_total_def by (subst unat_add_lem [THEN iffD1]) simp_all
  then show ?thesis using assms(4) by (simp add: unsigned_ucast_eq take_bit_nat_eq_self)
qed

lemma dirent_read_zip64_header:
  assumes "zip_dirent_needs_zip64 de flags \<longrightarrow> zip64_fields de flags \<noteq> []" "de_disk_number de < 0xffff"
    and fl: "flags = ZIP_FL_CENTRAL \<or> flags = ZIP_FL_LOCAL \<or> flags = ZIP_FL_LOCAL OR ZIP_FL_FORCE_ZIP64"
    and l: "local \<longleftrightarrow> flags AND ZIP_FL_LOCAL \<noteq> 0"
    and efs: "list_all (\<lambda>e. ef_flags e = (if local then ZIP_EF_LOCAL else ZIP_EF_CENTRAL)) (de_extra_fields zde)"
    and at: "dirent_is_zip64 de flags \<Longrightarrow> ef_at (de_extra_fields zde) ZIP_EF_ZIP64 (fields_enc (zip64_fields de flags))"
    and h: "de_uncomp_size zde = de_uncomp_size (dirent_header_entry ext de flags)"
      "de_comp_size zde = de_comp_size (dirent_header_entry ext de flags)"
      "de_offset zde = de_offset (dirent_header_entry ext de flags)"
      "de_disk_number zde = de_disk_number (dirent_header_entry ext de flags)"
    and "mem A_buffer"
  shows "dirent_read_zip64 mem local zde err =
    (Some (zde\<lparr>de_uncomp_size := de_uncomp_size de, de_comp_size := de_comp_size de,
                de_offset := if local then 0 else de_offset de\<rparr>), err)"
proof (rule dirent_read_zip64_ok [where big = "zip_dirent_needs_zip64 de flags"])
  have c: "flags AND ZIP_FL_CENTRAL \<noteq> 0 \<longleftrightarrow> \<not> local" using fl l by auto
  have "unat (de_disk_number de) < 65535" using assms(2) by (simp add: word_less_nat_alt)
  then have "unat (ucast (de_disk_number de) :: u16) < 65535"
    by (simp add: unsigned_ucast_eq take_bit_nat_eq_self)
  then have "unat (ucast (ucast (de_disk_number de) :: u16) :: u32) \<noteq> unat (0xffff :: u32)" by simp
  then have disk: "ucast (ucast (de_disk_number de) :: u16) \<noteq> (0xffff :: u32)" by metis
  show "if local then (if zip_dirent_needs_zip64 de flags
         then de_uncomp_size zde = ZIP_UINT32_MAX \<and> de_comp_size zde = ZIP_UINT32_MAX
         else de_uncomp_size de < ZIP_UINT32_MAX \<and> de_comp_size de < ZIP_UINT32_MAX \<and>
              de_uncomp_size zde = de_uncomp_size de \<and> de_comp_size zde = de_comp_size de) \<and>
        de_offset zde = 0 \<and> (if local then 0 else de_offset de) = 0
      else de_uncomp_size zde = ucast (size32 (de_uncomp_size de)) \<and> de_comp_size zde = ucast (size32 (de_comp_size de)) \<and>
        de_offset zde = ucast (size32 (if local then 0 else de_offset de)) \<and> de_disk_number zde \<noteq> 0xffff \<and>
        zip_dirent_needs_zip64 de flags = (de_uncomp_size de \<ge> ZIP_UINT32_MAX \<or> de_comp_size de \<ge> ZIP_UINT32_MAX \<or>
          (if local then 0 else de_offset de) \<ge> ZIP_UINT32_MAX)"
    unfolding h using c l disk size32_back(1) [of "de_uncomp_size de"] size32_back(1) [of "de_comp_size de"]
    by (cases local) (auto simp: dirent_header_entry_def dirent_fixed_def Let_def zip_dirent_needs_zip64_def not_le)
  have "fields_enc (zip64_fields de flags) = zip64_data local (de_uncomp_size de) (de_comp_size de)
      (if local then 0 else de_offset de)" if "zip_dirent_needs_zip64 de flags"
    using zip64_fields_data [of de flags] assms(1) that l by (cases local) (auto simp: zip64_data_def)
  then show "zip_dirent_needs_zip64 de flags \<longrightarrow> ef_at (de_extra_fields zde) ZIP_EF_ZIP64
      (zip64_data local (de_uncomp_size de) (de_comp_size de) (if local then 0 else de_offset de))"
    using at by (auto simp: dirent_is_zip64_def)
qed (use efs assms in auto)

lemma ef_flags_map: "list_all (\<lambda>e. ef_flags e = fl) (map (\<lambda>e. e\<lparr>ef_flags := fl\<rparr>) xs)"
  by (induction xs) simp_all

lemma variable_size:
  assumes "length a = unat (fl :: u16)" "length e = unat (el :: u16)" "length c = unat (cl :: u16)"
  shows "unat (ucast fl + ucast el + ucast cl :: u32) = length a + length e + length c"
proof -
  have *: "unat (ucast fl :: u32) + unat (ucast el :: u32) < 2 ^ LENGTH(32)"
    "unat (ucast fl :: u32) + unat (ucast el :: u32) + unat (ucast cl :: u32) < 2 ^ LENGTH(32)"
    using unat_bounds(2) [of fl] unat_bounds(2) [of el] unat_bounds(2) [of cl] by simp_all
  have 1: "unat (ucast fl + ucast el :: u32) = unat fl + unat el"
    using unat_add_lem [THEN iffD1, OF *(1)] by (simp only: unat_widen)
  have "unat (ucast fl + ucast el :: u32) + unat (ucast cl :: u32) < 2 ^ LENGTH(32)"
    using *(2) 1 by (simp only: unat_widen)
  then have "unat (ucast fl + ucast el + ucast cl :: u32) = unat fl + unat el + unat cl"
    using unat_add_lem [THEN iffD1, of "ucast fl + ucast el :: u32" "ucast cl"] 1 by (simp only: unat_widen)
  then show ?thesis using assms by (simp only:)
qed

lemma dirent_read_finish_image:
  assumes st: "dirent_storable de flags"
    and fl: "flags = ZIP_FL_CENTRAL \<or> flags = ZIP_FL_LOCAL \<or> flags = ZIP_FL_LOCAL OR ZIP_FL_FORCE_ZIP64"
    and l: "local \<longleftrightarrow> flags AND ZIP_FL_LOCAL \<noteq> 0"
    and enc: "de_bitflags de AND ZIP_GPBF_ENCRYPTED \<noteq> 0 \<longleftrightarrow> de_encryption_method de \<noteq> ZIP_EM_NONE"
    and EF: "list_all (\<lambda>e. ef_flags e = (if local then ZIP_EF_LOCAL else ZIP_EF_CENTRAL)) EF"
      "ef_string EF ZIP_EF_UTF_8_NAME s" "ef_string EF ZIP_EF_UTF_8_COMMENT c"
      "dirent_is_zip64 de flags \<Longrightarrow> ef_at EF ZIP_EF_ZIP64 (fields_enc (zip64_fields de flags))"
      "dirent_is_aes de \<Longrightarrow> ef_at EF ZIP_EF_WINZIP_AES
        (le16 2 @ [0x41, 0x45] @ [ucast (de_encryption_method de AND 0xff)] @ le16 (word_of_int (de_comp_method de)))"
      "zip_ef_remove_internal EF = map (\<lambda>e. e\<lparr>ef_flags := if local then ZIP_EF_LOCAL else ZIP_EF_CENTRAL\<rparr>)
        (filter (ef_in flags) (de_extra_fields de))"
    and sh: "str_shape s = str_shape (de_filename de)" "\<not> local \<longrightarrow> str_shape c = str_shape (de_comment de)"
    and Y: "Y = (dirent_header_entry ext de flags)
      \<lparr>de_filename := s, de_extra_fields := EF, de_local_extra_fields_read := lr, de_comment := c\<rparr>"
    and mem: "mem A_buffer" "mem A_string" "mem A_string_raw"
  shows "\<exists>r. dirent_read_finish mem ext local True Y err = (Some r, err) \<and> dirent_read_back ext flags de r"
proof -
  let ?fl = "if local then ZIP_EF_LOCAL else ZIP_EF_CENTRAL" and ?H = "dirent_header_entry ext de flags"
  have off: "(if local then 0 else de_offset de) \<le> ZIP_INT64_MAX" using st by (simp add: dirent_storable_defs)
  have cm: "uint (word_of_int (de_comp_method de) :: u16) = de_comp_method de"
    using st by (simp add: dirent_storable_defs uint_word_of_int)
  have ys: "ef_string (de_extra_fields Y) ZIP_EF_UTF_8_NAME (de_filename Y)"
    "ef_string (de_extra_fields Y) ZIP_EF_UTF_8_COMMENT (de_comment Y)"
    "list_all (\<lambda>e. ef_flags e = ?fl) (de_extra_fields Y)"
    using EF(1-3) by (simp_all add: Y)
  have z64: "dirent_read_zip64 mem local (Y\<lparr>de_filename := n, de_comment := k\<rparr>) err =
      (Some (Y\<lparr>de_filename := n, de_comment := k, de_uncomp_size := de_uncomp_size de,
         de_comp_size := de_comp_size de, de_offset := if local then 0 else de_offset de\<rparr>), err)" for n k
    using st EF(1,4) mem(1) unfolding Y
    by (intro dirent_read_zip64_header [OF _ _ fl l, where ext = ext]) (simp_all add: dirent_storable_defs)
  have aes: "if dirent_is_aes de then de_comp_method Y = ZIP_CM_WINZIP_AES \<and>
        aes_mode_method (ucast (de_encryption_method de AND 0xff)) = Some (de_encryption_method de) \<and>
        ef_at (de_extra_fields Y) ZIP_EF_WINZIP_AES
          (le16 2 @ [0x41, 0x45] @ [ucast (de_encryption_method de AND 0xff)] @ le16 (word_of_int (de_comp_method de)))
      else de_comp_method Y \<noteq> ZIP_CM_WINZIP_AES"
    using aes_mode_of_method [of de] EF(5) cm st
    by (cases "dirent_is_aes de") (simp_all add: Y dirent_header_entry_def dirent_fixed_def Let_def dirent_storable_defs)
  obtain n k where nk: "str_shape n = str_shape s" "str_shape k = str_shape c"
    and fin: "let z = Y\<lparr>de_filename := n, de_comment := k, de_uncomp_size := de_uncomp_size de,
         de_comp_size := de_comp_size de, de_offset := if local then 0 else de_offset de\<rparr>;
         z = (if dirent_is_aes de then z\<lparr>de_crc_valid := \<not> de_uncomp_size de < 20,
                de_encryption_method := de_encryption_method de,
                de_comp_method := uint (word_of_int (de_comp_method de) :: u16)\<rparr> else z)
     in dirent_read_finish mem ext local True Y err =
          (Some (z\<lparr>de_extra_fields := zip_ef_remove_internal (de_extra_fields Y)\<rparr>), err)"
    using dirent_read_finish_ok [OF ys z64 aes off mem, of ext] unfolding Y by auto
  have "unat (de_disk_number de) < 65536"
    using st by (simp add: dirent_storable_defs word_less_nat_alt)
  then have "unat (ucast (ucast (de_disk_number de) :: u16) :: u32) = unat (de_disk_number de)"
    by (simp only: unat_widen) (simp add: unsigned_ucast_eq take_bit_nat_eq_self)
  then have disk: "ucast (ucast (de_disk_number de) :: u16) = de_disk_number de" by (rule unsigned_word_eqI)
  have em: "de_encryption_method ?H = de_encryption_method de" if "\<not> dirent_is_aes de"
    using that st enc by (auto simp: dirent_storable_defs dirent_header_entry_def dirent_fixed_def Let_def)
  obtain r where r: "dirent_read_finish mem ext local True Y err = (Some r, err)"
    and rr: "r = (let z = Y\<lparr>de_filename := n, de_comment := k, de_uncomp_size := de_uncomp_size de,
         de_comp_size := de_comp_size de, de_offset := if local then 0 else de_offset de\<rparr>;
         z = (if dirent_is_aes de then z\<lparr>de_crc_valid := \<not> de_uncomp_size de < 20,
                de_encryption_method := de_encryption_method de,
                de_comp_method := uint (word_of_int (de_comp_method de) :: u16)\<rparr> else z)
     in z\<lparr>de_extra_fields := zip_ef_remove_internal (de_extra_fields Y)\<rparr>)"
    using fin by (simp only: Let_def)
  have rb: "de_filename r = n" "de_comment r = k" "de_extra_fields r = zip_ef_remove_internal EF"
    "de_comp_size r = de_comp_size de" "de_uncomp_size r = de_uncomp_size de"
    "de_offset r = (if local then 0 else de_offset de)"
    "de_last_mod r = de_last_mod ?H" "de_crc r = de_crc ?H" "de_disk_number r = de_disk_number ?H"
    "de_int_attrib r = de_int_attrib ?H" "de_ext_attrib r = de_ext_attrib ?H"
    "de_crc_valid r = (if dirent_is_aes de then \<not> de_uncomp_size de < 20 else de_crc_valid ?H)"
    "de_encryption_method r = (if dirent_is_aes de then de_encryption_method de else de_encryption_method ?H)"
    "de_comp_method r = (if dirent_is_aes de then de_comp_method de else de_comp_method ?H)"
    unfolding rr Y by (simp_all add: Let_def cm)
  have H: "de_last_mod ?H = zip_d2u_time ext (fst (zip_u2d_time ext (de_last_mod de))) (snd (zip_u2d_time ext (de_last_mod de)))"
    "de_crc ?H = (if dirent_is_aes de \<and> de_uncomp_size de < 20 then 0 else de_crc de)"
    "\<not> local \<longrightarrow> de_disk_number ?H = de_disk_number de \<and> de_int_attrib ?H = de_int_attrib de \<and>
       de_ext_attrib ?H = de_ext_attrib de"
    "de_crc_valid ?H" "\<not> dirent_is_aes de \<longrightarrow> de_comp_method ?H = de_comp_method de"
    using l cm disk by (simp_all add: dirent_header_entry_def dirent_fixed_def Let_def zip_dirent_init_def)
  have "dirent_read_back ext flags de r"
    unfolding dirent_read_back_def Let_def rb l [symmetric]
    using nk sh H em EF(6) by (auto split: prod.splits)
  then show ?thesis using r by blast
qed

text \<open>Reading an image up to what follows the strings: the entry so far.\<close>

lemma zip_dirent_read_parts:
  assumes st: "dirent_encodable de flags"
    and fl: "flags = ZIP_FL_CENTRAL \<or> flags = ZIP_FL_LOCAL \<or> flags = ZIP_FL_LOCAL OR ZIP_FL_FORCE_ZIP64"
    and l: "local \<longleftrightarrow> flags AND ZIP_FL_LOCAL \<noteq> 0"
    and u: "utf8_efs_for local u (de_filename de) (de_comment de)"
    and g: "de_bitflags de AND ZIP_GPBF_ENCODING_UTF_8 \<noteq> 0 \<longrightarrow>
      guess_scan (str_bytes (de_filename de)) ZIP_ENCODING_ASCII \<noteq> ZIP_ENCODING_CP437 \<and>
      guess_scan (str_bytes (de_comment de)) ZIP_ENCODING_ASCII \<noteq> ZIP_ENCODING_CP437"
    and enc: "de_bitflags de AND ZIP_GPBF_ENCRYPTED \<noteq> 0 \<longleftrightarrow> de_encryption_method de \<noteq> ZIP_EM_NONE"
    and b: "buf_from b (dirent_image ext de flags (dirent_own_efs de flags u) @ R)"
    and mem: "mem A_buffer" "mem A_ef" "mem A_ef_data" "mem A_read_data" "mem A_string" "mem A_string_raw"
  shows "\<exists>EF s c lr b'. buf_from b' R \<and>
    list_all (\<lambda>e. ef_flags e = (if local then ZIP_EF_LOCAL else ZIP_EF_CENTRAL)) EF \<and>
    ef_string EF ZIP_EF_UTF_8_NAME s \<and> ef_string EF ZIP_EF_UTF_8_COMMENT c \<and>
    (dirent_is_zip64 de flags \<longrightarrow> ef_at EF ZIP_EF_ZIP64 (fields_enc (zip64_fields de flags))) \<and>
    (dirent_is_aes de \<longrightarrow> ef_at EF ZIP_EF_WINZIP_AES
      (le16 2 @ [0x41, 0x45] @ [ucast (de_encryption_method de AND 0xff)] @ le16 (word_of_int (de_comp_method de)))) \<and>
    zip_ef_remove_internal EF = map (\<lambda>e. e\<lparr>ef_flags := if local then ZIP_EF_LOCAL else ZIP_EF_CENTRAL\<rparr>)
      (filter (ef_in flags) (de_extra_fields de)) \<and>
    str_shape s = str_shape (de_filename de) \<and> (\<not> local \<longrightarrow> str_shape c = str_shape (de_comment de)) \<and>
    zip_dirent_read mem ext src (Some b) local err =
      (case dirent_read_finish mem ext local True ((dirent_header_entry ext de flags)
            \<lparr>de_filename := s, de_extra_fields := EF, de_local_extra_fields_read := lr, de_comment := c\<rparr>) err of
         (None, err) \<Rightarrow> (None, Some b', src, err)
       | (Some r, err) \<Rightarrow> (Some (r, int (length (dirent_image ext de flags (dirent_own_efs de flags u)))), Some b', src, err))"
proof -
  let ?own = "dirent_own_efs de flags u" and ?ext = "filter (ef_in flags) (de_extra_fields de)"
  let ?fl = "if local then ZIP_EF_LOCAL else ZIP_EF_CENTRAL"
  let ?E = "?own @ ?ext"
  let ?EF = "map (\<lambda>e. e\<lparr>ef_flags := ?fl\<rparr>) ?E"
  let ?name = "str_bytes (de_filename de)" and ?com = "if local then [] else str_bytes (de_comment de)"
  let ?t = "dirent_ef_total de flags ?own"
  let ?nl = "zip_string_length (de_filename de)" and ?cl = "if local then 0 else zip_string_length (de_comment de)"
    and ?el = "ucast ?t :: u16"
  let ?H = "dirent_header_entry ext de flags"
  have wf: "str_wf (de_filename de)" "str_wf (de_comment de)" and nul: "0 \<notin> set ?name"
    and len: "length ?name \<le> 65530" "length (str_bytes (de_comment de)) \<le> 65530"
    and ex: "list_all (\<lambda>e. ef_wf e \<and> \<not> ZIP_EF_IS_INTERNAL (ef_id e)) (de_extra_fields de)"
    and tot: "length ?name + length (str_bytes (de_comment de)) + length (ef_bytes flags (de_extra_fields de)) + 57 < 65536"
    using st by (simp_all add: dirent_encodable_def)
  note own = dirent_own_efs_facts(1,2) [OF u len, where de = de and flags = flags]
  note own_at = dirent_own_efs_facts(3-6) [OF u len, where de = de and flags = flags and ext = ?ext]
  have ext_wf: "list_all ef_wf ?ext" "list_all ef_wf (de_extra_fields de)" "list_all (\<lambda>e. \<not> ZIP_EF_IS_INTERNAL (ef_id e)) ?ext"
    using ex by (auto simp: list_all_iff)
  have absent: "ef_absent ?ext ZIP_EF_UTF_8_NAME" "ef_absent ?ext ZIP_EF_UTF_8_COMMENT"
    using ext_wf(3) by (auto simp: ef_absent_def list_all_iff ZIP_EF_IS_INTERNAL_def)
  have own_wf: "list_all ef_wf ?own" "list_all (\<lambda>e. ef_flags e = ZIP_EF_BOTH) ?own"
    "list_all (\<lambda>e. ZIP_EF_IS_INTERNAL (ef_id e)) ?own"
    using own(1) by (auto simp: list_all_iff)
  have E: "ef_encs ?E = ef_encs ?own @ ef_bytes flags (de_extra_fields de)" by (simp add: ef_bytes_def)
  have el: "length (ef_encs ?E) = unat ?el"
    using unat_ef_total [OF ext_wf(2) own_wf(1,2), of flags] own(2) tot unfolding E by simp
  have nl: "length ?name = unat ?nl" "str_shape (de_filename de) = (if ?nl = 0 then None else Some (?name, ?nl))"
    using str_wf_shape [OF wf(1)] by simp_all
  have cl: "length ?com = unat ?cl" "\<not> local \<longrightarrow> str_shape (de_comment de) = (if ?cl = 0 then None else Some (?com, ?cl))"
    using str_wf_shape [OF wf(2)] by simp_all
  have img: "dirent_image ext de flags ?own = fields_enc (dirent_fields ext de flags ?t) @ ?name @ ef_encs ?E @ ?com"
    using l by (simp add: dirent_image_def ef_bytes_def)
  obtain p b1 b2 where rd: "zip_buffer_get b 4 = (Some p, b1)" "buf_bytes b1 p 4 = dirent_magic local"
    "dirent_read_fixed ext local b1 = (?H, ?nl, ?el, ?cl, b2)" and b2: "buf_from b2 (?name @ ef_encs ?E @ ?com @ R)"
    using dirent_read_fixed_image [of b ext de flags ?t "?name @ ef_encs ?E @ ?com @ R" local] b l
    unfolding img append_assoc by blast
  have big: "\<not> zip_buffer_left b < dirent_hsize local"
    using buf_from_ok [OF b] dirent_fields_length [of ext de flags ?t] l
    unfolding img by (simp add: word_less_nat_alt)
  let ?vs = "ucast ?nl + ucast ?el + ucast ?cl :: u32"
  note vs = variable_size [OF nl(1) el cl(1)]
  have left: "\<not> zip_buffer_left b2 < ucast ?vs"
    using buf_from_ok [OF b2] vs by (simp add: word_less_nat_alt)
  obtain s b3 where s: "dirent_read_filename mem ?H (Some b2) src ?nl err = (Some (?H\<lparr>de_filename := s\<rparr>), Some b3, src, err)"
    "buf_from b3 (ef_encs ?E @ ?com @ R)" "str_shape s = str_shape (de_filename de)"
    using dirent_read_filename_ok [OF b2 nl(1) nul, of ?H mem src err] g mem unfolding nl(2) by auto
  obtain lr b4 where e: "dirent_read_ef mem local (?H\<lparr>de_filename := s\<rparr>) (Some b3) src ?el err =
      (Some (?H\<lparr>de_filename := s, de_extra_fields := ?EF, de_local_extra_fields_read := lr\<rparr>), Some b4, src, err)"
    "buf_from b4 (?com @ R)"
    using dirent_read_ef_ok [OF s(2) el, of "?H\<lparr>de_filename := s\<rparr>" mem local src err] own_wf(1) ext_wf(1) mem by auto
  let ?Z = "?H\<lparr>de_filename := s, de_extra_fields := ?EF, de_local_extra_fields_read := lr\<rparr>"
  obtain c b5 where c: "dirent_read_comment mem ?Z (Some b4) src ?cl err = (Some (?Z\<lparr>de_comment := c\<rparr>), Some b5, src, err)"
    "buf_from b5 R" "str_shape c = (if ?cl = 0 then None else Some (?com, ?cl))"
    using dirent_read_comment_ok [OF e(2) cl(1), of ?Z mem src err] g mem by (cases local) (auto simp: guess_scan.simps(1))
  let ?Y = "?Z\<lparr>de_comment := c\<rparr>"
  have efl: "list_all (\<lambda>e. ef_flags e = ?fl) ?EF" by (rule ef_flags_map)
  have str: "ef_string ?EF ZIP_EF_UTF_8_NAME s"
    unfolding ef_string_cong [OF s(3)] by (rule ef_string_map [OF own_at(1) [OF absent(1)]])
  have str_c: "ef_string ?EF ZIP_EF_UTF_8_COMMENT c"
  proof (cases local)
    case True
    have "ef_absent ?E ZIP_EF_UTF_8_COMMENT" using own_at(2) [OF absent(2)] unfolding if_P [OF True] .
    then show ?thesis by (simp only: ef_string_def ef_absent_simps(4) simp_thms)
  next
    case False
    have shape: "str_shape c = str_shape (de_comment de)" using c(3) cl(2) False by (simp only: simp_thms)
    have "ef_string ?E ZIP_EF_UTF_8_COMMENT (de_comment de)"
      using own_at(2) [OF absent(2)] unfolding if_not_P [OF False] .
    then show ?thesis unfolding ef_string_cong [OF shape] by (rule ef_string_map)
  qed
  have rem: "zip_ef_remove_internal ?EF = map (\<lambda>e. e\<lparr>ef_flags := ?fl\<rparr>) ?ext"
    unfolding map_append by (rule zip_ef_remove_internal_own) (use own_wf(3) ext_wf(3) in \<open>simp_all add: list.pred_map comp_def\<close>)
  have shc: "\<not> local \<longrightarrow> str_shape c = str_shape (de_comment de)" using c(3) cl(2) by simp
  have ok: "zip_buffer_ok b2" "zip_buffer_ok b5" using buf_from_ok b2 c(2) by blast+
  have "uint (dirent_hsize local + ucast ?vs) = int (length (dirent_image ext de flags ?own))"
  proof -
    have v: "unat (ucast ?vs :: u64) = length ?name + length (ef_encs ?E) + length ?com" using vs by (simp only: unat_widen)
    have "length ?name + length (ef_encs ?E) + length ?com < 196608"
      using el cl(1) nl(1) unat_bounds(2) [of ?nl] unat_bounds(2) [of ?el] unat_bounds(2) [of ?cl] by linarith
    moreover have "unat (dirent_hsize local) \<le> 46" by (simp add: dirent_hsize_def)
    ultimately have "unat (dirent_hsize local) + unat (ucast ?vs :: u64) < 2 ^ LENGTH(64)" using v by simp
    then have "unat (dirent_hsize local + ucast ?vs) = unat (dirent_hsize local) + unat (ucast ?vs :: u64)"
      by (rule unat_add_lem [THEN iffD1])
    also have "\<dots> = length (dirent_image ext de flags ?own)"
      unfolding img using v dirent_fields_length [of ext de flags ?t] l by simp
    finally show ?thesis by (metis uint_nat)
  qed
  moreover obtain cl EF where "?cl = cl" "?EF = EF" by blast
  ultimately have "zip_dirent_read mem ext src (Some b) local err =
      (case dirent_read_finish mem ext local True ?Y err of
         (None, err) \<Rightarrow> (None, Some b5, src, err)
       | (Some r, err) \<Rightarrow> (Some (r, int (length (dirent_image ext de flags ?own))), Some b5, src, err))"
    using rd big left s(1) e(1) c(1) ok
    unfolding zip_dirent_read_def \<open>?cl = cl\<close> \<open>?EF = EF\<close>
    by (simp add: Let_def split: prod.split option.split)
  then show ?thesis
    using c(2) efl str str_c ef_at_map [OF own_at(3), of ?fl] ef_at_map [OF own_at(4), of ?fl] rem s(3) shc
    by (intro exI [of _ ?EF] exI [of _ s] exI [of _ c] exI [of _ lr] exI [of _ b5]) blast
qed


section \<open>The two outcomes\<close>

lemma zip_dirent_read_image:
  assumes st: "dirent_storable de flags"
    and fl: "flags = ZIP_FL_CENTRAL \<or> flags = ZIP_FL_LOCAL \<or> flags = ZIP_FL_LOCAL OR ZIP_FL_FORCE_ZIP64"
    and l: "local \<longleftrightarrow> flags AND ZIP_FL_LOCAL \<noteq> 0"
    and u: "utf8_efs_for local u (de_filename de) (de_comment de)"
    and g: "de_bitflags de AND ZIP_GPBF_ENCODING_UTF_8 \<noteq> 0 \<longrightarrow>
      guess_scan (str_bytes (de_filename de)) ZIP_ENCODING_ASCII \<noteq> ZIP_ENCODING_CP437 \<and>
      guess_scan (str_bytes (de_comment de)) ZIP_ENCODING_ASCII \<noteq> ZIP_ENCODING_CP437"
    and enc: "de_bitflags de AND ZIP_GPBF_ENCRYPTED \<noteq> 0 \<longleftrightarrow> de_encryption_method de \<noteq> ZIP_EM_NONE"
    and b: "buf_from b (dirent_image ext de flags (dirent_own_efs de flags u) @ R)"
    and mem: "mem A_buffer" "mem A_ef" "mem A_ef_data" "mem A_read_data" "mem A_string" "mem A_string_raw"
  shows "\<exists>r b'. zip_dirent_read mem ext src (Some b) local err =
      (Some (r, int (length (dirent_image ext de flags (dirent_own_efs de flags u)))), Some b', src, err) \<and>
    buf_from b' R \<and> dirent_read_back ext flags de r"
proof -
  have en: "dirent_encodable de flags" using st by (simp add: dirent_storable_def)
  obtain EF s c lr b' where *: "buf_from b' R"
    "list_all (\<lambda>e. ef_flags e = (if local then ZIP_EF_LOCAL else ZIP_EF_CENTRAL)) EF"
    "ef_string EF ZIP_EF_UTF_8_NAME s" "ef_string EF ZIP_EF_UTF_8_COMMENT c"
    "dirent_is_zip64 de flags \<Longrightarrow> ef_at EF ZIP_EF_ZIP64 (fields_enc (zip64_fields de flags))"
    "dirent_is_aes de \<Longrightarrow> ef_at EF ZIP_EF_WINZIP_AES
      (le16 2 @ [0x41, 0x45] @ [ucast (de_encryption_method de AND 0xff)] @ le16 (word_of_int (de_comp_method de)))"
    "zip_ef_remove_internal EF = map (\<lambda>e. e\<lparr>ef_flags := if local then ZIP_EF_LOCAL else ZIP_EF_CENTRAL\<rparr>)
      (filter (ef_in flags) (de_extra_fields de))"
    "str_shape s = str_shape (de_filename de)" "\<not> local \<longrightarrow> str_shape c = str_shape (de_comment de)"
    "zip_dirent_read mem ext src (Some b) local err =
      (case dirent_read_finish mem ext local True ((dirent_header_entry ext de flags)
            \<lparr>de_filename := s, de_extra_fields := EF, de_local_extra_fields_read := lr, de_comment := c\<rparr>) err of
         (None, err) \<Rightarrow> (None, Some b', src, err)
       | (Some r, err) \<Rightarrow> (Some (r, int (length (dirent_image ext de flags (dirent_own_efs de flags u)))), Some b', src, err))"
    using zip_dirent_read_parts [OF en fl l u g enc b mem, of src err] by blast
  from dirent_read_finish_image [OF st fl l enc *(2-9) refl mem(1,5,6), of ext lr err]
  show ?thesis using *(1,10) by auto
qed

text \<open>An entry whose zip64 field would be empty.\<close>

lemma dirent_read_zip64_empty:
  assumes "ef_at (de_extra_fields zde) ZIP_EF_ZIP64 []"
    and "list_all (\<lambda>e. ef_flags e = (if local then ZIP_EF_LOCAL else ZIP_EF_CENTRAL)) (de_extra_fields zde)"
    and "de_uncomp_size zde = ZIP_UINT32_MAX \<or> de_comp_size zde = ZIP_UINT32_MAX \<or>
      \<not> local \<and> de_offset zde = ZIP_UINT32_MAX"
    and "mem A_buffer"
  shows "dirent_read_zip64 mem local zde err = (None, zip_error_set err ZIP_ER_INCONS 0)"
proof -
  let ?fl = "if local then ZIP_EF_LOCAL else ZIP_EF_CENTRAL"
  obtain sz where sz: "zip_ef_get_by_id (de_extra_fields zde) ZIP_EF_ZIP64 0 ?fl err = (Some ([], sz), err)" "sz = 0"
    using ef_at_get [OF assms(1,2), of ?fl err] by (cases local) (auto simp: unat_eq_0)
  let ?b = "\<lparr>buf_ok = True, buf_free_data = False, buf_data = [], buf_size = 0, buf_offset = 0\<rparr> :: zip_buffer"
  let ?bad = "?b\<lparr>buf_ok := False\<rparr>"
  have b: "zip_buffer_new mem (Some []) 0 = Some ?b" using assms(4) by (simp add: zip_buffer_new_def)
  have get: "zip_buffer_get_64 ?b = (0, ?bad)" "zip_buffer_get_64 ?bad = (0, ?bad)" "zip_buffer_get_32 ?bad = (0, ?bad)"
    "snd (zip_buffer_skip ?b 8) = ?bad" "\<not> zip_buffer_eof ?bad"
    by (simp_all add: zip_buffer_get_64_def zip_buffer_get_32_def zip_buffer_get_def zip_buffer_peek_def
        zip_buffer_skip_def zip_buffer_set_offset_def zip_buffer_eof_def)
  show ?thesis
    using assms(3) sz b get by (auto simp: dirent_read_zip64_def)
qed

text \<open>What a write to an in-memory source leaves there.\<close>

definition dirent_marked :: "zip_dirent \<Rightarrow> zip_dirent \<Rightarrow> bool" where
  "dirent_marked de de1 \<longleftrightarrow>
     de1 = de\<lparr>de_filename := de_filename de1, de_comment := de_comment de1, de_bitflags := de_bitflags de1\<rparr> \<and>
     str_shape (de_filename de1) = str_shape (de_filename de) \<and> str_shape (de_comment de1) = str_shape (de_comment de)"

lemma zip_dirent_write_image:
  assumes "src_cb (fst za) = read_data_cb malloc_ok junk"
    and "src_sinks (sink_good malloc_ok) sink_out (fst za) bs" "length bs < 2 ^ 60" "dirent_encodable de flags"
  defines "local \<equiv> flags AND ZIP_FL_LOCAL \<noteq> 0"
  shows "\<exists>za' de1 u. zip_dirent_write malloc_ok ext za de flags = (if dirent_is_zip64 de flags then 1 else 0, za', de1) \<and>
    sink_out (src_ud (fst za')) = bs @ dirent_image ext de1 flags (dirent_own_efs de1 flags u) \<and>
    dirent_marked de de1 \<and> dirent_encodable de1 flags \<and>
    zip_dirent_needs_zip64 de1 flags = zip_dirent_needs_zip64 de flags \<and> zip64_fields de1 flags = zip64_fields de flags \<and>
    utf8_efs_for local u (de_filename de1) (de_comment de1) \<and>
    (de_bitflags de1 AND ZIP_GPBF_ENCODING_UTF_8 \<noteq> 0 \<longrightarrow>
      guess_scan (str_bytes (de_filename de1)) ZIP_ENCODING_ASCII \<noteq> ZIP_ENCODING_CP437 \<and>
      guess_scan (str_bytes (de_comment de1)) ZIP_ENCODING_ASCII \<noteq> ZIP_ENCODING_CP437) \<and>
    (de_bitflags de1 AND ZIP_GPBF_ENCRYPTED \<noteq> 0 \<longleftrightarrow> de_encryption_method de1 \<noteq> ZIP_EM_NONE)"
proof -
  have e: "str_wf (de_filename de)" "str_wf (de_comment de)" "list_all ef_wf (de_extra_fields de)"
    "length (str_bytes (de_filename de)) \<le> 65530" "length (str_bytes (de_comment de)) \<le> 65530"
    "length (ef_bytes flags (de_extra_fields de)) < 65536"
    using assms(4) by (auto simp: dirent_encodable_def list_all_iff)
  have s: "buf_sink.sinks malloc_ok junk za bs" using assms(1,2) by (simp add: buf_sink.sinks_def)
  have room: "length bs + 400000 < 2 ^ 61" using assms(3) by simp
  obtain n c bf u za' where w: "zip_dirent_write malloc_ok ext za de flags = (if dirent_is_zip64 de flags then 1 else 0, za',
        de\<lparr>de_filename := n, de_comment := c, de_bitflags := bf\<rparr>)"
      "buf_sink.sinks malloc_ok junk za' (bs @ dirent_image ext (de\<lparr>de_filename := n, de_comment := c, de_bitflags := bf\<rparr>) flags
         (dirent_own_efs (de\<lparr>de_filename := n, de_comment := c, de_bitflags := bf\<rparr>) flags u))"
    and sh: "str_shape n = str_shape (de_filename de)" "str_shape c = str_shape (de_comment de)" "str_wf n" "str_wf c"
    and u: "utf8_efs_for local u n c"
    and g: "bf AND ZIP_GPBF_ENCODING_UTF_8 \<noteq> 0 \<longrightarrow> guess_scan (str_bytes n) ZIP_ENCODING_ASCII \<noteq> ZIP_ENCODING_CP437 \<and>
            guess_scan (str_bytes c) ZIP_ENCODING_ASCII \<noteq> ZIP_ENCODING_CP437"
    and bits: "bf AND ZIP_GPBF_ENCRYPTED \<noteq> 0 \<longleftrightarrow> de_encryption_method de \<noteq> ZIP_EM_NONE"
      "bf AND ZIP_GPBF_STRONG_ENCRYPTION = de_bitflags de AND ZIP_GPBF_STRONG_ENCRYPTION"
    using buf_sink.zip_dirent_write_appends [where mem = malloc_ok and mema = malloc_ok and ext = ext and local = local,
        OF s e room TrueI TrueI TrueI TrueI local_def [THEN meta_eq_to_obj_eq]]
    unfolding Let_def by blast
  let ?de1 = "de\<lparr>de_filename := n, de_comment := c, de_bitflags := bf\<rparr>"
  have nb: "str_bytes n = str_bytes (de_filename de)" "str_bytes c = str_bytes (de_comment de)"
    using str_shape_cong sh(1,2) by blast+
  have "dirent_encodable ?de1 flags"
    using assms(4) sh(3,4) nb bits(2) by (simp add: dirent_encodable_def dirent_is_aes_def)
  moreover have "zip64_fields ?de1 flags = zip64_fields de flags" unfolding zip64_fields_def Let_def by simp
  moreover have "zip_dirent_needs_zip64 ?de1 flags = zip_dirent_needs_zip64 de flags"
    by (simp add: zip_dirent_needs_zip64_def)
  ultimately show ?thesis
    using w sh(1,2) u g bits(1)
    by (intro exI [of _ za'] exI [of _ ?de1] exI [of _ u])
      (simp add: dirent_marked_def buf_sink.sinks_def src_sinks_def)
qed

lemma dirent_read_back_marked:
  "dirent_marked de de1 \<Longrightarrow> dirent_read_back ext flags de1 r = dirent_read_back ext flags de r"
  unfolding dirent_marked_def dirent_read_back_def Let_def dirent_is_aes_def
  by (elim conjE) (erule ssubst, simp)

section \<open>What the component promises\<close>

text \<open>C1. A directory entry written as a local or central header reads back as that entry: the
  same name, comment, sizes, offset, checksum, method, encryption and attributes, its extra
  fields for that header and its date in DOS resolution; and the reader stops exactly behind
  what was written. The checksum is marked invalid, and not kept, only for a WinZip AES entry of
  under 20 bytes.\<close>

theorem zip_dirent_write_read:
  assumes "src_cb (fst za) = read_data_cb malloc_ok junk"
    and "src_sinks (sink_good malloc_ok) sink_out (fst za) bs" and "length bs < 2 ^ 60"
    and "dirent_storable de flags"
    and "flags = ZIP_FL_CENTRAL \<or> flags = ZIP_FL_LOCAL \<or> flags = ZIP_FL_LOCAL OR ZIP_FL_FORCE_ZIP64"
  shows "\<exists>za' de1 d. zip_dirent_write malloc_ok ext za de flags = (if dirent_is_zip64 de flags then 1 else 0, za', de1) \<and>
    sink_out (src_ud (fst za')) = bs @ d \<and>
    (\<forall>b rest. buf_from b (d @ rest) \<longrightarrow>
      (\<exists>r b'. zip_dirent_read malloc_ok ext src (Some b) (flags AND ZIP_FL_LOCAL \<noteq> 0) err =
         (Some (r, int (length d)), Some b', src, err) \<and> buf_from b' rest \<and> dirent_read_back ext flags de r))"
proof -
  have en: "dirent_encodable de flags" using assms(4) by (simp add: dirent_storable_def)
  obtain za' de1 u where w: "zip_dirent_write malloc_ok ext za de flags = (if dirent_is_zip64 de flags then 1 else 0, za', de1)"
    "sink_out (src_ud (fst za')) = bs @ dirent_image ext de1 flags (dirent_own_efs de1 flags u)"
    and m: "dirent_marked de de1" and en1: "dirent_encodable de1 flags"
    and z: "zip_dirent_needs_zip64 de1 flags = zip_dirent_needs_zip64 de flags" "zip64_fields de1 flags = zip64_fields de flags"
    and u: "utf8_efs_for (flags AND ZIP_FL_LOCAL \<noteq> 0) u (de_filename de1) (de_comment de1)"
    and g: "de_bitflags de1 AND ZIP_GPBF_ENCODING_UTF_8 \<noteq> 0 \<longrightarrow>
      guess_scan (str_bytes (de_filename de1)) ZIP_ENCODING_ASCII \<noteq> ZIP_ENCODING_CP437 \<and>
      guess_scan (str_bytes (de_comment de1)) ZIP_ENCODING_ASCII \<noteq> ZIP_ENCODING_CP437"
    and e: "de_bitflags de1 AND ZIP_GPBF_ENCRYPTED \<noteq> 0 \<longleftrightarrow> de_encryption_method de1 \<noteq> ZIP_EM_NONE"
    using zip_dirent_write_image [OF assms(1-3) en, of ext] by blast
  have "de_offset de1 = de_offset de" using m unfolding dirent_marked_def by (elim conjE) (erule ssubst, simp)
  then have st: "dirent_storable de1 flags" using assms(4) en1 z by (simp add: dirent_storable_def)
  show ?thesis
    using w zip_dirent_read_image [OF st assms(5) refl u g e, where mem = malloc_ok and ext = ext and src = src and err = err]
      dirent_read_back_marked [OF m, of ext flags] by blast
qed

lemma zip_dirent_write_read_witness:
  "\<exists>(za :: read_data writer) za' de1 d. zip_dirent_write malloc_ok fixed_external za
      (zip_dirent_init\<lparr>de_comp_method := 8, de_uncomp_size := 0x200000000,
         de_filename := Some \<lparr>str_raw = [0x61], str_length = 1, str_encoding = ZIP_ENCODING_UNKNOWN,
            str_converted = None, str_converted_length = 0\<rparr>\<rparr>) ZIP_FL_CENTRAL = (1, za', de1) \<and>
    sink_out (src_ud (fst za')) = d"
proof -
  let ?de = "zip_dirent_init\<lparr>de_comp_method := 8, de_uncomp_size := 0x200000000,
         de_filename := Some \<lparr>str_raw = [0x61], str_length = 1, str_encoding = ZIP_ENCODING_UNKNOWN,
            str_converted = None, str_converted_length = 0\<rparr>\<rparr>"
  obtain src :: "read_data zip_source" where s: "src_cb src = read_data_cb malloc_ok 0"
    "src_sinks (sink_good malloc_ok) sink_out src []"
    using fresh_sink [of malloc_ok 0] by (auto simp: mem_buffer_def)
  have "dirent_storable ?de ZIP_FL_CENTRAL"
    by (simp add: dirent_storable_defs zip_dirent_init_def str_wf_def str_bytes_def zip64_fields_def
        zip_dirent_needs_zip64_def)
  moreover have "dirent_is_zip64 ?de ZIP_FL_CENTRAL" by (simp add: dirent_is_zip64_def zip_dirent_needs_zip64_def)
  ultimately show ?thesis
    using zip_dirent_write_read [of "(src, zip_error_init)" 0 "[]" ?de ZIP_FL_CENTRAL fixed_external src zip_error_init] s
    by fastforce
qed



end
