(* ===== verification/Zip_Layers.thy ===== *)
theory Zip_Layers
  imports Zip_Deflate Zip_Source_Buffer_File Zip_Dirent_Codec
begin

text \<open>
  What the proofs about layered sources share: lower sources that report a status without changing, sources
  that can be set back into a fixed content, with the in-memory source as their provider, and how a layered
  source is created, opened and read in pieces.
\<close>

section \<open>Lower sources\<close>

abbreviation layer_cb :: "('l, 'c) layered_callback \<Rightarrow> 'l zip_source \<times> 'c \<Rightarrow> zip_source_cmd \<Rightarrow> reply \<times> ('l zip_source \<times> 'c)" where
  "layer_cb cb \<equiv> (\<lambda>(l, c) cmd. case cb l c cmd of (r, l', c') \<Rightarrow> (r, (l', c')))"

text \<open>The source reports a status without changing, wherever it is read to.\<close>

definition stat_steady :: "('s \<Rightarrow> bool) \<Rightarrow> zip_stat \<Rightarrow> 's zip_source \<Rightarrow> bool" where
  "stat_steady good st l \<longleftrightarrow>
     (\<forall>ud e. good ud \<longrightarrow> stat_lower (l\<lparr>src_ud := ud, src_eof := e\<rparr>) = (0, st, l\<lparr>src_ud := ud, src_eof := e\<rparr>))"

lemma stat_steadyD:
  assumes "stat_steady good st l" "l' = l\<lparr>src_ud := src_ud l', src_eof := src_eof l'\<rparr>" "good (src_ud l')"
  shows "stat_lower l' = (0, st, l') \<and> stat_steady good st l'"
proof -
  obtain u e where l': "l' = l\<lparr>src_ud := u, src_eof := e\<rparr>" using assms(2) by blast
  show ?thesis using assms(1,3) unfolding stat_steady_def l' by simp
qed

section \<open>Sources that can seek\<close>

text \<open>A source over a fixed content, of which it delivers what is left, and which it can be set back into.\<close>

definition held :: "('s \<Rightarrow> zip_source_cmd \<Rightarrow> reply \<times> 's) \<Rightarrow> ('s \<Rightarrow> bool) \<Rightarrow> 's zip_source \<Rightarrow> bool" where
  "held cb good src \<longleftrightarrow> src_cb src = cb \<and> good (src_ud src) \<and> ZIP_SOURCE_IS_OPEN_READING src \<and> \<not> src_source_closed src \<and>
     \<not> src_had_read_error src \<and> src_supports src AND 0x7f = 0x7f"

lemma seekable_bits:
  assumes "s AND 0x7f = (0x7f :: u64)"
  shows "s AND 0x40 \<noteq> 0" "s AND 2 \<noteq> 0" "s AND 0x3f = 0x3f"
proof -
  have "s AND k = (s AND 0x7f) AND k" if "0x7f AND k = k" for k using that by (simp add: and.assoc)
  then show "s AND 0x40 \<noteq> 0" "s AND 2 \<noteq> 0" "s AND 0x3f = 0x3f" unfolding assms by simp_all
qed

locale seekable_source = byte_source +
  fixes content :: bytes
  assumes rest_law: "good s \<Longrightarrow> \<exists>k \<le> length content. rest s = drop k content"
    and seek_law: "good s \<Longrightarrow> rest s = drop k content \<Longrightarrow> k \<le> length content \<Longrightarrow>
      wh = SEEK_SET \<and> p = off \<or> wh = SEEK_CUR \<and> p = int k + off \<Longrightarrow> 0 \<le> p \<Longrightarrow> p \<le> int (length content) \<Longrightarrow>
      \<exists>s'. cb s (ZIP_SOURCE_SEEK off wh) = ((0, No_data), s') \<and> good s' \<and> rest s' = drop (nat p) content"
begin

lemma seek_delivers:
  assumes "held cb good src" "rest (src_ud src) = drop k content" "k \<le> length content"
    "wh = SEEK_SET \<and> p = off \<or> wh = SEEK_CUR \<and> p = int k + off" "0 \<le> p" "p \<le> int (length content)"
  obtains src' where "zip_source_seek src off wh = (0, src')" "src' = src\<lparr>src_ud := src_ud src', src_eof := False\<rparr>"
    "held cb good src'" "src_delivers good rest src' (drop (nat p) content)"
proof -
  have h: "src_cb src = cb" "good (src_ud src)" "ZIP_SOURCE_IS_OPEN_READING src" "\<not> src_source_closed src"
    "\<not> src_had_read_error src" "src_supports src AND 0x7f = 0x7f"
    using assms(1) by (simp_all add: held_def)
  have can: "src_supports src AND 0x40 \<noteq> 0" "src_supports src AND 2 \<noteq> 0" using seekable_bits [OF h(6)] by simp_all
  obtain s' where s': "cb (src_ud src) (ZIP_SOURCE_SEEK off wh) = ((0, No_data), s')" "good s'"
    "rest s' = drop (nat p) content"
    using seek_law [OF h(2) assms(2-6)] by blast
  have "wh \<noteq> SEEK_other" using assms(4) by auto
  then show ?thesis
    by (intro that [of "src\<lparr>src_ud := s', src_eof := False\<rparr>"])
      (use h s' can in \<open>simp_all add: zip_source_seek_def zip_source_call_def src_invoke_def src_delivers_def src_can_def
         ZIP_SOURCE_IS_OPEN_READING_def ZIP_SOURCE_MAKE_COMMAND_BITMASK_def held_def\<close>)
qed

text \<open>A seek from the start does not care where the source was.\<close>

lemma seek_set_delivers:
  assumes "held cb good src" "0 \<le> off" "off \<le> int (length content)"
  obtains src' where "zip_source_seek src off SEEK_SET = (0, src')" "src' = src\<lparr>src_ud := src_ud src', src_eof := False\<rparr>"
    "held cb good src'" "src_delivers good rest src' (drop (nat off) content)"
proof -
  obtain k where "k \<le> length content" "rest (src_ud src) = drop k content"
    using rest_law [of "src_ud src"] assms(1) by (auto simp: held_def)
  then show ?thesis using seek_delivers [OF assms(1) _ _ _ assms(2,3), of k SEEK_SET off] that by blast
qed

text \<open>Reading keeps the source held.\<close>

lemma held_read_delivers:
  assumes "held cb good src" "src_delivers good rest src bs" "n \<le> ZIP_INT64_MAX"
  obtains src' where "zip_source_read src n = (int (length (take (unat n) bs)), take (unat n) bs, src')"
    "held cb good src'" "src_delivers good rest src' (drop (unat n) bs)"
    "src' = src\<lparr>src_ud := src_ud src', src_eof := src_eof src'\<rparr>"
proof -
  have "src_cb src = cb" using assms(1) by (simp add: held_def)
  then obtain src' where r: "zip_source_read src n = (int (length (take (unat n) bs)), take (unat n) bs, src')" "src_cb src' = cb"
    "src_delivers good rest src' (drop (unat n) bs)" "src' = src\<lparr>src_ud := src_ud src', src_eof := src_eof src'\<rparr>"
    using read_delivers [OF _ assms(2,3)] by blast
  have "src_supports src' = src_supports src" by (subst r(4)) simp
  then have "held cb good src'" using r(2,3) assms(1) by (simp add: held_def src_delivers_def)
  then show ?thesis using that r by blast
qed

end

definition rd_holds :: "bytes \<Rightarrow> int \<Rightarrow> read_data \<Rightarrow> bool" where
  "rd_holds bs t d \<longleftrightarrow> rd_good d \<and> buffer_content (rd_heap d) (rd_in d) = bs \<and> bu_fragments (rd_in d) \<noteq> [] \<and> rd_mtime d = t"

lemma buffer_read_fragments: "buffer_read heap b n = Some (r, d, b') \<Longrightarrow> bu_fragments b' = bu_fragments b"
  by (auto simp: buffer_read_def Let_def split: if_splits option.splits)

lemma held_read:
  assumes "rd_holds bs t s" "n \<le> ZIP_INT64_MAX"
  shows "\<exists>s'. read_data_cb mem junk s (ZIP_SOURCE_READ n) =
      ((int (length (take (unat n) (rd_rest s))), Read_data (take (unat n) (rd_rest s))), s') \<and>
    rd_holds bs t s' \<and> rd_rest s' = drop (unat n) (rd_rest s)"
proof -
  obtain b' where b': "buffer_read (rd_heap s) (rd_in s) n =
      Some (int (length (take (unat n) (rd_rest s))), take (unat n) (rd_rest s), b')"
    "wf_buffer (rd_heap s) b'" "buffer_rest (rd_heap s) b' = drop (unat n) (rd_rest s)"
    "buffer_content (rd_heap s) b' = buffer_content (rd_heap s) (rd_in s)"
    using buffer_read_eq [of "rd_heap s" "rd_in s" n] assms by (auto simp: rd_holds_def rd_good_def rd_rest_def)
  show ?thesis
    using b' assms buffer_read_fragments [OF b'(1)]
    by (intro exI [of _ "s\<lparr>rd_in := b'\<rparr>"]) (simp add: rd_holds_def rd_good_def rd_rest_def not_less [THEN iffD2])
qed

lemma held_rest:
  assumes "rd_holds bs t s"
  shows "\<exists>k \<le> length bs. rd_rest s = drop k bs"
proof -
  have wf: "wf_buffer (rd_heap s) (rd_in s)" "buffer_content (rd_heap s) (rd_in s) = bs"
    using assms by (simp_all add: rd_holds_def rd_good_def)
  have "unat (bu_offset (rd_in s)) \<le> length bs" using wf_buffer_sizes(1,2) [OF wf(1)] wf(2) by simp
  moreover have "rd_rest s = drop (unat (bu_offset (rd_in s))) bs" by (simp add: rd_rest_def buffer_rest_def wf(2))
  ultimately show ?thesis by blast
qed

lemma held_seek:
  assumes s: "rd_holds bs t s" "rd_rest s = drop k bs" "k \<le> length bs"
    and wh: "wh = SEEK_SET \<and> p = off \<or> wh = SEEK_CUR \<and> p = int k + off" and p: "0 \<le> p" "p \<le> int (length bs)"
  shows "\<exists>s'. read_data_cb mem junk s (ZIP_SOURCE_SEEK off wh) = ((0, No_data), s') \<and> rd_holds bs t s' \<and>
    rd_rest s' = drop (nat p) bs"
proof -
  have wf: "wf_buffer (rd_heap s) (rd_in s)" "bu_fragments (rd_in s) \<noteq> []" "buffer_content (rd_heap s) (rd_in s) = bs"
    "\<not> rd_fault s" "rd_mtime s = t"
    using s(1) by (simp_all add: rd_holds_def rd_good_def)
  have len: "length bs = unat (bu_size (rd_in s))" using wf_buffer_sizes(1) [OF wf(1)] wf(3) by simp
  then have size: "p \<le> uint (bu_size (rd_in s))" using p(2) by simp
  have "drop (unat (bu_offset (rd_in s))) bs = drop k bs" using s(2) by (simp add: rd_rest_def buffer_rest_def wf(3))
  then have "length bs - unat (bu_offset (rd_in s)) = length bs - k" by (metis length_drop)
  then have "unat (bu_offset (rd_in s)) = k" using s(3) wf_buffer_sizes(2) [OF wf(1)] len by simp
  then have "uint (bu_offset (rd_in s)) = int k" by (simp only: uint_nat)
  then have seek: "zip_source_seek_compute_offset (bu_offset (rd_in s)) (bu_size (rd_in s)) off wh (rd_error s) = (p, rd_error s)"
    using p(1) size wh by (auto simp: zip_source_seek_compute_offset_def)
  from buffer_seek_at [OF wf(1,2) seek p(1)] obtain b' where b': "buffer_seek (rd_in s) off wh (rd_error s) = Some (0, b', rd_error s)"
    "wf_buffer (rd_heap s) b'" "uint (bu_offset b') = p" "buffer_content (rd_heap s) b' = bs" "bu_fragments b' = bu_fragments (rd_in s)"
    using wf(3) by blast
  have "unat (bu_offset b') = nat p" using b'(3) by (simp only: unat_eq_nat_uint)
  then have "rd_holds bs t (s\<lparr>rd_in := b', rd_error := rd_error s\<rparr>)" "rd_rest (s\<lparr>rd_in := b', rd_error := rd_error s\<rparr>) = drop (nat p) bs"
    using b'(2-5) wf by (simp_all add: rd_holds_def rd_good_def rd_rest_def buffer_rest_def)
  moreover have "read_data_cb mem junk s (ZIP_SOURCE_SEEK off wh) = ((0, No_data), s\<lparr>rd_in := b', rd_error := rd_error s\<rparr>)"
    using b'(1) by simp
  ultimately show ?thesis by blast
qed

lemma held_read_law:
  assumes "rd_holds bs t s" "n \<le> ZIP_INT64_MAX"
  shows "\<exists>d s'. read_data_cb mem junk s (ZIP_SOURCE_READ n) = ((int (length d), Read_data d), s') \<and>
      rd_holds bs t s' \<and> rd_rest s = d @ rd_rest s' \<and> length d \<le> unat n \<and> (d = [] \<longrightarrow> n = 0 \<or> rd_rest s = [])"
proof -
  let ?d = "take (unat n) (rd_rest s)"
  obtain s' where s': "read_data_cb mem junk s (ZIP_SOURCE_READ n) = ((int (length ?d), Read_data ?d), s')"
    "rd_holds bs t s'" "rd_rest s' = drop (unat n) (rd_rest s)"
    using held_read [OF assms] by blast
  have "rd_rest s = ?d @ rd_rest s'" "length ?d \<le> unat n" "?d = [] \<longrightarrow> n = 0 \<or> rd_rest s = []"
    using s'(3) by (simp_all add: unat_eq_0)
  then show ?thesis using s'(1,2) by blast
qed

interpretation held_buf: seekable_source "read_data_cb mem junk" "rd_holds bs t" rd_rest bs for mem junk bs t
  by unfold_locales (fact held_read_law held_rest held_seek)+

text \<open>Opened, a buffer source delivers its content and reports its size.\<close>

definition buffer_stat :: "bytes \<Rightarrow> int \<Rightarrow> zip_stat" where
  "buffer_stat bs t = (zip_stat_init stat_blank)\<lparr>st_mtime := t, st_size := of_nat (length bs), st_comp_size := of_nat (length bs),
     st_comp_method := 0, st_encryption_method := 0,
     st_valid := ZIP_STAT_MTIME OR ZIP_STAT_SIZE OR ZIP_STAT_COMP_SIZE OR ZIP_STAT_COMP_METHOD OR ZIP_STAT_ENCRYPTION_METHOD\<rparr>"

lemma held_stat:
  assumes "buf_source mem junk src"
  shows "stat_steady (rd_holds bs t) (buffer_stat bs t) src"
  unfolding stat_steady_def
proof (intro allI impI)
  fix ud e assume h: "rd_holds bs t ud"
  then have "bu_size (rd_in ud) = of_nat (length bs)"
    using wf_buffer_sizes [of "rd_heap ud" "rd_in ud"] by (auto simp: rd_holds_def rd_good_def)
  then show "stat_lower (src\<lparr>src_ud := ud, src_eof := e\<rparr>) = (0, buffer_stat bs t, src\<lparr>src_ud := ud, src_eof := e\<rparr>)"
    using assms h
    by (simp add: stat_lower_def zip_source_stat_def buf_source_def zip_source_call_def src_invoke_def Let_def
        zip_stat_init_def buffer_stat_def rd_holds_def)
qed

lemma held_open:
  assumes "buf_source mem junk src" "rd_holds bs t (src_ud src)" "src_open_count src = 0" "\<not> src_had_read_error src"
  shows "\<exists>src1. zip_source_open src = (0, src1) \<and> src_delivers (rd_holds bs t) rd_rest src1 bs \<and> buf_source mem junk src1"
proof -
  let ?b = "(rd_in (src_ud src))\<lparr>bu_offset := 0, bu_current_fragment := 0\<rparr>"
  have "wf_buffer (rd_heap (src_ud src)) ?b"
    using assms(2) by (auto simp: rd_holds_def rd_good_def wf_buffer_def at_pos_def)
  then have "rd_holds bs t ((src_ud src)\<lparr>rd_in := ?b\<rparr>)" "rd_rest ((src_ud src)\<lparr>rd_in := ?b\<rparr>) = bs"
    using assms(2) by (simp_all add: rd_holds_def rd_good_def rd_rest_def buffer_rest_def buffer_content_def)
  moreover have "zip_source_open src = (0, src_opened (src\<lparr>src_ud := (src_ud src)\<lparr>rd_in := ?b\<rparr>\<rparr>))"
    using assms(1,3) by (simp add: zip_source_open_def buf_source_def ZIP_SOURCE_IS_OPEN_READING_def zip_source_call_def src_invoke_def)
  ultimately show ?thesis
    using assms(1,3) by (simp add: src_delivers_def buf_source_def src_opened_def ZIP_SOURCE_IS_OPEN_READING_def)
qed

text \<open>A buffer source over three bytes.\<close>

definition three_source :: "read_data zip_source" where
  "three_source = the (fst (zip_source_buffer_create malloc_ok 0 0 (Some [1, 2, 3]) 3 False zip_error_init))"

lemma buffer_created:
  assumes "zip_source_buffer_create mem junk now (Some bs) len freep err = (Some src, err')" "length bs = unat len" "bs \<noteq> []"
  shows "buf_source mem junk src" "rd_holds bs now (src_ud src)" "src_open_count src = 0" "\<not> src_had_read_error src"
    "src_refcount src = 1" "src_write_state src = ZIP_SOURCE_WRITE_CLOSED"
proof -
  have new: "zip_source_buffer_fragment_create mem junk now (Some [(Some bs, len)]) 1 freep err = (Some src, err')"
    using assms(1) by (simp add: zip_source_buffer_create_def)
  have "len \<noteq> 0" using assms(2,3) by (metis length_0_conv unat_0)
  then have "list_all frag_arg_ok [(Some bs, len)]" "length (concat (map (the \<circ> fst) [(Some bs, len)])) < 2 ^ 64"
    using assms(2,3) unat_bounds(4) [of len] by (simp_all add: frag_arg_ok_def)
  note c = buffer_source_created [OF _ this, of mem junk now 1 freep err src err']
  have "rd_mtime (src_ud src) = now" "\<not> src_had_read_error src" "src_refcount src = 1"
    using new
    by (auto simp: zip_source_buffer_fragment_create_def zip_source_function_create_def
        zip_source_new_def src_query_supports_def split: if_splits prod.splits option.splits)
  then show "rd_holds bs now (src_ud src)" "\<not> src_had_read_error src" "src_refcount src = 1"
    using c new by (auto simp: rd_holds_def)
  show "buf_source mem junk src" "src_open_count src = 0" "src_write_state src = ZIP_SOURCE_WRITE_CLOSED"
    using c new by simp_all
qed

lemma three_source_new:
  "\<exists>err. zip_source_buffer_create malloc_ok 0 0 (Some [1, 2, 3]) 3 False zip_error_init = (Some three_source, err)"
proof -
  obtain r err where r: "zip_source_buffer_create malloc_ok 0 0 (Some [1, 2, 3]) 3 False zip_error_init = (r, err)"
    by (cases "zip_source_buffer_create malloc_ok 0 0 (Some [1, 2, 3]) 3 False zip_error_init")
  have "case fst (zip_source_buffer_create malloc_ok 0 0 (Some [1, 2, 3]) 3 False zip_error_init) of None \<Rightarrow> False | Some _ \<Rightarrow> True"
    by code_simp
  then show ?thesis using r by (cases r) (auto simp: three_source_def)
qed

lemma three_source_facts:
  "buf_source malloc_ok 0 three_source" "rd_holds [1, 2, 3] 0 (src_ud three_source)" "src_open_count three_source = 0"
  "\<not> src_had_read_error three_source"
proof -
  obtain err where n: "zip_source_buffer_create malloc_ok 0 0 (Some [1, 2, 3]) 3 False zip_error_init = (Some three_source, err)"
    using three_source_new by blast
  show "buf_source malloc_ok 0 three_source" "rd_holds [1, 2, 3] 0 (src_ud three_source)" "src_open_count three_source = 0"
    "\<not> src_had_read_error three_source"
    using buffer_created [OF n] by simp_all
qed

text \<open>Reading in pieces.\<close>

fun read_pieces :: "u64 list \<Rightarrow> 's zip_source \<Rightarrow> bytes \<times> 's zip_source" where
  "read_pieces [] src = ([], src)"
| "read_pieces (n # ns) src =
     (case zip_source_read src n of (_, d, src) \<Rightarrow> (case read_pieces ns src of (ds, src) \<Rightarrow> (d @ ds, src)))"

definition pieces_ok :: "u64 list \<Rightarrow> bool" where
  "pieces_ok ns \<longleftrightarrow> (\<forall>n \<in> set ns. n \<le> ZIP_INT64_MAX)"

text \<open>An open source that can be read.\<close>

definition reading :: "'s zip_source \<Rightarrow> bool" where
  "reading src \<longleftrightarrow> ZIP_SOURCE_IS_OPEN_READING src \<and> \<not> src_source_closed src \<and> src_supports src AND 0x3f = 0x3f"

lemma readable_bits:
  assumes "s AND 0x3f = (0x3f :: u64)"
  shows "s AND 1 \<noteq> 0" "s AND 2 \<noteq> 0" "s AND 4 \<noteq> 0" "s AND 8 \<noteq> 0" "s AND 0x10 \<noteq> 0" "s AND 0x20 \<noteq> 0"
proof -
  have "s AND k = (s AND 0x3f) AND k" if "0x3f AND k = k" for k using that by (simp add: and.assoc)
  then show "s AND 1 \<noteq> 0" "s AND 2 \<noteq> 0" "s AND 4 \<noteq> 0" "s AND 8 \<noteq> 0" "s AND 0x10 \<noteq> 0" "s AND 0x20 \<noteq> 0"
    unfolding assms by simp_all
qed

lemma readable_can:
  assumes "src_supports src AND 0x3f = 0x3f"
  shows "src_can src ZIP_SOURCE_OPEN" "src_can src (ZIP_SOURCE_READ n)" "src_can src ZIP_SOURCE_CLOSE"
    "src_can src (ZIP_SOURCE_STAT st)" "src_can src ZIP_SOURCE_ERROR" "src_can src ZIP_SOURCE_FREE"
  using readable_bits [OF assms] by (simp_all add: src_can_def ZIP_SOURCE_MAKE_COMMAND_BITMASK_def push_bit_eq_mult)

lemma reading_read:
  assumes "reading src" "n \<le> ZIP_INT64_MAX"
  shows "zip_source_read src n =
    (if src_had_read_error src then (-1, [], src) else if src_eof src \<or> n = 0 then (0, [], src)
     else zip_source_read_loop src [] 0 (unat n))"
  using assms by (auto simp: zip_source_read_def reading_def zip_source_eof_def)

text \<open>What a checksum source has come to after \<open>k\<close> bytes, and after the end.\<close>

section \<open>Layers\<close>

lemma layered_created:
  assumes "zip_source_layered_create mem low cb c err = (Some src, err')"
    and "cb (zip_source_keep low) c ZIP_SOURCE_SUPPORTS = ((r, out), l', c')"
  shows "src_src src = Some layer_ops" "src_cb src = layer_cb cb"
    "src_supports src = (if r < 0 then 0x3f else of_int r)" "\<not> src_source_closed src"
    "src_write_state src = ZIP_SOURCE_WRITE_CLOSED" "src_open_count src = 0" "src_ud src = (l', c')"
    "\<not> src_had_read_error src" "\<not> src_eof src" "src_refcount src = 1"
  using assms
  by (auto simp: zip_source_layered_create_def zip_source_new_def src_query_supports_def split: if_splits)

lemma layered_open:
  assumes "src_src src = Some layer_ops" "src_cb src = layer_cb cb" "\<not> src_source_closed src"
    "src_write_state src = ZIP_SOURCE_WRITE_CLOSED" "src_open_count src = 0" "src_can src ZIP_SOURCE_OPEN"
    and "zip_source_open l = (0, l1)" "src_ud src = (l, c)" "cb l1 c ZIP_SOURCE_OPEN = ((r, out), l2, c2)" "0 \<le> r"
  shows "zip_source_open src = (0, src_opened (src\<lparr>src_ud := (l2, c2)\<rparr>))"
  using assms
  by (simp add: zip_source_open_def ZIP_SOURCE_IS_OPEN_READING_def layer_ops_def zip_source_call_def src_invoke_def src_can_def)

text \<open>When the layer refuses to be opened, its error becomes that of the source.\<close>

lemma layered_open_fails:
  assumes "src_src src = Some layer_ops" "src_cb src = layer_cb cb" "\<not> src_source_closed src"
    "src_write_state src = ZIP_SOURCE_WRITE_CLOSED" "src_open_count src = 0" "src_supports src AND 0x3f = 0x3f"
    and "zip_source_open l = (0, l1)" "src_ud src = (l, c)" "cb l1 c ZIP_SOURCE_OPEN = ((-1, out), l2, c2)"
    and "cb l2 c2 ZIP_SOURCE_ERROR = ((8, Error_data ze se), l2, c2)"
  shows "fst (zip_source_open src) = -1 \<and> zip_err (src_error (snd (zip_source_open src))) = ze"
proof -
  let ?s1 = "src\<lparr>src_ud := (l1, c)\<rparr>"
  let ?s2 = "(src\<lparr>src_ud := (l2, c2)\<rparr>)\<lparr>src_error := zip_error_set (src_error src) ze se\<rparr>"
  have can: "src_can ?s1 ZIP_SOURCE_OPEN" "src_can (src\<lparr>src_ud := (l2, c2)\<rparr>) ZIP_SOURCE_ERROR"
    using readable_can [OF assms(6)] by (simp_all add: src_can_def)
  have inv: "src_invoke ?s1 ZIP_SOURCE_OPEN = ((-1, out), src\<lparr>src_ud := (l2, c2)\<rparr>)"
    "src_invoke (src\<lparr>src_ud := (l2, c2)\<rparr>) ZIP_SOURCE_ERROR = ((8, Error_data ze se), src\<lparr>src_ud := (l2, c2)\<rparr>)"
    using assms(2,9,10) by (simp_all add: src_invoke_def)
  have "src_fetch_error (src\<lparr>src_ud := (l2, c2)\<rparr>) = ?s2"
    using can(2) inv(2) by (simp add: src_fetch_error_def src_set_error_def)
  then have call: "zip_source_call ?s1 ZIP_SOURCE_OPEN = ((-1, out), ?s2)"
    using can(1) inv(1) by (simp add: zip_source_call_def)
  have low: "low_open layer_ops (src_ud src) = (0, (l1, c))" using assms(7,8) by (simp add: layer_ops_def)
  have "zip_source_open src = (-1, ?s2\<lparr>src_ud := snd (low_close layer_ops (src_ud ?s2))\<rparr>)"
    using assms(1-5) call low by (simp add: zip_source_open_def [of src] ZIP_SOURCE_IS_OPEN_READING_def)
  then show ?thesis by (simp add: zip_error_set_def)
qed

section \<open>Reading in pieces\<close>

context byte_source
begin

lemma read_pieces_delivers:
  assumes "pieces_ok ns"
  shows "src_cb src = cb \<Longrightarrow> src_delivers good rest src bs \<Longrightarrow> fst (read_pieces ns src) = take (sum_list (map unat ns)) bs"
  using assms
proof (induction ns arbitrary: src bs)
  case (Cons n ns)
  have n: "n \<le> ZIP_INT64_MAX" "pieces_ok ns" using Cons.prems(3) by (simp_all add: pieces_ok_def)
  obtain src' where r: "zip_source_read src n = (int (length (take (unat n) bs)), take (unat n) bs, src')"
    "src_cb src' = cb" "src_delivers good rest src' (drop (unat n) bs)"
    using read_delivers [OF Cons.prems(1,2) n(1)] by blast
  obtain ds src2 where ds: "read_pieces ns src' = (ds, src2)" by (cases "read_pieces ns src'")
  have "ds = take (sum_list (map unat ns)) (drop (unat n) bs)" using Cons.IH [OF r(2,3) n(2)] ds by simp
  then show ?case using r(1) ds by (simp add: take_add)
qed simp

end

end
