(* ===== verification/Zip_Crc_Facts.thy ===== *)
theory Zip_Crc_Facts
  imports Zip_Layers
begin

text \<open>
  The checksum layer passes its lower source on and finds out when the checksum is wrong.
\<close>

text \<open>What zlib documents of \<open>crc32\<close>: the checksum of a text can be computed piece by piece.\<close>

definition crc_law :: "external \<Rightarrow> bool" where
  "crc_law ext \<longleftrightarrow> (\<forall>c. ext_crc32 ext c [] = c) \<and>
     (\<forall>c a b. ext_crc32 ext (ext_crc32 ext c a) b = ext_crc32 ext c (a @ b))"

lemma crc_update_eq: "crc_law ext \<Longrightarrow> crc_update ext c bs = ext_crc32 ext c bs"
proof (induction ext c bs rule: crc_update.induct)
  case (1 ext c bs)
  then show ?case
    by (subst crc_update.simps) (simp add: crc_law_def)
qed

text \<open>The layer has read \<open>k\<close> bytes of \<open>bs\<close>.\<close>

fun crc_tracks ::
  "('s \<Rightarrow> zip_source_cmd \<Rightarrow> reply \<times> 's) \<Rightarrow> ('s \<Rightarrow> bool) \<Rightarrow> ('s \<Rightarrow> bytes) \<Rightarrow> external \<Rightarrow> zip_stat \<Rightarrow> bool \<Rightarrow> bytes \<Rightarrow> nat \<Rightarrow>
   's zip_source \<times> crc_context \<Rightarrow> bool" where
  "crc_tracks cb good rest ext st v bs k (l, c) \<longleftrightarrow>
     src_cb l = cb \<and> stat_steady good st l \<and> k \<le> length bs \<and> length bs < 2 ^ 63 \<and>
     src_delivers good rest l (drop k bs) \<and> \<not> cr_crc_complete c \<and> cr_validate c = v \<and>
     cr_position c = of_nat k \<and> cr_crc_position c = of_nat k \<and> cr_crc c = ext_crc32 ext 0 (take k bs)"

definition crc_matches :: "external \<Rightarrow> zip_stat \<Rightarrow> bytes \<Rightarrow> bool" where
  "crc_matches ext st bs \<longleftrightarrow>
     (st_valid st AND ZIP_STAT_CRC \<noteq> 0 \<longrightarrow> st_crc st = ext_crc32 ext 0 bs) \<and>
     (st_valid st AND ZIP_STAT_SIZE \<noteq> 0 \<longrightarrow> st_size st = of_nat (length bs))"

definition crc_error_code :: "external \<Rightarrow> zip_stat \<Rightarrow> bytes \<Rightarrow> int" where
  "crc_error_code ext st bs =
     (if st_valid st AND ZIP_STAT_CRC \<noteq> 0 \<and> st_crc st \<noteq> ext_crc32 ext 0 bs then ZIP_ER_CRC else ZIP_ER_INCONS)"

text \<open>The layer has seen the end.\<close>

definition crc_knows :: "external \<Rightarrow> bytes \<Rightarrow> crc_context \<Rightarrow> bool" where
  "crc_knows ext bs c \<longleftrightarrow> cr_crc_complete c \<and> cr_size c = of_nat (length bs) \<and> cr_crc c = ext_crc32 ext 0 bs"

context byte_source
begin

lemma crc_read_some:
  assumes "crc_tracks cb good rest ext st v bs k (l, c)" "crc_law ext" "n \<le> ZIP_INT64_MAX" "n \<noteq> 0" "k < length bs"
    and d: "d = take (unat n) (drop k bs)"
  obtains l' c' where
    "crc_read ext l c (ZIP_SOURCE_READ n) = ((int (length d), Read_data d), l', c')"
    "crc_tracks cb good rest ext st v bs (k + length d) (l', c')"
proof -
  have t: "src_cb l = cb" "stat_steady good st l" "k \<le> length bs" "length bs < 2 ^ 63"
    "src_delivers good rest l (drop k bs)" "\<not> cr_crc_complete c" "cr_validate c = v"
    "cr_position c = of_nat k" "cr_crc_position c = of_nat k" "cr_crc c = ext_crc32 ext 0 (take k bs)"
    using assms(1) by simp_all
  obtain l' where rd: "zip_source_read l n = (int (length d), d, l')" "src_cb l' = cb"
    "src_delivers good rest l' (drop (unat n) (drop k bs))" "l' = l\<lparr>src_ud := src_ud l', src_eof := src_eof l'\<rparr>"
    using read_delivers [OF t(1,5) assms(3)] d by blast
  have ne: "d \<noteq> []" using assms(4,5) d by (simp add: unat_eq_0)
  have good: "good (src_ud l')" using rd(3) by (simp add: src_delivers_def)
  let ?c = "c\<lparr>cr_crc := crc_update ext (cr_crc c) d, cr_crc_position := cr_crc_position c + of_nat (length d)\<rparr>"
  have take: "crc_take ext d c = ?c" using t(6,8,9) ne by (simp add: crc_take_def Let_def)
  have k': "drop (unat n) (drop k bs) = drop (k + length d) bs"
    by (simp add: d min_def add.commute)
  have "take k bs @ d = take (k + length d) bs"
    using t(3) by (simp add: d take_add min_def)
  then have crc: "crc_update ext (cr_crc c) d = ext_crc32 ext 0 (take (k + length d) bs)"
    using assms(2) t(10) by (simp add: crc_update_eq crc_law_def)
  have "crc_read ext l c (ZIP_SOURCE_READ n) =
      ((int (length d), Read_data d), l', ?c\<lparr>cr_position := cr_position ?c + word_of_int (int (length d))\<rparr>)"
    using rd(1) ne take by simp
  moreover have "k + length d \<le> length bs" using t(3) by (simp add: d)
  then have "crc_tracks cb good rest ext st v bs (k + length d)
      (l', ?c\<lparr>cr_position := cr_position ?c + word_of_int (int (length d))\<rparr>)"
    using rd(2,3) t crc stat_steadyD [OF t(2) rd(4) good] unfolding k' by simp
  ultimately show ?thesis by (rule that)
qed

lemma crc_read_end:
  assumes "crc_tracks cb good rest ext st v bs (length bs) (l, c)" "n \<le> ZIP_INT64_MAX"
  obtains l' c' where
    "crc_read ext l c (ZIP_SOURCE_READ n) =
       (if v \<and> \<not> crc_matches ext st bs then (-1, No_data) else (0, Read_data []), l', c')"
    "crc_knows ext bs c'" "src_cb l' = cb" "stat_steady good st l'" "src_delivers good rest l' []"
    "v \<and> \<not> crc_matches ext st bs \<Longrightarrow> zip_err (cr_error c') = crc_error_code ext st bs"
proof -
  have t: "src_cb l = cb" "stat_steady good st l" "length bs < 2 ^ 63"
    "src_delivers good rest l []" "\<not> cr_crc_complete c" "cr_validate c = v"
    "cr_position c = of_nat (length bs)" "cr_crc_position c = of_nat (length bs)" "cr_crc c = ext_crc32 ext 0 bs"
    using assms(1) by simp_all
  obtain l' where rd: "zip_source_read l n = (0, [], l')" "src_cb l' = cb"
    "src_delivers good rest l' []" "l' = l\<lparr>src_ud := src_ud l', src_eof := src_eof l'\<rparr>"
    using read_delivers [OF t(1,4) assms(2)] by auto
  have good: "good (src_ud l')" using rd(3) by (simp add: src_delivers_def)
  note st = stat_steadyD [OF t(2) rd(4) good]
  let ?c = "c\<lparr>cr_crc_complete := True, cr_size := of_nat (length bs)\<rparr>"
  let ?e = "?c\<lparr>cr_error := zip_error_set (cr_error c) (crc_error_code ext st bs) 0\<rparr>"
  have fin: "crc_finish l' c = (if v \<and> \<not> crc_matches ext st bs then (False, l', ?e) else (True, l', ?c))"
    using t(5-9) st by (simp add: crc_finish_def crc_matches_def crc_error_code_def Let_def)
  show ?thesis
  proof (cases "v \<and> \<not> crc_matches ext st bs")
    case True
    show ?thesis
      by (rule that [of l' ?e]) (use True fin rd t(9) st in \<open>simp_all add: crc_knows_def zip_error_set_def\<close>)
  next
    case False
    then have "crc_finish l' c = (True, l', ?c)" unfolding fin by (simp only: if_False)
    then show ?thesis
      by (intro that [of l' ?c]) (use False rd t(9) st in \<open>auto simp: crc_knows_def\<close>)
  qed
qed

text \<open>The read loop of a checksum source: it reads on while there is something, and one empty read ends it.\<close>

lemma crc_call:
  assumes "src_cb src = layer_cb (crc_read ext)" "src_can src (ZIP_SOURCE_READ 0)" "src_can src ZIP_SOURCE_ERROR"
    and "crc_read ext (fst (src_ud src)) (snd (src_ud src)) (ZIP_SOURCE_READ n) = ((r, out), l', c')"
  shows "zip_source_call src (ZIP_SOURCE_READ n) =
    ((r, out), if r < 0 then src_set_error (src\<lparr>src_ud := (l', c')\<rparr>) (zip_err (cr_error c')) (sys_err (cr_error c'))
               else src\<lparr>src_ud := (l', c')\<rparr>)"
  using assms
  by (cases "src_ud src")
    (simp add: zip_source_call_def src_invoke_def src_fetch_error_def error_reply_def src_can_def ZIP_SOURCE_MAKE_COMMAND_BITMASK_def)

lemma crc_loop:
  assumes cb: "src_cb src = layer_cb (crc_read ext)" "src_can src (ZIP_SOURCE_READ 0)" "src_can src ZIP_SOURCE_ERROR"
    and law: "crc_law ext" and t: "crc_tracks cb good rest ext st v bs k (src_ud src)" and len: "len < 2 ^ 63" "len \<noteq> 0"
    and m: "m = length bs - k"
  shows "len \<le> m \<Longrightarrow> \<exists>ud'. zip_source_read_loop src [] 0 len = (int len, take len (drop k bs), src\<lparr>src_ud := ud'\<rparr>) \<and>
      crc_tracks cb good rest ext st v bs (k + len) ud'"
    and "m < len \<Longrightarrow> \<exists>l' c'. zip_source_read_loop src [] 0 len =
      (if v \<and> \<not> crc_matches ext st bs
       then (if m = 0 then -1 else int m, drop k bs,
             (src_set_error (src\<lparr>src_ud := (l', c')\<rparr>) (crc_error_code ext st bs) (sys_err (cr_error c')))\<lparr>src_had_read_error := True\<rparr>)
       else (int m, drop k bs, src\<lparr>src_ud := (l', c'), src_eof := True\<rparr>)) \<and>
      crc_knows ext bs c' \<and> stat_steady good st l' \<and> src_delivers good rest l' []"
proof -
  have n63: "(of_nat j :: u64) \<le> ZIP_INT64_MAX" "unat (of_nat j :: u64) = j" if "j < 2 ^ 63" for j
    using that by (auto simp: word_le_nat_alt unat_of_nat)
  obtain l c where ud: "src_ud src = (l, c)" by (cases "src_ud src")
  have kb: "k \<le> length bs" using t ud by simp
  have nz: "(of_nat len :: u64) \<noteq> 0" using n63(2) [OF len(1)] len(2) by (metis unat_0)
  have some: "\<exists>ud'. zip_source_call src (ZIP_SOURCE_READ (of_nat len)) =
        ((int (length d), Read_data d), src\<lparr>src_ud := ud'\<rparr>) \<and>
      crc_tracks cb good rest ext st v bs (k + length d) ud'"
    if k: "k < length bs" and d: "d = take len (drop k bs)" for d
  proof -
    have d': "d = take (unat (of_nat len :: u64)) (drop k bs)" using d n63(2) [OF len(1)] by simp
    obtain l' c' where *: "crc_read ext l c (ZIP_SOURCE_READ (of_nat len)) = ((int (length d), Read_data d), l', c')"
      "crc_tracks cb good rest ext st v bs (k + length d) (l', c')"
      using crc_read_some [OF t [unfolded ud] law n63(1) [OF len(1)] nz k d'] by blast
    show ?thesis using crc_call [OF cb, of _ _ _ l' c'] *(1,2) ud by (intro exI [of _ "(l', c')"]) simp
  qed
  {
    assume le: "len \<le> m"
    then have k: "k < length bs" using len(2) m by simp
    let ?d = "take len (drop k bs)"
    have ld: "length ?d = len" using le m by simp
    obtain ud' where *: "zip_source_call src (ZIP_SOURCE_READ (of_nat len)) =
          ((int (length ?d), Read_data ?d), src\<lparr>src_ud := ud'\<rparr>)" "crc_tracks cb good rest ext st v bs (k + length ?d) ud'"
      using some [OF k refl] by blast
    have "zip_source_read_loop src [] 0 len = (int len, ?d, src\<lparr>src_ud := ud'\<rparr>)"
      using * len(2) ld by (subst zip_source_read_loop.simps) (simp add: zip_source_read_loop.simps [of _ _ len len])
    then show "\<exists>ud'. zip_source_read_loop src [] 0 len = (int len, take len (drop k bs), src\<lparr>src_ud := ud'\<rparr>) \<and>
        crc_tracks cb good rest ext st v bs (k + len) ud'" using *(2) unfolding ld by blast
  }
  have fin: "\<exists>l' c'. zip_source_read_loop s acc br len =
      (if v \<and> \<not> crc_matches ext st bs
       then (if br = 0 then -1 else int br, acc,
             (src_set_error (s\<lparr>src_ud := (l', c')\<rparr>) (crc_error_code ext st bs) (sys_err (cr_error c')))\<lparr>src_had_read_error := True\<rparr>)
       else (int br, acc, s\<lparr>src_ud := (l', c'), src_eof := True\<rparr>)) \<and>
      crc_knows ext bs c' \<and> stat_steady good st l' \<and> src_delivers good rest l' []"
    if s: "src_cb s = layer_cb (crc_read ext)" "src_can s (ZIP_SOURCE_READ 0)" "src_can s ZIP_SOURCE_ERROR"
      and ts: "crc_tracks cb good rest ext st v bs (length bs) (src_ud s)" and br: "br < len" for s acc br
  proof -
    obtain l1 c1 where ud1: "src_ud s = (l1, c1)" by (cases "src_ud s")
    have j: "len - br < 2 ^ 63" using len(1) by simp
    obtain l' c' where *: "crc_read ext l1 c1 (ZIP_SOURCE_READ (of_nat (len - br))) =
         (if v \<and> \<not> crc_matches ext st bs then (-1, No_data) else (0, Read_data []), l', c')"
      "crc_knows ext bs c'" "stat_steady good st l'" "src_delivers good rest l' []"
      "v \<and> \<not> crc_matches ext st bs \<Longrightarrow> zip_err (cr_error c') = crc_error_code ext st bs"
      using crc_read_end [OF ts [unfolded ud1] n63(1) [OF j]] by metis
    show ?thesis
    proof (cases "v \<and> \<not> crc_matches ext st bs")
      case True
      then show ?thesis
        using crc_call [OF s, of _ "-1" No_data l' c'] * ud1 br
        by (intro exI [of _ l'] exI [of _ c'], subst zip_source_read_loop.simps) simp
    next
      case False
      then have "crc_read ext l1 c1 (ZIP_SOURCE_READ (of_nat (len - br))) = ((0, Read_data []), l', c')"
        using *(1) by (simp only: if_False)
      then show ?thesis
        using crc_call [OF s, of _ 0 "Read_data []" l' c'] *(2-4) ud1 br False
        by (intro exI [of _ l'] exI [of _ c'], subst zip_source_read_loop.simps) auto
    qed
  qed
  assume gt: "m < len"
  show "\<exists>l' c'. zip_source_read_loop src [] 0 len =
      (if v \<and> \<not> crc_matches ext st bs
       then (if m = 0 then -1 else int m, drop k bs,
             (src_set_error (src\<lparr>src_ud := (l', c')\<rparr>) (crc_error_code ext st bs) (sys_err (cr_error c')))\<lparr>src_had_read_error := True\<rparr>)
       else (int m, drop k bs, src\<lparr>src_ud := (l', c'), src_eof := True\<rparr>)) \<and>
      crc_knows ext bs c' \<and> stat_steady good st l' \<and> src_delivers good rest l' []"
  proof (cases "k = length bs")
    case True
    then have m0: "m = 0" "drop k bs = []" using m by simp_all
    show ?thesis unfolding m0
      by (rule fin [OF cb]) (use t True len(2) in \<open>simp_all del: crc_tracks.simps\<close>)
  next
    case False
    then have k: "k < length bs" using kb by simp
    have d: "take len (drop k bs) = drop k bs" "length (drop k bs) = m" using gt m by simp_all
    obtain ud' where *: "zip_source_call src (ZIP_SOURCE_READ (of_nat len)) =
          ((int m, Read_data (drop k bs)), src\<lparr>src_ud := ud'\<rparr>)" "crc_tracks cb good rest ext st v bs (length bs) ud'"
      using some [OF k refl] d k m by auto
    have m0: "m \<noteq> 0" using k m by simp
    have len_d: "take m (drop k bs) = drop k bs" using d(2) by simp
    have eq: "zip_source_read_loop src [] 0 len = zip_source_read_loop (src\<lparr>src_ud := ud'\<rparr>) (drop k bs) m len"
      using *(1) len(2) m0 len_d by (subst zip_source_read_loop.simps) simp
    have upd: "src\<lparr>src_ud := ud', src_ud := x\<rparr> = src\<lparr>src_ud := x\<rparr>" for x by simp
    show ?thesis unfolding eq
      by (rule fin [of "src\<lparr>src_ud := ud'\<rparr>" m "drop k bs", unfolded upd]) (use cb *(2) gt in \<open>simp_all add: src_can_def del: crc_tracks.simps\<close>)
  qed
qed

end

definition crc_state ::
  "('s \<Rightarrow> zip_source_cmd \<Rightarrow> reply \<times> 's) \<Rightarrow> ('s \<Rightarrow> bool) \<Rightarrow> ('s \<Rightarrow> bytes) \<Rightarrow> external \<Rightarrow> zip_stat \<Rightarrow> bool \<Rightarrow> bytes \<Rightarrow> nat \<Rightarrow>
   ('s zip_source \<times> crc_context) zip_source \<Rightarrow> bool" where
  "crc_state cb good rest ext st v bs k src \<longleftrightarrow>
     reading src \<and> src_src src = Some layer_ops \<and> src_cb src = layer_cb (crc_read ext) \<and>
     (if k \<le> length bs
      then \<not> src_had_read_error src \<and> \<not> src_eof src \<and> crc_tracks cb good rest ext st v bs k (src_ud src)
      else if v \<and> \<not> crc_matches ext st bs
      then src_had_read_error src \<and> zip_err (src_error src) = crc_error_code ext st bs
      else \<not> src_had_read_error src \<and> src_eof src \<and> crc_knows ext bs (snd (src_ud src)) \<and>
        stat_steady good st (fst (src_ud src)) \<and> src_delivers good rest (fst (src_ud src)) [])"

context byte_source
begin

lemma crc_state_read:
  assumes st: "crc_state cb good rest ext st v bs k src" and law: "crc_law ext" and n: "n \<le> ZIP_INT64_MAX"
  shows "\<exists>r src'. zip_source_read src n = (r, take (unat n) (drop k bs), src') \<and>
    crc_state cb good rest ext st v bs (if k \<le> length bs then k + unat n else k) src'"
proof (cases "k \<le> length bs \<and> n \<noteq> 0")
  case False
  then show ?thesis using st n by (auto simp: crc_state_def reading_read split: if_splits)
next
  case True
  let ?n = "unat n"
  have s: "reading src" "src_src src = Some layer_ops" "src_cb src = layer_cb (crc_read ext)" "\<not> src_had_read_error src"
    "\<not> src_eof src" and t: "crc_tracks cb good rest ext st v bs k (src_ud src)"
    using st True by (simp_all add: crc_state_def)
  have can: "src_can src (ZIP_SOURCE_READ 0)" "src_can src ZIP_SOURCE_ERROR"
    using readable_can s(1) unfolding reading_def by blast+
  have len: "?n < 2 ^ 63" "?n \<noteq> 0" using n True by (auto simp: word_le_nat_alt unat_eq_0)
  have rd: "zip_source_read src n = zip_source_read_loop src [] 0 ?n" using reading_read [OF s(1) n] s True by simp
  note loop = crc_loop [OF s(3) can law t len refl]
  show ?thesis
  proof (cases "?n \<le> length bs - k")
    case le: True
    obtain ud' where *: "zip_source_read_loop src [] 0 ?n = (int ?n, take ?n (drop k bs), src\<lparr>src_ud := ud'\<rparr>)"
      "crc_tracks cb good rest ext st v bs (k + ?n) ud'"
      using loop(1) [OF le] by blast
    have "k + ?n \<le> length bs" using le True by linarith
    then have "crc_state cb good rest ext st v bs (k + ?n) (src\<lparr>src_ud := ud'\<rparr>)"
      using s *(2) by (simp add: crc_state_def reading_def ZIP_SOURCE_IS_OPEN_READING_def del: crc_tracks.simps)
    then show ?thesis using * rd True by (simp del: crc_tracks.simps)
  next
    case False
    then have lt: "length bs - k < ?n" by simp
    obtain l' c' where *: "zip_source_read_loop src [] 0 ?n =
      (if v \<and> \<not> crc_matches ext st bs
       then (if length bs - k = 0 then -1 else int (length bs - k), drop k bs,
             (src_set_error (src\<lparr>src_ud := (l', c')\<rparr>) (crc_error_code ext st bs) (sys_err (cr_error c')))\<lparr>src_had_read_error := True\<rparr>)
       else (int (length bs - k), drop k bs, src\<lparr>src_ud := (l', c'), src_eof := True\<rparr>))"
      "crc_knows ext bs c'" "stat_steady good st l'" "src_delivers good rest l' []"
      using loop(2) [OF lt] by blast
    have e: "take ?n (drop k bs) = drop k bs" "\<not> k + ?n \<le> length bs" using lt True by simp_all
    show ?thesis
    proof (cases "v \<and> \<not> crc_matches ext st bs")
      case bad: True
      then show ?thesis using * s rd e True
        by (simp add: crc_state_def reading_def ZIP_SOURCE_IS_OPEN_READING_def src_set_error_def zip_error_set_def)
    next
      case ok: False
      then have "zip_source_read_loop src [] 0 ?n =
          (int (length bs - k), drop k bs, src\<lparr>src_ud := (l', c'), src_eof := True\<rparr>)"
        using *(1) by (simp only: if_False)
      then show ?thesis using *(2-4) s rd e True ok
        by (auto simp: crc_state_def reading_def ZIP_SOURCE_IS_OPEN_READING_def)
    qed
  qed
qed

lemma crc_state_pieces:
  assumes "crc_law ext" "pieces_ok ns"
  shows "crc_state cb good rest ext st v bs k src \<Longrightarrow>
    fst (read_pieces ns src) = take (sum_list (map unat ns)) (drop k bs) \<and>
    (\<exists>j. (if k + sum_list (map unat ns) \<le> length bs then j = k + sum_list (map unat ns) else length bs < j) \<and>
      crc_state cb good rest ext st v bs j (snd (read_pieces ns src)))"
  using assms(2)
proof (induction ns arbitrary: k src)
  case Nil
  then show ?case by (auto intro: exI [of _ k])
next
  case (Cons n ns)
  have n: "n \<le> ZIP_INT64_MAX" and ns: "pieces_ok ns" using Cons.prems(2) by (simp_all add: pieces_ok_def)
  let ?k = "if k \<le> length bs then k + unat n else k"
  obtain r src' where rd: "zip_source_read src n = (r, take (unat n) (drop k bs), src')"
    "crc_state cb good rest ext st v bs ?k src'"
    using crc_state_read [OF Cons.prems(1) assms(1) n] by blast
  note ih = Cons.IH [OF rd(2) ns]
  obtain ds src2 where ps: "read_pieces ns src' = (ds, src2)" by (cases "read_pieces ns src'")
  define K where "K = ?k"
  have join: "take (unat n) (drop k bs) @ take (sum_list (map unat ns)) (drop K bs) =
      take (sum_list (map unat (n # ns))) (drop k bs)"
    by (simp add: take_add add.commute K_def)
  have j: "(if k + sum_list (map unat (n # ns)) \<le> length bs then j = k + sum_list (map unat (n # ns)) else length bs < j)
      \<longleftrightarrow> (if K + sum_list (map unat ns) \<le> length bs then j = K + sum_list (map unat ns) else length bs < j)" for j
    by (auto simp: add.assoc K_def)
  have fst: "fst (read_pieces (n # ns) src) = take (sum_list (map unat (n # ns))) (drop k bs)"
    and snd: "snd (read_pieces (n # ns) src) = src2"
    using rd(1) ih ps unfolding K_def [symmetric] join [symmetric] by simp_all
  show ?case unfolding fst snd j using ih ps unfolding K_def [symmetric] by simp
qed

text \<open>A new checksum source, opened.\<close>

lemma crc_opened:
  assumes new: "zip_source_crc mem ext err (Some low) v = (Some src, err')"
    and low: "zip_source_open (zip_source_keep low) = (0, low1)" "src_cb low1 = cb" "src_delivers good rest low1 bs"
      "stat_steady good st low1" "src_supports low AND 0x3f = 0x3f" "length bs < 2 ^ 63"
    and law: "crc_law ext"
  obtains src1 where "zip_source_open src = (0, src1)" "crc_state cb good rest ext st v bs 0 src1"
proof -
  have bm: "zip_source_make_command_bitmap [ZIP_SOURCE_BEGIN_WRITE, ZIP_SOURCE_COMMIT_WRITE, ZIP_SOURCE_ROLLBACK_WRITE,
      ZIP_SOURCE_SEEK_WRITE 0 SEEK_SET, ZIP_SOURCE_TELL_WRITE, ZIP_SOURCE_REMOVE, ZIP_SOURCE_GET_COMPRESSION_FLAGS] = 0x1b700"
    by (simp add: zip_source_make_command_bitmap_def ZIP_SOURCE_MAKE_COMMAND_BITMASK_def)
  obtain r e where sup: "crc_read ext (zip_source_keep low) (crc_context_new v) ZIP_SOURCE_SUPPORTS =
      ((r, No_data), zip_source_keep low, (crc_context_new v)\<lparr>cr_error := e\<rparr>)"
    and r: "r < 0 \<or> r = sint (src_supports low AND NOT 0x1b700)"
  proof (cases "sint (src_supports low) < 0")
    case True
    show ?thesis
      by (rule that [of "-1" "zip_error_set_from_source (cr_error (crc_context_new v)) (zip_source_keep low)"])
        (use True in \<open>simp_all add: zip_source_supports_def zip_source_keep_def Let_def\<close>)
  next
    case False
    show ?thesis
      by (rule that [of "sint (src_supports low AND NOT 0x1b700)" "cr_error (crc_context_new v)"])
        (use False in \<open>simp_all add: zip_source_supports_def zip_source_keep_def Let_def bm\<close>)
  qed
  have "zip_source_layered_create mem low (crc_read ext) (crc_context_new v) err = (Some src, err')"
    using new by (simp add: zip_source_crc_def split: if_splits)
  note src = layered_created [OF this sup]
  have "(src_supports low AND NOT 0x1b700) AND 0x3f = 0x3f"
    using low(5) by (simp add: and.assoc and.left_commute and.commute)
  then have ready: "src_supports src AND 0x3f = 0x3f" using src(3) r by auto
  let ?c = "(crc_context_new v)\<lparr>cr_error := e\<rparr>"
  have "zip_source_open src = (0, src_opened (src\<lparr>src_ud := (low1, ?c\<lparr>cr_position := 0\<rparr>)\<rparr>))"
    using layered_open [OF src(1,2,4-6) _ low(1), of ?c] readable_can [OF ready] src(7) by simp
  moreover have "crc_state cb good rest ext st v bs 0 (src_opened (src\<lparr>src_ud := (low1, ?c\<lparr>cr_position := 0\<rparr>)\<rparr>))"
    using src ready low law
    by (simp add: crc_state_def reading_def src_opened_def ZIP_SOURCE_IS_OPEN_READING_def crc_context_new_def crc_law_def)
  ultimately show ?thesis by (rule that)
qed

end

lemma or_keeps: "y AND z = z \<Longrightarrow> (x OR y) AND z = (z :: u64)"
  by (rule bit_word_eqI) (simp add: bit_and_iff bit_or_iff, metis bit_and_iff)

lemma stat_init_twice: "fst (zip_source_stat l (Some s)) = 0 \<Longrightarrow> zip_source_stat l (Some (zip_stat_init s)) = zip_source_stat l (Some s)"
  by (cases "src_source_closed l") (simp_all add: zip_source_stat_def zip_stat_init_def)

lemma crc_stat_known:
  assumes "reading src" "src_src src = Some layer_ops" "src_cb src = layer_cb (crc_read ext)"
    and "stat_lower (fst (src_ud src)) = (0, st, fst (src_ud src))" "crc_knows ext bs (snd (src_ud src))"
  shows "\<exists>st'. stat_lower src = (0, st', src) \<and> st_crc st' = ext_crc32 ext 0 bs \<and> st_size st' = of_nat (length bs) \<and>
    st_valid st' AND (ZIP_STAT_CRC OR ZIP_STAT_SIZE) = ZIP_STAT_CRC OR ZIP_STAT_SIZE"
proof -
  obtain l c where ud: "src_ud src = (l, c)" by (cases "src_ud src")
  have "src_supports src AND 0x3f = 0x3f" using assms(1) by (simp add: reading_def)
  note can = readable_can(4) [OF this]
  obtain st0 where low: "zip_source_stat l (Some stat_blank) = (0, st0, l)" "st = the st0"
    using assms(4) ud by (auto simp: stat_lower_def split: prod.splits)
  have same: "src\<lparr>src_ud := (l, c)\<rparr> = src" using ud by (cases src) simp
  have low': "zip_source_stat l (Some (zip_stat_init stat_blank)) = (0, st0, l)" using low(1) stat_init_twice [of l stat_blank] by simp
  have "zip_source_stat src (Some stat_blank) = (0, Some (crc_stat c st), src\<lparr>src_ud := (l, c)\<rparr>)"
    using assms(1-3) low(2) low' ud can src_can_def [of "src\<lparr>src_ud := (l, c)\<rparr>"] src_can_def [of src]
    by (simp add: zip_source_stat_def [of src] reading_def layer_ops_def Let_def zip_source_call_def src_invoke_def)
  then have "stat_lower src = (0, crc_stat c st, src)" unfolding same by (simp add: stat_lower_def)
  moreover have "st_crc (crc_stat c st) = ext_crc32 ext 0 bs" "st_size (crc_stat c st) = of_nat (length bs)"
    using assms(5) ud by (simp_all add: crc_stat_def crc_knows_def)
  moreover have "st_valid (crc_stat c st) AND 0x24 = 0x24"
    using assms(5) ud or_keeps [of 236 36] by (simp add: crc_stat_def crc_knows_def)
  ultimately show ?thesis by simp
qed

section \<open>What checksum sources promise\<close>

text \<open>C38. A checksum source passes its lower source on, whatever the pieces it is read in, and at the end knows the size
  and the checksum; if it validates and the status of the lower source disagrees, the read after the last byte
  fails with the error for a wrong checksum or size.\<close>

theorem crc_source_checks:
  assumes "byte_source cb good rest" "zip_source_crc mem ext err (Some low) v = (Some src, err')"
    and "zip_source_open (zip_source_keep low) = (0, low1)" "src_cb low1 = cb" "src_delivers good rest low1 bs"
    and "stat_steady good st low1" "src_supports low AND 0x3f = 0x3f" "length bs < 2 ^ 63"
    and "crc_law ext" "pieces_ok ns" "length bs < sum_list (map unat ns)"
  shows "\<exists>src1 src2. zip_source_open src = (0, src1) \<and> read_pieces ns src1 = (bs, src2) \<and>
    (if v \<and> \<not> crc_matches ext st bs
     then fst (zip_source_read src2 1) = -1 \<and> zip_err (src_error src2) = crc_error_code ext st bs
     else fst (zip_source_read src2 1) = 0 \<and>
       (\<exists>st'. stat_lower src2 = (0, st', src2) \<and> st_crc st' = ext_crc32 ext 0 bs \<and> st_size st' = of_nat (length bs) \<and>
          st_valid st' AND (ZIP_STAT_CRC OR ZIP_STAT_SIZE) = ZIP_STAT_CRC OR ZIP_STAT_SIZE))"
proof -
  obtain src1 where op: "zip_source_open src = (0, src1)" "crc_state cb good rest ext st v bs 0 src1"
    using byte_source.crc_opened [OF assms(1-9)] by blast
  obtain d src2 where ps: "read_pieces ns src1 = (d, src2)" by (cases "read_pieces ns src1")
  obtain j where j: "d = bs" "length bs < j" "crc_state cb good rest ext st v bs j src2"
    using byte_source.crc_state_pieces [OF assms(1,9,10) op(2)] ps assms(11) by auto
  have rd: "reading src2" using j(3) by (simp add: crc_state_def)
  have one: "(1 :: u64) \<le> ZIP_INT64_MAX" by simp
  show ?thesis
  proof (cases "v \<and> \<not> crc_matches ext st bs")
    case True
    then have "src_had_read_error src2" "zip_err (src_error src2) = crc_error_code ext st bs"
      using j(2,3) by (simp_all add: crc_state_def)
    then show ?thesis using op(1) ps j(1) True reading_read [OF rd one] by simp
  next
    case False
    then have e: "src_src src2 = Some layer_ops" "src_cb src2 = layer_cb (crc_read ext)" "\<not> src_had_read_error src2" "src_eof src2"
      "crc_knows ext bs (snd (src_ud src2))" "stat_steady good st (fst (src_ud src2))" "src_delivers good rest (fst (src_ud src2)) []"
      using j(2,3) by (simp_all add: crc_state_def)
    have "stat_lower (fst (src_ud src2)) = (0, st, fst (src_ud src2))"
      using stat_steadyD [OF e(6)] e(7) by (simp add: src_delivers_def)
    note known = crc_stat_known [OF rd e(1,2) this e(5)]
    show ?thesis using op(1) ps j(1) False reading_read [OF rd one] e(3,4) known by simp
  qed
qed

lemma fixed_crc_law: "crc_law fixed_external"
  by (simp add: crc_law_def fixed_external_def add.assoc)

theorem crc_source_checks_witness:
  "\<exists>src err' src1 src2. zip_source_crc malloc_ok fixed_external zip_error_init (Some three_source) True = (Some src, err') \<and>
     zip_source_open src = (0, src1) \<and> read_pieces [2, 2] src1 = ([1, 2, 3], src2) \<and> fst (zip_source_read src2 1) = 0 \<and>
     st_crc (fst (snd (stat_lower src2))) = 3"
proof -
  let ?low = "zip_source_keep three_source"
  obtain low1 where low1: "zip_source_open ?low = (0, low1)" "src_delivers (rd_holds [1, 2, 3] 0) rd_rest low1 [1, 2, 3]"
    "buf_source malloc_ok 0 low1"
    using held_open [of malloc_ok 0 ?low "[1, 2, 3]" 0] three_source_facts by (auto simp: zip_source_keep_def buf_source_def)
  obtain src err' where new: "zip_source_crc malloc_ok fixed_external zip_error_init (Some three_source) True = (Some src, err')"
    by (auto simp: zip_source_crc_def zip_source_layered_create_def zip_source_new_def)
  have cb: "src_cb low1 = read_data_cb malloc_ok 0" "src_supports three_source AND 0x3f = 0x3f"
    using low1(3) three_source_facts(1) by (simp_all add: buf_source_def)
  have m: "crc_matches fixed_external (buffer_stat [1, 2, 3] 0) [1, 2, 3]"
    by (simp add: crc_matches_def buffer_stat_def)
  have c: "ext_crc32 fixed_external 0 [1, 2, 3] = 3" by (simp add: fixed_external_def)
  from crc_source_checks [OF held_buf.byte_source_axioms new low1(1) cb(1) low1(2) held_stat [OF low1(3)] cb(2) _ fixed_crc_law, of "[2, 2]"] m
  obtain src1 src2 st' where "zip_source_open src = (0, src1)" "read_pieces [2, 2] src1 = ([1, 2, 3], src2)"
    "fst (zip_source_read src2 1) = 0" "stat_lower src2 = (0, st', src2)" "st_crc st' = 3"
    by (auto simp: pieces_ok_def c)
  then show ?thesis using new by auto
qed

end
