(* ===== verification/Zip_Window_Facts.thy ===== *)
theory Zip_Window_Facts
  imports Zip_Layers
begin

text \<open>
  A window delivers a slice of its lower source, and for an entry of an archive that slice is the data after
  the local header of the entry. It seeks before it reads, so it does not matter where others leave the source.
\<close>

section \<open>The data of an entry\<close>

lemma sint_small:
  assumes "unat (x :: u64) < 2 ^ 63"
  shows "sint x = int (unat x)"
proof -
  have "int (unat x) < int (2 ^ 63)" using assms by (simp only: of_nat_less_iff)
  then have u: "uint x < 2 ^ 63" by simp
  have "- (2 ^ 63) \<le> uint x" by (rule order_trans [of _ 0]) simp_all
  then have "signed_take_bit 63 (uint x) = uint x" using u by (rule signed_take_bit_int_eq_self)
  then show ?thesis by (simp add: sint_uint)
qed

context seekable_source
begin

lemma dirent_size_reads:
  assumes "held cb good src" "rest (src_ud src) = drop k content" "mem A_buffer"
    and "k + 30 \<le> length content" "take 4 (drop (k + 26) content) = le16 n @ le16 m"
  obtains src' where "zip_dirent_size mem src ZIP_EF_LOCAL err = (30 + int (unat n) + int (unat m), src', err)"
    "held cb good src'" "src' = src\<lparr>src_ud := src_ud src', src_eof := src_eof src'\<rparr>"
proof -
  have p: "nat (int k + 26) = k + 26" by simp
  obtain s1 where s1: "zip_source_seek src 26 SEEK_CUR = (0, s1)" "held cb good s1" "src_delivers good rest s1 (drop (k + 26) content)"
    "s1 = src\<lparr>src_ud := src_ud s1, src_eof := False\<rparr>"
    using seek_delivers [OF assms(1,2), of SEEK_CUR "int k + 26" 26] assms(4) unfolding p by auto
  obtain s2 where s2: "zip_source_read s1 4 = (4, take 4 (drop (k + 26) content), s2)" "held cb good s2"
    "s2 = s1\<lparr>src_ud := src_ud s2, src_eof := src_eof s2\<rparr>"
    using held_read_delivers [OF s1(2,3), of 4] assms(4) by auto
  have same: "s2 = src\<lparr>src_ud := src_ud s2, src_eof := src_eof s2\<rparr>" by (subst s2(3), subst s1(4)) simp
  obtain b where b: "zip_buffer_new mem (Some []) 4 = Some b" "buf_from (b\<lparr>buf_data := le16 n @ le16 m\<rparr>) (le16 n @ le16 m)"
    using assms(3) by (auto simp: zip_buffer_new_def buf_from_def wf_buf_def buf_rest_def le16_def)
  have new: "zip_buffer_new_from_source mem s1 4 (Some []) err = (Some (b\<lparr>buf_data := le16 n @ le16 m\<rparr>), s2, err)"
    using b(1) s2(1) assms(5) by (simp add: zip_buffer_new_from_source_def zip_read_def)
  obtain b1 where b1: "zip_buffer_get_16 (b\<lparr>buf_data := le16 n @ le16 m\<rparr>) = (n, b1)" "buf_from b1 (le16 m @ [])"
    using get_from_ex(2) [OF b(2)] by auto
  obtain b2 where b2: "zip_buffer_get_16 b1 = (m, b2)" "buf_from b2 []" using get_from_ex(2) [OF b1(2)] by auto
  have "add_lengths 2 (uint (dirent_hsize True)) (b\<lparr>buf_data := le16 n @ le16 m\<rparr>) = (30 + int (unat n) + int (unat m), b2)"
    using b1(1) b2(1) by (subst numeral_2_eq_2) (simp add: dirent_hsize_def)
  then have "zip_dirent_size mem src ZIP_EF_LOCAL err = (30 + int (unat n) + int (unat m), s2, err)"
    using s1(1) new buf_eof_nil [OF b2(2)] by (simp add: zip_dirent_size_def Let_def)
  then show ?thesis using that s2(2) same by blast
qed

text \<open>The data starts after the 30 bytes of the header, the name and the extra fields.\<close>

lemma file_get_offset_reads:
  assumes "held cb good src" "mem A_buffer" "origs ! unat idx = Some orig" "off = unat (de_offset orig)"
    and "off + 30 \<le> length content" "length content < 2 ^ 62" "take 4 (drop (off + 26) content) = le16 n @ le16 m"
  obtains src' where "zip_file_get_offset mem origs src idx err = (of_nat (off + 30 + unat n + unat m), src', err)"
    "held cb good src'" "src' = src\<lparr>src_ud := src_ud src', src_eof := src_eof src'\<rparr>"
proof -
  have s: "sint (de_offset orig) = int off"
    using assms(4-6) sint_small [of "de_offset orig"] by simp
  obtain s1 where s1: "zip_source_seek src (int off) SEEK_SET = (0, s1)" "s1 = src\<lparr>src_ud := src_ud s1, src_eof := False\<rparr>"
    "held cb good s1" "src_delivers good rest s1 (drop off content)"
    using seek_set_delivers [OF assms(1), of "int off"] assms(5) by auto
  have r: "rest (src_ud s1) = drop off content" using s1(4) by (simp add: src_delivers_def)
  obtain s2 where s2: "zip_dirent_size mem s1 ZIP_EF_LOCAL err = (30 + int (unat n) + int (unat m), s2, err)"
    "held cb good s2" "s2 = s1\<lparr>src_ud := src_ud s2, src_eof := src_eof s2\<rparr>"
    using dirent_size_reads [where src = s1 and k = off and mem = mem, OF s1(3) r assms(2,5,7)] by blast
  have same: "s2 = src\<lparr>src_ud := src_ud s2, src_eof := src_eof s2\<rparr>" by (subst s2(3), subst s1(2)) simp
  define start where "start = off + 30 + unat n + unat m"
  define hs where "hs = 30 + int (unat n) + int (unat m)"
  have w: "de_offset orig + word_of_int hs = of_nat start"
    using assms(4) by (simp add: start_def hs_def ac_simps)
  have "start < 2 ^ 63" using assms(5,6) unat_bounds(2) [of n] unat_bounds(2) [of m] by (simp add: start_def)
  then have "(of_nat start :: u64) \<le> ZIP_INT64_MAX"
    by (simp only: word_le_nat_alt unat_of_nat) simp
  then have b: "\<not> (of_nat start :: u64) > ZIP_INT64_MAX" by simp
  have "\<not> hs < 0" unfolding hs_def by linarith
  then have "zip_file_get_offset mem origs src idx err = (of_nat start, s2, err)"
    using assms(3) s s1(1) s2(1) [folded hs_def] w b by (simp add: zip_file_get_offset_def Let_def)
  then show ?thesis using that s2(2) same unfolding start_def by blast
qed

end

section \<open>Reading through a window\<close>

fun window_fits ::
  "('s \<Rightarrow> zip_source_cmd \<Rightarrow> reply \<times> 's) \<Rightarrow> ('s \<Rightarrow> bool) \<Rightarrow> bytes \<Rightarrow> 's zip_source \<times> window \<Rightarrow> bool" where
  "window_fits cb good content (l, c) \<longleftrightarrow> held cb good l \<and> wi_needs_seek c \<and>
     unat (wi_offset c) \<le> unat (wi_end c) \<and> unat (wi_end c) \<le> length content \<and> length content < 2 ^ 62"

fun window_rest :: "bytes \<Rightarrow> 's zip_source \<times> window \<Rightarrow> bytes" where
  "window_rest content (l, c) = take (unat (wi_end c) - unat (wi_offset c)) (drop (unat (wi_offset c)) content)"

context seekable_source
begin

lemma window_get_reads:
  assumes fits: "window_fits cb good content (l, c)" and d: "d = take (unat n) (window_rest content (l, c))"
  obtains l' c' where "window_get l c n = ((int (length d), Read_data d), l', c')" "window_fits cb good content (l', c')"
    "window_rest content (l', c') = drop (unat n) (window_rest content (l, c))"
proof -
  have f: "held cb good l" "wi_needs_seek c" "unat (wi_offset c) \<le> unat (wi_end c)" "unat (wi_end c) \<le> length content"
    "length content < 2 ^ 62"
    using fits by simp_all
  let ?o = "unat (wi_offset c)" and ?e = "unat (wi_end c)"
  define len where "len = (if n > wi_end c - wi_offset c then wi_end c - wi_offset c else n)"
  have left: "unat (wi_end c - wi_offset c) = ?e - ?o" using f(3) by (simp add: unat_sub word_le_nat_alt)
  have len: "unat len = min (unat n) (?e - ?o)" using left by (auto simp: len_def word_less_nat_alt min_def)
  have d': "d = take (unat len) (drop ?o content)" unfolding d len by (simp add: min_def)
  have ld: "length d = unat len" unfolding d' using len f(3,4) by simp
  show ?thesis
  proof (cases "len = 0")
    case True
    then have "d = []" using d' by simp
    moreover have "window_get l c n = ((0, Read_data []), l, c)" using True by (simp add: window_get_def len_def [symmetric])
    moreover have "drop (unat n) (window_rest content (l, c)) = window_rest content (l, c)"
      using len True by (auto simp: min_def split: if_splits)
    ultimately show ?thesis using that [of l c] fits by simp
  next
    case False
    have small: "?o < 2 ^ 63" "unat len < 2 ^ 63" using f(3-5) len by simp_all
    have "?o \<le> length content" using f(3,4) by (rule order_trans)
    then have "int ?o \<le> int (length content)" by (simp only: of_nat_le_iff)
    then obtain s1 where s1: "zip_source_seek l (int ?o) SEEK_SET = (0, s1)" "held cb good s1" "src_delivers good rest s1 (drop ?o content)"
      using seek_set_delivers [OF f(1) of_nat_0_le_iff] unfolding nat_int by blast
    have "len \<le> ZIP_INT64_MAX" using small(2) by (simp add: word_le_nat_alt)
    then obtain s2 where s2: "zip_source_read s1 len = (int (length d), d, s2)" "held cb good s2"
      using held_read_delivers [OF s1(2,3)] unfolding d' by blast
    let ?c = "c\<lparr>wi_offset := wi_offset c + word_of_int (int (length d))\<rparr>"
    have off: "unat (wi_offset ?c) = ?o + unat len"
      using ld small by (simp add: unat_word_ariths)
    have ret: "int (length d) \<noteq> 0" using ld False by (simp only: of_nat_eq_0_iff unat_eq_0) simp
    have "zip_source_seek l (sint (wi_offset c)) SEEK_SET = (0, s1)" using s1(1) sint_small [OF small(1)] by simp
    then have "window_get l c n = ((int (length d), Read_data d), s2, ?c)"
      using False f(2) s2(1) ret by (simp add: window_get_def len_def [symmetric])
    moreover have "window_fits cb good content (s2, ?c)" using s2(2) f off len by simp
    moreover have "window_rest content (s2, ?c) = drop (unat n) (window_rest content (l, c))"
      using off len by (simp add: drop_take min_def add.commute)
    ultimately show ?thesis by (rule that)
  qed
qed

lemma window_byte_source: "byte_source (layer_cb (window_read mem)) (window_fits cb good content) (window_rest content)"
proof
  fix s :: "'a zip_source \<times> window" and n :: u64
  assume fits: "window_fits cb good content s"
  obtain l c where s: "s = (l, c)" by (cases s)
  let ?d = "take (unat n) (window_rest content (l, c))"
  obtain l' c' where w: "window_get l c n = ((int (length ?d), Read_data ?d), l', c')" "window_fits cb good content (l', c')"
    "window_rest content (l', c') = drop (unat n) (window_rest content (l, c))"
    using window_get_reads [OF fits [unfolded s] refl] by blast
  have "window_rest content s = ?d @ window_rest content (l', c')" unfolding w(3) s by (simp only: append_take_drop_id)
  moreover have "?d = [] \<longrightarrow> n = 0 \<or> window_rest content s = []" unfolding s by (simp only: take_eq_Nil unat_eq_0) blast
  moreover have "layer_cb (window_read mem) s (ZIP_SOURCE_READ n) = ((int (length ?d), Read_data ?d), (l', c'))"
    using w(1) s by simp
  ultimately show "\<exists>d s'. layer_cb (window_read mem) s (ZIP_SOURCE_READ n) = ((int (length d), Read_data d), s') \<and>
      window_fits cb good content s' \<and> window_rest content s = d @ window_rest content s' \<and> length d \<le> unat n \<and>
      (d = [] \<longrightarrow> n = 0 \<or> window_rest content s = [])"
    using w(2) by (intro exI [of _ ?d] exI [of _ "(l', c')"]) (simp del: window_fits.simps window_rest.simps)
qed

end

text \<open>Reading a layered source while others use its lower source: before each read it is left in some other
  state.\<close>

definition move_lower :: "'s \<Rightarrow> bool \<Rightarrow> ('s zip_source \<times> 'c) zip_source \<Rightarrow> ('s zip_source \<times> 'c) zip_source" where
  "move_lower u e src = src\<lparr>src_ud := ((fst (src_ud src))\<lparr>src_ud := u, src_eof := e\<rparr>, snd (src_ud src))\<rparr>"

fun read_shared :: "(u64 \<times> 's \<times> bool) list \<Rightarrow> ('s zip_source \<times> 'c) zip_source \<Rightarrow> bytes \<times> ('s zip_source \<times> 'c) zip_source" where
  "read_shared [] src = ([], src)"
| "read_shared ((n, u, e) # ps) src =
     (case zip_source_read (move_lower u e src) n of (_, d, src) \<Rightarrow> (case read_shared ps src of (ds, src) \<Rightarrow> (d @ ds, src)))"

lemma window_moved:
  assumes "src_delivers (window_fits cb good content) (window_rest content) src bs" "good u"
  shows "src_delivers (window_fits cb good content) (window_rest content) (move_lower u e src) bs"
  using assms
  by (cases "src_ud src") (simp add: src_delivers_def move_lower_def held_def ZIP_SOURCE_IS_OPEN_READING_def src_can_def)

context seekable_source
begin

lemma window_read_shared:
  assumes "\<forall>(n, u, e) \<in> set ps. n \<le> ZIP_INT64_MAX \<and> good u"
  shows "src_cb src = layer_cb (window_read mem) \<Longrightarrow>
    src_delivers (window_fits cb good content) (window_rest content) src bs \<Longrightarrow>
    fst (read_shared ps src) = take (sum_list (map (unat \<circ> fst) ps)) bs"
  using assms
proof (induction ps arbitrary: src bs)
  case (Cons p ps)
  obtain n u e where p: "p = (n, u, e)" by (cases p)
  have n: "n \<le> ZIP_INT64_MAX" "good u" and ps: "\<forall>(n, u, e) \<in> set ps. n \<le> ZIP_INT64_MAX \<and> good u"
    using Cons.prems(3) p by auto
  have "src_cb (move_lower u e src) = layer_cb (window_read mem)" using Cons.prems(1) by (simp add: move_lower_def)
  then obtain src' where r: "zip_source_read (move_lower u e src) n = (int (length (take (unat n) bs)), take (unat n) bs, src')"
    "src_cb src' = layer_cb (window_read mem)" "src_delivers (window_fits cb good content) (window_rest content) src' (drop (unat n) bs)"
    using byte_source.read_delivers [OF window_byte_source _ window_moved [OF Cons.prems(2) n(2)] n(1)] by blast
  obtain ds src2 where ds: "read_shared ps src' = (ds, src2)" by (cases "read_shared ps src'")
  have "ds = take (sum_list (map (unat \<circ> fst) ps)) (drop (unat n) bs)"
    using Cons.IH [OF r(2,3) ps] ds by (simp add: comp_def)
  then show ?case using r(1) ds p by (simp add: take_add comp_def)
qed simp

text \<open>A new window for an entry, opened.\<close>

lemma window_opened:
  assumes new: "zip_source_window_new mem (Some low) 0 len st flags (Some origs) idx err = (Some src, err')"
    and low: "zip_source_open (zip_source_keep low) = (0, low1)" "held cb good low1" "src_supports low AND 0x7f = 0x7f"
    and orig: "origs ! unat idx = Some orig" "off = unat (de_offset orig)" "take 4 (drop (off + 26) content) = le16 n @ le16 m"
    and start: "start = off + 30 + unat n + unat m" "start + unat len \<le> length content" "length content < 2 ^ 62"
    and mem: "mem A_buffer"
  obtains src1 where "zip_source_open src = (0, src1)" "src_cb src1 = layer_cb (window_read mem)"
    "src_delivers (window_fits cb good content) (window_rest content) src1 (take (unat len) (drop start content))"
proof -
  define sup where "sup = (src_supports low AND 0x40ff) OR 0x14080"
  have bm: "zip_source_make_command_bitmap [ZIP_SOURCE_GET_COMPRESSION_FLAGS, ZIP_SOURCE_SUPPORTS, ZIP_SOURCE_TELL] = 0x14080"
    by (simp add: zip_source_make_command_bitmap_def ZIP_SOURCE_MAKE_COMMAND_BITMASK_def)
  have "sup AND 0x7f = src_supports low AND 0x7f" by (simp add: sup_def bit.conj_disj_distrib2 and.assoc)
  then have sup: "sup AND 0x7f = 0x7f" using low(3) by simp
  obtain c where c: "zip_source_layered_create mem low (window_read mem) c err = (Some src, err')" "wi_supports c = sup"
    "wi_start c = 0" "wi_end c = len" "wi_source_archive c = Some origs" "wi_source_index c = idx" "wi_needs_seek c"
    using new seekable_bits(1) [OF sup]
    by (auto simp: zip_source_window_new_def Let_def bm zip_source_supports_def sup_def ZIP_SOURCE_MAKE_COMMAND_BITMASK_def split: if_splits)
  have q: "window_read mem (zip_source_keep low) c ZIP_SOURCE_SUPPORTS = ((sint sup, No_data), zip_source_keep low, c)"
    using c(2) by simp
  note src = layered_created [OF c(1) q]
  have ready: "src_supports src AND 0x3f = 0x3f" using src(3) seekable_bits(3) [OF sup] by (cases "sint sup < 0") simp_all
  have fit: "off + 30 \<le> length content" using start(1,2) by simp
  obtain low2 where low2: "zip_file_get_offset mem origs low1 idx (wi_error c) = (of_nat start, low2, wi_error c)" "held cb good low2"
    using file_get_offset_reads [where src = low1 and mem = mem and origs = origs and idx = idx and err = "wi_error c",
        OF low(2) mem orig(1,2) fit start(3) orig(3)] unfolding start(1) by blast
  have us: "unat (of_nat start :: u64) = start" using start(2,3) by (simp add: unat_of_nat)
  have ue: "unat (len + of_nat start) = start + unat len" using start(2,3) us by (subst unat_add_lem [THEN iffD1]) simp_all
  have nz: "(of_nat start :: u64) \<noteq> 0" using us start(1) by (metis add_eq_0_iff_both_eq_0 unat_0 zero_neq_numeral)
  have no: "\<not> len + of_nat start < len" using ue by (simp add: word_less_nat_alt)
  let ?c = "c\<lparr>wi_start := of_nat start, wi_end := len + of_nat start, wi_source_archive := None, wi_offset := of_nat start\<rparr>"
  have op: "window_read mem low1 c ZIP_SOURCE_OPEN = ((0, No_data), low2, ?c)"
    using low2(1) c nz no by (simp add: window_open_def window_locate_def Let_def)
  have "zip_source_open src = (0, src_opened (src\<lparr>src_ud := (low2, ?c)\<rparr>))"
    using layered_open [OF src(1,2,4-6) _ low(1) src(7) op] readable_can [OF ready] by simp
  moreover have "src_delivers (window_fits cb good content) (window_rest content) (src_opened (src\<lparr>src_ud := (low2, ?c)\<rparr>))
      (take (unat len) (drop start content))"
    using src ready low2(2) c(7) us ue start readable_bits(2) [OF ready]
    by (simp add: src_delivers_def src_opened_def ZIP_SOURCE_IS_OPEN_READING_def)
  ultimately show ?thesis using src(2) by (intro that) (simp_all add: src_opened_def)
qed

end

section \<open>What a window promises\<close>

text \<open>C39. The source for the data of an entry delivers the bytes after its local header, whatever pieces it is read in
  and whatever state others leave the source of the archive in between.\<close>

theorem window_entry_reads:
  assumes "seekable_source cb good rest content"
    and "zip_source_window_new mem (Some low) 0 len st flags (Some origs) idx err = (Some src, err')"
    and "zip_source_open (zip_source_keep low) = (0, low1)" "held cb good low1" "src_supports low AND 0x7f = 0x7f"
    and "origs ! unat idx = Some orig" "off = unat (de_offset orig)" "take 4 (drop (off + 26) content) = le16 n @ le16 m"
    and "start = off + 30 + unat n + unat m" "start + unat len \<le> length content" "length content < 2 ^ 62"
    and "mem A_buffer" "\<forall>(n, u, e) \<in> set ps. n \<le> ZIP_INT64_MAX \<and> good u"
  shows "\<exists>src1. zip_source_open src = (0, src1) \<and>
    fst (read_shared ps src1) = take (sum_list (map (unat \<circ> fst) ps)) (take (unat len) (drop start content))"
proof -
  obtain src1 where "zip_source_open src = (0, src1)" "src_cb src1 = layer_cb (window_read mem)"
    "src_delivers (window_fits cb good content) (window_rest content) src1 (take (unat len) (drop start content))"
    using seekable_source.window_opened [OF assms(1-12)] by blast
  then show ?thesis using seekable_source.window_read_shared [OF assms(1,13)] by blast
qed

text \<open>An archive source with one local header (of which only the two lengths matter here), a name of one byte and three
  bytes of data.\<close>

definition entry_bytes :: bytes where
  "entry_bytes = replicate 26 0 @ [1, 0, 0, 0, 97, 7, 8, 9]"

definition entry_source :: "read_data zip_source" where
  "entry_source = the (fst (zip_source_buffer_create malloc_ok 0 0 (Some entry_bytes) 34 False zip_error_init))"

theorem window_entry_reads_witness:
  "\<exists>src err' src1 u. zip_source_window_new malloc_ok (Some entry_source) 0 3 None 0 (Some [Some (zip_dirent_init)]) 0
       zip_error_init = (Some src, err') \<and>
     zip_source_open src = (0, src1) \<and> fst (read_shared [(2, u, False), (2, u, False)] src1) = [7, 8, 9]"
proof -
  obtain r e where r: "zip_source_buffer_create malloc_ok 0 0 (Some entry_bytes) 34 False zip_error_init = (r, e)"
    by (cases "zip_source_buffer_create malloc_ok 0 0 (Some entry_bytes) 34 False zip_error_init")
  have "case fst (zip_source_buffer_create malloc_ok 0 0 (Some entry_bytes) 34 False zip_error_init) of None \<Rightarrow> False | Some _ \<Rightarrow> True"
    by code_simp
  then have new: "zip_source_buffer_create malloc_ok 0 0 (Some entry_bytes) 34 False zip_error_init = (Some entry_source, e)"
    using r by (cases r) (auto simp: entry_source_def)
  have "length entry_bytes = unat (34 :: u64)" "entry_bytes \<noteq> []" by (simp_all add: entry_bytes_def)
  note c = buffer_created [OF new this]
  let ?low = "zip_source_keep entry_source"
  obtain low1 where low1: "zip_source_open ?low = (0, low1)" "src_delivers (rd_holds entry_bytes 0) rd_rest low1 entry_bytes"
    "buf_source malloc_ok 0 low1"
    using held_open [of malloc_ok 0 ?low entry_bytes 0] c by (auto simp: zip_source_keep_def buf_source_def)
  have held: "held (read_data_cb malloc_ok 0) (rd_holds entry_bytes 0) low1"
    using low1(2,3) by (simp add: held_def src_delivers_def buf_source_def)
  have sup: "src_supports entry_source AND 0x7f = 0x7f" using c(1) by (simp add: buf_source_def)
  obtain src err' where w: "zip_source_window_new malloc_ok (Some entry_source) 0 3 None 0 (Some [Some zip_dirent_init]) 0
      zip_error_init = (Some src, err')"
    by (auto simp: zip_source_window_new_def zip_source_layered_create_def zip_source_new_def Let_def)
  have lens: "take 4 (drop (0 + 26) entry_bytes) = le16 1 @ le16 0" by (simp add: entry_bytes_def le16_def)
  have d: "take 3 (drop 31 entry_bytes) = [7, 8, 9]" "length entry_bytes = 34" by (simp_all add: entry_bytes_def)
  obtain src1 where "zip_source_open src = (0, src1)"
    "fst (read_shared [(2, src_ud entry_source, False), (2, src_ud entry_source, False)] src1) = take 4 (take 3 (drop 31 entry_bytes))"
    using window_entry_reads [OF held_buf.seekable_source_axioms w low1(1) held sup _ _ lens, of zip_dirent_init 31
        "[(2, src_ud entry_source, False), (2, src_ud entry_source, False)]"] c(2) d(2)
    by (auto simp: zip_dirent_init_def)
  then show ?thesis using w unfolding d(1) by fastforce
qed

end
