(* ===== verification/Zip_Pkware_Facts.thy ===== *)
theory Zip_Pkware_Facts
  imports Zip_Layers
begin

text \<open>
  Traditional decryption undoes encryption. Encryption itself is not in the library; it is defined here from the
  format: the key stream depends on the plain text seen so far.
\<close>

section \<open>The cipher\<close>

fun encrypt :: "external \<Rightarrow> trad_pkware \<Rightarrow> bytes \<Rightarrow> bytes \<times> trad_pkware" where
  "encrypt ext ctx [] = ([], ctx)"
| "encrypt ext ctx (p # ps) =
     (case encrypt ext (update_keys ext ctx p) ps of (out, ctx') \<Rightarrow> ((p XOR key_byte ctx) # out, ctx'))"

lemma decrypt_encrypt: "decrypt ext ctx (fst (encrypt ext ctx ps)) False = (ps, snd (encrypt ext ctx ps))"
  by (induction ps arbitrary: ctx) (simp_all add: Let_def xor.assoc split_beta)

lemma encrypt_append:
  "encrypt ext ctx (as @ bs) =
     (case encrypt ext ctx as of (x, ctx1) \<Rightarrow> (case encrypt ext ctx1 bs of (y, ctx2) \<Rightarrow> (x @ y, ctx2)))"
  by (induction as arbitrary: ctx) (auto split: prod.splits)

lemma encrypt_length: "length (fst (encrypt ext ctx ps)) = length ps"
  by (induction ps arbitrary: ctx) (simp_all add: split_beta)

lemma decrypt_append:
  "decrypt ext ctx (as @ bs) u =
     (case decrypt ext ctx as u of (x, ctx1) \<Rightarrow> (case decrypt ext ctx1 bs u of (y, ctx2) \<Rightarrow> (x @ y, ctx2)))"
  by (induction as arbitrary: ctx) (auto simp: Let_def split: prod.splits)

lemma decrypt_length: "length (fst (decrypt ext ctx bs u)) = length bs"
  by (induction bs arbitrary: ctx) (simp_all add: Let_def split_beta)

text \<open>The error of the context is not part of the keys.\<close>

lemma update_keys_error [simp]: "pk_error (update_keys ext ctx b) = pk_error ctx"
  by (simp add: update_keys_def Let_def)

lemma decrypt_error: "pk_error (snd (decrypt ext ctx bs u)) = pk_error ctx"
  by (induction bs arbitrary: ctx) (simp_all add: Let_def split_beta)

section \<open>The layer\<close>

fun pkware_good :: "('s \<Rightarrow> zip_source_cmd \<Rightarrow> reply \<times> 's) \<Rightarrow> ('s \<Rightarrow> bool) \<Rightarrow> ('s \<Rightarrow> bytes) \<Rightarrow> 's zip_source \<times> trad_pkware \<Rightarrow> bool" where
  "pkware_good cb good rest (l, c) \<longleftrightarrow> src_cb l = cb \<and> src_delivers good rest l (rest (src_ud l))"

fun pkware_rest :: "external \<Rightarrow> ('s \<Rightarrow> bytes) \<Rightarrow> 's zip_source \<times> trad_pkware \<Rightarrow> bytes" where
  "pkware_rest ext rest (l, c) = fst (decrypt ext c (rest (src_ud l)) False)"

definition password_check :: "external \<Rightarrow> zip_stat \<Rightarrow> u8 \<Rightarrow> bool" where
  "password_check ext st b \<longleftrightarrow>
     (ucast b :: u32) = drop_bit 24 (st_crc st) \<or> (ucast b :: u16) = drop_bit 8 (fst (zip_u2d_time ext (st_mtime st)))"

context byte_source
begin

lemma pkware_byte_source: "byte_source (layer_cb (pkware_decrypt ext)) (pkware_good cb good rest) (pkware_rest ext rest)"
proof
  fix s :: "'s zip_source \<times> trad_pkware" and n :: u64
  assume g: "pkware_good cb good rest s" and n: "n \<le> ZIP_INT64_MAX"
  obtain l c where s: "s = (l, c)" by (cases s)
  let ?r = "rest (src_ud l)" and ?e = "take (unat n) (rest (src_ud l))"
  have l: "src_cb l = cb" "src_delivers good rest l ?r" using g s by simp_all
  obtain l' where rd: "zip_source_read l n = (int (length ?e), ?e, l')" "src_cb l' = cb" "src_delivers good rest l' (drop (unat n) ?r)"
    using read_delivers [OF l n] by blast
  have r': "rest (src_ud l') = drop (unat n) ?r" using rd(3) by (simp add: src_delivers_def)
  obtain d c' where d: "decrypt ext c ?e False = (d, c')" by (cases "decrypt ext c ?e False")
  have ld: "length d = length ?e" using decrypt_length [of ext c ?e False] d by simp
  have "decrypt ext c ?r False = (case decrypt ext c ?e False of (x, ctx1) \<Rightarrow>
      (case decrypt ext ctx1 (drop (unat n) ?r) False of (y, ctx2) \<Rightarrow> (x @ y, ctx2)))"
    using decrypt_append [of ext c ?e "drop (unat n) ?r" False] by (simp only: append_take_drop_id)
  then have rest: "pkware_rest ext rest s = d @ pkware_rest ext rest (l', c')"
    using d r' s by (simp split: prod.splits)
  have lr: "length (pkware_rest ext rest s) = length ?r" unfolding s by (simp add: decrypt_length)
  have "d = [] \<longrightarrow> n = 0 \<or> pkware_rest ext rest s = []"
    using ld lr by (auto simp: unat_eq_0 min_def split: if_splits)
  moreover have "layer_cb (pkware_decrypt ext) s (ZIP_SOURCE_READ n) = ((int (length d), Read_data d), (l', c'))"
    unfolding ld using rd(1) d s by simp
  moreover have "pkware_good cb good rest (l', c')" using rd(2,3) r' by simp
  moreover have "length d \<le> unat n" using ld by simp
  ultimately show "\<exists>d s'. layer_cb (pkware_decrypt ext) s (ZIP_SOURCE_READ n) = ((int (length d), Read_data d), s') \<and>
      pkware_good cb good rest s' \<and> pkware_rest ext rest s = d @ pkware_rest ext rest s' \<and> length d \<le> unat n \<and>
      (d = [] \<longrightarrow> n = 0 \<or> pkware_rest ext rest s = [])"
    using rest by blast
qed

lemma pkware_header:
  assumes "src_cb l = cb" "src_delivers good rest l (fst (encrypt ext c (header @ data)))" "stat_steady good st l" "length header = 12"
  obtains l' where "decrypt_header ext l c =
      (if password_check ext st (header ! 11) then (True, l', snd (encrypt ext c header))
       else (False, l', (snd (encrypt ext c header))\<lparr>pk_error := zip_error_set (pk_error c) ZIP_ER_WRONGPASSWD 0\<rparr>))"
    "src_cb l' = cb" "src_delivers good rest l' (fst (encrypt ext (snd (encrypt ext c header)) data))"
proof -
  obtain x c1 where x: "encrypt ext c header = (x, c1)" by (cases "encrypt ext c header")
  obtain y c2 where y: "encrypt ext c1 data = (y, c2)" by (cases "encrypt ext c1 data")
  have lx: "length x = 12" using encrypt_length [of ext c header] x assms(4) by simp
  have enc: "fst (encrypt ext c (header @ data)) = x @ y" using x y by (simp add: encrypt_append)
  obtain l' where rd: "zip_source_read l 12 = (12, x, l')" "src_cb l' = cb" "src_delivers good rest l' y"
    "l' = l\<lparr>src_ud := src_ud l', src_eof := src_eof l'\<rparr>"
    using read_delivers [OF assms(1,2), of 12] lx unfolding enc by auto
  have "good (src_ud l')" using rd(3) by (simp add: src_delivers_def)
  then have st: "stat_lower l' = (0, st, l')" using stat_steadyD [OF assms(3) rd(4)] by simp
  have dec: "decrypt ext c x False = (header, c1)" using decrypt_encrypt [of ext c header] x by simp
  have err: "pk_error c1 = pk_error c" using decrypt_error [of ext c x False] dec by simp
  show ?thesis
  proof (rule that [of l'])
    show "decrypt_header ext l c =
      (if password_check ext st (header ! 11) then (True, l', snd (encrypt ext c header))
       else (False, l', (snd (encrypt ext c header))\<lparr>pk_error := zip_error_set (pk_error c) ZIP_ER_WRONGPASSWD 0\<rparr>))"
      using rd(1) st dec x err by (auto simp: decrypt_header_def password_check_def split: prod.splits)
    show "src_cb l' = cb" "src_delivers good rest l' (fst (encrypt ext (snd (encrypt ext c header)) data))"
      using rd(2,3) x y by simp_all
  qed
qed

text \<open>A new decrypting source: opening it reads the header and checks the password.\<close>

lemma pkware_opened:
  assumes new: "zip_source_pkware mem ext err (Some low) ZIP_EM_TRAD_PKWARE False (Some password) = (Some src, err')"
    and low: "zip_source_open (zip_source_keep low) = (0, low1)" "src_cb low1 = cb" "stat_steady good st low1"
      "src_delivers good rest low1 (fst (encrypt ext (pkware_context_new ext password) (header @ data)))"
    and len: "length header = 12"
  shows "password_check ext st (header ! 11) \<Longrightarrow> \<exists>src1. zip_source_open src = (0, src1) \<and>
      src_cb src1 = layer_cb (pkware_decrypt ext) \<and> src_delivers (pkware_good cb good rest) (pkware_rest ext rest) src1 data"
    and "\<not> password_check ext st (header ! 11) \<Longrightarrow> fst (zip_source_open src) = -1 \<and>
      zip_err (src_error (snd (zip_source_open src))) = ZIP_ER_WRONGPASSWD"
proof -
  let ?c = "pkware_context_new ext password"
  have bm: "zip_source_make_command_bitmap [ZIP_SOURCE_OPEN, ZIP_SOURCE_READ 0, ZIP_SOURCE_CLOSE, ZIP_SOURCE_STAT stat_blank,
      ZIP_SOURCE_ERROR, ZIP_SOURCE_FREE] = 0x3f"
    by (simp add: zip_source_make_command_bitmap_def ZIP_SOURCE_MAKE_COMMAND_BITMASK_def)
  have c: "zip_source_layered_create mem low (pkware_decrypt ext) ?c err = (Some src, err')"
    using new by (simp add: zip_source_pkware_def split: if_splits)
  have "pkware_decrypt ext (zip_source_keep low) ?c ZIP_SOURCE_SUPPORTS = ((63, No_data), zip_source_keep low, ?c)"
    by (simp add: bm)
  note src = layered_created [OF c this]
  have ready: "src_supports src AND 0x3f = 0x3f" using src(3) by simp
  obtain l' where h: "decrypt_header ext low1 ?c =
      (if password_check ext st (header ! 11) then (True, l', snd (encrypt ext ?c header))
       else (False, l', (snd (encrypt ext ?c header))\<lparr>pk_error := zip_error_set (pk_error ?c) ZIP_ER_WRONGPASSWD 0\<rparr>))"
    "src_cb l' = cb" "src_delivers good rest l' (fst (encrypt ext (snd (encrypt ext ?c header)) data))"
    using pkware_header [OF low(2,4,3) len] by blast
  {
    assume ok: "password_check ext st (header ! 11)"
    let ?c1 = "snd (encrypt ext ?c header)"
    have op: "pkware_decrypt ext low1 ?c ZIP_SOURCE_OPEN = ((0, No_data), l', ?c1)" using h(1) ok by simp
    have "zip_source_open src = (0, src_opened (src\<lparr>src_ud := (l', ?c1)\<rparr>))"
      using layered_open [OF src(1,2,4-6) _ low(1) src(7) op] readable_can [OF ready] by simp
    moreover have r: "rest (src_ud l') = fst (encrypt ext ?c1 data)" using h(3) by (simp add: src_delivers_def)
    have "src_delivers (pkware_good cb good rest) (pkware_rest ext rest) (src_opened (src\<lparr>src_ud := (l', ?c1)\<rparr>)) data"
      using src ready h(2,3) r decrypt_encrypt [of ext ?c1 data] readable_bits(2) [OF ready]
      by (simp add: src_delivers_def [of "pkware_good cb good rest"] src_opened_def ZIP_SOURCE_IS_OPEN_READING_def)
    ultimately show "\<exists>src1. zip_source_open src = (0, src1) \<and>
      src_cb src1 = layer_cb (pkware_decrypt ext) \<and> src_delivers (pkware_good cb good rest) (pkware_rest ext rest) src1 data"
      using src(2) by (simp add: src_opened_def)
  }
  assume bad: "\<not> password_check ext st (header ! 11)"
  let ?c2 = "(snd (encrypt ext ?c header))\<lparr>pk_error := zip_error_set (pk_error ?c) ZIP_ER_WRONGPASSWD 0\<rparr>"
  have op: "pkware_decrypt ext low1 ?c ZIP_SOURCE_OPEN = ((-1, No_data), l', ?c2)" using h(1) bad by simp
  show "fst (zip_source_open src) = -1 \<and> zip_err (src_error (snd (zip_source_open src))) = ZIP_ER_WRONGPASSWD"
    using layered_open_fails [OF src(1,2,4-6) ready low(1) src(7) op] by (simp add: error_reply_def zip_error_set_def)
qed

end

section \<open>What decrypting sources promise\<close>


definition cipher_bytes :: bytes where
  "cipher_bytes = fst (encrypt fixed_external (pkware_context_new fixed_external [112, 119]) (replicate 12 0 @ [104, 105]))"

lemma one_fragment_ok: "\<exists>b e. buffer_new malloc_ok 0 [(Some 0, 14)] False zip_error_init = (Some b, e)"
proof -
  have "fst (buffer_new malloc_ok 0 [(Some 0, 14)] False zip_error_init) \<noteq> None" by code_simp
  then show ?thesis by (cases "buffer_new malloc_ok 0 [(Some 0, 14)] False zip_error_init") auto
qed

lemma buffer_create_ok: "\<exists>src err'. zip_source_buffer_create malloc_ok 0 0 (Some bs) 14 False zip_error_init = (Some src, err')"
proof -
  obtain b e where "buffer_new malloc_ok 0 [(Some 0, 14)] False zip_error_init = (Some b, e)" using one_fragment_ok by blast
  moreover have "frag_args [(Some bs, 14)] = [(Some 0, 14)]" by (simp add: frag_args_def)
  ultimately show ?thesis
    by (simp add: zip_source_buffer_create_def zip_source_buffer_fragment_create_def zip_source_function_create_def zip_source_new_def)
qed


end
