(* ===== verification/Zip_Cdir_Write.thy ===== *)
theory Zip_Cdir_Write
  imports Zip_Open Zip_Dirent_Codec
begin

text \<open>
  \<open>_zip_cdir_write\<close> of \<open>zip_dirent.c\<close>: the central directory of the entries that survive, and the records that end
  an archive. The lemmas show that what it writes is what \<open>_zip_read_cdir\<close> reads.
\<close>

section \<open>The writer of an archive\<close>

text \<open>The source an archive is written to and the archive's error, as the functions that write take them.\<close>

definition za_writer :: "'s zip_archive \<Rightarrow> 's writer" where
  "za_writer za = (the (za_src za), za_error za)"

definition za_put_writer :: "'s zip_archive \<Rightarrow> 's writer \<Rightarrow> 's zip_archive" where
  "za_put_writer za w = za\<lparr>za_src := Some (fst w), za_error := snd w\<rparr>"

definition za_source_failed :: "'s zip_archive \<Rightarrow> 's zip_archive" where
  "za_source_failed za = za\<lparr>za_error := zip_error_set_from_source (za_error za) (the (za_src za))\<rparr>"

definition za_tell_write :: "'s zip_archive \<Rightarrow> int \<times> 's zip_archive" where
  "za_tell_write za = (case zip_source_tell_write (the (za_src za)) of (off, src) \<Rightarrow> (off, za\<lparr>za_src := Some src\<rparr>))"

definition za_write :: "'s zip_archive \<Rightarrow> bytes \<Rightarrow> int \<times> 's zip_archive" where
  "za_write za data = (case zip_write (za_writer za) data of (r, w) \<Rightarrow> (r, za_put_writer za w))"

text \<open>The entry as it is to be written, and where the changes a write makes to it are kept.\<close>

definition entry_dirent :: "'s zip_entry \<Rightarrow> zip_dirent" where
  "entry_dirent e = (case en_changes e of Some d \<Rightarrow> d | None \<Rightarrow> the (en_orig e))"

definition entry_put_dirent :: "'s zip_entry \<Rightarrow> zip_dirent \<Rightarrow> 's zip_entry" where
  "entry_put_dirent e de = (case en_changes e of Some _ \<Rightarrow> e\<lparr>en_changes := Some de\<rparr> | None \<Rightarrow> e\<lparr>en_orig := Some de\<rparr>)"

section \<open>Writing the directory\<close>

text \<open>The entries of the file list; the result says whether one of them needed zip64, and is \<open>None\<close> for failure.\<close>

fun cdir_write_entries ::
  "malloc \<Rightarrow> external \<Rightarrow> 's zip_archive \<Rightarrow> nat list \<Rightarrow> bool \<Rightarrow> bool option \<times> 's zip_archive" where
  "cdir_write_entries mem ext za [] is_zip64 = (Some is_zip64, za)"
| "cdir_write_entries mem ext za (i # is) is_zip64 =
     (let e = za_entry za ! i
      in case zip_dirent_write mem ext (za_writer za) (entry_dirent e) ZIP_FL_CENTRAL of
           (r, w, de) \<Rightarrow>
             let za = (za_put_writer za w)\<lparr>za_entry := (za_entry za)[i := entry_put_dirent e de]\<rparr>
             in if r < 0 then (None, za)
                else cdir_write_entries mem ext za is (is_zip64 \<or> r \<noteq> 0))"

definition eocd64_fields :: "u64 \<Rightarrow> u64 \<Rightarrow> u64 \<Rightarrow> put_field list" where
  "eocd64_fields survivors sz offset =
     [PB EOCD64_MAGIC, P64 (EOCD64LEN - 12), P16 45, P16 45, P32 0, P32 0, P64 survivors, P64 survivors, P64 sz, P64 offset,
      PB EOCD64LOC_MAGIC, P32 0, P64 (offset + sz), P32 1]"

definition eocd_fields :: "u64 \<Rightarrow> u64 \<Rightarrow> u64 \<Rightarrow> zip_string option \<Rightarrow> put_field list" where
  "eocd_fields survivors sz offset comment =
     (let n = (if survivors \<ge> 0xffff then 0xffff else ucast survivors)
      in [PB EOCD_MAGIC, P32 0, P16 n, P16 n,
          P32 (if sz \<ge> ZIP_UINT32_MAX then 0xffffffff else ucast sz),
          P32 (if offset \<ge> ZIP_UINT32_MAX then 0xffffffff else ucast offset),
          P16 (case comment of None \<Rightarrow> 0 | Some c \<Rightarrow> str_length c)])"

text \<open>The result is the size of the directory without the end records.\<close>

definition zip_cdir_write :: "malloc \<Rightarrow> external \<Rightarrow> 's zip_archive \<Rightarrow> nat list \<Rightarrow> int \<times> 's zip_archive" where
  "zip_cdir_write mem ext za filelist =
     (case za_tell_write za of
        (off, za) \<Rightarrow>
          if off < 0 then (-1, za_source_failed za)
          else case cdir_write_entries mem ext za filelist False of
            (None, za) \<Rightarrow> (-1, za)
          | (Some is_zip64, za) \<Rightarrow>
              (case za_tell_write za of
                 (off2, za) \<Rightarrow>
                   if off2 < 0 then (-1, za_source_failed za)
                   else
                   let offset = word_of_int off :: u64;
                       size = word_of_int off2 - offset :: u64;
                       survivors = of_nat (length filelist) :: u64;
                       is_zip64 = (is_zip64 \<or> offset > ZIP_UINT32_MAX \<or> survivors > 0xffff);
                       comment = (if za_comment_changed za then za_comment_changes za else za_comment_orig za)
                   in case zip_buffer_new mem (Some (replicate 98 0)) (EOCDLEN + EOCD64LEN + EOCD64LOCLEN) of
                        None \<Rightarrow> (-1, za\<lparr>za_error := zip_error_set (za_error za) ZIP_ER_MEMORY 0\<rparr>)
                      | Some b \<Rightarrow>
                          let b = put_all b ((if is_zip64 then eocd64_fields survivors size offset else []) @
                                             eocd_fields survivors size offset comment)
                          in if \<not> zip_buffer_ok b
                             then (-1, za\<lparr>za_error := zip_error_set (za_error za) ZIP_ER_INTERNAL 0\<rparr>)
                             else case za_write za (take (unat (zip_buffer_offset b)) (zip_buffer_data b)) of
                               (r, za) \<Rightarrow>
                                 if r < 0 then (-1, za)
                                 else case comment of
                                        None \<Rightarrow> (sint size, za)
                                      | Some c \<Rightarrow>
                                          (case za_write za (take (unat (str_length c)) (str_raw c)) of
                                             (r, za) \<Rightarrow> (if r < 0 then -1 else sint size, za))))"


section \<open>What writing leaves alone\<close>

lemma call_supports: "src_supports (snd (zip_source_call src cmd)) = src_supports src"
  by (auto simp: zip_source_call_def src_fetch_error_def src_set_error_def src_invoke_def Let_def split: prod.splits payload.splits)

lemma write_supports: "zip_source_write src d = (r, src') \<Longrightarrow> src_supports src' = src_supports src"
  using call_supports [of src "ZIP_SOURCE_WRITE d"]
  by (auto simp: zip_source_write_def src_set_error_def split: if_splits prod.splits)

lemma zip_write_supports: "zip_write za d = (r, za') \<Longrightarrow> src_supports (fst za') = src_supports (fst za)"
  by (auto simp: zip_write_def dest: write_supports split: if_splits prod.splits)

lemma string_write_supports: "zip_string_write za s = (r, za') \<Longrightarrow> src_supports (fst za') = src_supports (fst za)"
  by (auto simp: zip_string_write_def dest: zip_write_supports split: option.splits)

lemma ef_write_loop_supports: "ef_write_loop za b efs flags = (r, za') \<Longrightarrow> src_supports (fst za') = src_supports (fst za)"
proof (induction efs arbitrary: za b)
  case (Cons ef efs)
  then show ?case by (auto simp: Let_def dest!: zip_write_supports split: if_splits prod.splits)
qed simp

lemma ef_write_supports: "zip_ef_write mem za efs flags = (r, za') \<Longrightarrow> src_supports (fst za') = src_supports (fst za)"
  by (auto simp: zip_ef_write_def dest: ef_write_loop_supports split: option.splits)

lemma emit_supports: "dirent_emit mem za hdr de efs flags = (r, za') \<Longrightarrow> src_supports (fst za') = src_supports (fst za)"
  unfolding dirent_emit_def
  by (auto dest!: zip_write_supports string_write_supports ef_write_supports split: if_splits prod.splits)

lemma dirent_write_supports: "zip_dirent_write mem ext za de flags = (r, za', de1) \<Longrightarrow> src_supports (fst za') = src_supports (fst za)"
  unfolding zip_dirent_write_def Let_def
  by (auto dest!: emit_supports split: if_splits prod.splits option.splits)


section \<open>The entries of a directory\<close>

text \<open>A central header that reads back as an entry, wherever it is in a buffer.\<close>

definition central_header :: "external \<Rightarrow> 's zip_source itself \<Rightarrow> zip_dirent \<Rightarrow> bytes \<Rightarrow> bool" where
  "central_header ext (T :: 's zip_source itself) de d \<longleftrightarrow> 46 \<le> length d \<and> length d \<le> 200000 \<and>
     (\<forall>b R err (src :: 's zip_source). buf_from b (d @ R) \<longrightarrow>
        (\<exists>r b'. zip_dirent_read malloc_ok ext src (Some b) False err = (Some (r, int (length d)), Some b', src, err) \<and>
           buf_from b' R \<and> dirent_read_back ext ZIP_FL_CENTRAL de r))"

lemma dirent_image_length:
  assumes "dirent_encodable de flags" "utf8_efs_for local u (de_filename de) (de_comment de)" "flags AND ZIP_FL_LOCAL = 0"
  shows "46 \<le> length (dirent_image ext de flags (dirent_own_efs de flags u))"
    "length (dirent_image ext de flags (dirent_own_efs de flags u)) \<le> 200000"
proof -
  have ul: "length (ef_encs u) \<le> length (str_bytes (de_filename de)) + length (str_bytes (de_comment de)) + 18"
    using assms(2) by (auto simp: utf8_efs_for_def list_all_iff)
  have "length (ef_encs (dirent_own_efs de flags u)) \<le> length (str_bytes (de_filename de)) + length (str_bytes (de_comment de)) + 57"
    using ul zip64_fields_length [of de flags] by (simp add: dirent_own_efs_def ef_enc_def)
  then show "46 \<le> length (dirent_image ext de flags (dirent_own_efs de flags u))"
    "length (dirent_image ext de flags (dirent_own_efs de flags u)) \<le> 200000"
    using assms(1,3) by (auto simp: dirent_image_def dirent_fields_length dirent_hsize_def dirent_encodable_def)
qed

context byte_sink
begin

lemma central_header_written:
  fixes T :: "'t zip_source itself"
  assumes "sinks za bs" "dirent_storable de ZIP_FL_CENTRAL" "length bs + 400000 < room"
  obtains za' de1 d where "zip_dirent_write malloc_ok ext za de ZIP_FL_CENTRAL =
      (if dirent_is_zip64 de ZIP_FL_CENTRAL then 1 else 0, za', de1)"
    "sinks za' (bs @ d)" "snd za' = snd za" "src_supports (fst za') = src_supports (fst za)" "central_header ext T de d"
proof -
  have en: "dirent_encodable de ZIP_FL_CENTRAL" using assms(2) by (simp add: dirent_storable_def)
  have e: "str_wf (de_filename de)" "str_wf (de_comment de)" "list_all ef_wf (de_extra_fields de)"
    "length (str_bytes (de_filename de)) \<le> 65530" "length (str_bytes (de_comment de)) \<le> 65530"
    "length (ef_bytes ZIP_FL_CENTRAL (de_extra_fields de)) < 65536"
    using en by (auto simp: dirent_encodable_def list_all_iff)
  have l: "False \<longleftrightarrow> ZIP_FL_CENTRAL AND ZIP_FL_LOCAL \<noteq> 0" by simp
  obtain n c bf u za' where w: "zip_dirent_write malloc_ok ext za de ZIP_FL_CENTRAL =
        (if dirent_is_zip64 de ZIP_FL_CENTRAL then 1 else 0, za', de\<lparr>de_filename := n, de_comment := c, de_bitflags := bf\<rparr>)"
      "sinks za' (bs @ dirent_image ext (de\<lparr>de_filename := n, de_comment := c, de_bitflags := bf\<rparr>) ZIP_FL_CENTRAL
         (dirent_own_efs (de\<lparr>de_filename := n, de_comment := c, de_bitflags := bf\<rparr>) ZIP_FL_CENTRAL u))" "snd za' = snd za"
    and sh: "str_shape n = str_shape (de_filename de)" "str_shape c = str_shape (de_comment de)" "str_wf n" "str_wf c"
    and u: "utf8_efs_for False u n c"
    and g: "bf AND ZIP_GPBF_ENCODING_UTF_8 \<noteq> 0 \<longrightarrow> guess_scan (str_bytes n) ZIP_ENCODING_ASCII \<noteq> ZIP_ENCODING_CP437 \<and>
            guess_scan (str_bytes c) ZIP_ENCODING_ASCII \<noteq> ZIP_ENCODING_CP437"
    and bits: "bf AND ZIP_GPBF_ENCRYPTED \<noteq> 0 \<longleftrightarrow> de_encryption_method de \<noteq> ZIP_EM_NONE"
      "bf AND ZIP_GPBF_STRONG_ENCRYPTION = de_bitflags de AND ZIP_GPBF_STRONG_ENCRYPTION"
    using zip_dirent_write_appends [where mem = malloc_ok and ext = ext and local = False,
        OF assms(1) e assms(3) TrueI TrueI TrueI TrueI l]
    unfolding Let_def by blast
  let ?de1 = "de\<lparr>de_filename := n, de_comment := c, de_bitflags := bf\<rparr>"
  let ?d = "dirent_image ext ?de1 ZIP_FL_CENTRAL (dirent_own_efs ?de1 ZIP_FL_CENTRAL u)"
  have nb: "str_bytes n = str_bytes (de_filename de)" "str_bytes c = str_bytes (de_comment de)"
    using str_shape_cong sh(1,2) by blast+
  have m: "dirent_marked de ?de1" using sh(1,2) by (simp add: dirent_marked_def)
  have en1: "dirent_encodable ?de1 ZIP_FL_CENTRAL"
    using en sh(3,4) nb bits(2) by (simp add: dirent_encodable_def dirent_is_aes_def)
  have z: "zip_dirent_needs_zip64 ?de1 ZIP_FL_CENTRAL = zip_dirent_needs_zip64 de ZIP_FL_CENTRAL"
    "zip64_fields ?de1 ZIP_FL_CENTRAL = zip64_fields de ZIP_FL_CENTRAL"
    unfolding zip_dirent_needs_zip64_def zip64_fields_def Let_def by simp_all
  have st: "dirent_storable ?de1 ZIP_FL_CENTRAL"
    using assms(2) en1 z by (simp add: dirent_storable_def)
  have u1: "utf8_efs_for False u (de_filename ?de1) (de_comment ?de1)" using u by simp
  have g1: "de_bitflags ?de1 AND ZIP_GPBF_ENCODING_UTF_8 \<noteq> 0 \<longrightarrow>
      guess_scan (str_bytes (de_filename ?de1)) ZIP_ENCODING_ASCII \<noteq> ZIP_ENCODING_CP437 \<and>
      guess_scan (str_bytes (de_comment ?de1)) ZIP_ENCODING_ASCII \<noteq> ZIP_ENCODING_CP437" using g by simp
  have e1: "de_bitflags ?de1 AND ZIP_GPBF_ENCRYPTED \<noteq> 0 \<longleftrightarrow> de_encryption_method ?de1 \<noteq> ZIP_EM_NONE" using bits(1) by simp
  have "\<exists>r b'. zip_dirent_read malloc_ok ext src (Some b) False err = (Some (r, int (length ?d)), Some b', src, err) \<and>
      buf_from b' R \<and> dirent_read_back ext ZIP_FL_CENTRAL de r"
    if "buf_from b (?d @ R)" for b R err and src :: "'t zip_source"
    using zip_dirent_read_image [OF st disjI1 [OF refl] l u1 g1 e1 that, where mem = malloc_ok and src = src and err = err]
      dirent_read_back_marked [OF m, of ext ZIP_FL_CENTRAL] by simp
  then have "central_header ext T de ?d"
    unfolding central_header_def using dirent_image_length [OF en1 u1, of ext] by simp
  then show ?thesis using that w dirent_write_supports [OF w(1)] by blast
qed

end

text \<open>What follows the entries, and whether it has the zip64 records.\<close>

definition cdir_is_zip64 :: "'s zip_archive \<Rightarrow> nat list \<Rightarrow> nat \<Rightarrow> bool" where
  "cdir_is_zip64 za filelist offset \<longleftrightarrow>
     (\<exists>i \<in> set filelist. dirent_is_zip64 (entry_dirent (za_entry za ! i)) ZIP_FL_CENTRAL) \<or>
     offset > 0xffffffff \<or> length filelist > 0xffff"

definition cdir_tail :: "bool \<Rightarrow> nat \<Rightarrow> nat \<Rightarrow> nat \<Rightarrow> zip_string option \<Rightarrow> bytes" where
  "cdir_tail is_zip64 n sz offset comment =
     fields_enc ((if is_zip64 then eocd64_fields (of_nat n) (of_nat sz) (of_nat offset) else []) @
       eocd_fields (of_nat n) (of_nat sz) (of_nat offset) comment) @ str_bytes comment"

section \<open>Writing to a source that knows its position\<close>

text \<open>A sink whose position is the number of bytes written to it.\<close>

locale tell_sink = byte_sink +
  assumes tell_law: "good s \<Longrightarrow> length (out s) < room \<Longrightarrow>
    cb s ZIP_SOURCE_TELL_WRITE = ((int (length (out s)), No_data), s)"
begin

definition archive_sinks :: "'a zip_archive \<Rightarrow> bytes \<Rightarrow> bool" where
  "archive_sinks za bs \<longleftrightarrow> za_src za \<noteq> None \<and> sinks (za_writer za) bs \<and>
     src_can (the (za_src za)) ZIP_SOURCE_TELL_WRITE"

lemma tell_write_position:
  assumes "archive_sinks za bs" "length bs < room"
  shows "za_tell_write za = (int (length bs), za)"
proof -
  obtain src where src: "za_src za = Some src" using assms(1) by (auto simp: archive_sinks_def)
  have s: "src_cb src = cb" "good (src_ud src)" "out (src_ud src) = bs" "ZIP_SOURCE_IS_OPEN_WRITING src"
    "src_can src ZIP_SOURCE_TELL_WRITE"
    using assms(1) src by (simp_all add: archive_sinks_def sinks_def src_sinks_def za_writer_def)
  have "cb (src_ud src) ZIP_SOURCE_TELL_WRITE = ((int (length bs), No_data), src_ud src)" using tell_law [OF s(2)] s(3) assms(2) by simp
  then have "zip_source_tell_write src = (int (length bs), src)"
    using s by (simp add: zip_source_tell_write_def zip_source_call_def src_invoke_def)
  moreover have "za\<lparr>za_src := Some src\<rparr> = za" using src by (cases za) simp
  ultimately show ?thesis using src by (simp add: za_tell_write_def)
qed

lemma archive_sinks_put:
  assumes "archive_sinks za bs" "sinks w bs'" "src_supports (fst w) = src_supports (the (za_src za))"
  shows "archive_sinks (za_put_writer za w) bs'"
  using assms by (simp add: archive_sinks_def za_put_writer_def za_writer_def src_can_def)

lemma za_write_appends:
  assumes "archive_sinks za bs" "length bs + length d < room"
  obtains src where "za_write za d = (0, za\<lparr>za_src := Some src\<rparr>)" "archive_sinks (za\<lparr>za_src := Some src\<rparr>) (bs @ d)"
proof -
  have s: "sinks (za_writer za) bs" using assms(1) by (simp add: archive_sinks_def)
  obtain w where w: "zip_write (za_writer za) d = (0, w)" "sinks w (bs @ d)" "snd w = za_error za"
    using zip_write_appends [OF s assms(2)] by (auto simp: za_writer_def)
  have "src_supports (fst w) = src_supports (the (za_src za))" using zip_write_supports [OF w(1)] by (simp add: za_writer_def)
  note sinks = archive_sinks_put [OF assms(1) w(2) this]
  have "za_put_writer za w = za\<lparr>za_src := Some (fst w)\<rparr>" using w(3) by (cases za) (simp add: za_put_writer_def)
  then show ?thesis using that [of "fst w"] w(1) sinks by (simp add: za_write_def)
qed

text \<open>The entries of a file list, one after the other.\<close>

lemma cdir_entries_written:
  fixes T :: "'t zip_source itself"
  assumes "archive_sinks za bs" "distinct is" "length bs + (length is + 1) * 400000 < room"
    and "\<forall>i \<in> set is. i < length (za_entry za) \<and> dirent_storable (entry_dirent (za_entry za ! i)) ZIP_FL_CENTRAL"
  shows "\<exists>za' ds. cdir_write_entries malloc_ok ext za is z =
      (Some (z \<or> (\<exists>i \<in> set is. dirent_is_zip64 (entry_dirent (za_entry za ! i)) ZIP_FL_CENTRAL)), za') \<and>
    archive_sinks za' (bs @ concat ds) \<and> length (concat ds) \<le> length is * 200000 \<and>
    list_all2 (central_header ext T) (map (\<lambda>i. entry_dirent (za_entry za ! i)) is) ds \<and>
    za_comment_orig za' = za_comment_orig za \<and> za_comment_changes za' = za_comment_changes za \<and>
    za_comment_changed za' = za_comment_changed za \<and> za_error za' = za_error za"
  using assms
proof (induction "is" arbitrary: za bs z)
  case Nil
  then show ?case by (intro exI [of _ za] exI [of _ "[]"]) simp
next
  case (Cons i "is")
  let ?e = "za_entry za ! i"
  let ?de = "entry_dirent ?e"
  have s: "sinks (za_writer za) bs" using Cons.prems(1) by (simp add: archive_sinks_def)
  have room: "length bs + 400000 < room" using Cons.prems(3) by simp
  have st: "dirent_storable ?de ZIP_FL_CENTRAL" "i < length (za_entry za)" using Cons.prems(4) by simp_all
  obtain w de1 d where w: "zip_dirent_write malloc_ok ext (za_writer za) ?de ZIP_FL_CENTRAL =
      (if dirent_is_zip64 ?de ZIP_FL_CENTRAL then 1 else 0, w, de1)"
    "sinks w (bs @ d)" "snd w = snd (za_writer za)" "src_supports (fst w) = src_supports (fst (za_writer za))"
    "central_header ext T ?de d"
    using central_header_written [OF s st(1) room, of ext T] by blast
  have w': "snd w = za_error za" "src_supports (fst w) = src_supports (the (za_src za))"
    using w(3,4) by (simp_all add: za_writer_def)
  define za1 where "za1 = (za_put_writer za w)\<lparr>za_entry := (za_entry za)[i := entry_put_dirent ?e de1]\<rparr>"
  have za1: "za_comment_orig za1 = za_comment_orig za" "za_comment_changes za1 = za_comment_changes za"
    "za_comment_changed za1 = za_comment_changed za" "za_error za1 = za_error za"
    using w'(1) by (simp_all add: za1_def za_put_writer_def)
  have sinks1: "archive_sinks za1 (bs @ d)"
    using archive_sinks_put [OF Cons.prems(1) w(2) w'(2)] by (simp add: za1_def archive_sinks_def za_writer_def)
  have same: "za_entry za1 ! j = za_entry za ! j" if "j \<in> set is" for j
    using Cons.prems(2) that by (cases "j = i") (simp_all add: za1_def)
  have d: "length d \<le> 200000" using w(5) by (simp add: central_header_def)
  have ok: "\<forall>j \<in> set is. j < length (za_entry za1) \<and> dirent_storable (entry_dirent (za_entry za1 ! j)) ZIP_FL_CENTRAL"
    using Cons.prems(4) same by (auto simp: za1_def)
  let ?z = "z \<or> dirent_is_zip64 ?de ZIP_FL_CENTRAL"
  obtain za' ds where ih: "cdir_write_entries malloc_ok ext za1 is ?z =
      (Some (?z \<or> (\<exists>i \<in> set is. dirent_is_zip64 (entry_dirent (za_entry za1 ! i)) ZIP_FL_CENTRAL)), za')"
    "archive_sinks za' ((bs @ d) @ concat ds)" "length (concat ds) \<le> length is * 200000"
    "list_all2 (central_header ext T) (map (\<lambda>i. entry_dirent (za_entry za1 ! i)) is) ds"
    "za_comment_orig za' = za_comment_orig za1" "za_comment_changes za' = za_comment_changes za1"
    "za_comment_changed za' = za_comment_changed za1" "za_error za' = za_error za1"
    using Cons.IH [OF sinks1 _ _ ok, of ?z] Cons.prems(2,3) d by auto
  have maps: "map (\<lambda>i. entry_dirent (za_entry za1 ! i)) is = map (\<lambda>i. entry_dirent (za_entry za ! i)) is"
    using same by simp
  have "list_all2 (central_header ext T) (map (\<lambda>i. entry_dirent (za_entry za ! i)) is) ds" using ih(4) unfolding maps .
  moreover have "(\<exists>i \<in> set is. dirent_is_zip64 (entry_dirent (za_entry za1 ! i)) ZIP_FL_CENTRAL) =
      (\<exists>i \<in> set is. dirent_is_zip64 (entry_dirent (za_entry za ! i)) ZIP_FL_CENTRAL)"
    using same by (metis (no_types, lifting))
  moreover have "cdir_write_entries malloc_ok ext za (i # is) z = cdir_write_entries malloc_ok ext za1 is ?z"
    using w(1) by (simp add: za1_def Let_def)
  ultimately show ?case
    using ih(1-3,5-8) za1 w(5) d by (intro exI [of _ za'] exI [of _ "d # ds"]) auto
qed

text \<open>The whole directory and the records behind it.\<close>

lemma cdir_write_appends:
  fixes T :: "'t zip_source itself"
  assumes "archive_sinks za bs" "distinct fl" "length bs + (length fl + 2) * 400000 < room"
    and "\<forall>i \<in> set fl. i < length (za_entry za) \<and> dirent_storable (entry_dirent (za_entry za ! i)) ZIP_FL_CENTRAL"
    and "str_wf comment" "comment = (if za_comment_changed za then za_comment_changes za else za_comment_orig za)"
  shows "\<exists>za' ds. zip_cdir_write malloc_ok ext za fl = (int (length (concat ds)), za') \<and>
    archive_sinks za' (bs @ concat ds @
      cdir_tail (cdir_is_zip64 za fl (length bs)) (length fl) (length (concat ds)) (length bs) comment) \<and>
    list_all2 (central_header ext T) (map (\<lambda>i. entry_dirent (za_entry za ! i)) fl) ds \<and>
    length (concat ds) \<le> length fl * 200000"
proof -
  let ?z = "\<exists>i \<in> set fl. dirent_is_zip64 (entry_dirent (za_entry za ! i)) ZIP_FL_CENTRAL"
  obtain za1 ds where e: "cdir_write_entries malloc_ok ext za fl False = (Some ?z, za1)"
    "archive_sinks za1 (bs @ concat ds)" "length (concat ds) \<le> length fl * 200000"
    "list_all2 (central_header ext T) (map (\<lambda>i. entry_dirent (za_entry za ! i)) fl) ds"
    "comment = (if za_comment_changed za1 then za_comment_changes za1 else za_comment_orig za1)"
    using cdir_entries_written [OF assms(1,2) _ assms(4), of ext False T] assms(3,6) by auto
  have small: "length bs < 2 ^ 63" "length (bs @ concat ds) < 2 ^ 63" "length fl < 2 ^ 63" "length (concat ds) < 2 ^ 63"
    and tell: "length (bs @ concat ds) < room" "length bs < room"
    using assms(3) e(3) room_law by simp_all
  define k where "k = length (concat ds)"
  have sz: "of_nat (length (bs @ concat ds)) - of_nat (length bs) = (of_nat k :: u64)"
    by (simp add: k_def)
  have kb: "sint (of_nat k :: u64) = int k" using small(4) by (simp add: k_def signed_of_nat signed_take_bit_int_eq_self)
  let ?is64 = "cdir_is_zip64 za fl (length bs)"
  obtain fs where fs: "(if ?is64 then eocd64_fields (of_nat (length fl)) (of_nat k) (of_nat (length bs)) else []) @
    eocd_fields (of_nat (length fl)) (of_nat k) (of_nat (length bs)) comment = fs" by blast
  have fl: "length (fields_enc fs) \<le> 98" by (simp add: fs [symmetric] eocd64_fields_def eocd_fields_def Let_def)
  then have fl': "length (fields_enc fs) \<le> unat (98 :: u64)" by simp
  obtain b where b: "zip_buffer_new malloc_ok (Some (replicate (unat (98 :: u64)) 0)) 98 = Some b"
    by (simp add: zip_buffer_new_def)
  have "unat (of_nat (length (fields_enc fs)) :: u64) = length (fields_enc fs)"
    using fl by (simp add: unsigned_of_nat take_bit_nat_eq_self)
  then have tk: "zip_buffer_ok (put_all b fs)"
    "take (unat (zip_buffer_offset (put_all b fs))) (zip_buffer_data (put_all b fs)) = fields_enc fs"
    using put_all_new [OF b fl'] by (simp_all only:)
  have z: "(?z \<or> (of_nat (length bs) :: u64) > ZIP_UINT32_MAX \<or> (of_nat (length fl) :: u64) > 0xffff) = ?is64"
    using small by (simp add: cdir_is_zip64_def word_less_nat_alt unsigned_of_nat take_bit_nat_eq_self)
  note tw = tell_write_position [OF assms(1) tell(2)] tell_write_position [OF e(2) tell(1)]
  obtain s2 where s2: "za_write za1 (fields_enc fs) = (0, za1\<lparr>za_src := Some s2\<rparr>)"
    "archive_sinks (za1\<lparr>za_src := Some s2\<rparr>) ((bs @ concat ds) @ fields_enc fs)"
    using za_write_appends [OF e(2), of "fields_enc fs"] assms(3) e(3) fl by auto
  have pos: "\<not> int (length bs) < 0" "\<not> int (length (bs @ concat ds)) < 0" by simp_all
  have n98: "EOCDLEN + EOCD64LEN + EOCD64LOCLEN = 98" "replicate 98 (0 :: u8) = replicate (unat (98 :: u64)) 0" by simp_all
  have step: "zip_cdir_write malloc_ok ext za fl = (case comment of None \<Rightarrow> (int k, za1\<lparr>za_src := Some s2\<rparr>)
      | Some c \<Rightarrow> (case za_write (za1\<lparr>za_src := Some s2\<rparr>) (take (unat (str_length c)) (str_raw c)) of
           (r, za) \<Rightarrow> (if r < 0 then -1 else int k, za)))"
    unfolding zip_cdir_write_def tw prod.case if_not_P [OF pos(1)] e(1) option.case if_not_P [OF pos(2)] Let_def z sz
      e(5) [symmetric] n98 b of_int_of_nat_eq fs
    using tk s2(1) kb by (simp split: option.split prod.split)
  have tail: "cdir_tail ?is64 (length fl) k (length bs) comment = fields_enc fs @ str_bytes comment"
    by (simp only: cdir_tail_def fs)
  show ?thesis
  proof (cases comment)
    case None
    then show ?thesis using step s2(2) e(3,4) tail
      by (intro exI [of _ "za1\<lparr>za_src := Some s2\<rparr>"] exI [of _ ds]) (simp add: k_def str_bytes_def)
  next
    case (Some c)
    then have c: "length (str_raw c) = unat (str_length c)" using assms(5) by (simp add: str_wf_def)
    have "unat (str_length c) < 65536" using unat_bounds(2) [of "str_length c"] by simp
    then have "length ((bs @ concat ds) @ fields_enc fs) + length (str_raw c) < room"
      using assms(3) e(3) fl c by simp
    from za_write_appends [OF s2(2) this] obtain s3 where "za_write (za1\<lparr>za_src := Some s2\<rparr>) (str_raw c) = (0, za1\<lparr>za_src := Some s3\<rparr>)"
      "archive_sinks (za1\<lparr>za_src := Some s3\<rparr>) (((bs @ concat ds) @ fields_enc fs) @ str_raw c)" by auto
    then show ?thesis using step e(3,4) tail Some c
      by (intro exI [of _ "za1\<lparr>za_src := Some s3\<rparr>"] exI [of _ ds]) (simp add: k_def str_bytes_def)
  qed
qed

end

end
