(* ===== verification/Zip_Cdir_Read.thy ===== *)
theory Zip_Cdir_Read
  imports Zip_Cdir_Write
begin

text \<open>
  What \<open>_zip_cdir_write\<close> has written is what \<open>_zip_read_cdir\<close> reads.
\<close>

section \<open>Buffers\<close>

lemma get_16_ex: "buf_from b (le16 x @ R) \<Longrightarrow> \<exists>b'. zip_buffer_get_16 b = (x, b') \<and> buf_from b' R"
  using f16.get_from [of b x R] by (cases "zip_buffer_get_16 b") auto

lemma get_32_ex: "buf_from b (le32 x @ R) \<Longrightarrow> \<exists>b'. zip_buffer_get_32 b = (x, b') \<and> buf_from b' R"
  using f32.get_from [of b x R] by (cases "zip_buffer_get_32 b") auto

lemma get_64_ex: "buf_from b (le64 x @ R) \<Longrightarrow> \<exists>b'. zip_buffer_get_64 b = (x, b') \<and> buf_from b' R"
  using f64.get_from [of b x R] by (cases "zip_buffer_get_64 b") auto

lemma get_4_ex:
  assumes "buf_from b (m @ R)" "length m = 4"
  shows "\<exists>b'. zip_buffer_get b 4 = (Some (unat (buf_offset b)), b') \<and> buf_from b' R \<and> buf_bytes b' (unat (buf_offset b)) 4 = m \<and>
    buf_data b' = buf_data b"
  using zip_buffer_get_from [OF assms(1), of 4] assms
  by (cases "zip_buffer_get b 4") (auto simp: zip_buffer_get_eq buf_from_def split: if_splits)

lemma set_offset_from:
  assumes "wf_buf b" "unat n \<le> length (buf_data b)"
  shows "buf_from (snd (zip_buffer_set_offset b n)) (drop (unat n) (buf_data b))"
    "buf_offset (snd (zip_buffer_set_offset b n)) = n" "wf_buf (snd (zip_buffer_set_offset b n))"
    "buf_ok (snd (zip_buffer_set_offset b n))"
  using assms by (auto simp: zip_buffer_set_offset_def buf_from_def wf_buf_def buf_rest_def word_le_nat_alt word_less_nat_alt)

lemma get_magic_ex:
  assumes "buf_from b (EOCD_MAGIC @ R) \<or> buf_from b (EOCD64_MAGIC @ R) \<or> buf_from b (EOCD64LOC_MAGIC @ R)"
  shows "\<exists>b'. zip_buffer_get b 4 = (Some (unat (buf_offset b)), b') \<and> buf_from b' R"
  using assms get_4_ex [of b EOCD_MAGIC R] get_4_ex [of b EOCD64_MAGIC R] get_4_ex [of b EOCD64LOC_MAGIC R] by auto

lemma left_at_least: "buf_from b R \<Longrightarrow> unat n \<le> length R \<Longrightarrow> \<not> zip_buffer_left b < n"
  using zip_buffer_left_eq [of b] by (auto simp: buf_from_def word_less_nat_alt)

lemma of_nat_no_wrap:
  assumes "l + k < 2 ^ 64"
  shows "\<not> (of_nat l + of_nat k :: u64) < of_nat l"
proof -
  have "unat (of_nat (l + k) :: u64) = l + k" "unat (of_nat l :: u64) = l"
    using assms by (simp_all add: unsigned_of_nat take_bit_nat_eq_self del: of_nat_add)
  then show ?thesis by (simp only: of_nat_add word_less_nat_alt not_less le_add1)
qed

lemma get_keeps:
  "zip_buffer_get b n = (p, b') \<Longrightarrow> buf_data b' = buf_data b \<and> buf_size b' = buf_size b"
  "zip_buffer_get_16 b = (x16, b') \<Longrightarrow> buf_data b' = buf_data b \<and> buf_size b' = buf_size b"
  "zip_buffer_get_64 b = (x64, b') \<Longrightarrow> buf_data b' = buf_data b \<and> buf_size b' = buf_size b"
  by (auto simp: zip_buffer_get_def zip_buffer_peek_def zip_buffer_get_16_def zip_buffer_get_64_def Let_def split: if_splits)

section \<open>The end records\<close>

definition cdir_blank :: "bool \<Rightarrow> nat \<Rightarrow> nat \<Rightarrow> nat \<Rightarrow> 's zip_cdir" where
  "cdir_blank z n k l = \<lparr>cd_entry = replicate n zip_entry_init, cd_nentry_alloc = of_nat n, cd_size = of_nat k,
     cd_offset = of_nat l, cd_comment = None, cd_is_zip64 = z\<rparr>"

lemma cdir_new_blank:
  assumes "n < 2 ^ 58"
  shows "zip_cdir_new malloc_ok (of_nat n) err = (Some (cdir_blank False n 0 0), err)"
proof -
  have u: "unat (of_nat n :: u64) = n" using assms by (simp add: unsigned_of_nat take_bit_nat_eq_self)
  then have le: "\<not> (of_nat n :: u64) > CDIR_MAX_ENTRIES" using assms by (simp add: word_less_nat_alt)
  have z: "(of_nat n :: u64) = 0 \<Longrightarrow> n = 0" using u by simp
  let ?w = "of_nat n :: u64"
  obtain w where w: "?w = w" by blast
  show ?thesis
  proof (cases "w = 0")
    case True
    then show ?thesis using z w by (simp add: zip_cdir_new_def zip_cdir_grow_def cdir_blank_def)
  next
    case False
    then show ?thesis using u le unfolding zip_cdir_new_def zip_cdir_grow_def cdir_blank_def w Let_def
      by simp
  qed
qed

lemma clip16: "n \<le> 0xffff \<Longrightarrow> ucast (if (of_nat n :: u64) \<ge> 0xffff then 0xffff else ucast (of_nat n :: u64) :: u16) = (of_nat n :: u64)"
  by (auto simp: word_unat_eq_iff word_le_nat_alt unsigned_of_nat take_bit_nat_eq_self unsigned_ucast_eq)

lemma clip32: "k \<le> 0xffffffff \<Longrightarrow> ucast (if (of_nat k :: u64) \<ge> ZIP_UINT32_MAX then 0xffffffff else ucast (of_nat k :: u64) :: u32) = (of_nat k :: u64)"
  by (auto simp: word_unat_eq_iff word_le_nat_alt unsigned_of_nat take_bit_nat_eq_self unsigned_ucast_eq)

lemma read_eocd_written:
  assumes "buf_from b (fields_enc (eocd_fields (of_nat n) (of_nat k) (of_nat l) comment) @ R)"
    and "n \<le> 0xffff" "k \<le> 0xffffffff" "l \<le> 0xffffffff" "unat base + unat (buf_offset b) = l + k"
  shows "zip_read_eocd malloc_ok b base flags err = (Some (cdir_blank False n k l), err)"
proof -
  obtain n16 :: u16 where n16: "(if (of_nat n :: u64) \<ge> 0xffff then 0xffff else ucast (of_nat n :: u64)) = n16" "ucast n16 = (of_nat n :: u64)"
    by (rule that [OF refl clip16 [OF assms(2)]])
  obtain k32 :: u32 where k32: "(if (of_nat k :: u64) \<ge> ZIP_UINT32_MAX then 0xffffffff else ucast (of_nat k :: u64)) = k32"
    "ucast k32 = (of_nat k :: u64)" by (rule that [OF refl clip32 [OF assms(3)]])
  obtain l32 :: u32 where l32: "(if (of_nat l :: u64) \<ge> ZIP_UINT32_MAX then 0xffffffff else ucast (of_nat l :: u64)) = l32"
    "ucast l32 = (of_nat l :: u64)" by (rule that [OF refl clip32 [OF assms(4)]])
  let ?c = "case comment of None \<Rightarrow> 0 | Some c \<Rightarrow> str_length c"
  have b: "buf_from b (EOCD_MAGIC @ le32 0 @ le16 n16 @ le16 n16 @ le32 k32 @ le32 l32 @ le16 ?c @ R)"
    using assms(1) unfolding eocd_fields_def Let_def n16(1) k32(1) l32(1) by simp
  have left: "\<not> zip_buffer_left b < EOCDLEN" by (rule left_at_least [OF b]) (simp add: le16_def le32_def)
  obtain b1 where b1: "zip_buffer_get b 4 = (Some (unat (buf_offset b)), b1)"
    "buf_from b1 (le32 0 @ le16 n16 @ le16 n16 @ le32 k32 @ le32 l32 @ le16 ?c @ R)"
    using get_magic_ex [OF disjI1 [OF b]] by blast
  obtain b2 where b2: "zip_buffer_get_32 b1 = (0, b2)" "buf_from b2 (le16 n16 @ le16 n16 @ le32 k32 @ le32 l32 @ le16 ?c @ R)"
    using get_32_ex [OF b1(2)] by blast
  obtain b3 where b3: "zip_buffer_get_16 b2 = (n16, b3)" "buf_from b3 (le16 n16 @ le32 k32 @ le32 l32 @ le16 ?c @ R)"
    using get_16_ex [OF b2(2)] by blast
  obtain b4 where b4: "zip_buffer_get_16 b3 = (n16, b4)" "buf_from b4 (le32 k32 @ le32 l32 @ le16 ?c @ R)"
    using get_16_ex [OF b3(2)] by blast
  obtain b5 where b5: "zip_buffer_get_32 b4 = (k32, b5)" "buf_from b5 (le32 l32 @ le16 ?c @ R)"
    using get_32_ex [OF b4(2)] by blast
  obtain b6 where b6: "zip_buffer_get_32 b5 = (l32, b6)" using get_32_ex [OF b5(2)] by blast
  have off: "zip_buffer_offset b = buf_offset b" using b by (simp add: zip_buffer_offset_def buf_from_def)
  have sum: "base + buf_offset b = of_nat (l + k)" unfolding word_arith_nat_add [of base] assms(5) by simp
  have wrap: "\<not> (of_nat l + of_nat k :: u64) < of_nat l" by (rule of_nat_no_wrap) (use assms(3,4) in simp)
  have n: "n < 2 ^ 58" using assms(2) by simp
  show ?thesis
    unfolding zip_read_eocd_def Let_def off b1(1) b2(1) b3(1) b4(1) b5(1) b6 prod.case n16(2) k32(2) l32(2)
      if_not_P [OF left] if_not_P [OF wrap] sum of_nat_add cdir_new_blank [OF n]
    by (simp add: cdir_blank_def)
qed

lemma get_magic_bytes:
  assumes "buf_from b (EOCD64_MAGIC @ R)"
  shows "\<exists>b'. zip_buffer_get b 4 = (Some (unat (buf_offset b)), b') \<and> buf_from b' R \<and> buf_bytes b' (unat (buf_offset b)) 4 = EOCD64_MAGIC"
  using get_4_ex [OF assms] by auto

lemma get_16_pair: "le32 0 = le16 0 @ le16 0"
  by (simp add: le32_def le16_def)

lemma get_4_skip: "buf_from b (le16 x @ le16 y @ R) \<Longrightarrow> \<exists>p b'. zip_buffer_get b 4 = (p, b') \<and> buf_from b' R"
  using get_4_ex [of b "le16 x @ le16 y" R] by auto

lemma read_eocd64_record_written:
  assumes b: "buf_from b (EOCD64_MAGIC @ le64 44 @ le16 45 @ le16 45 @ le32 0 @ le32 0 @ le64 (of_nat n) @ le64 (of_nat n) @
      le64 (of_nat k) @ le64 (of_nat l) @ R)"
    and "n < 2 ^ 58" "l + k < 2 ^ 62" "unat base \<le> l" "flags AND ZIP_CHECKCONS = 0"
  shows "read_eocd64_record malloc_ok b base eocdloc_offset (of_nat (l + k)) 0 0 flags err = (Some (cdir_blank True n k l), err)"
proof -
  obtain b1 where b1: "zip_buffer_get b 4 = (Some (unat (buf_offset b)), b1)" "buf_bytes b1 (unat (buf_offset b)) 4 = EOCD64_MAGIC"
    "buf_from b1 (le64 44 @ le16 45 @ le16 45 @ le32 0 @ le32 0 @ le64 (of_nat n) @ le64 (of_nat n) @ le64 (of_nat k) @ le64 (of_nat l) @ R)"
    using get_magic_bytes [OF b] by blast
  obtain b2 where b2: "zip_buffer_get_64 b1 = (44, b2)"
    "buf_from b2 (le16 45 @ le16 45 @ le32 0 @ le32 0 @ le64 (of_nat n) @ le64 (of_nat n) @ le64 (of_nat k) @ le64 (of_nat l) @ R)"
    using get_64_ex [OF b1(3)] by blast
  obtain p b3 where b3: "zip_buffer_get b2 4 = (p, b3)"
    "buf_from b3 (le32 0 @ le32 0 @ le64 (of_nat n) @ le64 (of_nat n) @ le64 (of_nat k) @ le64 (of_nat l) @ R)"
    using get_4_skip [OF b2(2)] by blast
  obtain b4 where b4: "zip_buffer_get_32 b3 = (0, b4)"
    "buf_from b4 (le32 0 @ le64 (of_nat n) @ le64 (of_nat n) @ le64 (of_nat k) @ le64 (of_nat l) @ R)"
    using get_32_ex [OF b3(2)] by blast
  obtain b5 where b5: "zip_buffer_get_32 b4 = (0, b5)"
    "buf_from b5 (le64 (of_nat n) @ le64 (of_nat n) @ le64 (of_nat k) @ le64 (of_nat l) @ R)"
    using get_32_ex [OF b4(2)] by blast
  obtain b6 where b6: "zip_buffer_get_64 b5 = (of_nat n, b6)" "buf_from b6 (le64 (of_nat n) @ le64 (of_nat k) @ le64 (of_nat l) @ R)"
    using get_64_ex [OF b5(2)] by blast
  obtain b7 where b7: "zip_buffer_get_64 b6 = (of_nat n, b7)" "buf_from b7 (le64 (of_nat k) @ le64 (of_nat l) @ R)"
    using get_64_ex [OF b6(2)] by blast
  obtain b8 where b8: "zip_buffer_get_64 b7 = (of_nat k, b8)" "buf_from b8 (le64 (of_nat l) @ R)"
    using get_64_ex [OF b7(2)] by blast
  obtain b9 where b9: "zip_buffer_get_64 b8 = (of_nat l, b9)" "buf_from b9 R" using get_64_ex [OF b8(2)] by blast
  have ok: "zip_buffer_ok b9" using b9(2) by (simp add: buf_from_def zip_buffer_ok_def)
  have ul: "unat (of_nat l :: u64) = l" "unat (of_nat (l + k) :: u64) = l + k"
    using assms(3) by (simp_all add: unsigned_of_nat take_bit_nat_eq_self del: of_nat_add)
  have big: "\<not> (of_nat l :: u64) > ZIP_INT64_MAX" using ul(1) assms(3) by (simp add: word_less_nat_alt)
  have wrap: "\<not> (of_nat l + of_nat k :: u64) < of_nat l" by (rule of_nat_no_wrap) (use assms(3) in simp)
  have "unat (base + of_nat (l + k)) = unat base + (l + k)"
    using ul(2) assms(3,4) by (simp add: unat_word_ariths del: of_nat_add)
  then have past: "\<not> (of_nat l + of_nat k) > base + of_nat (l + k)" using ul(2) by (simp add: word_less_nat_alt)
  have sm: "buf_bytes b1 (unat (buf_offset b)) 4 \<noteq> EOCD64_MAGIC \<longleftrightarrow> False" using b1(2) by simp
  have d0: "(if (0 :: u32) = 0xffff then 0 else 0) = (0 :: u32)" by simp
  have z: "\<not> (flags AND ZIP_CHECKCONS \<noteq> 0 \<and> X)" for X using assms(5) by simp
  have zero: "\<not> ((0 :: u32) \<noteq> 0 \<or> (0 :: u32) \<noteq> 0)" by simp
  have nn: "\<not> (of_nat n :: u64) \<noteq> of_nat n" by simp
  have or: "\<not> (False \<or> False)" by simp
  show ?thesis
    unfolding read_eocd64_record_def Let_def b1(1) prod.case option.case sm if_False b2(1) b3(1) b4(1) b5(1) b6(1) b7(1) b8(1) b9(1)
      d0 if_not_P [OF z] if_not_P [OF zero] if_not_P [OF nn] ok not_True_eq_False
      iffD2 [OF eq_False big] iffD2 [OF eq_False wrap] if_not_P [OF or] if_not_P [OF past] cdir_new_blank [OF assms(2)]
    using ok by (simp add: cdir_blank_def)
qed

lemma read_eocd64_written:
  assumes b: "buf_from b (EOCD64LOC_MAGIC @ le32 0 @ le64 (of_nat (l + k)) @ R)"
    and "n < 2 ^ 58" "l + k < 2 ^ 62" "unat base \<le> l" "flags AND ZIP_CHECKCONS = 0"
    and d: "drop (l + k - unat base) (buf_data b) = EOCD64_MAGIC @ le64 44 @ le16 45 @ le16 45 @ le32 0 @ le32 0 @
      le64 (of_nat n) @ le64 (of_nat n) @ le64 (of_nat k) @ le64 (of_nat l) @ R2"
    and pos: "unat base + unat (buf_offset b) = l + k + 56" and sz: "unat base + unat (buf_size b) < 2 ^ 63"
  shows "zip_read_eocd64 malloc_ok src b base flags err = (Some (cdir_blank True n k l), src, err)"
proof -
  have loc: "length EOCD64LOC_MAGIC = 4" by simp
  obtain b1 where b1: "zip_buffer_get b 4 = (Some (unat (buf_offset b)), b1)" "buf_data b1 = buf_data b"
    "buf_from b1 (le16 0 @ le16 0 @ le64 (of_nat (l + k)) @ R)"
    using get_4_ex [OF b loc] unfolding get_16_pair append_assoc by blast
  obtain b2 where b2: "zip_buffer_get_16 b1 = (0, b2)" "buf_from b2 (le16 0 @ le64 (of_nat (l + k)) @ R)"
    using get_16_ex [OF b1(3)] by blast
  obtain b3 where b3: "zip_buffer_get_16 b2 = (0, b3)" "buf_from b3 (le64 (of_nat (l + k)) @ R)"
    using get_16_ex [OF b2(2)] by blast
  obtain b4 where b4: "zip_buffer_get_64 b3 = (of_nat (l + k), b4)" "buf_from b4 R" using get_64_ex [OF b3(2)] by blast
  have data: "buf_data b4 = buf_data b" "buf_size b4 = buf_size b"
    using get_keeps(1) [OF b1(1)] get_keeps(2) [OF b2(1)] get_keeps(2) [OF b3(1)] get_keeps(3) [OF b4(1)] by simp_all
  have wf: "wf_buf b" "buf_ok b" using b by (simp_all add: buf_from_def)
  have off: "zip_buffer_offset b = buf_offset b" using wf by (simp add: zip_buffer_offset_def)
  obtain w where w: "(of_nat (l + k) :: u64) = w" by blast
  have ul: "unat w = l + k" using assms(3) by (simp add: w [symmetric] unsigned_of_nat take_bit_nat_eq_self del: of_nat_add)
  have w56: "unat (w + 56) = l + k + 56" using ul assms(3) by (simp add: unat_word_ariths)
  have big: "\<not> (w > ZIP_INT64_MAX \<or> w + EOCD64LEN < w)" using ul w56 assms(3) by (simp add: word_less_nat_alt)
  have "buf_offset b + base = of_nat (l + k + 56)" unfolding word_arith_nat_add [of "buf_offset b"] using pos by (simp add: add.commute)
  then have sum: "buf_offset b + base = w + 56" using w by simp
  have len: "length (buf_data b) = unat (buf_size b)" using wf by (simp add: wf_buf_def)
  have "length (drop (l + k - unat base) (buf_data b)) \<ge> 56" unfolding d by (simp add: le16_def le32_def le64_def)
  then have fits: "l + k - unat base + 56 \<le> unat (buf_size b)" using len by simp
  have "unat (base + buf_size b) = unat base + unat (buf_size b)" using sz by (simp add: unat_word_ariths)
  then have inb: "base \<le> w \<and> w + EOCD64LEN \<le> base + zip_buffer_size b4"
    using fits ul w56 assms(4) by (simp add: word_le_nat_alt zip_buffer_size_def data(2))
  have rel: "unat (w - base) = l + k - unat base" using ul assms(4) by (simp add: unat_sub word_le_nat_alt)
  have "buf_from (snd (zip_buffer_set_offset b4 (w - base))) (drop (unat (w - base)) (buf_data b4))"
    by (rule set_offset_from) (use b4(2) fits rel data len in \<open>simp_all add: buf_from_def\<close>)
  then have rec: "buf_from (snd (zip_buffer_set_offset b4 (w - base))) (EOCD64_MAGIC @ le64 44 @ le16 45 @ le16 45 @ le32 0 @ le32 0 @
      le64 (of_nat n) @ le64 (of_nat n) @ le64 (of_nat k) @ le64 (of_nat l) @ R2)"
    unfolding rel data(1) d .
  have u0: "(ucast (0 :: u16) :: u32) = 0" by simp
  have nlt: "\<not> w + 56 > w + (56 :: u64)" by simp
  show ?thesis
    unfolding zip_read_eocd64_def Let_def b1(1) prod.case b2(1) b3(1) b4(1) w off sum if_not_P [OF big] if_not_P [OF nlt] if_P [OF inb] u0
      read_eocd64_record_written [OF rec assms(2-5), unfolded w]
    by (rule refl)
qed

section \<open>The entries\<close>

lemma take_drop_nth:
  assumes "take (Suc i) xs = take (Suc i) ys" "length xs = length ys" "i < length ys"
  shows "drop i xs = ys ! i # drop (Suc i) xs" "take i xs = take i ys"
proof -
  have "xs ! i = ys ! i" using assms(1) by (metis lessI nth_take)
  then show "drop i xs = ys ! i # drop (Suc i) xs" using assms(2,3) by (metis Cons_nth_drop_Suc)
  have "take i (take (Suc i) xs) = take i (take (Suc i) ys)" using assms(1) by simp
  then show "take i xs = take i ys" by (simp add: min_def)
qed

lemma of_nat_nonzero: "n < 2 ^ 64 \<Longrightarrow> n \<noteq> 0 \<Longrightarrow> (of_nat n :: u64) \<noteq> 0"
  by (simp add: word_unat_eq_iff unsigned_of_nat take_bit_nat_eq_self)

lemma read_cdir_loop_written:
  fixes src :: "'s zip_source"
  assumes "list_all2 (central_header ext TYPE('s zip_source)) des ds" "buf_from b (concat ds)" "i + length ds = length (cd_entry cd)"
    "length (concat ds) < 2 ^ 63"
  shows "\<exists>es b'. read_cdir_loop malloc_ok ext (Some b) cd i (of_nat (length (concat ds))) src err =
      (Some (cd\<lparr>cd_entry := es\<rparr>, length (cd_entry cd), 0), Some b', src, err) \<and> buf_from b' [] \<and>
    length es = length (cd_entry cd) \<and> take i es = take i (cd_entry cd) \<and>
    list_all2 (dirent_read_back ext ZIP_FL_CENTRAL) des (map (\<lambda>e. the (en_orig e)) (drop i es))"
  using assms
proof (induction arbitrary: b i cd rule: list_all2_induct)
  case Nil
  then show ?case
    by (intro exI [of _ "cd_entry cd"] exI [of _ b]) (simp add: read_cdir_loop.simps)
next
  case (Cons de des d ds)
  have d: "46 \<le> length d" using Cons.hyps(1) by (simp add: central_header_def)
  have i: "i < length (cd_entry cd)" using Cons.prems(2) by simp
  obtain r b1 where rd: "zip_dirent_read malloc_ok ext src (Some b) False err = (Some (r, int (length d)), Some b1, src, err)"
    "buf_from b1 (concat ds)" "dirent_read_back ext ZIP_FL_CENTRAL de r"
    using Cons.hyps(1) Cons.prems(1) unfolding central_header_def by fastforce
  define cd1 where "cd1 = cd\<lparr>cd_entry := (cd_entry cd)[i := (cd_entry cd ! i)\<lparr>en_orig := Some r\<rparr>]\<rparr>"
  have l1: "Suc i + length ds = length (cd_entry cd1)" "length (concat ds) < 2 ^ 63"
    using Cons.prems(2,3) by (simp_all add: cd1_def)
  from Cons.IH [OF rd(2) l1] obtain es b' where ih: "read_cdir_loop malloc_ok ext (Some b1) cd1 (Suc i) (of_nat (length (concat ds))) src err =
      (Some (cd1\<lparr>cd_entry := es\<rparr>, length (cd_entry cd1), 0), Some b', src, err)" "buf_from b' []"
    "length es = length (cd_entry cd1)" "take (Suc i) es = take (Suc i) (cd_entry cd1)"
    "list_all2 (dirent_read_back ext ZIP_FL_CENTRAL) des (map (\<lambda>e. the (en_orig e)) (drop (Suc i) es))" by blast
  have i1: "i < length (cd_entry cd1)" using i by (simp add: cd1_def)
  note td = take_drop_nth [OF ih(4,3) i1]
  have "length (concat (d # ds)) < 2 ^ 64" "length (concat (d # ds)) \<noteq> 0" using Cons.prems(3) d by auto
  then have ne: "\<not> (of_nat (length (concat (d # ds))) :: u64) = 0" by (rule of_nat_nonzero)
  have left: "(of_nat (length (concat (d # ds))) :: u64) - word_of_int (int (length d)) = of_nat (length (concat ds))" by simp
  have entry: "read_cdir_entry malloc_ok ext src (Some b) False err = (Some (r, int (length d)), Some b1, src, err)"
    using rd(1) by (simp add: read_cdir_entry_def)
  have ni: "\<not> length (cd_entry cd) \<le> i" using i by simp
  have "read_cdir_loop malloc_ok ext (Some b) cd i (of_nat (length (concat (d # ds)))) src err =
      read_cdir_loop malloc_ok ext (Some b1) cd1 (Suc i) (of_nat (length (concat ds))) src err"
    unfolding read_cdir_loop.simps [of malloc_ok ext "Some b"] if_not_P [OF ne] Let_def
    using ni entry left by (simp add: cd1_def)
  moreover have "length (cd_entry cd1) = length (cd_entry cd)" "take i (cd_entry cd1) = take i (cd_entry cd)"
    "en_orig (cd_entry cd1 ! i) = Some r" "cd1\<lparr>cd_entry := es\<rparr> = cd\<lparr>cd_entry := es\<rparr>"
    using i by (simp_all add: cd1_def)
  ultimately show ?case
    using ih td rd(3) by (intro exI [of _ es] exI [of _ b']) simp
qed

section \<open>The comment\<close>

lemma eocd_fields_split:
  "\<exists>h. length h = 20 \<and> fields_enc (eocd_fields n k l comment) = h @ le16 (zip_string_length comment) \<and> take 4 h = EOCD_MAGIC"
  by (intro exI [of _ "take 20 (fields_enc (eocd_fields n k l comment))"])
    (simp add: eocd_fields_def Let_def le16_def le32_def zip_string_length_def split: option.splits)

lemma read_cdir_comment_written:
  assumes wf: "wf_buf b" and d: "drop (unat e) (buf_data b) = fields_enc (eocd_fields n k l comment) @ str_bytes comment"
    and c: "str_wf comment" and sz: "unat (buf_size b) < 2 ^ 63"
  shows "\<exists>c. read_cdir_comment malloc_ok b e open_flags err = (Some c, err) \<and> str_shape c = str_shape comment"
proof -
  obtain h where h: "length h = 20" "fields_enc (eocd_fields n k l comment) = h @ le16 (zip_string_length comment)"
    using eocd_fields_split by blast
  have len: "length (buf_data b) = unat (buf_size b)" using wf by (simp add: wf_buf_def)
  have "length (buf_data b) - unat e = 22 + length (str_bytes comment)"
    using arg_cong [OF d, of length] h by (simp add: le16_def)
  then have fits: "unat e + 22 + length (str_bytes comment) = length (buf_data b)" by simp
  have u: "unat (e + 20) = unat e + 20" "unat (e + EOCDLEN) = unat e + 22"
    using fits len sz by (simp_all add: unat_word_ariths)
  have drops: "drop (unat (e + 20)) (buf_data b) = le16 (zip_string_length comment) @ str_bytes comment"
    "drop (unat (e + EOCDLEN)) (buf_data b) = str_bytes comment"
    unfolding u drop_drop [symmetric] add.commute [of "unat e"] d h(2) using h(1) by (simp_all add: le16_def)
  let ?b = "snd (zip_buffer_set_offset b (e + 20))"
  have b1: "buf_from ?b (le16 (zip_string_length comment) @ str_bytes comment)" "wf_buf ?b"
    using set_offset_from(1,3) [OF wf, of "e + 20"] u fits drops by simp_all
  obtain b2 where b2: "zip_buffer_get_16 ?b = (zip_string_length comment, b2)" "buf_from b2 (str_bytes comment)"
    using get_16_ex [OF b1(1)] by blast
  have data: "buf_data b2 = buf_data b" using get_keeps(2) [OF b2(1)] by simp
  have wf2: "wf_buf b2" using b2(2) by (simp add: buf_from_def)
  have b3: "buf_from (snd (zip_buffer_set_offset b2 (e + EOCDLEN))) (str_bytes comment)"
    using set_offset_from(1) [OF wf2, of "e + EOCDLEN"] u fits drops data by simp
  obtain b4 where b4: "snd (zip_buffer_set_offset b2 (e + EOCDLEN)) = b4" by blast
  have sh: "length (str_bytes comment) = unat (zip_string_length comment)"
    "str_shape comment = (if zip_string_length comment = 0 then None else Some (str_bytes comment, zip_string_length comment))"
    using str_wf_shape [OF c] by simp_all
  have left: "zip_buffer_left b4 = ucast (zip_string_length comment)"
    using zip_buffer_left_eq [of b4] b3 sh(1) unfolding b4 by (simp add: buf_from_def word_unat_eq_iff unsigned_ucast_eq)
  show ?thesis
  proof (cases "zip_string_length comment = 0")
    case True
    moreover have "str_shape None = None" by (simp add: str_shape_def)
    ultimately show ?thesis using b2(1) b4 left sh by (auto simp: read_cdir_comment_def Let_def)
  next
    case False
    have g: "zip_buffer_get b4 (ucast (zip_string_length comment)) = (Some (unat (buf_offset b4)), x) \<Longrightarrow>
        buf_bytes x (unat (buf_offset b4)) (unat (zip_string_length comment)) = str_bytes comment" for x
      using zip_buffer_get_from(3) [of b4 "str_bytes comment" "[]" "ucast (zip_string_length comment)"] b3 sh(1) unfolding b4
      by simp
    obtain x where x: "zip_buffer_get b4 (ucast (zip_string_length comment)) = (Some (unat (buf_offset b4)), x)"
      using zip_buffer_get_from(1) [of b4 "str_bytes comment" "[]" "ucast (zip_string_length comment)"] b3 sh(1) unfolding b4
      by (cases "zip_buffer_get b4 (ucast (zip_string_length comment))") auto
    have "zip_string_new malloc_ok (str_bytes comment) (zip_string_length comment) ZIP_FL_ENC_GUESS err =
        (Some \<lparr>str_raw = str_bytes comment, str_length = zip_string_length comment, str_encoding = ZIP_ENCODING_UNKNOWN,
           str_converted = None, str_converted_length = 0\<rparr>, err)"
      using False sh(1) by (simp add: zip_string_new_def expected_encoding_def Let_def)
    then show ?thesis using False b2(1) b4 left sh x g [OF x]
      by (auto simp: read_cdir_comment_def Let_def str_shape_def)
  qed
qed

section \<open>The directory\<close>

text \<open>A buffer over the end of a file, at the record that ends it.\<close>

definition tail_buffer :: "zip_buffer \<Rightarrow> u64 \<Rightarrow> bytes \<Rightarrow> nat \<Rightarrow> bool" where
  "tail_buffer b base file pos \<longleftrightarrow> wf_buf b \<and> buf_ok b \<and> buf_data b = drop (unat base) file \<and>
     unat base + unat (buf_offset b) = pos \<and> unat base \<le> length file"

text \<open>Without the zip64 records, the bytes before the record must not look like their locator.\<close>

definition no_locator :: "bytes \<Rightarrow> nat \<Rightarrow> bool" where
  "no_locator file pos \<longleftrightarrow> pos < 20 \<or> take 4 (drop (pos - 20) file) \<noteq> EOCD64LOC_MAGIC"

lemma cdir_start_written:
  assumes "wf_buf b" "buf_data b = drop (unat base) (p @ d @ t)" "unat base \<le> length p" "length (p @ d @ t) < 2 ^ 62"
    "cd_offset cd = of_nat (length p)" "cd_size cd = of_nat (length d)"
  shows "\<exists>b'. read_cdir_start malloc_ok src b base cd err = (Some (Some b'), src, err) \<and> buf_from b' d"
proof -
  have u: "unat (of_nat (length p) :: u64) = length p" "unat (of_nat (length d) :: u64) = length d"
    using assms(4) by (simp_all add: unsigned_of_nat take_bit_nat_eq_self)
  let ?w = "of_nat (length p) :: u64"
  have ge: "?w \<ge> base" using u assms(3) by (simp add: word_le_nat_alt)
  then have rel: "unat (?w - base) = length p - unat base" using u by (simp add: unat_sub)
  have drops: "drop (unat (?w - base)) (buf_data b) = d @ t" unfolding rel assms(2) using assms(3) by simp
  have fits: "unat (?w - base) \<le> length (buf_data b)" unfolding rel assms(2) by simp
  have b1: "buf_from (snd (zip_buffer_set_offset b (?w - base))) (d @ t)"
    using set_offset_from(1) [OF assms(1) fits] unfolding drops .
  obtain b2 where b2: "snd (zip_buffer_set_offset b (?w - base)) = b2" by blast
  obtain x where x: "zip_buffer_get b2 (of_nat (length d)) = (Some (unat (buf_offset b2)), x)" "buf_bytes x (unat (buf_offset b2)) (length d) = d"
    using zip_buffer_get_from [OF b1 [unfolded b2], of "of_nat (length d)"] u by (cases "zip_buffer_get b2 (of_nat (length d))") auto
  obtain b' where b': "zip_buffer_new malloc_ok (Some d) (of_nat (length d)) = Some b'" by (simp add: zip_buffer_new_def)
  have "buf_from b' d" using zip_buffer_new_wf(5) [OF b', of d] u by simp
  then show ?thesis using ge b2 x b' u by (simp add: read_cdir_start_def assms(5,6))
qed

text \<open>The size and position of the records.\<close>

definition eocd_position :: "bool \<Rightarrow> nat \<Rightarrow> nat \<Rightarrow> nat" where
  "eocd_position z k l = l + k + (if z then 76 else 0)"

lemma cdir_tail_split:
  "cdir_tail z n k l comment = (if z then EOCD64_MAGIC @ le64 44 @ le16 45 @ le16 45 @ le32 0 @ le32 0 @
      le64 (of_nat n) @ le64 (of_nat n) @ le64 (of_nat k) @ le64 (of_nat l) @ EOCD64LOC_MAGIC @ le32 0 @
      le64 (of_nat (l + k)) @ le32 1 else []) @
    fields_enc (eocd_fields (of_nat n) (of_nat k) (of_nat l) comment) @ str_bytes comment"
  by (simp add: cdir_tail_def eocd64_fields_def)

lemma drop_file:
  assumes "unat base \<le> m" "m \<le> length p" 
  shows "drop (m - unat base) (drop (unat base) (p @ q)) = drop m p @ q"
  using assms by simp

lemma read_end_record_written:
  assumes fl: "file = p @ d @ cdir_tail z n (length d) (length p) comment"
    and tb: "tail_buffer b base file (eocd_position z (length d) (length p))" and base: "unat base \<le> length p"
    and small: "length file < 2 ^ 62" "n < 2 ^ 58" "flags AND ZIP_CHECKCONS = 0"
    and n64: "\<not> z \<longrightarrow> n \<le> 0xffff \<and> length d \<le> 0xffffffff \<and> length p \<le> 0xffffffff \<and>
      no_locator file (eocd_position z (length d) (length p))"
    and b1: "buf_data b1 = buf_data b" "buf_size b1 = buf_size b" "wf_buf b1"
  shows "(if buf_offset b \<ge> EOCD64LOCLEN \<and> buf_bytes b1 (unat (buf_offset b - EOCD64LOCLEN)) 4 = EOCD64LOC_MAGIC
     then zip_read_eocd64 malloc_ok src (snd (zip_buffer_set_offset b1 (buf_offset b - EOCD64LOCLEN))) base flags err
     else case zip_read_eocd malloc_ok (snd (zip_buffer_set_offset b1 (buf_offset b))) base flags err of
            (cd, err) \<Rightarrow> (cd, src, err)) = (Some (cdir_blank z n (length d) (length p)), src, err)"
proof -
  have pos: "unat base + unat (buf_offset b) = eocd_position z (length d) (length p)" "buf_data b = drop (unat base) file"
    using tb by (simp_all add: tail_buffer_def)
  have sz: "unat base + unat (buf_size b) < 2 ^ 63" using tb small(1) by (auto simp: tail_buffer_def wf_buf_def)
  show ?thesis
  proof (cases z)
    case True
    let ?e = "unat (buf_offset b)"
    have ge: "?e \<ge> 76" using pos(1) base True by (simp add: eocd_position_def)
    then have ge20: "buf_offset b \<ge> EOCD64LOCLEN" "unat (buf_offset b - EOCD64LOCLEN) = ?e - 20"
      by (simp_all add: word_le_nat_alt unat_sub)
    have e20: "?e - 20 = (length p + length d + 56) - unat base" using pos(1) base True by (simp add: eocd_position_def)
    have loc: "drop (?e - 20) (buf_data b1) = EOCD64LOC_MAGIC @ le32 0 @ le64 (of_nat (length p + length d)) @ le32 1 @
        fields_enc (eocd_fields (of_nat n) (of_nat (length d)) (of_nat (length p)) comment) @ str_bytes comment"
      using base True unfolding e20 b1(1) pos(2) fl cdir_tail_split
      by (simp add: le16_def le32_def le64_def)
    have rec: "drop (length p + length d - unat base) (buf_data b1) = EOCD64_MAGIC @ le64 44 @ le16 45 @ le16 45 @ le32 0 @ le32 0 @
        le64 (of_nat n) @ le64 (of_nat n) @ le64 (of_nat (length d)) @ le64 (of_nat (length p)) @ EOCD64LOC_MAGIC @ le32 0 @
        le64 (of_nat (length p + length d)) @ le32 1 @
        fields_enc (eocd_fields (of_nat n) (of_nat (length d)) (of_nat (length p)) comment) @ str_bytes comment"
      using base True unfolding b1(1) pos(2) fl cdir_tail_split by simp
    have isloc: "buf_bytes b1 (unat (buf_offset b - EOCD64LOCLEN)) 4 = EOCD64LOC_MAGIC"
      unfolding ge20(2) buf_bytes_def loc by simp
    let ?b2 = "snd (zip_buffer_set_offset b1 (buf_offset b - EOCD64LOCLEN))"
    have fits: "unat (buf_offset b - EOCD64LOCLEN) \<le> length (buf_data b1)"
      using arg_cong [OF loc, of length] unfolding ge20(2) by simp
    note so = set_offset_from [OF b1(3) fits]
    have frm: "buf_from ?b2 (EOCD64LOC_MAGIC @ le32 0 @ le64 (of_nat (length p + length d)) @ le32 1 @
        fields_enc (eocd_fields (of_nat n) (of_nat (length d)) (of_nat (length p)) comment) @ str_bytes comment)"
      using so(1) unfolding ge20(2) loc .
    have d2: "drop (length p + length d - unat base) (buf_data ?b2) = EOCD64_MAGIC @ le64 44 @ le16 45 @ le16 45 @ le32 0 @ le32 0 @
        le64 (of_nat n) @ le64 (of_nat n) @ le64 (of_nat (length d)) @ le64 (of_nat (length p)) @ EOCD64LOC_MAGIC @ le32 0 @
        le64 (of_nat (length p + length d)) @ le32 1 @
        fields_enc (eocd_fields (of_nat n) (of_nat (length d)) (of_nat (length p)) comment) @ str_bytes comment"
      using rec by simp
    have k: "length p + length d < 2 ^ 62" using small(1) by (simp add: fl)
    have p2: "unat base + unat (buf_offset ?b2) = length p + length d + 56"
      unfolding so(2) ge20(2) using ge pos(1) True by (simp add: eocd_position_def)
    have s2: "unat base + unat (buf_size ?b2) < 2 ^ 63" using sz b1(2) by (simp add: zip_buffer_set_offset_def)
    show ?thesis
      using read_eocd64_written [OF frm small(2) k base small(3) d2 p2 s2, of src err] ge20(1) isloc True by simp
  next
    case False
    have e: "unat (buf_offset b) = length p + length d - unat base" using pos(1) base False by (simp add: eocd_position_def)
    have eo: "drop (unat (buf_offset b)) (buf_data b1) =
        fields_enc (eocd_fields (of_nat n) (of_nat (length d)) (of_nat (length p)) comment) @ str_bytes comment"
      using base False unfolding e b1(1) pos(2) fl cdir_tail_split by simp
    have fits: "unat (buf_offset b) \<le> length (buf_data b1)" using base unfolding e b1(1) pos(2) fl by simp
    note so = set_offset_from [OF b1(3) fits]
    have frm: "buf_from (snd (zip_buffer_set_offset b1 (buf_offset b)))
        (fields_enc (eocd_fields (of_nat n) (of_nat (length d)) (of_nat (length p)) comment) @ str_bytes comment)"
      using so(1) unfolding eo .
    have no: "\<not> (buf_offset b \<ge> EOCD64LOCLEN \<and> buf_bytes b1 (unat (buf_offset b - EOCD64LOCLEN)) 4 = EOCD64LOC_MAGIC)"
    proof
      assume l: "buf_offset b \<ge> EOCD64LOCLEN \<and> buf_bytes b1 (unat (buf_offset b - EOCD64LOCLEN)) 4 = EOCD64LOC_MAGIC"
      then have "unat (buf_offset b - EOCD64LOCLEN) = unat (buf_offset b) - 20" "unat (buf_offset b) \<ge> 20"
        by (simp_all add: word_le_nat_alt unat_sub)
      moreover have "unat base + unat (buf_offset b) = length p + length d" using pos(1) False by (simp add: eocd_position_def)
      ultimately have "buf_bytes b1 (unat (buf_offset b - EOCD64LOCLEN)) 4 = take 4 (drop (length p + length d - 20) file)"
        "length p + length d \<ge> 20"
        unfolding buf_bytes_def b1(1) pos(2) by (simp_all add: algebra_simps)
      then show False using l n64 False by (simp add: no_locator_def eocd_position_def)
    qed
    have lim: "n \<le> 0xffff" "length d \<le> 0xffffffff" "length p \<le> 0xffffffff" using n64 False by simp_all
    have p1: "unat base + unat (buf_offset (snd (zip_buffer_set_offset b1 (buf_offset b)))) = length p + length d"
      unfolding so(2) using pos(1) False by (simp add: eocd_position_def)
    show ?thesis unfolding if_not_P [OF no] read_eocd_written [OF frm lim p1] using False by simp
  qed
qed

lemma zip_read_cdir_written:
  fixes src :: "'s zip_source"
  assumes hs: "list_all2 (central_header ext TYPE('s zip_source)) des ds" and c: "str_wf comment"
    and fl: "file = p @ concat ds @ cdir_tail z (length ds) (length (concat ds)) (length p) comment"
    and tb: "tail_buffer b base file (eocd_position z (length (concat ds)) (length p))" and base: "unat base \<le> length p"
    and small: "length file < 2 ^ 62" "length ds < 2 ^ 58" "flags AND ZIP_CHECKCONS = 0"
    and n64: "\<not> z \<longrightarrow> length ds \<le> 0xffff \<and> length (concat ds) \<le> 0xffffffff \<and> length p \<le> 0xffffffff \<and>
      no_locator file (eocd_position z (length (concat ds)) (length p))"
  shows "\<exists>es cm. zip_read_cdir malloc_ok ext src flags open_flags b base err =
      (Some ((cdir_blank z (length ds) (length (concat ds)) (length p))\<lparr>cd_entry := es, cd_comment := cm\<rparr>), src, err) \<and>
    list_all2 (dirent_read_back ext ZIP_FL_CENTRAL) des (map (\<lambda>e. the (en_orig e)) es) \<and> str_shape cm = str_shape comment"
proof -
  let ?d = "concat ds"
  let ?e = "buf_offset b"
  have wf: "wf_buf b" "buf_ok b" "buf_data b = drop (unat base) file" and pos: "unat base + unat ?e = eocd_position z (length ?d) (length p)"
    and bl: "unat base \<le> length file"
    using tb by (simp_all add: tail_buffer_def)
  have off: "zip_buffer_offset b = ?e" using wf by (simp add: zip_buffer_offset_def)
  have ue: "unat ?e = eocd_position z (length ?d) (length p) - unat base" using pos by simp
  have eo: "drop (unat ?e) (buf_data b) =
      fields_enc (eocd_fields (of_nat (length ds)) (of_nat (length ?d)) (of_nat (length p)) comment) @ str_bytes comment"
    using base unfolding ue wf(3) fl cdir_tail_split by (simp add: eocd_position_def le16_def le32_def le64_def)
  obtain h where h: "length h = 20" "take 4 h = EOCD_MAGIC"
    "fields_enc (eocd_fields (of_nat (length ds)) (of_nat (length ?d)) (of_nat (length p)) comment) = h @ le16 (zip_string_length comment)"
    using eocd_fields_split by blast
  have rest: "buf_from b (h @ le16 (zip_string_length comment) @ str_bytes comment)"
    using wf eo h(3) by (simp add: buf_from_def buf_rest_def)
  have left: "\<not> zip_buffer_left b < EOCDLEN" by (rule left_at_least [OF rest]) (simp add: h(1) le16_def)
  have h4: "h = EOCD_MAGIC @ drop 4 h" using h(2) append_take_drop_id [of 4 h] by simp
  have "buf_from b (EOCD_MAGIC @ drop 4 h @ le16 (zip_string_length comment) @ str_bytes comment)"
    using rest h4 by (metis append_assoc)
  from get_4_ex [OF this] obtain b1 where b1: "zip_buffer_get b 4 = (Some (unat ?e), b1)" "buf_bytes b1 (unat ?e) 4 = EOCD_MAGIC"
    "buf_data b1 = buf_data b" "wf_buf b1" by (auto simp: buf_from_def)
  have size1: "buf_size b1 = buf_size b" using get_keeps(1) [OF b1(1)] by simp
  note rec = read_end_record_written [OF fl tb base small n64 b1(3) size1 b1(4), where src = src and err = err]
  let ?cd = "cdir_blank z (length ds) (length ?d) (length p) :: 's zip_cdir"
  have eo1: "drop (unat ?e) (buf_data b1) =
      fields_enc (eocd_fields (of_nat (length ds)) (of_nat (length ?d)) (of_nat (length p)) comment) @ str_bytes comment"
    using eo b1(3) by simp
  have sz: "unat (buf_size b1) < 2 ^ 63" using wf bl small(1) size1 by (auto simp: wf_buf_def)
  obtain cm where cm: "read_cdir_comment malloc_ok b1 ?e open_flags err = (Some cm, err)" "str_shape cm = str_shape comment"
    using read_cdir_comment_written [OF b1(4) eo1 c sz] by blast
  have data1: "buf_data b1 = drop (unat base) (p @ ?d @ cdir_tail z (length ds) (length ?d) (length p) comment)"
    using b1(3) wf(3) fl by simp
  have small1: "length (p @ ?d @ cdir_tail z (length ds) (length ?d) (length p) comment) < 2 ^ 62" using small(1) fl by simp
  obtain cb where cb: "read_cdir_start malloc_ok src b1 base (?cd\<lparr>cd_comment := cm\<rparr>) err = (Some (Some cb), src, err)" "buf_from cb ?d"
    using cdir_start_written [OF b1(4) data1 base small1, of "?cd\<lparr>cd_comment := cm\<rparr>" src err] by (auto simp: cdir_blank_def)
  have ld: "length ?d < 2 ^ 63" "0 + length ds = length (cd_entry (?cd\<lparr>cd_comment := cm\<rparr>))" using small1 by (simp_all add: cdir_blank_def)
  obtain es cb' where lp: "read_cdir_loop malloc_ok ext (Some cb) (?cd\<lparr>cd_comment := cm\<rparr>) 0 (of_nat (length ?d)) src err =
      (Some (?cd\<lparr>cd_comment := cm\<rparr>\<lparr>cd_entry := es\<rparr>, length ds, 0), Some cb', src, err)" "buf_from cb' []" "length es = length ds"
    "list_all2 (dirent_read_back ext ZIP_FL_CENTRAL) des (map (\<lambda>e. the (en_orig e)) es)"
    using read_cdir_loop_written [OF hs cb(2) ld(2,1), of src err] by (auto simp: cdir_blank_def)
  have eof: "zip_buffer_eof cb'" using lp(2) zip_buffer_eof_eq [of cb'] by (simp add: buf_from_def)
  have chk: "read_cdir_check open_flags (?cd\<lparr>cd_comment := cm\<rparr>\<lparr>cd_entry := es\<rparr>) (Some cb') src err = (True, src, err)"
    using eof by (simp add: read_cdir_check_def)
  have ul: "unat (of_nat (length p + length ?d) :: u64) = length p + length ?d"
    using small1 by (simp add: unsigned_of_nat take_bit_nat_eq_self del: of_nat_add)
  have "unat (base + ?e) = eocd_position z (length ?d) (length p)"
    using pos small1 by (simp add: unat_word_ariths eocd_position_def cdir_tail_split)
  then have past: "\<not> cd_offset ?cd + cd_size ?cd > base + ?e"
    using ul by (simp add: cdir_blank_def word_less_nat_alt eocd_position_def)
  have m: "(case Some (unat ?e) of None \<Rightarrow> True | Some q \<Rightarrow> buf_bytes b1 q 4 \<noteq> EOCD_MAGIC) = False" using b1(2) by simp
  have size: "cd_size (?cd\<lparr>cd_comment := cm\<rparr>) = of_nat (length ?d)" by (simp add: cdir_blank_def)
  have "zip_read_cdir malloc_ok ext src flags open_flags b base err = (Some (?cd\<lparr>cd_comment := cm\<rparr>\<lparr>cd_entry := es\<rparr>), src, err)"
    unfolding zip_read_cdir_def Let_def off if_not_P [OF left] b1(1) prod.case m if_False rec option.case if_not_P [OF past] cm(1)
      cb(1) size lp(1) chk
    using lp(3) b1(2) by simp
  then show ?thesis using lp(4) cm(2) by (intro exI [of _ es] exI [of _ cm]) simp
qed

end
