(* ===== verification/Zip_Cdir_Facts.thy ===== *)
theory Zip_Cdir_Facts
  imports Zip_Cdir_Read Zip_Layers Zip_Open_Facts
begin

text \<open>
  A directory that is written at the end of a file is found there again: the search for the end record, over any
  source that can be positioned, and the round trip.
\<close>

section \<open>The search\<close>

lemma memmem_only:
  assumes "length little = 4" "take 4 (drop k big) = little" "\<forall>j. j \<noteq> k \<longrightarrow> take 4 (drop j big) \<noteq> little"
  shows "zip_memmem big little = Some k"
proof -
  have ne: "little \<noteq> []" using assms(1) by auto
  have "length (take 4 (drop k big)) = 4" using assms(1,2) by simp
  then have len: "\<not> length big < length little" using assms(1) by simp
  obtain i where i: "memmem_from big little 0 = Some i"
    using memmem_from_None [of big little 0 k] ne assms(1,2) by (cases "memmem_from big little 0") auto
  then have "take 4 (drop i big) = little" using memmem_from_Some [OF i ne] assms(1) by simp
  then have "i = k" using assms(3) by blast
  then show ?thesis using i len ne by (simp add: zip_memmem_def)
qed

lemma memmem_none:
  assumes "length little = 4" "\<forall>j. take 4 (drop j big) \<noteq> little"
  shows "zip_memmem big little = None"
proof (cases "memmem_from big little 0")
  case None
  then show ?thesis by (simp add: zip_memmem_def)
next
  case (Some i)
  have "little \<noteq> []" using assms(1) by auto
  then show ?thesis using memmem_from_Some [OF Some] assms by simp
qed

text \<open>Within a window, the magic number is where it is in the file.\<close>

lemma window_magic:
  assumes "take 4 (drop j (take n (drop m (drop base file)))) = EOCD_MAGIC"
  shows "take 4 (drop (base + m + j) file) = EOCD_MAGIC \<and> j + 4 \<le> n"
proof -
  have l: "length (take 4 (drop j (take n (drop m (drop base file))))) = 4" unfolding assms by simp
  then have j: "j + 4 \<le> n" by simp
  have "take 4 (drop j (take n (drop m (drop base file)))) = take 4 (drop j (drop m (drop base file)))"
    using j by (simp add: drop_take)
  then show ?thesis using assms j by (simp add: add.commute add.left_commute)
qed

lemma u64_of_nat: "n < 2 ^ 64 \<Longrightarrow> unat (of_nat n :: u64) = n"
  by (simp add: unsigned_of_nat take_bit_nat_eq_self)

lemma find_cdir_loop_unique:
  assumes b: "wf_buf b" "buf_ok b" "buf_data b = drop (unat base) file" "unat (buf_offset b) = m" "unat base \<le> length file"
    and pos: "unat base + m \<le> pos" "pos + 22 \<le> length file" "take 4 (drop pos file) = EOCD_MAGIC"
    and uniq: "\<forall>j. unat base + m \<le> j \<and> j \<noteq> pos \<longrightarrow> take 4 (drop j file) \<noteq> EOCD_MAGIC"
    and rd: "\<And>b. tail_buffer b base file pos \<Longrightarrow> \<exists>cd. zip_read_cdir mem ext src flags open_flags b base err = (Some cd, src, err) \<and> Q cd"
    and cc: "open_flags AND ZIP_CHECKCONS = 0"
  shows "\<exists>cd. find_cdir_loop mem ext flags open_flags base b m None (-1) src err = (Some cd, 0, src, err) \<and> Q cd"
proof -
  have len: "length (buf_data b) = unat (buf_size b)" using b(1) by (simp add: wf_buf_def)
  have sz: "unat (buf_size b) = length file - unat base" using len b(3) by simp
  let ?k = "pos - (unat base + m)"
  have left: "unat (zip_buffer_left b) = length file - unat base - m"
    using zip_buffer_left_eq [OF b(1)] b(2,3,4) by (simp add: buf_rest_def)
  then have w: "unat (zip_buffer_left b - (EOCDLEN - 4)) = length file - unat base - m - 18"
    using pos by (simp add: unat_sub word_le_nat_alt)
  let ?big = "take (length file - unat base - m - 18) (drop m (drop (unat base) file))"
  have at: "take 4 (drop ?k ?big) = EOCD_MAGIC"
  proof -
    have "take 4 (drop ?k ?big) = take 4 (drop ?k (drop m (drop (unat base) file)))"
      using pos(1,2) by (simp add: drop_take)
    also have "\<dots> = take 4 (drop pos file)" using pos(1) by (simp add: add.commute add.left_commute)
    finally show ?thesis using pos(3) by simp
  qed
  have only: "\<forall>j. j \<noteq> ?k \<longrightarrow> take 4 (drop j ?big) \<noteq> EOCD_MAGIC"
  proof (intro allI impI notI)
    fix j assume j: "j \<noteq> ?k" "take 4 (drop j ?big) = EOCD_MAGIC"
    have "take 4 (drop (unat base + m + j) file) = EOCD_MAGIC" using window_magic [OF j(2)] by simp
    then have "unat base + m + j = pos" using uniq by (metis le_add1)
    then show False using j(1) by simp
  qed
  have mm: "zip_memmem (take (unat (zip_buffer_left b - (EOCDLEN - 4))) (drop m (buf_data b))) EOCD_MAGIC = Some ?k"
    unfolding w b(3) by (rule memmem_only [OF _ at only]) simp
  have mk: "m + ?k = pos - unat base" using pos(1) by simp
  have pw: "unat (of_nat (pos - unat base) :: u64) = pos - unat base"
    using pos(2) sz unat_bounds(4) [of "buf_size b"] by (simp add: unsigned_of_nat take_bit_nat_eq_self)
  let ?b1 = "snd (zip_buffer_set_offset b (of_nat (pos - unat base)))"
  have f1: "unat (of_nat (pos - unat base) :: u64) \<le> length (buf_data b)" using pw pos(2) b(3) by simp
  note so1 = set_offset_from [OF b(1) f1]
  have "tail_buffer ?b1 base file pos"
    using so1(2-4) pw b(3,5) pos(1) by (simp add: tail_buffer_def)
  then obtain cd where cd: "zip_read_cdir mem ext src flags open_flags ?b1 base err = (Some cd, src, err)" "Q cd" using rd by blast
  have pw1: "unat (of_nat (pos - unat base + 1) :: u64) = pos - unat base + 1"
    by (rule u64_of_nat) (use pos sz unat_bounds(4) [of "buf_size b"] in simp)
  let ?b2 = "snd (zip_buffer_set_offset ?b1 (of_nat (pos - unat base + 1)))"
  have f2: "unat (of_nat (pos - unat base + 1) :: u64) \<le> length (buf_data ?b1)" using pw1 pos b(3) by simp
  note so2 = set_offset_from [OF so1(3) f2]
  have left2: "unat (zip_buffer_left ?b2) = length file - unat base - (pos - unat base + 1)"
    using zip_buffer_left_eq [OF so2(3)] so2(2,4) pw1 b(3) by (simp add: buf_rest_def add.commute)
  then have w2: "unat (zip_buffer_left ?b2 - (EOCDLEN - 4)) = length file - unat base - (pos - unat base + 1) - 18"
    using pos by (simp add: unat_sub word_le_nat_alt)
  have "\<forall>j. take 4 (drop j (take (length file - unat base - (pos - unat base + 1) - 18)
      (drop (pos - unat base + 1) (drop (unat base) file)))) \<noteq> EOCD_MAGIC"
  proof (intro allI notI)
    fix j assume "take 4 (drop j (take (length file - unat base - (pos - unat base + 1) - 18)
      (drop (pos - unat base + 1) (drop (unat base) file)))) = EOCD_MAGIC"
    from window_magic [OF this] have "take 4 (drop (unat base + (pos - unat base + 1) + j) file) = EOCD_MAGIC" by simp
    moreover have "unat base + m \<le> unat base + (pos - unat base + 1) + j" "unat base + (pos - unat base + 1) + j \<noteq> pos"
      using pos(1) by simp_all
    ultimately show False using uniq by blast
  qed
  then have mm2: "zip_memmem (take (unat (zip_buffer_left ?b2 - (EOCDLEN - 4))) (drop (pos - unat base + 1) (buf_data ?b2))) EOCD_MAGIC = None"
    unfolding w2 using b(3) by (intro memmem_none) simp_all
  have "find_cdir_loop mem ext flags open_flags base b m None (-1) src err =
      find_cdir_loop mem ext flags open_flags base ?b2 (pos - unat base + 1) (Some cd) 0 src err"
    unfolding find_cdir_loop.simps [of mem ext flags open_flags base b m] mm option.case Let_def mk cd(1) prod.case
    using cc by (simp add: cdir_better_def)
  also have "\<dots> = (Some cd, 0, src, err)"
    unfolding find_cdir_loop.simps [of mem ext flags open_flags base ?b2] mm2 by simp
  finally show ?thesis using cd(2) by blast
qed

section \<open>Finding the directory of a source\<close>

text \<open>A source over a fixed content that can also be positioned from its end and knows where it is.\<close>

locale tail_source = seekable_source +
  assumes end_law: "good s \<Longrightarrow> n \<le> length content \<Longrightarrow>
      \<exists>s'. cb s (ZIP_SOURCE_SEEK (- int n) SEEK_END) = ((0, No_data), s') \<and> good s' \<and> rest s' = drop (length content - n) content"
    and where_law: "good s \<Longrightarrow> rest s = drop k content \<Longrightarrow> k \<le> length content \<Longrightarrow>
      cb s ZIP_SOURCE_TELL = ((int k, No_data), s)"
begin

lemma seek_end_delivers:
  assumes "held cb good src" "n \<le> length content"
  obtains src' where "zip_source_seek src (- int n) SEEK_END = (0, src')" "src_supports src' = src_supports src"
    "held cb good src'" "src_delivers good rest src' (drop (length content - n) content)"
proof -
  have h: "src_cb src = cb" "good (src_ud src)" "ZIP_SOURCE_IS_OPEN_READING src" "\<not> src_source_closed src"
    "\<not> src_had_read_error src" "src_supports src AND 0x7f = 0x7f"
    using assms(1) by (simp_all add: held_def)
  have can: "src_supports src AND 0x40 \<noteq> 0" "src_supports src AND 2 \<noteq> 0" using seekable_bits [OF h(6)] by simp_all
  obtain s' where s': "cb (src_ud src) (ZIP_SOURCE_SEEK (- int n) SEEK_END) = ((0, No_data), s')" "good s'"
    "rest s' = drop (length content - n) content"
    using end_law [OF h(2) assms(2)] by blast
  show ?thesis
    by (intro that [of "src\<lparr>src_ud := s', src_eof := False\<rparr>"])
      (use h s' can in \<open>simp_all add: zip_source_seek_def zip_source_call_def src_invoke_def src_delivers_def src_can_def
         ZIP_SOURCE_IS_OPEN_READING_def ZIP_SOURCE_MAKE_COMMAND_BITMASK_def held_def\<close>)
qed

lemma tell_position:
  assumes "held cb good src" "src_delivers good rest src (drop k content)" "k \<le> length content" "src_can src ZIP_SOURCE_TELL"
  shows "zip_source_tell src = (int k, src)"
proof -
  have "cb (src_ud src) ZIP_SOURCE_TELL = ((int k, No_data), src_ud src)"
    using where_law [of "src_ud src" k] assms(2,3) by (simp add: src_delivers_def)
  then show ?thesis using assms(1,4)
    by (simp add: zip_source_tell_def held_def zip_source_call_def src_invoke_def)
qed

text \<open>The search sees the last 65578 bytes; the record is the only one in them.\<close>

lemma find_central_dir_unique:
  assumes h: "held cb good src" and can: "src_can src ZIP_SOURCE_TELL" and small: "length content < 2 ^ 62"
    and pos: "pos + 22 \<le> length content" "take 4 (drop pos content) = EOCD_MAGIC" "length content - 65558 \<le> pos"
    and uniq: "\<forall>j. length content - 65578 \<le> j \<and> j \<noteq> pos \<longrightarrow> take 4 (drop j content) \<noteq> EOCD_MAGIC"
    and rd: "\<And>b base src err. tail_buffer b base content pos \<Longrightarrow> unat base = length content - 65578 \<Longrightarrow>
      \<exists>cd. zip_read_cdir malloc_ok ext src flags open_flags b base err = (Some cd, src, err) \<and> Q cd"
    and cc: "open_flags AND ZIP_CHECKCONS = 0"
  shows "\<exists>cd src'. zip_find_central_dir malloc_ok ext src flags open_flags (of_nat (length content)) err = (Some cd, src', err) \<and> Q cd"
proof -
  let ?len = "of_nat (length content) :: u64"
  have ul: "unat ?len = length content" by (rule u64_of_nat) (use small in simp)
  have l22: "\<not> ?len < EOCDLEN" using ul pos(1) by (simp add: word_less_nat_alt)
  define n where "n = min (length content) 65578"
  define buflen where "buflen = (if ?len < CDBUFSIZE then ?len else CDBUFSIZE)"
  have un: "unat buflen = n" using ul by (auto simp: buflen_def n_def word_less_nat_alt min_def)
  have uintn: "uint buflen = int n" using un by (metis uint_nat)
  have nl: "n \<le> length content" by (simp add: n_def)
  obtain s1 where s1: "zip_source_seek src (- int n) SEEK_END = (0, s1)" "src_supports s1 = src_supports src"
    "held cb good s1" "src_delivers good rest s1 (drop (length content - n) content)"
    using seek_end_delivers [OF h nl] by blast
  have can1: "src_can s1 ZIP_SOURCE_TELL" using can s1(2) by (simp add: src_can_def)
  have tl: "zip_source_tell s1 = (int (length content - n), s1)"
    by (rule tell_position [OF s1(3,4) _ can1]) simp
  let ?data = "drop (length content - n) content"
  have ld: "length ?data = n" using nl by simp
  obtain b where b: "zip_buffer_new malloc_ok None buflen = Some b" by (simp add: zip_buffer_new_def)
  have nb: "buflen \<le> ZIP_INT64_MAX" using un small nl by (simp add: word_le_nat_alt)
  have cb1: "src_cb s1 = cb" using s1(3) by (simp add: held_def)
  have enough: "unat buflen \<le> length ?data" using un ld by simp
  obtain s2 where s2: "zip_read s1 buflen err = (0, take (unat buflen) ?data, s2, err)"
    using zip_read_delivers [OF cb1 s1(4) nb enough] by blast
  have all: "take (unat buflen) ?data = ?data" using un ld by simp
  let ?b = "b\<lparr>buf_data := ?data\<rparr>"
  have nbs: "zip_buffer_new_from_source malloc_ok s1 buflen None err = (Some ?b, s2, err)"
    using b s2 unfolding all by (simp add: zip_buffer_new_from_source_def)
  have wfb: "wf_buf ?b" "buf_offset ?b = 0" "buf_ok ?b"
    using zip_buffer_new_wf [OF b] ld un by (simp_all add: wf_buf_def)
  let ?base = "word_of_int (int (length content - n)) :: u64"
  have ub: "unat ?base = length content - n" using small by (simp add: unsigned_of_nat take_bit_nat_eq_self)
  have ub': "unat ?base = length content - 65578" using ub by (simp add: n_def)
  define start where "start = (if buflen \<ge> CDBUFSIZE then EOCD64LOCLEN else (0 :: u64))"
  have us: "unat start = (if n < 65578 then 0 else 20)"
    unfolding start_def using un by (auto simp: word_le_nat_alt)
  have sd: "unat start \<le> length (buf_data ?b)" using us pos(1) nl ld by (auto simp: n_def)
  note so = set_offset_from [OF wfb(1) sd]
  let ?e = "zip_error_set zip_error_init ZIP_ER_NOZIP 0"
  have p1: "unat ?base + unat start \<le> pos" using ub us pos(3) by (auto simp: n_def split: if_splits)
  have dt: "buf_data (snd (zip_buffer_set_offset ?b start)) = drop (unat ?base) content" using ub by simp
  have of: "unat (buf_offset (snd (zip_buffer_set_offset ?b start))) = unat start" using so(2) by simp
  have bl: "unat ?base \<le> length content" using ub by simp
  have uq: "\<forall>j. unat ?base + unat start \<le> j \<and> j \<noteq> pos \<longrightarrow> take 4 (drop j content) \<noteq> EOCD_MAGIC"
    using uniq ub' by auto
  have "\<exists>cd. find_cdir_loop malloc_ok ext flags open_flags ?base (snd (zip_buffer_set_offset ?b start)) (unat start) None (-1) s2 ?e =
      (Some cd, 0, s2, ?e) \<and> Q cd"
    by (rule find_cdir_loop_unique [OF so(3,4) dt of bl p1 pos(1,2) uq _ cc]) (rule rd [OF _ ub'])
  then obtain cd where cd: "find_cdir_loop malloc_ok ext flags open_flags ?base (snd (zip_buffer_set_offset ?b start)) (unat start) None (-1) s2 ?e =
      (Some cd, 0, s2, ?e)" "Q cd" by blast
  have r0: "\<not> ((0 :: int) < 0 \<and> X)" for X by simp
  have t0: "\<not> int (length content - n) < 0" by simp
  have "zip_find_central_dir malloc_ok ext src flags open_flags ?len err = (Some cd, s2, err)"
    unfolding zip_find_central_dir_def if_not_P [OF l22] Let_def buflen_def [symmetric] uintn s1(1) prod.case if_not_P [OF r0] tl
      if_not_P [OF t0] nbs option.case start_def [symmetric] cd(1)
    by simp
  then show ?thesis using cd(2) by blast
qed

end

section \<open>Buffers keep both contracts\<close>

lemma buf_tell_write:
  assumes "sink_good mem s" "length (sink_out s) < 2 ^ 61"
  shows "read_data_cb mem junk s ZIP_SOURCE_TELL_WRITE = ((int (length (sink_out s)), No_data), s)"
proof -
  obtain b where b: "rd_out s = Some b" "wr_good (rd_heap s) b" "bu_offset b = bu_size b"
    using assms(1) by (auto simp: sink_good_def)
  have wf: "wf_buffer (rd_heap s) b" using b(2) by (simp add: wr_good_def wr_buffer_def)
  have len: "length (sink_out s) = unat (bu_size b)" using wf_buffer_sizes(1) [OF wf] b(1) by (simp add: sink_out_def)
  then have "\<not> bu_offset b > ZIP_INT64_MAX" using assms(2) b(3) by (simp add: word_less_nat_alt)
  moreover have "uint (bu_offset b) = int (length (sink_out s))" using len b(3) by (metis uint_nat)
  ultimately show ?thesis using b(1) by simp
qed

interpretation buf_tell: tell_sink "read_data_cb mem junk" "sink_good mem" sink_out "2 ^ 61" for mem junk
  by unfold_locales (rule buf_tell_write)

definition tail_good :: "bytes \<Rightarrow> int \<Rightarrow> read_data \<Rightarrow> bool" where
  "tail_good bs t d \<longleftrightarrow> rd_holds bs t d \<and> length bs < 2 ^ 62"

lemma held_where:
  assumes "rd_holds bs t s" "rd_rest s = drop k bs" "k \<le> length bs"
  shows "unat (bu_offset (rd_in s)) = k" "unat (bu_size (rd_in s)) = length bs" "wf_buffer (rd_heap s) (rd_in s)"
    "bu_fragments (rd_in s) \<noteq> []" "buffer_content (rd_heap s) (rd_in s) = bs"
proof -
  show wf: "wf_buffer (rd_heap s) (rd_in s)" "bu_fragments (rd_in s) \<noteq> []" "buffer_content (rd_heap s) (rd_in s) = bs"
    using assms(1) by (simp_all add: rd_holds_def rd_good_def)
  show len: "unat (bu_size (rd_in s)) = length bs" using wf_buffer_sizes(1) [OF wf(1)] wf(3) by simp
  have "drop (unat (bu_offset (rd_in s))) bs = drop k bs" using assms(2) by (simp add: rd_rest_def buffer_rest_def wf(3))
  then have "length bs - unat (bu_offset (rd_in s)) = length bs - k" by (metis length_drop)
  then show "unat (bu_offset (rd_in s)) = k" using assms(3) wf_buffer_sizes(2) [OF wf(1)] len by simp
qed

lemma held_seek_end:
  assumes "rd_holds bs t s" "n \<le> length bs"
  shows "\<exists>s'. read_data_cb mem junk s (ZIP_SOURCE_SEEK (- int n) SEEK_END) = ((0, No_data), s') \<and> rd_holds bs t s' \<and>
    rd_rest s' = drop (length bs - n) bs"
proof -
  obtain k where k: "k \<le> length bs" "rd_rest s = drop k bs" using held_rest [OF assms(1)] by blast
  note w = held_where [OF assms(1) k(2,1)]
  have "uint (bu_size (rd_in s)) = int (length bs)" using w(2) by (metis uint_nat)
  then have seek: "zip_source_seek_compute_offset (bu_offset (rd_in s)) (bu_size (rd_in s)) (- int n) SEEK_END (rd_error s) =
      (int (length bs - n), rd_error s)"
    using assms(2) by (simp add: zip_source_seek_compute_offset_def of_nat_diff)
  from buffer_seek_at [OF w(3,4) seek] obtain b' where b': "buffer_seek (rd_in s) (- int n) SEEK_END (rd_error s) = Some (0, b', rd_error s)"
    "wf_buffer (rd_heap s) b'" "uint (bu_offset b') = int (length bs - n)" "buffer_content (rd_heap s) b' = bs"
    "bu_fragments b' = bu_fragments (rd_in s)"
    using w(5) by auto
  have "unat (bu_offset b') = length bs - n" using b'(3) by (simp only: unat_eq_nat_uint nat_int)
  then have "rd_holds bs t (s\<lparr>rd_in := b', rd_error := rd_error s\<rparr>)" "rd_rest (s\<lparr>rd_in := b', rd_error := rd_error s\<rparr>) = drop (length bs - n) bs"
    using b'(2-5) w assms(1) by (simp_all add: rd_holds_def rd_good_def rd_rest_def buffer_rest_def)
  moreover have "read_data_cb mem junk s (ZIP_SOURCE_SEEK (- int n) SEEK_END) = ((0, No_data), s\<lparr>rd_in := b', rd_error := rd_error s\<rparr>)"
    using b'(1) by simp
  ultimately show ?thesis by blast
qed

lemma held_tell:
  assumes "tail_good bs t s" "rd_rest s = drop k bs" "k \<le> length bs"
  shows "read_data_cb mem junk s ZIP_SOURCE_TELL = ((int k, No_data), s)"
proof -
  have h: "rd_holds bs t s" "length bs < 2 ^ 62" using assms(1) by (simp_all add: tail_good_def)
  have o: "unat (bu_offset (rd_in s)) = k" using held_where(1) [OF h(1) assms(2,3)] .
  then have "\<not> bu_offset (rd_in s) > ZIP_INT64_MAX" using assms(3) h(2) by (simp add: word_less_nat_alt)
  moreover have "uint (bu_offset (rd_in s)) = int k" using o by (metis uint_nat)
  ultimately show ?thesis by simp
qed

interpretation held_tail: tail_source "read_data_cb mem junk" "tail_good bs t" rd_rest bs for mem junk bs t
proof unfold_locales
  fix s :: read_data and n :: u64 assume "tail_good bs t s" "n \<le> ZIP_INT64_MAX"
  then show "\<exists>d s'. read_data_cb mem junk s (ZIP_SOURCE_READ n) = ((int (length d), Read_data d), s') \<and>
      tail_good bs t s' \<and> rd_rest s = d @ rd_rest s' \<and> length d \<le> unat n \<and> (d = [] \<longrightarrow> n = 0 \<or> rd_rest s = [])"
    using held_read_law [of bs t s n mem junk] unfolding tail_good_def by blast
next
  fix s :: read_data assume "tail_good bs t s"
  then show "\<exists>k \<le> length bs. rd_rest s = drop k bs" using held_rest [of bs t s] by (simp add: tail_good_def)
next
  fix s :: read_data and k wh p off
  assume "tail_good bs t s" "rd_rest s = drop k bs" "k \<le> length bs" "wh = SEEK_SET \<and> p = off \<or> wh = SEEK_CUR \<and> p = int k + off"
    "0 \<le> p" "p \<le> int (length bs)"
  then show "\<exists>s'. read_data_cb mem junk s (ZIP_SOURCE_SEEK off wh) = ((0, No_data), s') \<and> tail_good bs t s' \<and> rd_rest s' = drop (nat p) bs"
    using held_seek [of bs t s k wh p off mem junk] unfolding tail_good_def by blast
next
  fix s :: read_data and n assume "tail_good bs t s" "n \<le> length bs"
  then show "\<exists>s'. read_data_cb mem junk s (ZIP_SOURCE_SEEK (- int n) SEEK_END) = ((0, No_data), s') \<and> tail_good bs t s' \<and>
      rd_rest s' = drop (length bs - n) bs"
    using held_seek_end [of bs t s n mem junk] unfolding tail_good_def by blast
next
  fix s :: read_data and k assume "tail_good bs t s" "rd_rest s = drop k bs" "k \<le> length bs"
  then show "read_data_cb mem junk s ZIP_SOURCE_TELL = ((int k, No_data), s)" by (rule held_tell)
qed

section \<open>What writing and finding a directory promise\<close>

text \<open>The directory, which begins at \<open>start\<close>, is among the bytes that are searched; the magic number of the end record is only
  where that record is, and without zip64 records nothing before it looks like their locator.\<close>

definition clear_end :: "bool \<Rightarrow> bytes \<Rightarrow> nat \<Rightarrow> nat \<Rightarrow> bool" where
  "clear_end z file start pos \<longleftrightarrow> length file - 65578 \<le> start \<and>
     (\<forall>j \<in> {length file - 65578..<length file}. j \<noteq> pos \<longrightarrow> take 4 (drop j file) \<noteq> EOCD_MAGIC) \<and> (z \<or> no_locator file pos)"

lemma clear_end_magic:
  assumes "clear_end z file start pos" "length file - 65578 \<le> j" "j \<noteq> pos"
  shows "take 4 (drop j file) \<noteq> EOCD_MAGIC"
  using assms by (cases "j < length file") (auto simp: clear_end_def)

lemma tail_length:
  assumes "str_wf comment"
  shows "length (p @ d @ cdir_tail z n (length d) (length p) comment) =
      eocd_position z (length d) (length p) + 22 + length (str_bytes comment)" "length (str_bytes comment) \<le> 65535"
    "take 4 (drop (eocd_position z (length d) (length p)) (p @ d @ cdir_tail z n (length d) (length p) comment)) = EOCD_MAGIC"
proof -
  obtain h where h: "length h = 20" "take 4 h = EOCD_MAGIC"
    "fields_enc (eocd_fields (of_nat n) (of_nat (length d)) (of_nat (length p)) comment) = h @ le16 (zip_string_length comment)"
    using eocd_fields_split by blast
  show "length (p @ d @ cdir_tail z n (length d) (length p) comment) =
      eocd_position z (length d) (length p) + 22 + length (str_bytes comment)"
    by (simp add: cdir_tail_split h eocd_position_def le16_def le32_def le64_def)
  have "length (str_bytes comment) = unat (zip_string_length comment)" using str_wf_shape [OF assms] by simp
  then show "length (str_bytes comment) \<le> 65535" using unat_bounds(2) [of "zip_string_length comment"] by simp
  have "drop (eocd_position z (length d) (length p)) (p @ d @ cdir_tail z n (length d) (length p) comment) =
      h @ le16 (zip_string_length comment) @ str_bytes comment"
    by (simp add: cdir_tail_split h(3) eocd_position_def le16_def le32_def le64_def)
  then show "take 4 (drop (eocd_position z (length d) (length p)) (p @ d @ cdir_tail z n (length d) (length p) comment)) = EOCD_MAGIC"
    using h(1,2) by simp
qed

text \<open>The directory of an opened file.\<close>

lemma written_directory_found:
  fixes src :: "'t zip_source"
  assumes t: "tail_source cb good rest file" "held cb good src" "src_can src ZIP_SOURCE_TELL"
    and hs: "list_all2 (central_header ext TYPE('t zip_source)) des ds" and c: "str_wf comment"
    and fl: "file = p @ concat ds @ cdir_tail z (length ds) (length (concat ds)) (length p) comment"
    and small: "length file < 2 ^ 62" "length ds < 2 ^ 58" "flags AND ZIP_CHECKCONS = 0" "open_flags AND ZIP_CHECKCONS = 0"
    and n64: "\<not> z \<longrightarrow> length ds \<le> 0xffff \<and> length (concat ds) \<le> 0xffffffff \<and> length p \<le> 0xffffffff"
    and clear: "clear_end z file (length p) (eocd_position z (length (concat ds)) (length p))"
  shows "\<exists>cd src'. zip_find_central_dir malloc_ok ext src flags open_flags (of_nat (length file)) err = (Some cd, src', err) \<and>
    list_all2 (dirent_read_back ext ZIP_FL_CENTRAL) des (map (\<lambda>e. the (en_orig e)) (cd_entry cd)) \<and>
    str_shape (cd_comment cd) = str_shape comment"
proof -
  let ?pos = "eocd_position z (length (concat ds)) (length p)"
  note tl = tail_length(1) [OF c, of p "concat ds" z "length ds", folded fl] tail_length(2) [OF c]
    tail_length(3) [OF c, where p = p and d = "concat ds" and z = z and n = "length ds", folded fl]
  have pos: "?pos + 22 \<le> length file" "length file - 65558 \<le> ?pos" using tl(1,2) by simp_all
  have uniq: "\<forall>j. length file - 65578 \<le> j \<and> j \<noteq> ?pos \<longrightarrow> take 4 (drop j file) \<noteq> EOCD_MAGIC"
    using clear_end_magic [OF clear] by blast
  have n64': "\<not> z \<longrightarrow> length ds \<le> 0xffff \<and> length (concat ds) \<le> 0xffffffff \<and> length p \<le> 0xffffffff \<and> no_locator file ?pos"
    using n64 clear by (cases z) (simp_all add: clear_end_def)
  have rd: "\<exists>cd. zip_read_cdir malloc_ok ext src flags open_flags b base err = (Some cd, src, err) \<and>
      list_all2 (dirent_read_back ext ZIP_FL_CENTRAL) des (map (\<lambda>e. the (en_orig e)) (cd_entry cd)) \<and>
      str_shape (cd_comment cd) = str_shape comment"
    if "tail_buffer b base file ?pos" "unat base = length file - 65578" for b base err and src :: "'t zip_source"
  proof -
    have "unat base \<le> length p" using that(2) clear by (simp add: clear_end_def)
    from zip_read_cdir_written [OF hs c fl that(1) this small(1-3) n64', of src open_flags err]
    show ?thesis by fastforce
  qed
  show ?thesis
    using tail_source.find_central_dir_unique [OF t small(1) pos(1) tl(3) pos(2) uniq rd small(4), of err] by blast
qed

text \<open>C2. The central directory that is written for a list of entries is found and read again: over any source that
  keeps count of what is written to it, and any source the result is read from, the search for the end of the
  directory succeeds, and the entries and the comment are those of the archive, in order, zip64 or not; as long as
  the directory is among the bytes searched and nothing else in them looks like an end record, and a directory of more
  than 4 GiB is not one without zip64 records.\<close>

theorem zip_cdir_write_find:
  fixes src :: "'t zip_source"
  assumes "tell_sink wcb wgood out room" "tell_sink.archive_sinks wcb wgood out za bs"
    and "distinct fl" "length bs + (length fl + 2) * 400000 < room" "room \<le> 2 ^ 62"
    and "\<forall>i \<in> set fl. i < length (za_entry za) \<and> dirent_storable (entry_dirent (za_entry za ! i)) ZIP_FL_CENTRAL"
    and "comment = (if za_comment_changed za then za_comment_changes za else za_comment_orig za)" "str_wf comment"
    and "flags AND ZIP_CHECKCONS = 0" "open_flags AND ZIP_CHECKCONS = 0"
  shows "\<exists>k za' d. zip_cdir_write malloc_ok ext za fl = (int k, za') \<and>
    tell_sink.archive_sinks wcb wgood out za' (bs @ d) \<and>
    ((k \<le> 0xffffffff \<or> cdir_is_zip64 za fl (length bs)) \<and>
     clear_end (cdir_is_zip64 za fl (length bs)) (bs @ d) (length bs) (eocd_position (cdir_is_zip64 za fl (length bs)) k (length bs)) \<and>
     tail_source cb good rest (bs @ d) \<and> held cb good src \<and> src_can src ZIP_SOURCE_TELL \<longrightarrow>
     (\<exists>cd src'. zip_find_central_dir malloc_ok ext src flags open_flags (of_nat (length (bs @ d))) err = (Some cd, src', err) \<and>
        list_all2 (dirent_read_back ext ZIP_FL_CENTRAL) (map (\<lambda>i. entry_dirent (za_entry za ! i)) fl)
          (map (\<lambda>e. the (en_orig e)) (cd_entry cd)) \<and>
        str_shape (cd_comment cd) = str_shape comment))"
proof -
  obtain za' ds where w: "zip_cdir_write malloc_ok ext za fl = (int (length (concat ds)), za')"
    "tell_sink.archive_sinks wcb wgood out za' (bs @ concat ds @
      cdir_tail (cdir_is_zip64 za fl (length bs)) (length fl) (length (concat ds)) (length bs) comment)"
    "list_all2 (central_header ext TYPE('t zip_source)) (map (\<lambda>i. entry_dirent (za_entry za ! i)) fl) ds"
    "length (concat ds) \<le> length fl * 200000"
    using tell_sink.cdir_write_appends [OF assms(1-4,6,8,7), of ext "TYPE('t zip_source)"] by blast
  let ?z = "cdir_is_zip64 za fl (length bs)"
  let ?t = "cdir_tail ?z (length fl) (length (concat ds)) (length bs) comment"
  have n: "length fl = length ds" using list_all2_lengthD [OF w(3)] by simp
  have fl: "bs @ concat ds @ ?t = bs @ concat ds @ cdir_tail ?z (length ds) (length (concat ds)) (length bs) comment"
    by (simp only: n)
  have "length (bs @ concat ds @ ?t) \<le> length bs + length fl * 200000 + 98 + 65535"
    using tail_length(1) [OF assms(8), of bs "concat ds" ?z "length fl"] tail_length(2) [OF assms(8)] w(4) by (simp add: eocd_position_def)
  then have small: "length (bs @ concat ds @ ?t) < 2 ^ 62" "length ds < 2 ^ 58" using assms(4,5) n by simp_all
  have n64: "\<not> ?z \<longrightarrow> length ds \<le> 0xffff \<and> length (concat ds) \<le> 0xffffffff \<and> length bs \<le> 0xffffffff"
    if "length (concat ds) \<le> 0xffffffff \<or> ?z" using that n by (auto simp: cdir_is_zip64_def)
  have "\<exists>cd src'. zip_find_central_dir malloc_ok ext src flags open_flags (of_nat (length (bs @ concat ds @ ?t))) err = (Some cd, src', err) \<and>
      list_all2 (dirent_read_back ext ZIP_FL_CENTRAL) (map (\<lambda>i. entry_dirent (za_entry za ! i)) fl)
        (map (\<lambda>e. the (en_orig e)) (cd_entry cd)) \<and> str_shape (cd_comment cd) = str_shape comment"
    if "length (concat ds) \<le> 0xffffffff \<or> ?z"
      "clear_end ?z (bs @ concat ds @ ?t) (length bs) (eocd_position ?z (length (concat ds)) (length bs))"
      "tail_source cb good rest (bs @ concat ds @ ?t)" "held cb good src" "src_can src ZIP_SOURCE_TELL"
    by (rule written_directory_found [OF that(3-5) w(3) assms(8) fl small assms(9,10) n64 [OF that(1)] that(2)])
  then show ?thesis using w(1,2) by (intro exI [of _ "length (concat ds)"] exI [of _ za'] exI [of _ "concat ds @ ?t"]) blast
qed

text \<open>A source that keeps what is written to it as a list, and an archive with one entry over it.\<close>

fun list_cb :: "bytes \<Rightarrow> zip_source_cmd \<Rightarrow> reply \<times> bytes" where
  "list_cb s (ZIP_SOURCE_WRITE d) = ((int (length d), No_data), s @ d)"
| "list_cb s ZIP_SOURCE_TELL_WRITE = ((int (length s), No_data), s)"
| "list_cb s ZIP_SOURCE_BEGIN_WRITE = ((0, No_data), [])"
| "list_cb s ZIP_SOURCE_SUPPORTS = ((0x2bfff, No_data), s)"
| "list_cb s _ = ((-1, No_data), s)"

lemma list_tell_sink: "tell_sink list_cb (\<lambda>_. True) (\<lambda>s. s) (2 ^ 62)"
  by unfold_locales simp_all

definition new_entry :: zip_dirent where
  "new_entry = zip_dirent_init\<lparr>de_comp_method := 8, de_comp_size := 5, de_uncomp_size := 7, de_crc := 3,
     de_filename := Some \<lparr>str_raw = [0x61], str_length = 1, str_encoding = ZIP_ENCODING_UNKNOWN,
       str_converted = None, str_converted_length = 0\<rparr>\<rparr>"

definition new_archive :: "bytes zip_archive" where
  "new_archive = (the (fst (zip_new malloc_ok zip_error_init)))
     \<lparr>za_src := Some (snd (zip_source_begin_write (the (fst (zip_source_function_create malloc_ok list_cb [] zip_error_init))))),
      za_entry := [zip_entry_init\<lparr>en_orig := Some new_entry\<rparr>]\<rparr>"

definition written_archive :: bytes where
  "written_archive = [0x50, 0x4b, 1, 2, 63, 3, 10, 0, 0, 0, 8, 0, 0, 0, 33, 20, 3, 0, 0, 0, 5, 0, 0, 0, 7, 0, 0, 0, 1, 0, 0, 0, 0, 0,
     0, 0, 0, 0, 0, 0, 182, 129, 0, 0, 0, 0, 97,
     0x50, 0x4b, 5, 6, 0, 0, 0, 0, 1, 0, 1, 0, 47, 0, 0, 0, 0, 0, 0, 0, 0, 0]"

lemma new_archive_written:
  "(case zip_cdir_write malloc_ok fixed_external new_archive [0] of (r, za) \<Rightarrow> (r, src_ud (the (za_src za)))) = (47, written_archive)"
  by code_simp

lemma new_archive_facts:
  "(\<lambda>za. za_src za \<noteq> None \<and> src_cb (the (za_src za)) = list_cb) new_archive" "src_ud (the (za_src new_archive)) = []"
  "src_write_state (the (za_src new_archive)) = ZIP_SOURCE_WRITE_OPEN" "src_supports (the (za_src new_archive)) = 0x2bfff"
  "za_entry new_archive = [zip_entry_init\<lparr>en_orig := Some new_entry\<rparr>]" "\<not> za_comment_changed new_archive" "za_comment_orig new_archive = None"
  by (simp_all add: new_archive_def zip_new_def zip_hash_new_def zip_source_function_create_def zip_source_new_def src_query_supports_def
      zip_source_begin_write_def ZIP_SOURCE_IS_OPEN_WRITING_def zip_source_call_def src_invoke_def src_can_def
      ZIP_SOURCE_MAKE_COMMAND_BITMASK_def)

lemma new_archive_sinks: "tell_sink.archive_sinks list_cb (\<lambda>_. True) (\<lambda>s. s) new_archive []"
  using new_archive_facts(1-4)
  by (simp add: tell_sink.archive_sinks_def [OF list_tell_sink] byte_sink.sinks_def [OF list_tell_sink [THEN tell_sink.axioms(1)]]
      za_writer_def src_sinks_def ZIP_SOURCE_IS_OPEN_WRITING_def src_can_def ZIP_SOURCE_MAKE_COMMAND_BITMASK_def push_bit_eq_mult)

lemma new_entry_storable: "dirent_storable new_entry ZIP_FL_CENTRAL"
  by (simp add: new_entry_def dirent_storable_defs zip_dirent_init_def str_wf_def str_bytes_def zip64_fields_def
      zip_dirent_needs_zip64_def)

lemma written_clear: "clear_end False written_archive 0 47"
proof -
  have l: "length written_archive = 69" by (simp add: written_archive_def)
  have "\<forall>j \<in> set [0..<69]. j \<noteq> 47 \<longrightarrow> take 4 (drop j written_archive) \<noteq> EOCD_MAGIC" by code_simp
  moreover have "no_locator written_archive 47" by code_simp
  ultimately show ?thesis by (simp add: clear_end_def l)
qed

lemma fragment_69: "\<exists>b e. buffer_new malloc_ok 0 [(Some 0, 69)] False zip_error_init = (Some b, e)"
proof -
  have "fst (buffer_new malloc_ok 0 [(Some 0, 69)] False zip_error_init) \<noteq> None" by code_simp
  then show ?thesis by (cases "buffer_new malloc_ok 0 [(Some 0, 69)] False zip_error_init") auto
qed

lemma written_source:
  obtains src where "held (read_data_cb malloc_ok 0) (tail_good written_archive 0) src"
    "src_delivers (tail_good written_archive 0) rd_rest src written_archive" "src_can src ZIP_SOURCE_TELL"
proof -
  obtain b e where b: "buffer_new malloc_ok 0 [(Some 0, 69)] False zip_error_init = (Some b, e)" using fragment_69 by blast
  have "frag_args [(Some written_archive, 69)] = [(Some 0, 69)]" by (simp add: frag_args_def)
  then obtain low err where new: "zip_source_buffer_create malloc_ok 0 0 (Some written_archive) 69 False zip_error_init = (Some low, err)"
    using b by (auto simp: zip_source_buffer_create_def zip_source_buffer_fragment_create_def zip_source_function_create_def zip_source_new_def)
  have len: "length written_archive = unat (69 :: u64)" "written_archive \<noteq> []" by (simp_all add: written_archive_def)
  note c = buffer_created [OF new len]
  obtain src where s: "zip_source_open (zip_source_keep low) = (0, src)"
    "src_delivers (rd_holds written_archive 0) rd_rest src written_archive" "buf_source malloc_ok 0 src"
    using held_open [of malloc_ok 0 "zip_source_keep low" written_archive 0] c by (auto simp: zip_source_keep_def buf_source_def)
  have l: "length written_archive < 2 ^ 62" by (simp add: written_archive_def)
  have "src_delivers (tail_good written_archive 0) rd_rest src written_archive"
    using s(2) l by (simp add: src_delivers_def tail_good_def)
  moreover from this have "held (read_data_cb malloc_ok 0) (tail_good written_archive 0) src"
    using s(3) by (simp add: held_def src_delivers_def buf_source_def)
  moreover have "src_can src ZIP_SOURCE_TELL" using s(3) by (simp add: buf_source_def src_can_def ZIP_SOURCE_MAKE_COMMAND_BITMASK_def push_bit_eq_mult)
  ultimately show ?thesis using that by blast
qed

theorem zip_cdir_write_find_witness:
  "\<exists>za' src cd src'. zip_cdir_write malloc_ok fixed_external new_archive [0] = (47, za') \<and>
     src_ud (the (za_src za')) = written_archive \<and> src_delivers (tail_good written_archive 0) rd_rest src written_archive \<and>
     zip_find_central_dir malloc_ok fixed_external src 0 0 69 zip_error_init = (Some cd, src', zip_error_init) \<and>
     map (\<lambda>e. str_shape (de_filename (the (en_orig e)))) (cd_entry cd) = [Some ([0x61], 1)]"
proof -
  obtain src where src: "held (read_data_cb malloc_ok 0) (tail_good written_archive 0) src"
    "src_delivers (tail_good written_archive 0) rd_rest src written_archive" "src_can src ZIP_SOURCE_TELL"
    by (rule written_source)
  obtain za1 where za1: "zip_cdir_write malloc_ok fixed_external new_archive [0] = (47, za1)" "src_ud (the (za_src za1)) = written_archive"
    using new_archive_written by (auto split: prod.splits)
  have st: "\<forall>i \<in> set [0]. i < length (za_entry new_archive) \<and> dirent_storable (entry_dirent (za_entry new_archive ! i)) ZIP_FL_CENTRAL"
    using new_archive_facts(5) new_entry_storable by (simp add: entry_dirent_def zip_entry_init_def)
  have cm: "None = (if za_comment_changed new_archive then za_comment_changes new_archive else za_comment_orig new_archive)"
    using new_archive_facts(6,7) by simp
  have z: "\<not> cdir_is_zip64 new_archive [0] 0"
    using new_archive_facts(5) by (simp add: cdir_is_zip64_def entry_dirent_def zip_entry_init_def new_entry_def zip_dirent_init_def
        dirent_is_zip64_def zip_dirent_needs_zip64_def)
  obtain k za' d where w: "zip_cdir_write malloc_ok fixed_external new_archive [0] = (int k, za')"
    "tell_sink.archive_sinks list_cb (\<lambda>_. True) (\<lambda>s. s) za' ([] @ d)"
    and f: "(k \<le> 0xffffffff \<or> cdir_is_zip64 new_archive [0] (length ([] :: bytes))) \<and>
     clear_end (cdir_is_zip64 new_archive [0] (length ([] :: bytes))) ([] @ d) (length ([] :: bytes))
       (eocd_position (cdir_is_zip64 new_archive [0] (length ([] :: bytes))) k (length ([] :: bytes))) \<and>
     tail_source (read_data_cb malloc_ok 0) (tail_good written_archive 0) rd_rest ([] @ d) \<and>
     held (read_data_cb malloc_ok 0) (tail_good written_archive 0) src \<and> src_can src ZIP_SOURCE_TELL \<longrightarrow>
     (\<exists>cd src'. zip_find_central_dir malloc_ok fixed_external src 0 0 (of_nat (length ([] @ d))) zip_error_init = (Some cd, src', zip_error_init) \<and>
        list_all2 (dirent_read_back fixed_external ZIP_FL_CENTRAL) (map (\<lambda>i. entry_dirent (za_entry new_archive ! i)) [0])
          (map (\<lambda>e. the (en_orig e)) (cd_entry cd)) \<and>
        str_shape (cd_comment cd) = str_shape None)"
    using zip_cdir_write_find [OF list_tell_sink new_archive_sinks _ _ _ st cm, where flags = 0 and open_flags = 0 and
      ext = fixed_external and src = src and cb = "read_data_cb malloc_ok 0" and good = "tail_good written_archive 0" and rest = rd_rest
      and err = zip_error_init]
    by (auto simp: str_wf_def)
  have za': "za' = za1" "k = 47" using w(1) za1(1) by simp_all
  have d: "d = written_archive"
    using w(2) za1(2) za' by (simp add: tell_sink.archive_sinks_def [OF list_tell_sink]
        byte_sink.sinks_def [OF list_tell_sink [THEN tell_sink.axioms(1)]] za_writer_def src_sinks_def)
  have t: "tail_source (read_data_cb malloc_ok 0) (tail_good written_archive 0) rd_rest written_archive"
    by (rule held_tail.tail_source_axioms)
  have l: "length written_archive = 69" by (simp add: written_archive_def)
  from f obtain cd src' where cd: "zip_find_central_dir malloc_ok fixed_external src 0 0 69 zip_error_init = (Some cd, src', zip_error_init)"
    "list_all2 (dirent_read_back fixed_external ZIP_FL_CENTRAL) [new_entry] (map (\<lambda>e. the (en_orig e)) (cd_entry cd))"
    using z t src written_clear l new_archive_facts(5)
    unfolding d za'(2) by (auto simp: eocd_position_def entry_dirent_def zip_entry_init_def)
  have "map (\<lambda>e. str_shape (de_filename (the (en_orig e)))) (cd_entry cd) = [Some ([0x61], 1)]"
    using cd(2) by (auto simp: list_all2_Cons1 dirent_read_back_def Let_def new_entry_def str_shape_def)
  then show ?thesis
    by (intro exI [of _ za1] exI [of _ src] exI [of _ cd] exI [of _ src'] conjI za1 src(2) cd(1))
qed

end
