(* ===== verification/Zip_Extra_Api.thy ===== *)
theory Zip_Extra_Api
  imports Zip_Cdir_Write
begin

text \<open>
  \<open>_zip_read_local_ef\<close> of \<open>zip_extra_field.c\<close>, which adds the extra fields of an entry's local header to those of
  its central header, and the extra field functions of the interface (\<open>zip_extra_field_api.c\<close>). The shared list
  of a changed entry and its original is here two equal lists. \<open>errno\<close> is a parameter.
\<close>

section \<open>The fields of the local header\<close>

text \<open>The lengths of the name and of the extra fields, at the end of the local header.\<close>

definition local_ef_lens :: "malloc \<Rightarrow> 's zip_archive \<Rightarrow> u64 \<Rightarrow> (u16 \<times> u16) option \<times> 's zip_archive" where
  "local_ef_lens mem za offset =
     (if offset + 26 > ZIP_INT64_MAX then (None, za\<lparr>za_error := zip_error_set (za_error za) ZIP_ER_SEEK EFBIG\<rparr>)
      else case zip_source_seek (the (za_src za)) (sint (offset + 26)) SEEK_SET of
        (r, src) \<Rightarrow>
          let za = za\<lparr>za_src := Some src\<rparr>
          in if r < 0 then (None, za_source_failed za)
             else case zip_buffer_new_from_source mem src 4 (Some (replicate 4 0)) (za_error za) of
               (b, src, err) \<Rightarrow>
                 let za = za\<lparr>za_src := Some src, za_error := err\<rparr>
                 in case b of
                      None \<Rightarrow> (None, za)
                    | Some b \<Rightarrow>
                        let (fname_len, b) = zip_buffer_get_16 b;
                            (ef_len, b) = zip_buffer_get_16 b
                        in if \<not> zip_buffer_eof b
                           then (None, za\<lparr>za_error := zip_error_set (za_error za) ZIP_ER_INTERNAL 0\<rparr>)
                           else (Some (fname_len, ef_len), za))"

text \<open>The fields themselves, behind the name.\<close>

definition local_ef_fields ::
  "malloc \<Rightarrow> int \<Rightarrow> 's zip_archive \<Rightarrow> u16 \<Rightarrow> u16 \<Rightarrow> zip_extra_field list option \<times> 's zip_archive" where
  "local_ef_fields mem errno za fname_len ef_len =
     (case zip_source_seek (the (za_src za)) (uint fname_len) SEEK_CUR of
        (r, src) \<Rightarrow>
          let za = za\<lparr>za_src := Some src\<rparr>
          in if r < 0 then (None, za\<lparr>za_error := zip_error_set (za_error za) ZIP_ER_SEEK errno\<rparr>)
             else case zip_read_data mem None src (ucast ef_len) False (za_error za) of
               (raw, _, src, err) \<Rightarrow>
                 let za = za\<lparr>za_src := Some src, za_error := err\<rparr>
                 in case raw of
                      None \<Rightarrow> (None, za)
                    | Some raw \<Rightarrow>
                        (case zip_ef_parse mem raw ef_len ZIP_EF_LOCAL (za_error za) of
                           (efs, err) \<Rightarrow> (efs, za\<lparr>za_error := err\<rparr>)))"

text \<open>The original now knows its local fields; a changed entry that did not takes the list over.\<close>

definition entry_local_ef :: "zip_extra_field list \<Rightarrow> 's zip_entry \<Rightarrow> 's zip_entry" where
  "entry_local_ef efs e =
     (let orig = the (en_orig e);
          merged = (if efs = [] then de_extra_fields orig
                    else zip_ef_merge (de_extra_fields orig) (zip_ef_remove_internal efs));
          learn = (\<lambda>d. d\<lparr>de_extra_fields := merged, de_local_extra_fields_read := True\<rparr>)
      in e\<lparr>en_orig := Some (learn orig),
            en_changes := map_option (\<lambda>d. if de_local_extra_fields_read d then d else learn d) (en_changes e)\<rparr>)"

definition zip_read_local_ef :: "malloc \<Rightarrow> int \<Rightarrow> 's zip_archive \<Rightarrow> u64 \<Rightarrow> int \<times> 's zip_archive" where
  "zip_read_local_ef mem errno za idx =
     (if \<not> za_has za idx then za_fail za ZIP_ER_INVAL
      else let e = za_entry_at za idx
           in case en_orig e of
                None \<Rightarrow> (0, za)
              | Some orig \<Rightarrow>
                  if de_local_extra_fields_read orig then (0, za)
                  else case local_ef_lens mem za (de_offset orig) of
                    (None, za) \<Rightarrow> (-1, za)
                  | (Some (fname_len, ef_len), za) \<Rightarrow>
                      (case (if ef_len > 0 then local_ef_fields mem errno za fname_len ef_len else (Some [], za)) of
                         (None, za) \<Rightarrow> (-1, za)
                       | (Some efs, za) \<Rightarrow> (0, za_put_entry za idx (entry_local_ef efs e))))"

section \<open>Looking fields up\<close>

text \<open>The entry a lookup is about, with its local fields when they are asked for.\<close>

definition ef_dirent :: "malloc \<Rightarrow> int \<Rightarrow> 's zip_archive \<Rightarrow> u64 \<Rightarrow> u32 \<Rightarrow> zip_dirent option \<times> 's zip_archive" where
  "ef_dirent mem errno za idx flags =
     (if flags AND ZIP_EF_BOTH = 0 then (None, snd (za_fail za ZIP_ER_INVAL))
      else case with_za_error (\<lambda>za. zip_get_dirent za idx flags) za of
        (None, za) \<Rightarrow> (None, za)
      | (Some de, za) \<Rightarrow>
          if flags AND ZIP_EF_LOCAL \<noteq> 0
          then case zip_read_local_ef mem errno za idx of
                 (r, za) \<Rightarrow> if r < 0 then (None, za) else (fst (zip_get_dirent za idx flags None), za)
          else (Some de, za))"

fun ef_nth_loop :: "zip_extra_field list \<Rightarrow> u32 \<Rightarrow> nat \<Rightarrow> zip_extra_field option" where
  "ef_nth_loop [] flags n = None"
| "ef_nth_loop (ef # efs) flags n =
     (if ef_in flags ef then case n of 0 \<Rightarrow> Some ef | Suc n \<Rightarrow> ef_nth_loop efs flags n
      else ef_nth_loop efs flags n)"

text \<open>The data, the id and the length, which go to \<open>idp\<close> and \<open>lenp\<close>.\<close>

definition zip_file_extra_field_get ::
  "malloc \<Rightarrow> int \<Rightarrow> 's zip_archive \<Rightarrow> u64 \<Rightarrow> u16 \<Rightarrow> u32 \<Rightarrow> (bytes \<times> u16 \<times> u16) option \<times> 's zip_archive" where
  "zip_file_extra_field_get mem errno za idx ef_idx flags =
     (case ef_dirent mem errno za idx flags of
        (None, za) \<Rightarrow> (None, za)
      | (Some de, za) \<Rightarrow>
          (case ef_nth_loop (de_extra_fields de) flags (unat ef_idx) of
             None \<Rightarrow> (None, snd (za_fail za ZIP_ER_NOENT))
           | Some ef \<Rightarrow> (Some (if ef_size ef > 0 then ef_data ef else [], ef_id ef, ef_size ef), za)))"

definition zip_file_extra_field_get_by_id ::
  "malloc \<Rightarrow> int \<Rightarrow> 's zip_archive \<Rightarrow> u64 \<Rightarrow> u16 \<Rightarrow> u16 \<Rightarrow> u32 \<Rightarrow> (bytes \<times> u16) option \<times> 's zip_archive" where
  "zip_file_extra_field_get_by_id mem errno za idx i ef_idx flags =
     (case ef_dirent mem errno za idx flags of
        (None, za) \<Rightarrow> (None, za)
      | (Some de, za) \<Rightarrow>
          (case zip_ef_get_by_id (de_extra_fields de) i ef_idx flags (za_error za) of
             (r, err) \<Rightarrow> (r, za\<lparr>za_error := err\<rparr>)))"

text \<open>The counters are 16 bits wide and returned as signed.\<close>

definition zip_file_extra_fields_count :: "malloc \<Rightarrow> int \<Rightarrow> 's zip_archive \<Rightarrow> u64 \<Rightarrow> u32 \<Rightarrow> int \<times> 's zip_archive" where
  "zip_file_extra_fields_count mem errno za idx flags =
     (case ef_dirent mem errno za idx flags of
        (None, za) \<Rightarrow> (-1, za)
      | (Some de, za) \<Rightarrow>
          (sint (foldl (\<lambda>n ef. if ef_in flags ef then n + 1 else n) (0 :: u16) (de_extra_fields de)), za))"

definition zip_file_extra_fields_count_by_id ::
  "malloc \<Rightarrow> int \<Rightarrow> 's zip_archive \<Rightarrow> u64 \<Rightarrow> u16 \<Rightarrow> u32 \<Rightarrow> int \<times> 's zip_archive" where
  "zip_file_extra_fields_count_by_id mem errno za idx i flags =
     (case ef_dirent mem errno za idx flags of
        (None, za) \<Rightarrow> (-1, za)
      | (Some de, za) \<Rightarrow>
          (sint (foldl (\<lambda>n ef. if ef_id ef = i \<and> ef_in flags ef then n + 1 else n) (0 :: u16) (de_extra_fields de)), za))"

section \<open>Changing fields\<close>

abbreviation ZIP_EXTRA_FIELD_NEW :: u16 where "ZIP_EXTRA_FIELD_NEW \<equiv> 0xffff"

text \<open>The entry gets a list of fields of its own before the first change to it, a copy of the original's.\<close>

definition own_fields :: "malloc \<Rightarrow> 's zip_entry \<Rightarrow> zip_dirent \<Rightarrow> zip_error \<Rightarrow> zip_extra_field list option \<times> zip_error" where
  "own_fields mem e d err =
     (case en_orig e of
        None \<Rightarrow> (Some (de_extra_fields d), err)
      | Some orig \<Rightarrow> if de_extra_fields orig = [] then (Some (de_extra_fields d), err)
                     else zip_ef_clone mem (de_extra_fields orig) err)"

definition prepare_changes :: "malloc \<Rightarrow> 's zip_archive \<Rightarrow> u64 \<Rightarrow> int \<times> 's zip_archive" where
  "prepare_changes mem za idx =
     (let e = za_entry_at za idx
      in case (if en_changes e = None then zip_dirent_clone mem (en_orig e) else en_changes e) of
           None \<Rightarrow> za_fail za ZIP_ER_MEMORY
         | Some d \<Rightarrow>
             (case own_fields mem e d (za_error za) of
                (None, err) \<Rightarrow>
                  (-1, (za_put_entry za idx (e\<lparr>en_changes := Some (d\<lparr>de_extra_fields := []\<rparr>)\<rparr>))\<lparr>za_error := err\<rparr>)
              | (Some efs, err) \<Rightarrow>
                  (0, (za_put_entry za idx (e\<lparr>en_changes := Some (d\<lparr>de_extra_fields := efs,
                         de_changed := de_changed d OR ZIP_DIRENT_EXTRA_FIELD\<rparr>)\<rparr>))\<lparr>za_error := err\<rparr>)))"

definition zip_file_extra_field_prepare_for_change ::
  "malloc \<Rightarrow> int \<Rightarrow> 's zip_archive \<Rightarrow> u64 \<Rightarrow> int \<times> 's zip_archive" where
  "zip_file_extra_field_prepare_for_change mem errno za idx =
     (if \<not> za_has za idx then za_fail za ZIP_ER_INVAL
      else if ZIP_ENTRY_CHANGED (za_entry_at za idx) ZIP_DIRENT_EXTRA_FIELD then (0, za)
      else case (if en_orig (za_entry_at za idx) \<noteq> None then zip_read_local_ef mem errno za idx else (0, za)) of
        (r, za) \<Rightarrow> if r < 0 then (-1, za) else prepare_changes mem za idx)"

text \<open>Replacing the fields of an entry that was prepared.\<close>

definition put_extra_fields :: "'s zip_archive \<Rightarrow> u64 \<Rightarrow> zip_extra_field list \<Rightarrow> 's zip_archive" where
  "put_extra_fields za idx efs =
     (let e = za_entry_at za idx
      in za_put_entry za idx (e\<lparr>en_changes := map_option (\<lambda>d. d\<lparr>de_extra_fields := efs\<rparr>) (en_changes e)\<rparr>))"

definition entry_extra_fields :: "'s zip_archive \<Rightarrow> u64 \<Rightarrow> zip_extra_field list" where
  "entry_extra_fields za idx = de_extra_fields (the (en_changes (za_entry_at za idx)))"

definition zip_file_extra_field_delete_by_id ::
  "malloc \<Rightarrow> int \<Rightarrow> 's zip_archive \<Rightarrow> u64 \<Rightarrow> u16 \<Rightarrow> u16 \<Rightarrow> u32 \<Rightarrow> int \<times> 's zip_archive" where
  "zip_file_extra_field_delete_by_id mem errno za idx i ef_idx flags =
     (if flags AND ZIP_EF_BOTH = 0 then za_fail za ZIP_ER_INVAL
      else if flags AND ZIP_EF_BOTH = ZIP_EF_BOTH \<and> ef_idx \<noteq> ZIP_EXTRA_FIELD_ALL then za_fail za ZIP_ER_INVAL
      else case zip_get_dirent za idx 0 None of
        (None, za, _) \<Rightarrow> (-1, za)
      | (Some _, za, _) \<Rightarrow>
          if ZIP_IS_RDONLY za then za_fail za ZIP_ER_RDONLY
          else case zip_file_extra_field_prepare_for_change mem errno za idx of
            (r, za) \<Rightarrow>
              if r < 0 then (-1, za)
              else (0, put_extra_fields za idx (zip_ef_delete_by_id (entry_extra_fields za idx) i ef_idx flags)))"

definition zip_file_extra_field_delete ::
  "malloc \<Rightarrow> int \<Rightarrow> 's zip_archive \<Rightarrow> u64 \<Rightarrow> u16 \<Rightarrow> u32 \<Rightarrow> int \<times> 's zip_archive" where
  "zip_file_extra_field_delete mem errno za idx ef_idx flags =
     (if flags AND ZIP_EF_BOTH = 0 then za_fail za ZIP_ER_INVAL
      else if flags AND ZIP_EF_BOTH = ZIP_EF_BOTH \<and> ef_idx \<noteq> ZIP_EXTRA_FIELD_ALL then za_fail za ZIP_ER_INVAL
      else case zip_get_dirent za idx 0 None of
        (None, za, _) \<Rightarrow> (-1, za)
      | (Some _, za, _) \<Rightarrow>
          if ZIP_IS_RDONLY za then za_fail za ZIP_ER_RDONLY
          else case zip_file_extra_field_prepare_for_change mem errno za idx of
            (r, za) \<Rightarrow>
              if r < 0 then (-1, za)
              else (0, put_extra_fields za idx
                         (zip_ef_delete_by_id (entry_extra_fields za idx) ZIP_EXTRA_FIELD_ALL ef_idx flags)))"

text \<open>The search of \<open>zip_file_extra_field_set\<close>: the position of the field to replace, when it is found, and how many
  fields matched before the search ended.\<close>

fun ef_set_find :: "zip_extra_field list \<Rightarrow> u16 \<Rightarrow> u16 \<Rightarrow> u32 \<Rightarrow> nat \<Rightarrow> nat \<Rightarrow> nat option \<times> nat" where
  "ef_set_find [] i ef_idx flags k pos = (None, k)"
| "ef_set_find (ef # efs) i ef_idx flags k pos =
     (if ef_id ef = i \<and> ef_in flags ef
      then if k = unat ef_idx then (Some pos, k) else ef_set_find efs i ef_idx flags (Suc k) (Suc pos)
      else ef_set_find efs i ef_idx flags k (Suc pos))"

text \<open>The new field takes the place of the one found when both are in the same headers, and follows it otherwise.\<close>

definition ef_set_at :: "zip_extra_field list \<Rightarrow> nat option \<Rightarrow> zip_extra_field \<Rightarrow> u32 \<Rightarrow> zip_extra_field list" where
  "ef_set_at efs pos new flags =
     (case pos of
        None \<Rightarrow> efs @ [new]
      | Some p \<Rightarrow>
          let ef = efs ! p
          in if ef_flags ef AND ZIP_EF_BOTH = flags AND ZIP_EF_BOTH then efs[p := new]
             else take p efs @ [ef\<lparr>ef_flags := ef_flags ef AND NOT (flags AND ZIP_EF_BOTH)\<rparr>, new] @ drop (Suc p) efs)"

text \<open>The length of all fields after the change, an \<open>int\<close>.\<close>

definition ef_set_len :: "zip_extra_field list \<Rightarrow> nat option \<Rightarrow> u16 \<Rightarrow> u32 \<Rightarrow> int" where
  "ef_set_len efs pos len flags =
     (let ls = (if flags AND ZIP_EF_LOCAL \<noteq> 0 then zip_ef_size efs ZIP_EF_LOCAL else 0);
          cs = (if flags AND ZIP_EF_CENTRAL \<noteq> 0 then zip_ef_size efs ZIP_EF_CENTRAL else 0)
      in uint (if ls > cs then ls else cs) - (case pos of None \<Rightarrow> 0 | Some p \<Rightarrow> uint (ef_size (efs ! p)) + 4) + (uint len + 4))"

definition zip_file_extra_field_set ::
  "malloc \<Rightarrow> int \<Rightarrow> 's zip_archive \<Rightarrow> u64 \<Rightarrow> u16 \<Rightarrow> u16 \<Rightarrow> bytes \<Rightarrow> u16 \<Rightarrow> u32 \<Rightarrow> int \<times> 's zip_archive" where
  "zip_file_extra_field_set mem errno za idx i ef_idx data len flags =
     (if flags AND ZIP_EF_BOTH = 0 then za_fail za ZIP_ER_INVAL
      else case zip_get_dirent za idx 0 None of
        (None, za, _) \<Rightarrow> (-1, za)
      | (Some _, za, _) \<Rightarrow>
          if ZIP_IS_RDONLY za then za_fail za ZIP_ER_RDONLY
          else if ZIP_EF_IS_INTERNAL i then za_fail za ZIP_ER_INVAL
          else case zip_file_extra_field_prepare_for_change mem errno za idx of
            (r, za) \<Rightarrow>
              if r < 0 then (-1, za)
              else
              let efs = entry_extra_fields za idx
              in case ef_set_find efs i ef_idx flags 0 0 of
                   (pos, k) \<Rightarrow>
                     if k < unat ef_idx \<and> ef_idx \<noteq> ZIP_EXTRA_FIELD_NEW then za_fail za ZIP_ER_INVAL
                     else if ef_set_len efs pos len flags > int ZIP_UINT16_MAX then za_fail za ZIP_ER_INVAL
                     else case zip_ef_new mem i len data flags of
                       None \<Rightarrow> za_fail za ZIP_ER_MEMORY
                     | Some new \<Rightarrow> (0, put_extra_fields za idx (ef_set_at efs pos new flags)))"

end
