(* ===== verification/Zip_Extra_Api_Facts.thy ===== *)
theory Zip_Extra_Api_Facts
  imports Zip_Extra_Api
begin

text \<open>
  What the extra field interface keeps: reading the local fields changes nothing a program sees in the central
  header, preparing an entry for a change gives it a list of its own with the same contents, and setting a
  field is seen by every later lookup and by no lookup of another field.
\<close>

section \<open>What a lookup sees\<close>

text \<open>The data and lengths of the fields of an id in a header, in order.\<close>

definition ef_view :: "zip_extra_field list \<Rightarrow> u16 \<Rightarrow> u32 \<Rightarrow> (bytes \<times> u16) list" where
  "ef_view efs i fl = map (\<lambda>ef. (if ef_size ef > 0 then ef_data ef else [], ef_size ef)) (ef_matching efs i fl)"

lemma get_by_id_view:
  "fst (zip_ef_get_by_id efs i n fl err) = (let v = ef_view efs i fl in if unat n < length v then Some (v ! unat n) else None)"
  using ef_get_loop_nth [of "unat n" n efs i fl] by (simp add: zip_ef_get_by_id_def ef_view_def Let_def)

lemma get_by_id_err: "fst (zip_ef_get_by_id efs i n fl err) = Some r \<Longrightarrow> snd (zip_ef_get_by_id efs i n fl err) = err"
  by (auto simp: zip_ef_get_by_id_def split: option.splits)

lemma ef_view_append [simp]: "ef_view (xs @ ys) i fl = ef_view xs i fl @ ef_view ys i fl"
  by (simp add: ef_view_def ef_matching_def)

lemma ef_view_Nil [simp]: "ef_view [] i fl = []"
  by (simp add: ef_view_def ef_matching_def)

lemma ef_view_Cons:
  "ef_view (ef # efs) i fl = (if ef_id ef = i \<and> ef_in fl ef
    then (if ef_size ef > 0 then ef_data ef else [], ef_size ef) # ef_view efs i fl else ef_view efs i fl)"
  by (simp add: ef_view_def ef_matching_def)

text \<open>Merging in fields of one header leaves those of the other as they were.\<close>

lemma ef_merge_one_view:
  assumes "\<not> ef_in fl f"
  shows "ef_view (ef_merge_one efs f) i fl = ef_view efs i fl"
proof (induction efs)
  case (Cons t ts)
  have "ef_in fl (t\<lparr>ef_flags := ef_flags t OR (ef_flags f AND ZIP_EF_BOTH)\<rparr>) = ef_in fl t"
  proof -
    have "(ef_flags t OR (ef_flags f AND ZIP_EF_BOTH)) AND fl AND ZIP_EF_BOTH =
        (ef_flags t AND fl AND ZIP_EF_BOTH) OR (ef_flags f AND fl AND ZIP_EF_BOTH)"
      by (rule bit_word_eqI) (auto simp: bit_simps)
    then show ?thesis using assms by (simp add: ef_in_def)
  qed
  then show ?case using Cons by (simp add: ef_view_Cons)
qed (use assms in \<open>simp add: ef_view_Cons\<close>)

lemma ef_merge_view:
  assumes "list_all (\<lambda>f. \<not> ef_in fl f) new"
  shows "ef_view (zip_ef_merge efs new) i fl = ef_view efs i fl"
proof -
  have "ef_view (foldl ef_merge_one efs new) i fl = ef_view efs i fl"
    using assms by (induction new arbitrary: efs) (auto simp: ef_merge_one_view)
  moreover have "ef_view new i fl = []"
    using assms by (induction new) (auto simp: ef_view_Cons)
  ultimately show ?thesis by (auto simp: zip_ef_merge_def)
qed

section \<open>Fields as the library makes them\<close>

text \<open>A field never has more data than its size; cloning such fields gives equal ones.\<close>

definition ef_fits :: "zip_extra_field \<Rightarrow> bool" where
  "ef_fits ef = (length (ef_data ef) \<le> unat (ef_size ef))"

lemma ef_new_fits: "zip_ef_new mem i sz data flags = Some ef \<Longrightarrow> ef_fits ef \<and> ef_flags ef = flags \<and> ef_id ef = i \<and> ef_size ef = sz"
  by (auto simp: zip_ef_new_def ef_fits_def word_gt_0 split: if_splits)

lemma ef_new_self:
  assumes "ef_fits ef" "zip_ef_new mem (ef_id ef) (ef_size ef) (ef_data ef) (ef_flags ef) = Some d"
  shows "d = ef"
proof -
  have "ef_size ef = 0 \<Longrightarrow> ef_data ef = []" using assms(1) by (simp add: ef_fits_def)
  then show ?thesis
    using assms by (cases ef) (auto simp: zip_ef_new_def ef_fits_def word_gt_0 split: if_splits)
qed

lemma ef_clone_self:
  "list_all ef_fits efs \<Longrightarrow> zip_ef_clone mem efs err = (Some ds, err') \<Longrightarrow> ds = efs \<and> err' = err"
proof (induction efs arbitrary: ds err')
  case (Cons ef efs)
  then show ?case by (auto dest: ef_new_self split: option.splits prod.splits)
qed simp

lemma ef_parse_loop_fits:
  "ef_parse_loop mem flags b efs err = (Some (es, b'), err') \<Longrightarrow>
   list_all (\<lambda>ef. ef_fits ef \<and> ef_flags ef = flags) efs \<Longrightarrow>
   list_all (\<lambda>ef. ef_fits ef \<and> ef_flags ef = flags) es"
proof (induction mem flags b efs err rule: ef_parse_loop.induct)
  case (1 mem flags b efs err)
  show ?case
  proof (cases "zip_buffer_ok b \<and> zip_buffer_left b \<ge> 4")
    case False
    then show ?thesis using 1(2,3) by (subst (asm) ef_parse_loop.simps) auto
  next
    case True
    obtain fid b1 where g1: "zip_buffer_get_16 b = (fid, b1)" by (cases "zip_buffer_get_16 b")
    obtain flen b2 where g2: "zip_buffer_get_16 b1 = (flen, b2)" by (cases "zip_buffer_get_16 b1")
    obtain r b3 where g3: "zip_buffer_get b2 (ucast flen) = (r, b3)" by (cases "zip_buffer_get b2 (ucast flen)")
    show ?thesis
    proof (cases r)
      case None
      then show ?thesis using 1(2) True g1 g2 g3 by (subst (asm) ef_parse_loop.simps) simp
    next
      case (Some p)
      show ?thesis
      proof (cases "zip_ef_new mem fid flen (buf_bytes b3 p (unat flen)) flags")
        case None
        then show ?thesis using 1(2) True g1 g2 g3 Some by (subst (asm) ef_parse_loop.simps) simp
      next
        case new: (Some ef)
        have "ef_parse_loop mem flags b3 (efs @ [ef]) err = (Some (es, b'), err')"
          using 1(2) True g1 g2 g3 Some new by (subst (asm) ef_parse_loop.simps) simp
        then show ?thesis
          using 1(1) [OF True g1 [symmetric] refl g2 [symmetric] refl g3 [symmetric] Some new] 1(3) ef_new_fits [OF new]
          by simp
      qed
    qed
  qed
qed

lemma ef_parse_fits:
  "zip_ef_parse mem data len flags err = (Some es, err') \<Longrightarrow> list_all (\<lambda>ef. ef_fits ef \<and> ef_flags ef = flags) es"
  by (auto simp: zip_ef_parse_def Let_def dest!: ef_parse_loop_fits split: option.splits prod.splits if_splits)

lemma ef_merge_one_fits: "list_all ef_fits efs \<Longrightarrow> ef_fits f \<Longrightarrow> list_all ef_fits (ef_merge_one efs f)"
  by (induction efs) (auto simp: ef_fits_def)

lemma ef_merge_fits: "list_all ef_fits efs \<Longrightarrow> list_all ef_fits new \<Longrightarrow> list_all ef_fits (zip_ef_merge efs new)"
proof -
  have "list_all ef_fits es \<Longrightarrow> list_all ef_fits new \<Longrightarrow> list_all ef_fits (foldl ef_merge_one es new)" for es
    by (induction new arbitrary: es) (auto simp: ef_merge_one_fits)
  then show "list_all ef_fits efs \<Longrightarrow> list_all ef_fits new \<Longrightarrow> ?thesis" by (simp add: zip_ef_merge_def)
qed

lemma remove_internal_all: "list_all P efs \<Longrightarrow> list_all P (zip_ef_remove_internal efs)"
  by (induction efs) auto

section \<open>Reading the local fields\<close>

lemma local_ef_lens_entry: "local_ef_lens mem za offset = (r, za1) \<Longrightarrow> za_entry za1 = za_entry za"
  by (auto simp: local_ef_lens_def Let_def za_source_failed_def split: if_splits prod.splits option.splits)

lemma local_ef_fields_entry:
  "local_ef_fields mem errno za fl el = (r, za1) \<Longrightarrow> za_entry za1 = za_entry za \<and>
   (\<forall>efs. r = Some efs \<longrightarrow> list_all (\<lambda>ef. ef_fits ef \<and> ef_flags ef = ZIP_EF_LOCAL) efs)"
  by (auto simp: local_ef_fields_def Let_def dest!: ef_parse_fits split: if_splits prod.splits option.splits)

text \<open>Either nothing was to be read, or the entry has learnt a list of local fields, or the archive's entries are unchanged.\<close>

lemma read_local_cases:
  assumes "zip_read_local_ef mem errno za idx = (r, za1)"
  obtains (none) "r = 0" "za1 = za" "\<forall>o'. en_orig (za_entry_at za idx) = Some o' \<longrightarrow> de_local_extra_fields_read o'"
  | (read) efs where "r = 0" "list_all (\<lambda>ef. ef_fits ef \<and> ef_flags ef = ZIP_EF_LOCAL) efs"
      "za_entry za1 = (za_entry za)[unat idx := entry_local_ef efs (za_entry_at za idx)]"
      "en_orig (za_entry_at za idx) \<noteq> None"
      "\<not> de_local_extra_fields_read (the (en_orig (za_entry_at za idx)))"
  | (failed) "r = -1" "za_entry za1 = za_entry za"
proof (cases "za_has za idx")
  case False
  then show ?thesis using assms by (intro that(3)) (auto simp: zip_read_local_ef_def za_fail_def)
next
  case True
  show ?thesis
  proof (cases "en_orig (za_entry_at za idx)")
    case None
    then show ?thesis using assms that(1) True by (simp add: zip_read_local_ef_def)
  next
    case (Some orig)
    show ?thesis
    proof (cases "de_local_extra_fields_read orig")
      case read: True
      then show ?thesis using assms that(1) True Some by (simp add: zip_read_local_ef_def)
    next
      case unread: False
      obtain q za2 where lens: "local_ef_lens mem za (de_offset orig) = (q, za2)" by fastforce
      note za2 = local_ef_lens_entry [OF lens]
      show ?thesis
      proof (cases q)
        case None
        then show ?thesis using assms that(3) True Some unread lens za2 by (simp add: zip_read_local_ef_def)
      next
        case q: (Some p)
        obtain fl el where p: "p = (fl, el)" by (cases p)
        obtain w za3 where w: "(if el > 0 then local_ef_fields mem errno za2 fl el else (Some [], za2)) = (w, za3)"
          by fastforce
        have za3: "za_entry za3 = za_entry za" "w = Some efs \<Longrightarrow> list_all (\<lambda>ef. ef_fits ef \<and> ef_flags ef = ZIP_EF_LOCAL) efs" for efs
          using w za2 local_ef_fields_entry [of mem errno za2 fl el] by (auto split: if_splits)
        have res: "zip_read_local_ef mem errno za idx = (case w of None \<Rightarrow> (-1, za3)
            | Some efs \<Rightarrow> (0, za_put_entry za3 idx (entry_local_ef efs (za_entry_at za idx))))"
          using True Some unread lens q p w by (auto simp: zip_read_local_ef_def split: if_splits)
        show ?thesis
          using res assms za3 Some unread that(2,3) by (cases w) (auto simp: za_put_entry_def)
      qed
    qed
  qed
qed

section \<open>Preparing an entry\<close>

text \<open>What holds of the fields of an entry: those of an original fit their sizes; a changed entry has its own list only
  when that is marked as a change, made after the local fields were read, and has that of the original otherwise.\<close>

definition entry_ef_ok :: "'s zip_entry \<Rightarrow> bool" where
  "entry_ef_ok e \<longleftrightarrow>
     (\<forall>o'. en_orig e = Some o' \<longrightarrow> list_all ef_fits (de_extra_fields o') \<and>
       (\<forall>d. en_changes e = Some d \<longrightarrow>
         (if de_changed d AND ZIP_DIRENT_EXTRA_FIELD \<noteq> 0 then de_local_extra_fields_read o'
          else de_extra_fields d = de_extra_fields o' \<and>
               de_local_extra_fields_read d = de_local_extra_fields_read o')))"

definition local_merged :: "zip_extra_field list \<Rightarrow> zip_dirent \<Rightarrow> zip_extra_field list" where
  "local_merged efs d = (if efs = [] then de_extra_fields d
     else zip_ef_merge (de_extra_fields d) (zip_ef_remove_internal efs))"

lemma entry_local_ef_eq:
  "entry_local_ef efs e =
     (let learn = (\<lambda>d. d\<lparr>de_extra_fields := local_merged efs (the (en_orig e)), de_local_extra_fields_read := True\<rparr>)
      in e\<lparr>en_orig := Some (learn (the (en_orig e))),
           en_changes := map_option (\<lambda>d. if de_local_extra_fields_read d then d else learn d) (en_changes e)\<rparr>)"
  by (simp add: entry_local_ef_def local_merged_def Let_def)

lemma local_merged_fits:
  "list_all ef_fits (de_extra_fields d) \<Longrightarrow> list_all ef_fits efs \<Longrightarrow> list_all ef_fits (local_merged efs d)"
  by (simp add: local_merged_def ef_merge_fits remove_internal_all)

lemma entry_local_ef_ok:
  assumes "entry_ef_ok e" "list_all ef_fits efs" "en_orig e = Some o'" "\<not> de_local_extra_fields_read o'"
  shows "entry_ef_ok (entry_local_ef efs e)"
proof -
  have fits: "list_all ef_fits (local_merged efs o')"
    using assms(1-3) by (intro local_merged_fits) (auto simp: entry_ef_ok_def)
  have ch: "de_changed d AND ZIP_DIRENT_EXTRA_FIELD = 0 \<and> \<not> de_local_extra_fields_read d" if "en_changes e = Some d" for d
    using assms(1,3,4) that by (auto simp: entry_ef_ok_def split: if_splits)
  show ?thesis
    using fits ch assms(3) by (cases "en_changes e") (auto simp: entry_ef_ok_def entry_local_ef_eq Let_def)
qed

text \<open>The fields of the entry as a lookup sees them.\<close>

definition entry_fields :: "'s zip_entry \<Rightarrow> zip_extra_field list" where
  "entry_fields e = de_extra_fields (entry_dirent e)"

lemma entry_local_ef_view:
  assumes "entry_ef_ok e" "list_all (\<lambda>ef. ef_fits ef \<and> ef_flags ef = ZIP_EF_LOCAL) efs" "fl AND ZIP_EF_LOCAL = 0"
    "en_orig e = Some o'" "\<not> de_local_extra_fields_read o'"
  shows "ef_view (entry_fields (entry_local_ef efs e)) i fl = ef_view (entry_fields e) i fl"
proof -
  have "list_all (\<lambda>f. \<not> ef_in fl f) (zip_ef_remove_internal efs)"
  proof (rule remove_internal_all, rule list.pred_mono_strong [OF assms(2)])
    fix f assume "ef_fits f \<and> ef_flags f = ZIP_EF_LOCAL"
    then have "ef_flags f AND fl AND ZIP_EF_BOTH = (fl AND ZIP_EF_LOCAL) AND ZIP_EF_BOTH" by (simp add: ac_simps)
    then show "\<not> ef_in fl f" unfolding ef_in_def assms(3) by simp
  qed
  then have merge: "ef_view (local_merged efs o') i fl = ef_view (de_extra_fields o') i fl"
    by (simp add: local_merged_def ef_merge_view)
  have ch: "de_extra_fields d = de_extra_fields o' \<and> \<not> de_local_extra_fields_read d" if "en_changes e = Some d" for d
    using assms(1,4,5) that by (auto simp: entry_ef_ok_def split: if_splits)
  show ?thesis
    using assms(4) merge ch by (cases "en_changes e") (auto simp: entry_fields_def entry_dirent_def entry_local_ef_eq Let_def)
qed

lemma put_entry_at [simp]: "za_has za idx \<Longrightarrow> za_entry_at (za_put_entry za idx e) idx = e"
  "za_has (za_put_entry za idx e) i = za_has za i"
  by (simp_all add: za_entry_at_def za_put_entry_def za_has_def)

text \<open>An entry that can be looked at.\<close>

definition entry_live :: "'s zip_entry \<Rightarrow> bool" where
  "entry_live e = (en_changes e \<noteq> None \<or> en_orig e \<noteq> None \<and> \<not> en_deleted e)"

lemma get_dirent_live:
  "za_has za idx \<Longrightarrow> entry_live (za_entry_at za idx) \<Longrightarrow> fl AND ZIP_FL_UNCHANGED = 0 \<Longrightarrow>
   zip_get_dirent za idx fl err = (Some (entry_dirent (za_entry_at za idx)), za, err)"
  by (auto simp: zip_get_dirent_def entry_live_def entry_dirent_def Let_def)

lemma get_dirent_some:
  "zip_get_dirent za idx 0 None = (Some de, za', err) \<Longrightarrow> za' = za \<and> za_has za idx \<and> entry_live (za_entry_at za idx)"
  by (auto simp: zip_get_dirent_def Let_def entry_live_def split: if_splits)

lemma local_ef_live: "entry_live e \<Longrightarrow> entry_live (entry_local_ef efs e)"
  by (auto simp: entry_live_def entry_local_ef_eq Let_def)

text \<open>A lookup, when the fields it needs are known.\<close>

definition ef_lookup :: "zip_extra_field list \<Rightarrow> u16 \<Rightarrow> u16 \<Rightarrow> u32 \<Rightarrow> (bytes \<times> u16) option" where
  "ef_lookup efs i n fl = (let v = ef_view efs i fl in if unat n < length v then Some (v ! unat n) else None)"

lemma get_by_id_central:
  assumes "za_has za idx" "entry_live (za_entry_at za idx)" "fl AND ZIP_FL_UNCHANGED = 0" "fl AND ZIP_EF_BOTH \<noteq> 0"
    "fl AND ZIP_EF_LOCAL = 0"
  shows "fst (zip_file_extra_field_get_by_id mem errno za idx j k fl) = ef_lookup (entry_fields (za_entry_at za idx)) j k fl"
  unfolding zip_file_extra_field_get_by_id_def ef_dirent_def with_za_error_def get_dirent_live [OF assms(1-3)]
  using assms get_by_id_view [of "entry_fields (za_entry_at za idx)" j k fl "za_error za"]
  by (auto simp: entry_fields_def ef_lookup_def split: prod.splits)

lemma get_by_id_local:
  assumes "za_has za idx" "entry_live (za_entry_at za idx)" "fl AND ZIP_FL_UNCHANGED = 0" "fl AND ZIP_EF_LOCAL \<noteq> 0"
    "zip_read_local_ef mem errno za idx = (0, za1)" "za_has za1 idx" "entry_live (za_entry_at za1 idx)"
  shows "fst (zip_file_extra_field_get_by_id mem errno za idx j k fl) = ef_lookup (entry_fields (za_entry_at za1 idx)) j k fl"
    "fst (zip_file_extra_field_get_by_id mem errno za idx j k fl) = Some r \<Longrightarrow>
      snd (zip_file_extra_field_get_by_id mem errno za idx j k fl) = za1"
proof -
  have "fl AND ZIP_EF_BOTH \<noteq> 0"
  proof
    assume "fl AND ZIP_EF_BOTH = 0"
    then have "(fl AND ZIP_EF_BOTH) AND ZIP_EF_LOCAL = 0" by simp
    then show False using assms(4) by (simp add: and.assoc)
  qed
  then have "ef_dirent mem errno za idx fl = (Some (entry_dirent (za_entry_at za1 idx)), za1)"
    unfolding ef_dirent_def with_za_error_def get_dirent_live [OF assms(1-3)]
    using assms(4,5) get_dirent_live [OF assms(6,7,3), of None] by simp
  then have eq: "zip_file_extra_field_get_by_id mem errno za idx j k fl =
    (case zip_ef_get_by_id (entry_fields (za_entry_at za1 idx)) j k fl (za_error za1) of (r, err) \<Rightarrow> (r, za1\<lparr>za_error := err\<rparr>))"
    by (simp add: zip_file_extra_field_get_by_id_def entry_fields_def)
  show "fst (zip_file_extra_field_get_by_id mem errno za idx j k fl) = ef_lookup (entry_fields (za_entry_at za1 idx)) j k fl"
    using get_by_id_view [of "entry_fields (za_entry_at za1 idx)" j k fl "za_error za1"]
    unfolding eq ef_lookup_def by (auto split: prod.splits)
  show "snd (zip_file_extra_field_get_by_id mem errno za idx j k fl) = za1"
    if "fst (zip_file_extra_field_get_by_id mem errno za idx j k fl) = Some r"
    using that get_by_id_err [of "entry_fields (za_entry_at za1 idx)" j k fl "za_error za1" r]
    unfolding eq by (auto split: prod.splits)
qed

text \<open>The archive after a successful preparation: the entry has its own list, and lookups see what they saw before.\<close>

definition ef_prepared :: "'s zip_archive \<Rightarrow> u64 \<Rightarrow> zip_dirent \<Rightarrow> bool" where
  "ef_prepared za idx d \<longleftrightarrow> za_has za idx \<and> en_changes (za_entry_at za idx) = Some d \<and>
     de_changed d AND ZIP_DIRENT_EXTRA_FIELD \<noteq> 0 \<and>
     (\<forall>o'. en_orig (za_entry_at za idx) = Some o' \<longrightarrow> list_all ef_fits (de_extra_fields o') \<and> de_local_extra_fields_read o')"

lemma read_local_known:
  assumes "za_has za idx" "\<forall>o'. en_orig (za_entry_at za idx) = Some o' \<longrightarrow> de_local_extra_fields_read o'"
  shows "zip_read_local_ef mem errno za idx = (0, za)"
  using assms by (cases "en_orig (za_entry_at za idx)") (auto simp: zip_read_local_ef_def Let_def)

lemma prepared_read:
  "ef_prepared za idx d \<Longrightarrow> zip_read_local_ef mem errno za idx = (0, za)"
  "ef_prepared za idx d \<Longrightarrow> entry_live (za_entry_at za idx)"
  "ef_prepared za idx d \<Longrightarrow> entry_fields (za_entry_at za idx) = de_extra_fields d"
  "ef_prepared za idx d \<Longrightarrow> entry_ef_ok (za_entry_at za idx)"
  by (auto simp: ef_prepared_def entry_live_def entry_fields_def entry_dirent_def entry_ef_ok_def intro!: read_local_known)

lemma get_by_id_prepared:
  assumes "ef_prepared za idx d" "fl AND ZIP_FL_UNCHANGED = 0" "fl AND ZIP_EF_BOTH \<noteq> 0"
  shows "fst (zip_file_extra_field_get_by_id mem errno za idx j k fl) = ef_lookup (de_extra_fields d) j k fl"
proof (cases "fl AND ZIP_EF_LOCAL = 0")
  case True
  then show ?thesis
    using get_by_id_central [OF _ prepared_read(2) [OF assms(1)] assms(2,3)] assms(1) prepared_read(3) [OF assms(1)]
    by (simp add: ef_prepared_def)
next
  case False
  have "za_has za idx" using assms(1) by (simp add: ef_prepared_def)
  from get_by_id_local(1) [OF this prepared_read(2) [OF assms(1)] assms(2) False prepared_read(1) [OF assms(1)] this
      prepared_read(2) [OF assms(1)]]
  show ?thesis unfolding prepared_read(3) [OF assms(1)] .
qed

lemma prepare_changes_ok:
  assumes ok: "entry_ef_ok (za_entry_at za idx)" and live: "za_has za idx" "entry_live (za_entry_at za idx)"
    and known: "\<not> ZIP_ENTRY_CHANGED (za_entry_at za idx) ZIP_DIRENT_EXTRA_FIELD"
    and read: "\<forall>o'. en_orig (za_entry_at za idx) = Some o' \<longrightarrow> de_local_extra_fields_read o'"
    and prep: "prepare_changes mem za idx = (0, za1)"
  shows "\<exists>d. ef_prepared za1 idx d \<and> de_extra_fields d = entry_fields (za_entry_at za idx)"
proof -
  obtain e where e: "za_entry_at za idx = e" by blast
  obtain d where d: "(if en_changes e = None then zip_dirent_clone mem (en_orig e) else en_changes e) = Some d"
    using prep unfolding prepare_changes_def Let_def e
    by (cases "if en_changes e = None then zip_dirent_clone mem (en_orig e) else en_changes e") (auto simp: za_fail_def)
  have d_fields: "de_extra_fields d = entry_fields e"
    using d live(2) unfolding e
    by (auto simp: entry_fields_def entry_dirent_def zip_dirent_clone_def entry_live_def Let_def split: if_splits option.splits)
  obtain w err where own: "own_fields mem e d (za_error za) = (w, err)" by fastforce
  then obtain efs where w: "w = Some efs"
    using prep unfolding prepare_changes_def Let_def e d by (cases w) (simp_all add: own)
  have za1: "za1 = (za_put_entry za idx (e\<lparr>en_changes := Some (d\<lparr>de_extra_fields := efs,
      de_changed := de_changed d OR ZIP_DIRENT_EXTRA_FIELD\<rparr>)\<rparr>))\<lparr>za_error := err\<rparr>"
    using prep unfolding prepare_changes_def Let_def e d by (simp add: own w)
  have efs: "efs = entry_fields e"
  proof (cases "en_orig e")
    case None
    then show ?thesis using own w d_fields by (simp add: own_fields_def)
  next
    case (Some orig)
    have fits: "list_all ef_fits (de_extra_fields orig)" using ok Some by (simp add: entry_ef_ok_def e)
    have same: "entry_fields e = de_extra_fields orig"
      using ok Some known unfolding e
      by (cases "en_changes e") (auto simp: entry_fields_def entry_dirent_def entry_ef_ok_def ZIP_ENTRY_CHANGED_def)
    show ?thesis
      using own w d_fields same Some ef_clone_self [OF fits] by (auto simp: own_fields_def split: if_splits)
  qed
  have "(de_changed d OR ZIP_DIRENT_EXTRA_FIELD) AND ZIP_DIRENT_EXTRA_FIELD = ZIP_DIRENT_EXTRA_FIELD"
    by (rule bit_word_eqI) (auto simp: bit_simps)
  then obtain c where c: "c = de_changed d OR ZIP_DIRENT_EXTRA_FIELD" "c AND ZIP_DIRENT_EXTRA_FIELD \<noteq> 0" by fastforce
  have at: "za_entry_at za1 idx = e\<lparr>en_changes := Some (d\<lparr>de_extra_fields := efs, de_changed := c\<rparr>)\<rparr>" "za_has za1 idx"
    using live(1) by (simp_all add: za1 za_entry_at_def za_put_entry_def za_has_def c(1))
  have orig: "list_all ef_fits (de_extra_fields o') \<and> de_local_extra_fields_read o'" if "en_orig e = Some o'" for o'
    using ok read that by (simp add: entry_ef_ok_def e)
  have "ef_prepared za1 idx (d\<lparr>de_extra_fields := efs, de_changed := c\<rparr>)"
    using at(2) c(2) orig by (simp add: ef_prepared_def at(1))
  then show ?thesis using efs e by (intro exI) auto
qed

lemma local_ef_unchanged_flag:
  "ZIP_ENTRY_CHANGED (entry_local_ef efs e) f = ZIP_ENTRY_CHANGED e f"
  by (auto simp: ZIP_ENTRY_CHANGED_def entry_local_ef_eq Let_def split: option.splits)

lemma read_local_current:
  assumes ok: "entry_ef_ok (za_entry_at za idx)" and has: "za_has za idx" "entry_live (za_entry_at za idx)"
    and orig: "en_orig (za_entry_at za idx) = Some o'" and read: "zip_read_local_ef mem errno za idx = (r, za1)" "r \<ge> 0"
  shows "r = 0" "za_has za1 idx" "entry_live (za_entry_at za1 idx)" "entry_ef_ok (za_entry_at za1 idx)"
    "\<not> ZIP_ENTRY_CHANGED (za_entry_at za idx) f \<Longrightarrow> \<not> ZIP_ENTRY_CHANGED (za_entry_at za1 idx) f"
    "\<forall>o'. en_orig (za_entry_at za1 idx) = Some o' \<longrightarrow> de_local_extra_fields_read o'"
    "fl AND ZIP_EF_LOCAL = 0 \<Longrightarrow>
      ef_view (entry_fields (za_entry_at za1 idx)) i fl = ef_view (entry_fields (za_entry_at za idx)) i fl"
proof -
  let ?e = "za_entry_at za idx"
  consider "r = 0" "za1 = za" "de_local_extra_fields_read o'"
    | efs where "r = 0" "list_all (\<lambda>ef. ef_fits ef \<and> ef_flags ef = ZIP_EF_LOCAL) efs"
        "za_entry_at za1 idx = entry_local_ef efs ?e" "za_has za1 idx" "\<not> de_local_extra_fields_read o'"
    using read(1)
  proof (cases rule: read_local_cases)
    case none
    then show ?thesis using orig that(1) by simp
  next
    case (read efs)
    then show ?thesis using has(1) orig by (intro that(2) [of efs]) (simp_all add: za_entry_at_def za_has_def)
  qed (use read(2) in simp)
  then have "r = 0 \<and> za_has za1 idx \<and> entry_live (za_entry_at za1 idx) \<and> entry_ef_ok (za_entry_at za1 idx) \<and>
      (ZIP_ENTRY_CHANGED (za_entry_at za1 idx) f \<longrightarrow> ZIP_ENTRY_CHANGED ?e f) \<and>
      (\<forall>o'. en_orig (za_entry_at za1 idx) = Some o' \<longrightarrow> de_local_extra_fields_read o') \<and>
      (fl AND ZIP_EF_LOCAL = 0 \<longrightarrow> ef_view (entry_fields (za_entry_at za1 idx)) i fl = ef_view (entry_fields ?e) i fl)"
  proof cases
    case 1
    then show ?thesis using has ok orig by simp
  next
    case (2 efs)
    have "list_all ef_fits efs" by (rule list.pred_mono_strong [OF 2(2)]) simp
    note ok2 = entry_local_ef_ok [OF ok this orig 2(5)]
    have "en_orig (entry_local_ef efs ?e) = Some o' \<Longrightarrow> de_local_extra_fields_read o'" for o'
      by (auto simp: entry_local_ef_eq Let_def)
    then show ?thesis
      unfolding 2(3)
      using 2(1,4) local_ef_live [OF has(2)] ok2 entry_local_ef_view [OF ok 2(2) _ orig 2(5)]
      by (simp add: local_ef_unchanged_flag)
  qed
  then show "r = 0" "za_has za1 idx" "entry_live (za_entry_at za1 idx)" "entry_ef_ok (za_entry_at za1 idx)"
    "\<not> ZIP_ENTRY_CHANGED (za_entry_at za idx) f \<Longrightarrow> \<not> ZIP_ENTRY_CHANGED (za_entry_at za1 idx) f"
    "\<forall>o'. en_orig (za_entry_at za1 idx) = Some o' \<longrightarrow> de_local_extra_fields_read o'"
    "fl AND ZIP_EF_LOCAL = 0 \<Longrightarrow>
      ef_view (entry_fields (za_entry_at za1 idx)) i fl = ef_view (entry_fields (za_entry_at za idx)) i fl"
    by blast+
qed

lemma prepare_ok:
  assumes ok: "entry_ef_ok (za_entry_at za idx)" and has: "za_has za idx" "entry_live (za_entry_at za idx)"
    and prep: "zip_file_extra_field_prepare_for_change mem errno za idx = (0, za1)"
  shows "\<exists>d. ef_prepared za1 idx d \<and>
    (\<forall>fl j k. fl AND ZIP_FL_UNCHANGED = 0 \<longrightarrow> fl AND ZIP_EF_BOTH \<noteq> 0 \<longrightarrow>
      fst (zip_file_extra_field_get_by_id mem errno za idx j k fl) = ef_lookup (de_extra_fields d) j k fl)"
proof -
  let ?e = "za_entry_at za idx"
  consider (changed) "ZIP_ENTRY_CHANGED ?e ZIP_DIRENT_EXTRA_FIELD"
    | (new) "\<not> ZIP_ENTRY_CHANGED ?e ZIP_DIRENT_EXTRA_FIELD" "en_orig ?e = None"
    | (old) o' where "\<not> ZIP_ENTRY_CHANGED ?e ZIP_DIRENT_EXTRA_FIELD" "en_orig ?e = Some o'" by blast
  then show ?thesis
  proof cases
    case changed
    then obtain d where d: "en_changes ?e = Some d" "de_changed d AND ZIP_DIRENT_EXTRA_FIELD \<noteq> 0"
      by (cases "en_changes ?e") (auto simp: ZIP_ENTRY_CHANGED_def)
    have "list_all ef_fits (de_extra_fields o') \<and> de_local_extra_fields_read o'" if "en_orig ?e = Some o'" for o'
      using ok d that by (simp add: entry_ef_ok_def)
    then have "ef_prepared za idx d" unfolding ef_prepared_def using has(1) d by simp
    moreover have "za1 = za" using changed prep has(1) by (simp add: zip_file_extra_field_prepare_for_change_def)
    ultimately show ?thesis using get_by_id_prepared by blast
  next
    case new
    have "\<forall>o'. en_orig ?e = Some o' \<longrightarrow> de_local_extra_fields_read o'" using new(2) by simp
    note read = read_local_known [OF has(1) this, of mem errno]
    have "prepare_changes mem za idx = (0, za1)"
      using prep new has(1) by (simp add: zip_file_extra_field_prepare_for_change_def)
    then obtain d where d: "ef_prepared za1 idx d" "de_extra_fields d = entry_fields ?e"
      using prepare_changes_ok [OF ok has new(1)] new(2) by auto
    have "fst (zip_file_extra_field_get_by_id mem errno za idx j k fl) = ef_lookup (de_extra_fields d) j k fl"
      if "fl AND ZIP_FL_UNCHANGED = 0" "fl AND ZIP_EF_BOTH \<noteq> 0" for fl j k
    proof (cases "fl AND ZIP_EF_LOCAL = 0")
      case True
      then show ?thesis using get_by_id_central [OF has that True] d(2) by simp
    next
      case False
      show ?thesis using get_by_id_local(1) [OF has that(1) False read has] d(2) by simp
    qed
    then show ?thesis using d(1) by blast
  next
    case old
    obtain r za2 where read: "zip_read_local_ef mem errno za idx = (r, za2)" by fastforce
    have r: "r \<ge> 0"
    proof (rule ccontr)
      assume "\<not> r \<ge> 0"
      then have "zip_file_extra_field_prepare_for_change mem errno za idx = (-1, za2)"
        using read old has(1) by (simp add: zip_file_extra_field_prepare_for_change_def)
      then show False using prep by simp
    qed
    note facts = read_local_current [OF ok has old(2) read r] and old_flag = old(1)
    then have read: "zip_read_local_ef mem errno za idx = (0, za2)" using read by simp
    note zas = facts(2-4) facts(5) [OF old(1)] facts(6)
    have "prepare_changes mem za2 idx = (0, za1)"
      using prep has(1) old read by (simp add: zip_file_extra_field_prepare_for_change_def)
    then obtain d where d: "ef_prepared za1 idx d" "de_extra_fields d = entry_fields (za_entry_at za2 idx)"
      using prepare_changes_ok [OF zas(3,1,2,4,5)] by blast
    have "fst (zip_file_extra_field_get_by_id mem errno za idx j k fl) = ef_lookup (de_extra_fields d) j k fl"
      if "fl AND ZIP_FL_UNCHANGED = 0" "fl AND ZIP_EF_BOTH \<noteq> 0" for fl j k
    proof (cases "fl AND ZIP_EF_LOCAL = 0")
      case True
      then show ?thesis using get_by_id_central [OF has that True] facts(7) [OF True] d(2) by (simp add: ef_lookup_def)
    next
      case False
      show ?thesis using get_by_id_local(1) [OF has that(1) False read zas(1,2)] d(2) by simp
    qed
    then show ?thesis using d(1) by blast
  qed
qed

section \<open>Setting a field\<close>

lemma ef_view_length: "length (ef_view efs i fl) = length (ef_matching efs i fl)"
  by (simp add: ef_view_def)

lemma ef_set_find_spec:
  assumes "k \<le> unat n"
  shows "(\<exists>pre ef post. efs = pre @ ef # post \<and> ef_set_find efs i n flags k pos = (Some (pos + length pre), unat n) \<and>
      k + length (ef_matching pre i flags) = unat n \<and> ef_id ef = i \<and> ef_in flags ef) \<or>
    ef_set_find efs i n flags k pos = (None, k + length (ef_matching efs i flags)) \<and>
      k + length (ef_matching efs i flags) \<le> unat n"
  using assms
proof (induction efs arbitrary: k pos)
  case (Cons ef efs)
  show ?case
  proof (cases "ef_id ef = i \<and> ef_in flags ef")
    case True
    show ?thesis
    proof (cases "k = unat n")
      case eq: True
      then show ?thesis using True by (intro disjI1 exI [of _ "[]"] exI [of _ ef] exI [of _ efs]) (simp add: ef_matching_def)
    next
      case False
      then have "Suc k \<le> unat n" using Cons.prems by simp
      from Cons.IH [OF this, of "Suc pos"] show ?thesis
      proof (elim disjE exE conjE, goal_cases)
        case (1 pre f post)
        then show ?case using True False
          by (intro disjI1 exI [of _ "ef # pre"] exI [of _ f] exI [of _ post]) (simp add: ef_matching_def)
      qed (use True False in \<open>simp add: ef_matching_def\<close>)
    qed
  next
    case False
    from Cons.IH [OF Cons.prems, of "Suc pos"] show ?thesis
    proof (elim disjE exE conjE, goal_cases)
      case (1 pre f post)
      then show ?case using False
        by (intro disjI1 exI [of _ "ef # pre"] exI [of _ f] exI [of _ post]) (auto simp add: ef_matching_def)
    qed (use False in \<open>auto simp add: ef_matching_def\<close>)
  qed
qed (simp add: ef_matching_def)

text \<open>Where the new field is seen, and that no field of another id moved.\<close>

lemma ef_set_at_view:
  assumes "ef_set_find efs i n flags 0 0 = (pos, k)" and "k < unat n \<longrightarrow> n = ZIP_EXTRA_FIELD_NEW"
    and new: "ef_id f = i" "ef_flags f = flags" "flags AND ZIP_EF_BOTH \<noteq> 0"
  shows "\<exists>m :: u16. (n \<noteq> ZIP_EXTRA_FIELD_NEW \<longrightarrow> m = n) \<and>
      ef_lookup (ef_set_at efs pos f flags) i m flags = Some (if ef_size f > 0 then ef_data f else [], ef_size f)"
    "j \<noteq> i \<Longrightarrow> ef_view (ef_set_at efs pos f flags) j fl = ef_view efs j fl"
proof -
  have self: "ef_in flags f" using new(2,3) by (simp add: ef_in_def)
  have "0 \<le> unat n" by simp
  note find = ef_set_find_spec [OF this, of efs i flags 0]
  have "(\<exists>m :: u16. (n \<noteq> ZIP_EXTRA_FIELD_NEW \<longrightarrow> m = n) \<and>
      ef_lookup (ef_set_at efs pos f flags) i m flags = Some (if ef_size f > 0 then ef_data f else [], ef_size f)) \<and>
    (j \<noteq> i \<longrightarrow> ef_view (ef_set_at efs pos f flags) j fl = ef_view efs j fl)"
    using find
  proof (elim disjE exE conjE, goal_cases)
    case (1 pre ef post)
    then have pos: "pos = Some (length pre)" using assms(1) by simp
    have at: "efs ! length pre = ef" "take (length pre) efs = pre" "drop (Suc (length pre)) efs = post"
      "efs[length pre := f] = pre @ f # post" using 1(1) by simp_all
    have len: "length (ef_view pre i flags) = unat n" using 1(3) by (simp add: ef_view_length)
    define g where "g = ef\<lparr>ef_flags := ef_flags ef AND NOT (flags AND ZIP_EF_BOTH)\<rparr>"
    have g: "\<not> ef_in flags g" "ef_id g = ef_id ef" using ef_in_cleared [of flags ef] by (simp_all add: g_def)
    have set: "ef_set_at efs pos f flags =
        (if ef_flags ef AND ZIP_EF_BOTH = flags AND ZIP_EF_BOTH then pre @ f # post else pre @ g # f # post)"
      by (simp add: ef_set_at_def pos Let_def at g_def)
    have "ef_lookup (ef_set_at efs pos f flags) i n flags = Some (if ef_size f > 0 then ef_data f else [], ef_size f)"
      using new(1) self len g(1) by (simp add: set ef_lookup_def Let_def ef_view_Cons nth_append)
    moreover have "j \<noteq> i \<Longrightarrow> ef_view (ef_set_at efs pos f flags) j fl = ef_view efs j fl"
      unfolding set using new(1) 1(4) g(2) by (simp add: ef_view_Cons 1(1))
    ultimately show ?case by blast
  next
    case 2
    then have pos: "pos = None" and k: "k = length (ef_matching efs i flags)" using assms(1) by simp_all
    have len: "unat (of_nat k :: u16) = k"
      using 2(2) k unat_bounds(2) [of n] by (simp add: unsigned_of_nat take_bit_nat_eq_self)
    have m: "n \<noteq> ZIP_EXTRA_FIELD_NEW \<longrightarrow> (of_nat k :: u16) = n"
    proof
      assume "n \<noteq> ZIP_EXTRA_FIELD_NEW"
      then have "k = unat n" using 2(2) k assms(2) by fastforce
      then show "(of_nat k :: u16) = n" using len by (simp add: word_unat_eq_iff)
    qed
    have "ef_lookup (ef_set_at efs pos f flags) i (of_nat k) flags = Some (if ef_size f > 0 then ef_data f else [], ef_size f)"
      unfolding ef_set_at_def pos option.case ef_lookup_def Let_def ef_view_append len
      using new(1) self by (simp add: ef_view_Cons k flip: ef_view_length)
    moreover have "j \<noteq> i \<Longrightarrow> ef_view (ef_set_at efs pos f flags) j fl = ef_view efs j fl"
      using new(1) by (simp add: ef_set_at_def pos ef_view_Cons)
    ultimately show ?case using m by blast
  qed
  then show "\<exists>m :: u16. (n \<noteq> ZIP_EXTRA_FIELD_NEW \<longrightarrow> m = n) \<and>
      ef_lookup (ef_set_at efs pos f flags) i m flags = Some (if ef_size f > 0 then ef_data f else [], ef_size f)"
    "j \<noteq> i \<Longrightarrow> ef_view (ef_set_at efs pos f flags) j fl = ef_view efs j fl"
    by blast+
qed

lemma set_succeeded:
  assumes "zip_file_extra_field_set mem errno za idx i n data len flags = (0, za')"
  obtains za1 pos k f where "flags AND ZIP_EF_BOTH \<noteq> 0" "za_has za idx" "entry_live (za_entry_at za idx)"
    "zip_file_extra_field_prepare_for_change mem errno za idx = (0, za1)"
    "ef_set_find (entry_extra_fields za1 idx) i n flags 0 0 = (pos, k)" "k < unat n \<longrightarrow> n = ZIP_EXTRA_FIELD_NEW"
    "zip_ef_new mem i len data flags = Some f"
    "za' = put_extra_fields za1 idx (ef_set_at (entry_extra_fields za1 idx) pos f flags)"
proof -
  have both: "flags AND ZIP_EF_BOTH \<noteq> 0"
    using assms by (auto simp: zip_file_extra_field_set_def za_fail_def split: if_splits)
  obtain de err where de: "zip_get_dirent za idx 0 None = (Some de, za, err)"
  proof (cases "zip_get_dirent za idx 0 None")
    case (fields r za0 err)
    then show ?thesis
      using that get_dirent_some [of za idx _ za0 err] assms both
      by (cases r) (auto simp: zip_file_extra_field_set_def)
  qed
  obtain r za1 where prep: "zip_file_extra_field_prepare_for_change mem errno za idx = (r, za1)" by fastforce
  obtain pos k where find: "ef_set_find (entry_extra_fields za1 idx) i n flags 0 0 = (pos, k)" by fastforce
  obtain f where f: "zip_ef_new mem i len data flags = f" by blast
  have res: "zip_file_extra_field_set mem errno za idx i n data len flags =
     (if ZIP_IS_RDONLY za then za_fail za ZIP_ER_RDONLY
      else if ZIP_EF_IS_INTERNAL i then za_fail za ZIP_ER_INVAL
      else if r < 0 then (-1, za1)
      else if k < unat n \<and> n \<noteq> ZIP_EXTRA_FIELD_ALL then za_fail za1 ZIP_ER_INVAL
      else if ef_set_len (entry_extra_fields za1 idx) pos len flags > int ZIP_UINT16_MAX then za_fail za1 ZIP_ER_INVAL
      else case f of None \<Rightarrow> za_fail za1 ZIP_ER_MEMORY
        | Some new \<Rightarrow> (0, put_extra_fields za1 idx (ef_set_at (entry_extra_fields za1 idx) pos new flags)))"
    using both by (simp add: zip_file_extra_field_set_def de prep find f Let_def)
  have "\<not> r < 0 \<and> (k < unat n \<longrightarrow> n = ZIP_EXTRA_FIELD_NEW) \<and>
    (\<exists>f'. f = Some f' \<and> za' = put_extra_fields za1 idx (ef_set_at (entry_extra_fields za1 idx) pos f' flags))"
    using assms unfolding res by (cases f) (auto simp: za_fail_def split: if_splits)
  moreover have "\<not> r < 0 \<Longrightarrow> r = 0"
    using prep unfolding zip_file_extra_field_prepare_for_change_def prepare_changes_def
    by (auto simp: za_fail_def Let_def split: if_splits prod.splits option.splits)
  ultimately show ?thesis
    using that [OF both _ _ _ find] prep f get_dirent_some [OF de] by auto
qed

section \<open>What the component promises\<close>


text \<open>A stored entry with one field, for concrete inputs.\<close>

definition one_field_archive :: "unit zip_archive" where
  "one_field_archive =
     \<lparr>za_src = None, za_open_flags = 0, za_error = zip_error_init, za_flags = 0, za_ch_flags = 0, za_default_password = None,
      za_comment_orig = None, za_comment_changes = None, za_comment_changed = False, za_nentry_alloc = 1,
      za_entry = [\<lparr>en_orig = Some (zip_dirent_init\<lparr>de_local_extra_fields_read := True,
          de_extra_fields := [\<lparr>ef_flags = ZIP_EF_BOTH, ef_id = 5, ef_size = 1, ef_data = [3]\<rparr>]\<rparr>),
        en_changes = None, en_source = None, en_deleted = False\<rparr>],
      za_names = \<lparr>hash_table_size = 0, hash_nentries = 0, hash_table = []\<rparr>, za_prefixdata = None\<rparr>"


text \<open>When memory runs out while the fields of the original are copied, the preparation fails, but leaves the entry with
  a changed version that has no fields and is not marked: a lookup then finds nothing where it found a field before.\<close>

lemma prepare_failure_loses_fields:
  "fst (zip_file_extra_field_get_by_id malloc_ok 0 one_field_archive 0 5 0 ZIP_EF_CENTRAL) = Some ([3], 1)"
  "fst (zip_file_extra_field_prepare_for_change (\<lambda>s. s \<noteq> A_ef) 0 one_field_archive 0) = -1"
  "fst (zip_file_extra_field_get_by_id malloc_ok 0
     (snd (zip_file_extra_field_prepare_for_change (\<lambda>s. s \<noteq> A_ef) 0 one_field_archive 0)) 0 5 0 ZIP_EF_CENTRAL) = None"
  by (simp_all add: one_field_archive_def zip_get_dirent_def za_has_def za_entry_at_def with_za_error_def
      zip_file_extra_field_get_by_id_def ef_dirent_def zip_ef_get_by_id_def ef_in_def
      zip_file_extra_field_prepare_for_change_def ZIP_ENTRY_CHANGED_def zip_read_local_ef_def prepare_changes_def
      zip_dirent_clone_def own_fields_def zip_ef_new_def za_put_entry_def zip_dirent_init_def Let_def)

end
