(* ===== verification/Zip_Stack.thy ===== *)
theory Zip_Stack
  imports Zip_Source_Layers
begin

text \<open>
  Sources of any number of layers as values of one type, and sources that share the source of an archive.

  \<open>struct zip_source\<close> points to the source below it and to the context of its callback, so that a file in an
  archive is a chain whose length depends on the entry. Here the user data of such a source is a \<open>stack\<close>: what
  is left of a source when its callback is taken away, over the data of the sources below it. The operations
  of a stack are those of the layers it is made of; nothing is defined anew.

  A window on an entry reads from the source of the archive, which the archive itself and other files use at the
  same time. The bottom of its stack is \<open>Shared\<close>; an operation on it borrows the archive's source, and gives it
  back in the state the operation left it in.
\<close>

section \<open>What the library is run with\<close>

text \<open>The allocation oracle, the external functions, the bytes of fresh memory, the compression algorithms, the time
  and \<open>errno\<close>.\<close>

record 'd environment =
  ev_mem :: malloc
  ev_ext :: external
  ev_junk :: u64
  ev_algorithm :: "bool \<Rightarrow> 'd zip_compression_algorithm"
  ev_now :: int
  ev_errno :: int

section \<open>The data\<close>

datatype 'd layer =
  Crc_layer crc_context | Window_layer window | Pkware_layer trad_pkware | Compress_layer "'d compress_context"

text \<open>The callbacks of the layers as one.\<close>

fun layer_callback :: "'d environment \<Rightarrow> ('l, 'd layer) layered_callback" where
  "layer_callback env src (Crc_layer c) cmd =
     (case crc_read (ev_ext env) src c cmd of (r, src, c) \<Rightarrow> (r, src, Crc_layer c))"
| "layer_callback env src (Window_layer c) cmd =
     (case window_read (ev_mem env) src c cmd of (r, src, c) \<Rightarrow> (r, src, Window_layer c))"
| "layer_callback env src (Pkware_layer c) cmd =
     (case pkware_decrypt (ev_ext env) src c cmd of (r, src, c) \<Rightarrow> (r, src, Pkware_layer c))"
| "layer_callback env src (Compress_layer c) cmd =
     (case compress_callback src c cmd of (r, src, c) \<Rightarrow> (r, src, Compress_layer c))"

text \<open>\<open>struct zip_source\<close> without its callback and user data.\<close>

record source_fields =
  sf_error :: zip_error
  sf_supports :: u64
  sf_open_count :: u32
  sf_write_state :: zip_source_write_state
  sf_source_closed :: bool
  sf_source_archive :: "nat option"
  sf_refcount :: u32
  sf_eof :: bool
  sf_had_read_error :: bool

definition fields_of :: "'a zip_source \<Rightarrow> source_fields" where
  "fields_of src = \<lparr>sf_error = src_error src, sf_supports = src_supports src, sf_open_count = src_open_count src,
     sf_write_state = src_write_state src, sf_source_closed = src_source_closed src,
     sf_source_archive = src_source_archive src, sf_refcount = src_refcount src, sf_eof = src_eof src,
     sf_had_read_error = src_had_read_error src\<rparr>"

text \<open>The user data of the caller's sources, of in-memory sources the library makes, and of layers.\<close>

datatype ('s, 'd) stack =
  Base "'s \<Rightarrow> zip_source_cmd \<Rightarrow> reply \<times> 's" 's
| Memory read_data
| Shared
| Over source_fields "('s, 'd) stack" "'d layer"

fun stack_depth :: "('s, 'd) stack \<Rightarrow> nat" where
  "stack_depth (Over f low c) = Suc (stack_depth low)"
| "stack_depth _ = 0"

section \<open>The operations of a stack\<close>

text \<open>\<open>Shared\<close> is never called: it is filled in first.\<close>

fun base_cb :: "'d environment \<Rightarrow> ('s, 'd) stack \<Rightarrow> zip_source_cmd \<Rightarrow> reply \<times> ('s, 'd) stack" where
  "base_cb env (Base cb ud) cmd = (case cb ud cmd of (r, ud) \<Rightarrow> (r, Base cb ud))"
| "base_cb env (Memory rd) cmd = (case read_data_cb (ev_mem env) (ev_junk env) rd cmd of (r, rd) \<Rightarrow> (r, Memory rd))"
| "base_cb env st cmd = ((-1, No_data), st)"

text \<open>A source with the given callback, operations on the lower source, fields and user data.\<close>

definition build_source ::
  "(('s, 'd) stack \<Rightarrow> zip_source_cmd \<Rightarrow> reply \<times> ('s, 'd) stack) \<times> ('s, 'd) stack lower_ops \<Rightarrow>
   source_fields \<Rightarrow> ('s, 'd) stack \<Rightarrow> ('s, 'd) stack zip_source" where
  "build_source sem f st =
     \<lparr>src_src = (case st of Over _ _ _ \<Rightarrow> Some (snd sem) | _ \<Rightarrow> None), src_cb = fst sem, src_ud = st,
      src_error = sf_error f, src_supports = sf_supports f, src_open_count = sf_open_count f,
      src_write_state = sf_write_state f, src_source_closed = sf_source_closed f,
      src_source_archive = sf_source_archive f, src_refcount = sf_refcount f, src_eof = sf_eof f,
      src_had_read_error = sf_had_read_error f\<rparr>"

definition over_source :: "('s, 'd) stack zip_source \<Rightarrow> 'd layer \<Rightarrow> ('s, 'd) stack" where
  "over_source l c = Over (fields_of l) (src_ud l) c"

text \<open>Doing something to the source below and the context of a layer.\<close>

definition on_lower ::
  "(source_fields \<Rightarrow> ('s, 'd) stack \<Rightarrow> ('s, 'd) stack zip_source) \<Rightarrow>
   (('s, 'd) stack zip_source \<times> 'd layer \<Rightarrow> 'r \<times> ('s, 'd) stack zip_source \<times> 'd layer) \<Rightarrow> 'r \<Rightarrow>
   ('s, 'd) stack \<Rightarrow> 'r \<times> ('s, 'd) stack" where
  "on_lower b g none st =
     (case st of
        Over f low c \<Rightarrow> (case g (b f low, c) of (r, l, c) \<Rightarrow> (r, over_source l c))
      | _ \<Rightarrow> (none, st))"

definition stack_lower_ops ::
  "(source_fields \<Rightarrow> ('s, 'd) stack \<Rightarrow> ('s, 'd) stack zip_source) \<Rightarrow> ('s, 'd) stack lower_ops" where
  "stack_lower_ops b = \<lparr>
     low_open = on_lower b (low_open layer_ops) (-1),
     low_close = on_lower b (low_close layer_ops) (-1),
     low_stat = (\<lambda>st stat. case on_lower b (\<lambda>x. case low_stat layer_ops x stat of (r, stat, x) \<Rightarrow> ((r, stat), x)) (-1, stat) st of
                   ((r, stat), st) \<Rightarrow> (r, stat, st)),
     low_error = (\<lambda>st. fst (on_lower b (\<lambda>x. (low_error layer_ops x, x)) zip_error_init st)),
     low_free = (\<lambda>st. snd (on_lower b (\<lambda>x. ((), low_free layer_ops x)) () st)),
     low_compression_flags = on_lower b (low_compression_flags layer_ops) (-1)\<rparr>"

definition no_lower_ops :: "'a lower_ops" where
  "no_lower_ops = \<lparr>low_open = (\<lambda>s. (-1, s)), low_close = (\<lambda>s. (-1, s)), low_stat = (\<lambda>s st. (-1, st, s)),
     low_error = (\<lambda>s. zip_error_init), low_free = (\<lambda>s. s), low_compression_flags = (\<lambda>s. (-1, s))\<rparr>"

text \<open>The callback and the operations on the lower source, for stacks of a given depth.\<close>

primrec stack_ops ::
  "'d environment \<Rightarrow> nat \<Rightarrow>
   (('s, 'd) stack \<Rightarrow> zip_source_cmd \<Rightarrow> reply \<times> ('s, 'd) stack) \<times> ('s, 'd) stack lower_ops" where
  "stack_ops env 0 = (base_cb env, no_lower_ops)"
| "stack_ops env (Suc n) =
     (\<lambda>st cmd. case st of
        Over _ _ _ \<Rightarrow> on_lower (build_source (stack_ops env n)) (\<lambda>(l, c). layer_callback env l c cmd) (-1, No_data) st
      | _ \<Rightarrow> base_cb env st cmd,
      stack_lower_ops (build_source (stack_ops env n)))"

definition stack_source :: "'d environment \<Rightarrow> source_fields \<Rightarrow> ('s, 'd) stack \<Rightarrow> ('s, 'd) stack zip_source" where
  "stack_source env f st = build_source (stack_ops env (stack_depth st)) f st"

section \<open>Making stacks\<close>

text \<open>A caller's source, and an in-memory source, as stacks of one.\<close>

definition base_source :: "'d environment \<Rightarrow> 's zip_source \<Rightarrow> ('s, 'd) stack zip_source" where
  "base_source env src = stack_source env (fields_of src) (Base (src_cb src) (src_ud src))"

definition memory_source :: "'d environment \<Rightarrow> read_data zip_source \<Rightarrow> ('s, 'd) stack zip_source" where
  "memory_source env src = stack_source env (fields_of src) (Memory (src_ud src))"

text \<open>A layered source that was created over a stack.\<close>

definition layer_source ::
  "'d environment \<Rightarrow> ('c \<Rightarrow> 'd layer) \<Rightarrow> (('s, 'd) stack zip_source \<times> 'c) zip_source \<Rightarrow> ('s, 'd) stack zip_source" where
  "layer_source env wrap z = stack_source env (fields_of z) (over_source (fst (src_ud z)) (wrap (snd (src_ud z))))"

text \<open>Dropping a reference: what is left of the source.\<close>

definition release_source :: "'a zip_source \<Rightarrow> 'a zip_source" where
  "release_source src =
     (case zip_source_free src of
        (Some src, _, _) \<Rightarrow> src
      | (None, ud, _) \<Rightarrow> src\<lparr>src_ud := ud, src_refcount := 0\<rparr>)"

text \<open>The source some layers down.\<close>

fun under_layers :: "'d environment \<Rightarrow> nat \<Rightarrow> ('s, 'd) stack zip_source \<Rightarrow> ('s, 'd) stack zip_source" where
  "under_layers env 0 src = src"
| "under_layers env (Suc n) src =
     (case src_ud src of Over f low c \<Rightarrow> under_layers env n (stack_source env f low) | _ \<Rightarrow> src)"

section \<open>Sharing the source of an archive\<close>

fun borrow_source :: "('s, 'd) stack zip_source \<Rightarrow> ('s, 'd) stack \<Rightarrow> ('s, 'd) stack" where
  "borrow_source w (Over f low c) =
     (if low = Shared then Over (fields_of w) (src_ud w) c else Over f (borrow_source w low) c)"
| "borrow_source w st = st"

text \<open>The first argument is the stack as it was before the source was borrowed.\<close>

fun give_back_source ::
  "'d environment \<Rightarrow> ('s, 'd) stack \<Rightarrow> ('s, 'd) stack \<Rightarrow> ('s, 'd) stack zip_source \<Rightarrow>
   ('s, 'd) stack \<times> ('s, 'd) stack zip_source" where
  "give_back_source env (Over _ old _) (Over f low c) w =
     (if old = Shared then (Over f Shared c, stack_source env f low)
      else case give_back_source env old low w of (low, w) \<Rightarrow> (Over f low c, w))"
| "give_back_source env _ st w = (st, w)"

text \<open>An operation on a source that may share the one of the archive.\<close>

definition on_shared ::
  "'d environment \<Rightarrow> (('s, 'd) stack zip_source \<Rightarrow> 'r \<times> ('s, 'd) stack zip_source) \<Rightarrow>
   ('s, 'd) stack zip_archive \<Rightarrow> ('s, 'd) stack zip_source \<Rightarrow>
   'r \<times> ('s, 'd) stack zip_archive \<times> ('s, 'd) stack zip_source" where
  "on_shared env f za src =
     (let old = src_ud src; w = the (za_src za)
      in case f (stack_source env (fields_of src) (borrow_source w old)) of
           (r, src) \<Rightarrow>
             (case give_back_source env old (src_ud src) w of
                (st, w) \<Rightarrow> (r, za\<lparr>za_src := Some w\<rparr>, stack_source env (fields_of src) st)))"

text \<open>The operations in use.\<close>

definition shared_open where
  "shared_open env = on_shared env zip_source_open"

definition shared_close where
  "shared_close env = on_shared env zip_source_close"

definition shared_read where
  "shared_read env n = on_shared env (\<lambda>src. case zip_source_read src n of (r, d, src) \<Rightarrow> ((r, d), src))"

definition shared_stat where
  "shared_stat env = on_shared env (\<lambda>src. case stat_lower src of (r, st, src) \<Rightarrow> ((r, st), src))"

definition shared_release where
  "shared_release env = on_shared env (\<lambda>src. ((), release_source src))"

text \<open>Taking the error of a source over.\<close>

definition za_error_from :: "'s zip_archive \<Rightarrow> 'a zip_source \<Rightarrow> 's zip_archive" where
  "za_error_from za src = za\<lparr>za_error := zip_error_set_from_source (za_error za) src\<rparr>"

section \<open>Adding layers\<close>

text \<open>The usual step of the library: create a layer over the source, drop the own reference to the source, go on with
  the layer. When it cannot be created the source is released.\<close>

definition push_layer ::
  "'d environment \<Rightarrow> ('c \<Rightarrow> 'd layer) \<Rightarrow> (('s, 'd) stack zip_source \<times> 'c) zip_source option \<times> zip_error \<Rightarrow>
   ('s, 'd) stack zip_archive \<Rightarrow> ('s, 'd) stack zip_source \<Rightarrow>
   bool \<times> ('s, 'd) stack zip_archive \<times> ('s, 'd) stack zip_source" where
  "push_layer env wrap created za src =
     (case created of
        (None, err) \<Rightarrow> (case shared_release env (za\<lparr>za_error := err\<rparr>) src of (_, za, src) \<Rightarrow> (False, za, src))
      | (Some z, err) \<Rightarrow>
          (True, za\<lparr>za_error := err\<rparr>,
           layer_source env wrap (z\<lparr>src_ud := (release_source (fst (src_ud z)), snd (src_ud z))\<rparr>)))"

end
