(* ===== verification/Zip_Files.thy ===== *)
theory Zip_Files
  imports Zip_Stack
begin

text \<open>
  Files of an archive: \<open>zip_source_zip_new.c\<close>, \<open>zip_source_zip.c\<close>, \<open>zip_fopen*.c\<close>, \<open>zip_fread.c\<close>, \<open>zip_fseek.c\<close>,
  \<open>zip_ftell.c\<close>, \<open>zip_fclose.c\<close> and \<open>zip_file_*.c\<close>. A file belongs to the archive it is used with; the source
  archive of \<open>_zip_source_zip_new\<close> is the archive itself. The list of open sources is not part of an archive, and
  \<open>_zip_register_source\<close> only asks whether there is memory.
\<close>

section \<open>The source of a file\<close>

abbreviation ZIP_FL_COMPRESSED :: u32 where "ZIP_FL_COMPRESSED \<equiv> 4"
abbreviation ZIP_FL_ENCRYPTED :: u32 where "ZIP_FL_ENCRYPTED \<equiv> 32"

text \<open>The window on the data of the entry, or on a part of it; the archive keeps a reference more to its source.\<close>

definition file_window ::
  "'d environment \<Rightarrow> ('s, 'd) stack zip_archive \<Rightarrow> u64 \<Rightarrow> u32 \<Rightarrow> zip_stat \<Rightarrow> bool \<Rightarrow> u64 \<Rightarrow> u64 \<Rightarrow>
   ('s, 'd) stack zip_source option \<times> ('s, 'd) stack zip_archive" where
  "file_window env za idx flags st plain_part start len =
     (let origs = Some (map en_orig (za_entry za))
      in case (if plain_part
               then (zip_source_window_new (ev_mem env) (za_src za) start len
                       (Some (stat_blank\<lparr>st_size := len, st_comp_size := len, st_comp_method := 0, st_mtime := st_mtime st,
                          st_valid := ZIP_STAT_SIZE OR ZIP_STAT_COMP_SIZE OR ZIP_STAT_COMP_METHOD OR ZIP_STAT_MTIME\<rparr>))
                       0 origs idx (za_error za), za)
               else case with_za_error (\<lambda>za. zip_get_dirent za idx flags) za of
                 (None, za) \<Rightarrow> ((None, za_error za), za)
               | (Some de, za) \<Rightarrow>
                   (zip_source_window_new (ev_mem env) (za_src za) 0 (st_comp_size st) (Some st)
                      (uint (drop_bit 1 (de_bitflags de) AND 3)) origs idx (za_error za), za)) of
           ((None, err), za) \<Rightarrow> (None, za\<lparr>za_error := err\<rparr>)
         | ((Some z, err), za) \<Rightarrow>
             (let w = fst (src_ud z)
              in (Some (stack_source env (fields_of z) (Over (fields_of w) Shared (Window_layer (snd (src_ud z))))),
                  za\<lparr>za_error := err, za_src := Some w\<rparr>)))"

text \<open>Going on when there is a source.\<close>

definition and_then ::
  "'a option \<times> 'z \<Rightarrow> ('z \<Rightarrow> 'a \<Rightarrow> 'a option \<times> 'z) \<Rightarrow> 'a option \<times> 'z" where
  "and_then r f = (case r of (None, za) \<Rightarrow> (None, za) | (Some src, za) \<Rightarrow> f za src)"

text \<open>A layer that is needed or not; a source whose layer could not be made is gone.\<close>

definition file_layer ::
  "bool \<Rightarrow> (('s, 'd) stack zip_archive \<Rightarrow> ('s, 'd) stack zip_source \<Rightarrow>
            bool \<times> ('s, 'd) stack zip_archive \<times> ('s, 'd) stack zip_source) \<Rightarrow>
   ('s, 'd) stack zip_archive \<Rightarrow> ('s, 'd) stack zip_source \<Rightarrow>
   ('s, 'd) stack zip_source option \<times> ('s, 'd) stack zip_archive" where
  "file_layer needed push za src =
     (if needed then case push za src of (ok, za, src) \<Rightarrow> (if ok then Some src else None, za) else (Some src, za))"

definition zip_source_zip_new ::
  "'d environment \<Rightarrow> ('s, 'd) stack zip_archive \<Rightarrow> u64 \<Rightarrow> u32 \<Rightarrow> u64 \<Rightarrow> u64 \<Rightarrow> bytes option \<Rightarrow>
   ('s, 'd) stack zip_source option \<times> ('s, 'd) stack zip_archive" where
  "zip_source_zip_new env za idx flags start len password =
     (let mem = ev_mem env; fail = (\<lambda>za ze. (None, snd (za_fail za ze)))
      in if \<not> za_has za idx then fail za ZIP_ER_INVAL
         else if flags AND ZIP_FL_UNCHANGED = 0 \<and>
                 (ZIP_ENTRY_DATA_CHANGED (za_entry_at za idx) \<or> en_deleted (za_entry_at za idx))
         then fail za ZIP_ER_CHANGED
         else case zip_stat_index mem za idx (flags OR ZIP_FL_UNCHANGED) stat_blank of
           (r, st, za) \<Rightarrow>
             if r < 0 then fail za ZIP_ER_INTERNAL
             else
             let flags = (if flags AND ZIP_FL_ENCRYPTED \<noteq> 0 then flags OR ZIP_FL_COMPRESSED else flags);
                 part = (start > 0 \<or> len > 0)
             in if part \<and> flags AND ZIP_FL_COMPRESSED \<noteq> 0 then fail za ZIP_ER_INVAL
                else if part \<and> (start + len < start \<or> start + len > st_size st) then fail za ZIP_ER_INVAL
                else
                let len = (if len = 0 then st_size st - start else len);
                    partial_data = (len < st_size st);
                    needs_decrypt = (flags AND ZIP_FL_ENCRYPTED = 0 \<and> st_encryption_method st \<noteq> ZIP_EM_NONE);
                    needs_decompress = (flags AND ZIP_FL_COMPRESSED = 0 \<and> st_comp_method st \<noteq> 0);
                    needs_crc = ((flags AND ZIP_FL_COMPRESSED = 0 \<or> st_comp_method st = 0) \<and> \<not> partial_data);
                    password = (if needs_decrypt \<and> password = None then za_default_password za else password)
                in if needs_decrypt \<and> password = None then fail za ZIP_ER_NOPASSWD
                   else if st_comp_size st = 0
                   then case zip_source_buffer mem (ev_junk env) (ev_now env) (Some (za_error za)) None 0 False of
                          (src, err) \<Rightarrow> (map_option (memory_source env) src, za\<lparr>za_error := the err\<rparr>)
                   else
                   and_then (and_then (and_then (and_then (and_then
                     (file_window env za idx flags st (partial_data \<and> \<not> needs_decrypt \<and> \<not> needs_decompress) start len)
                     (\<lambda>za src.
                        if \<not> mem A_open_source
                        then (None, fst (snd (shared_release env (snd (za_fail za ZIP_ER_MEMORY)) src)))
                        else (Some (src\<lparr>src_source_archive := Some 0\<rparr>), za)))
                     (\<lambda>za src.
                        if needs_decrypt \<and> zip_get_encryption_implementation (st_encryption_method st) ZIP_CODEC_DECODE = None
                        then fail za ZIP_ER_ENCRNOTSUPP
                        else file_layer needs_decrypt
                               (\<lambda>za src. push_layer env Pkware_layer
                                  (zip_source_pkware mem (ev_ext env) (za_error za) (Some src) (st_encryption_method st) False password)
                                  za src) za src))
                     (file_layer needs_decompress
                        (\<lambda>za src. push_layer env Compress_layer
                           (zip_source_decompress mem (ev_algorithm env) (za_error za) (Some src) (uint (st_comp_method st))) za src)))
                     (file_layer needs_crc
                        (\<lambda>za src. push_layer env Crc_layer (zip_source_crc mem (ev_ext env) (za_error za) (Some src) True) za src)))
                     (file_layer (partial_data \<and> (needs_decrypt \<or> needs_decompress))
                        (\<lambda>za src. push_layer env Window_layer (zip_source_window mem (za_error za) (Some src) start len) za src)))"

definition zip_source_zip ::
  "'d environment \<Rightarrow> ('s, 'd) stack zip_archive \<Rightarrow> u64 \<Rightarrow> u32 \<Rightarrow> u64 \<Rightarrow> int \<Rightarrow>
   ('s, 'd) stack zip_source option \<times> ('s, 'd) stack zip_archive" where
  "zip_source_zip env za idx flags start len =
     (if len < -1 then (None, snd (za_fail za ZIP_ER_INVAL))
      else let len = (if len = -1 then 0 else len);
               flags = (if start = 0 \<and> len = 0 then flags OR ZIP_FL_COMPRESSED else flags AND NOT ZIP_FL_COMPRESSED)
           in zip_source_zip_new env za idx flags start (word_of_int len) None)"

section \<open>Files\<close>

record ('s, 'd) zip_file =
  zf_error :: zip_error
  zf_eof :: bool
  zf_src :: "('s, 'd) stack zip_source"

definition zip_file_new ::
  "'d environment \<Rightarrow> ('s, 'd) stack zip_archive \<Rightarrow> ('s, 'd) stack zip_source \<Rightarrow>
   ('s, 'd) zip_file option \<times> ('s, 'd) stack zip_archive" where
  "zip_file_new env za src =
     (if \<not> ev_mem env A_file then (None, snd (za_fail za ZIP_ER_MEMORY))
      else (Some \<lparr>zf_error = zip_error_init, zf_eof = False, zf_src = src\<rparr>, za))"

definition zip_fopen_index_encrypted ::
  "'d environment \<Rightarrow> ('s, 'd) stack zip_archive \<Rightarrow> u64 \<Rightarrow> u32 \<Rightarrow> bytes option \<Rightarrow>
   ('s, 'd) zip_file option \<times> ('s, 'd) stack zip_archive" where
  "zip_fopen_index_encrypted env za idx flags password =
     (case zip_source_zip_new env za idx flags 0 0 password of
        (None, za) \<Rightarrow> (None, za)
      | (Some src, za) \<Rightarrow>
          (case shared_open env za src of
             (r, za, src) \<Rightarrow>
               if r < 0 then (None, fst (snd (shared_release env (za_error_from za src) src)))
               else case zip_file_new env za src of
                 (None, za) \<Rightarrow> (None, fst (snd (shared_release env za src)))
               | (Some zf, za) \<Rightarrow> (Some zf, za)))"

definition zip_fopen_index ::
  "'d environment \<Rightarrow> ('s, 'd) stack zip_archive \<Rightarrow> u64 \<Rightarrow> u32 \<Rightarrow> ('s, 'd) zip_file option \<times> ('s, 'd) stack zip_archive" where
  "zip_fopen_index env za idx flags = zip_fopen_index_encrypted env za idx flags (za_default_password za)"

definition zip_fopen_encrypted ::
  "'d environment \<Rightarrow> ('s, 'd) stack zip_archive \<Rightarrow> bytes option \<Rightarrow> u32 \<Rightarrow> bytes option \<Rightarrow>
   ('s, 'd) zip_file option \<times> ('s, 'd) stack zip_archive" where
  "zip_fopen_encrypted env za fname flags password =
     (case with_za_error (\<lambda>za. zip_name_locate (ev_mem env) za fname flags) za of
        (i, za) \<Rightarrow> if i < 0 then (None, za) else zip_fopen_index_encrypted env za (word_of_int i) flags password)"

definition zip_fopen ::
  "'d environment \<Rightarrow> ('s, 'd) stack zip_archive \<Rightarrow> bytes option \<Rightarrow> u32 \<Rightarrow> ('s, 'd) zip_file option \<times> ('s, 'd) stack zip_archive" where
  "zip_fopen env za fname flags =
     (case with_za_error (\<lambda>za. zip_name_locate (ev_mem env) za fname flags) za of
        (i, za) \<Rightarrow> if i < 0 then (None, za)
                   else zip_fopen_index_encrypted env za (word_of_int i) flags (za_default_password za))"

text \<open>A file and its archive after an operation on the source of the file.\<close>

definition on_file ::
  "'d environment \<Rightarrow> (('s, 'd) stack zip_source \<Rightarrow> 'r \<times> ('s, 'd) stack zip_source) \<Rightarrow> ('s, 'd) stack zip_archive \<Rightarrow>
   ('s, 'd) zip_file \<Rightarrow> 'r \<times> ('s, 'd) stack zip_archive \<times> ('s, 'd) zip_file" where
  "on_file env f za zf = (case on_shared env f za (zf_src zf) of (r, za, src) \<Rightarrow> (r, za, zf\<lparr>zf_src := src\<rparr>))"

definition zf_source_failed :: "('s, 'd) zip_file \<Rightarrow> ('s, 'd) zip_file" where
  "zf_source_failed zf = zf\<lparr>zf_error := zip_error_set_from_source (zf_error zf) (zf_src zf)\<rparr>"

definition zip_fread ::
  "'d environment \<Rightarrow> ('s, 'd) stack zip_archive \<Rightarrow> ('s, 'd) zip_file \<Rightarrow> u64 \<Rightarrow>
   (int \<times> bytes) \<times> ('s, 'd) stack zip_archive \<times> ('s, 'd) zip_file" where
  "zip_fread env za zf toread =
     (if zip_err (zf_error zf) \<noteq> 0 then ((-1, []), za, zf)
      else if toread > ZIP_INT64_MAX then ((-1, []), za, zf\<lparr>zf_error := zip_error_set (zf_error zf) ZIP_ER_INVAL 0\<rparr>)
      else if zf_eof zf \<or> toread = 0 then ((0, []), za, zf)
      else case on_file env (\<lambda>src. case zip_source_read src toread of (n, d, src) \<Rightarrow> ((n, d), src)) za zf of
        ((n, d), za, zf) \<Rightarrow> if n < 0 then ((-1, []), za, zf_source_failed zf) else ((n, d), za, zf))"

definition zip_fseek ::
  "'d environment \<Rightarrow> ('s, 'd) stack zip_archive \<Rightarrow> ('s, 'd) zip_file \<Rightarrow> int \<Rightarrow> whence \<Rightarrow>
   int \<times> ('s, 'd) stack zip_archive \<times> ('s, 'd) zip_file" where
  "zip_fseek env za zf offset wh =
     (if zip_err (zf_error zf) \<noteq> 0 then (-1, za, zf)
      else case on_file env (\<lambda>src. zip_source_seek src offset wh) za zf of
        (r, za, zf) \<Rightarrow> if r < 0 then (-1, za, zf_source_failed zf) else (0, za, zf))"

definition zip_ftell ::
  "'d environment \<Rightarrow> ('s, 'd) stack zip_archive \<Rightarrow> ('s, 'd) zip_file \<Rightarrow> int \<times> ('s, 'd) stack zip_archive \<times> ('s, 'd) zip_file" where
  "zip_ftell env za zf =
     (if zip_err (zf_error zf) \<noteq> 0 then (-1, za, zf)
      else case on_file env zip_source_tell za zf of
        (r, za, zf) \<Rightarrow> if r < 0 then (-1, za, zf_source_failed zf) else (r, za, zf))"

definition zip_fclose ::
  "'d environment \<Rightarrow> ('s, 'd) stack zip_archive \<Rightarrow> ('s, 'd) zip_file \<Rightarrow> int \<times> ('s, 'd) stack zip_archive" where
  "zip_fclose env za zf = (zip_err (zf_error zf), fst (snd (shared_release env za (zf_src zf))))"

definition zip_file_error_get :: "('s, 'd) zip_file \<Rightarrow> int \<times> int" where
  "zip_file_error_get zf = zip_error_get (zf_error zf)"

definition zip_file_error_clear :: "('s, 'd) zip_file \<Rightarrow> ('s, 'd) zip_file" where
  "zip_file_error_clear zf = zf\<lparr>zf_error := zip_error_clear (zf_error zf)\<rparr>"

definition zip_file_strerror ::
  "(int \<Rightarrow> string) \<Rightarrow> (int \<Rightarrow> string option) \<Rightarrow> malloc \<Rightarrow> ('s, 'd) zip_file \<Rightarrow> string option \<times> ('s, 'd) zip_file" where
  "zip_file_strerror strerror zError mem zf =
     (case zip_error_strerror strerror zError mem (zf_error zf) of (r, err) \<Rightarrow> (r, zf\<lparr>zf_error := err\<rparr>))"

definition zip_strerror ::
  "(int \<Rightarrow> string) \<Rightarrow> (int \<Rightarrow> string option) \<Rightarrow> malloc \<Rightarrow> 's zip_archive \<Rightarrow> string option \<times> 's zip_archive" where
  "zip_strerror strerror zError mem za =
     (case zip_error_strerror strerror zError mem (za_error za) of (r, err) \<Rightarrow> (r, za\<lparr>za_error := err\<rparr>))"

end
