(* ===== verification/Zip_Close.thy ===== *)
theory Zip_Close
  imports Zip_Files Zip_Cdir_Write Zip_Extra_Api
begin

text \<open>
  Saving an archive: \<open>zip_close.c\<close>. The changed entries are written through the source of the archive, the
  unchanged ones copied, the directory appended, and the write is committed, or rolled back after an error. The
  progress callbacks are left out. A source that never ends is copied for ever: the loop is a partial function,
  and not returning is \<open>None\<close>. \<open>time\<close> is the clock of the environment.
\<close>

section \<open>Which entries are written\<close>

text \<open>The list of the files that survive, and where the first original entry with changes is. The second argument is
  the number of files still expected; \<open>None\<close> stands for the internal error.\<close>

fun close_filelist :: "'s zip_entry list \<Rightarrow> nat \<Rightarrow> nat \<Rightarrow> u64 \<Rightarrow> (nat list \<times> u64) option" where
  "close_filelist [] left i unchanged = (if left > 0 then None else Some ([], unchanged))"
| "close_filelist (e # es) left i unchanged =
     (let unchanged = (case en_orig e of
            None \<Rightarrow> unchanged
          | Some orig \<Rightarrow> if ZIP_ENTRY_HAS_CHANGES e then min unchanged (de_offset orig) else unchanged)
      in if en_deleted e then close_filelist es left (Suc i) unchanged
         else case left of
           0 \<Rightarrow> None
         | Suc left \<Rightarrow> map_option (\<lambda>(fs, u). (i # fs, u)) (close_filelist es left (Suc i) unchanged))"

text \<open>The last entry of the file, by offset: its index and offset.\<close>

fun last_entry :: "'s zip_entry list \<Rightarrow> nat \<Rightarrow> u64 \<Rightarrow> nat option \<Rightarrow> nat option \<times> u64" where
  "last_entry [] i offset last_index = (last_index, offset)"
| "last_entry (e # es) i offset last_index =
     (case en_orig e of
        None \<Rightarrow> last_entry es (Suc i) offset last_index
      | Some orig \<Rightarrow> if de_offset orig \<ge> offset then last_entry es (Suc i) (de_offset orig) (Some i)
                     else last_entry es (Suc i) offset last_index)"

text \<open>How much of the old file can be kept; \<open>None\<close> is failure.\<close>

definition close_unchanged_offset ::
  "malloc \<Rightarrow> 's zip_archive \<Rightarrow> u64 \<Rightarrow> u64 option \<times> 's zip_archive" where
  "close_unchanged_offset mem za unchanged =
     (if zip_source_supports (the (za_src za)) AND ZIP_SOURCE_MAKE_COMMAND_BITMASK (ZIP_SOURCE_BEGIN_WRITE_CLONING 0) = 0
      then (Some 0, za)
      else if unchanged = ZIP_UINT64_MAX
      then case last_entry (za_entry za) 0 0 None of
             (None, offset) \<Rightarrow> (Some offset, za)
           | (Some i, _) \<Rightarrow>
               (case zip_file_get_end mem (map en_orig (za_entry za)) (the (za_src za)) (of_nat i) (za_error za) of
                  (offset, src, err) \<Rightarrow>
                    (if offset = 0 then None else Some offset, za\<lparr>za_src := Some src, za_error := err\<rparr>))
      else (Some unchanged, za))"

text \<open>Beginning to write, over a clone of what is kept when there is such a thing. The result says what is kept.\<close>

definition close_begin_write :: "'s zip_archive \<Rightarrow> u64 \<Rightarrow> u64 option \<times> 's zip_archive" where
  "close_begin_write za unchanged =
     (case (if unchanged > 0 then zip_source_begin_write_cloning (the (za_src za)) unchanged else (-1, the (za_src za))) of
        (r, src) \<Rightarrow>
          if r \<ge> 0 then (Some unchanged, za\<lparr>za_src := Some src\<rparr>)
          else case zip_source_begin_write src of
            (r, src) \<Rightarrow>
              let za = za\<lparr>za_src := Some src\<rparr>
              in if r < 0 then (None, za_source_failed za) else (Some 0, za))"

section \<open>Copying data\<close>

definition za_seek_write :: "'s zip_archive \<Rightarrow> int \<Rightarrow> int \<times> 's zip_archive" where
  "za_seek_write za offset =
     (case zip_source_seek_write (the (za_src za)) offset SEEK_SET of
        (r, src) \<Rightarrow>
          let za = za\<lparr>za_src := Some src\<rparr> in if r < 0 then (-1, za_source_failed za) else (0, za))"

text \<open>\<open>BUFSIZE\<close> is 8192; the argument is the number of bytes left.\<close>

function copy_data :: "'s zip_archive \<Rightarrow> nat \<Rightarrow> int \<times> 's zip_archive" where
  "copy_data za len =
     (if len = 0 then (0, za)
      else
      let n = min len 8192
      in case zip_read (the (za_src za)) (of_nat n) (za_error za) of
           (r, d, src, err) \<Rightarrow>
             let za = za\<lparr>za_src := Some src, za_error := err\<rparr>
             in if r < 0 then (-1, za)
                else case za_write za d of
                  (r, za) \<Rightarrow> if r < 0 then (-1, za) else copy_data za (len - n))"
  by pat_completeness auto
termination by (relation "measure snd") auto

declare copy_data.simps [simp del]

partial_function (option) copy_loop ::
  "'d environment \<Rightarrow> ('s, 'd) stack zip_archive \<Rightarrow> ('s, 'd) stack zip_source \<Rightarrow>
   (int \<times> ('s, 'd) stack zip_archive \<times> ('s, 'd) stack zip_source) option" where
  "copy_loop env za src =
     (case shared_read env 8192 za src of
        ((n, d), za, src) \<Rightarrow>
          if n > 0
          then case za_write za d of
                 (r, za) \<Rightarrow> if r < 0 then Some (-1, za, src) else copy_loop env za src
          else if n < 0 then Some (-1, za_error_from za src, src)
          else Some (0, za, src))"

definition copy_source ::
  "'d environment \<Rightarrow> ('s, 'd) stack zip_archive \<Rightarrow> ('s, 'd) stack zip_source \<Rightarrow>
   (int \<times> ('s, 'd) stack zip_archive \<times> ('s, 'd) stack zip_source) option" where
  "copy_source env za src =
     (case shared_open env za src of
        (r, za, src) \<Rightarrow>
          if r < 0 then Some (-1, za_error_from za src, src)
          else map_option (\<lambda>(ret, za, src). case shared_close env za src of (_, za, src) \<Rightarrow> (ret, za, src))
                 (copy_loop env za src))"

section \<open>Adding an entry\<close>

text \<open>What is known before the data is read: the status of the source completed, the entry with its method and sizes,
  and the flags for its header.\<close>

definition max_plain_size :: "u16 \<Rightarrow> u64" where
  "max_plain_size meth =
     (if meth = 12 then 4269351188 else if meth = 8 then 4293656963 else if meth = 0 then 0xffffffff else 0)"

definition add_data_stat :: "zip_stat \<Rightarrow> zip_dirent \<Rightarrow> zip_stat \<times> zip_dirent" where
  "add_data_stat st de =
     (let st = (if st_valid st AND ZIP_STAT_COMP_METHOD = 0
                then st\<lparr>st_valid := st_valid st OR ZIP_STAT_COMP_METHOD, st_comp_method := 0\<rparr> else st);
          (st, de) =
            (if ZIP_CM_IS_DEFAULT (de_comp_method de) \<and> st_comp_method st \<noteq> 0
             then (st, de\<lparr>de_comp_method := uint (st_comp_method st)\<rparr>)
             else if de_comp_method de = ZIP_CM_STORE \<and> st_valid st AND ZIP_STAT_SIZE \<noteq> 0
             then (st\<lparr>st_valid := st_valid st OR ZIP_STAT_COMP_SIZE, st_comp_size := st_size st\<rparr>, de)
             else (st\<lparr>st_valid := st_valid st AND NOT ZIP_STAT_COMP_SIZE\<rparr>, de));
          st = (if st_valid st AND ZIP_STAT_ENCRYPTION_METHOD = 0
                then st\<lparr>st_valid := st_valid st OR ZIP_STAT_ENCRYPTION_METHOD, st_encryption_method := ZIP_EM_NONE\<rparr> else st)
      in (st, de))"

definition add_data_flags :: "zip_stat \<Rightarrow> zip_dirent \<Rightarrow> u32 \<times> zip_dirent" where
  "add_data_flags st de =
     (if st_valid st AND ZIP_STAT_SIZE = 0 then (ZIP_EF_LOCAL OR ZIP_FL_FORCE_ZIP64, de)
      else
      let de = de\<lparr>de_uncomp_size := st_size st\<rparr>
      in if st_valid st AND ZIP_STAT_COMP_SIZE = 0
         then (if st_size st > max_plain_size (ZIP_CM_ACTUAL (de_comp_method de)) then ZIP_EF_LOCAL OR ZIP_FL_FORCE_ZIP64
               else ZIP_EF_LOCAL, de)
         else (ZIP_EF_LOCAL, de\<lparr>de_comp_size := st_comp_size st\<rparr>))"

text \<open>One of the layers the data may have to go through. The state is whether all went well, how many layers there are,
  the archive and the source on top.\<close>

type_synonym ('s, 'd) add_state = "bool \<times> nat \<times> ('s, 'd) stack zip_archive \<times> ('s, 'd) stack zip_source"

definition add_layer ::
  "bool \<Rightarrow> (('s, 'd) stack zip_archive \<Rightarrow> ('s, 'd) stack zip_source \<Rightarrow>
            bool \<times> ('s, 'd) stack zip_archive \<times> ('s, 'd) stack zip_source) \<Rightarrow>
   ('s, 'd) add_state \<Rightarrow> ('s, 'd) add_state" where
  "add_layer needed push s =
     (case s of (ok, n, za, src) \<Rightarrow>
        if ok \<and> needed then case push za src of (ok, za, src) \<Rightarrow> (ok, if ok then Suc n else n, za, src) else s)"

text \<open>Without an implementation of the encryption the source is released.\<close>

definition add_unsupported ::
  "'d environment \<Rightarrow> ('s, 'd) stack zip_archive \<Rightarrow> ('s, 'd) stack zip_source \<Rightarrow>
   bool \<times> ('s, 'd) stack zip_archive \<times> ('s, 'd) stack zip_source" where
  "add_unsupported env za src =
     (case shared_release env (snd (za_fail za ZIP_ER_ENCRNOTSUPP)) src of (_, za, src) \<Rightarrow> (False, za, src))"

definition add_data_layers ::
  "'d environment \<Rightarrow> zip_stat \<Rightarrow> zip_dirent \<Rightarrow> ('s, 'd) stack zip_archive \<Rightarrow> ('s, 'd) stack zip_source \<Rightarrow>
   ('s, 'd) add_state" where
  "add_data_layers env st de za src =
     (let mem = ev_mem env; ext = ev_ext env;
          needs_recompress = (st_comp_method st \<noteq> ZIP_CM_ACTUAL (de_comp_method de));
          needs_decompress = (needs_recompress \<and> st_comp_method st \<noteq> 0);
          needs_crc = (st_comp_method st = 0 \<or> needs_decompress);
          needs_compress = (needs_recompress \<and> de_comp_method de \<noteq> ZIP_CM_STORE);
          needs_reencrypt = (needs_recompress \<or> de_changed de AND ZIP_DIRENT_PASSWORD \<noteq> 0 \<or>
                             de_encryption_method de \<noteq> st_encryption_method st);
          needs_decrypt = (needs_reencrypt \<and> st_encryption_method st \<noteq> ZIP_EM_NONE);
          needs_encrypt = (needs_reencrypt \<and> de_encryption_method de \<noteq> ZIP_EM_NONE)
      in add_layer needs_encrypt
           (\<lambda>za src.
              if zip_get_encryption_implementation (de_encryption_method de) ZIP_CODEC_ENCODE = None
              then add_unsupported env za src
              else push_layer env Pkware_layer
                     (zip_source_pkware mem ext (za_error za) (Some src) (de_encryption_method de) True
                        (if de_password de \<noteq> None then de_password de else za_default_password za)) za src)
        (add_layer needs_compress
           (\<lambda>za src. push_layer env Compress_layer
              (zip_source_compress mem (ev_algorithm env) (za_error za) (Some src) (de_comp_method de)
                 (uint (de_compression_level de))) za src)
        (add_layer needs_crc
           (\<lambda>za src. push_layer env Crc_layer (zip_source_crc mem ext (za_error za) (Some src) False) za src)
        (add_layer needs_decompress
           (\<lambda>za src. push_layer env Compress_layer
              (zip_source_decompress mem (ev_algorithm env) (za_error za) (Some src) (uint (st_comp_method st))) za src)
        (add_layer needs_decrypt
           (\<lambda>za src.
              if zip_get_encryption_implementation (st_encryption_method st) ZIP_CODEC_DECODE = None
              then add_unsupported env za src
              else push_layer env Pkware_layer
                     (zip_source_pkware mem ext (za_error za) (Some src) (st_encryption_method st) False
                        (za_default_password za)) za src)
        (True, 0, za, zip_source_keep src))))))"

text \<open>After the data: what the layers found out goes into the header, which is written again in its place. \<open>ret\<close> is the
  result of the copying.\<close>

definition add_data_dirent :: "'d environment \<Rightarrow> zip_stat \<Rightarrow> u32 \<Rightarrow> u64 \<Rightarrow> int \<Rightarrow> zip_dirent \<Rightarrow> zip_dirent" where
  "add_data_dirent env st flags comp_size compression_flags de =
     zip_dirent_set_version_needed
       (de\<lparr>de_last_mod := (if de_changed de AND ZIP_DIRENT_LAST_MOD = 0
                           then if st_valid st AND ZIP_STAT_MTIME \<noteq> 0 then st_mtime st else ev_now env
                           else de_last_mod de),
           de_comp_method := uint (st_comp_method st), de_crc := st_crc st, de_uncomp_size := st_size st,
           de_comp_size := comp_size,
           de_bitflags := (de_bitflags de AND NOT 6) OR push_bit 1 (ucast (word_of_int compression_flags :: u8))\<rparr>)
       (flags AND ZIP_FL_FORCE_ZIP64 \<noteq> 0)"

definition add_data_rewrite ::
  "'d environment \<Rightarrow> zip_stat \<Rightarrow> u32 \<Rightarrow> int \<Rightarrow> int \<Rightarrow> int \<Rightarrow> int \<Rightarrow> 's zip_archive \<Rightarrow> zip_dirent \<Rightarrow>
   int \<times> 's zip_archive \<times> zip_dirent" where
  "add_data_rewrite env st flags is_zip64 offstart offdata compression_flags za de =
     (case za_tell_write za of
        (offend, za) \<Rightarrow>
          if offend < 0 then (-1, za_source_failed za, de)
          else case za_seek_write za offstart of
            (r, za) \<Rightarrow>
              if r < 0 then (-1, za, de)
              else if st_valid st AND (ZIP_STAT_COMP_METHOD OR ZIP_STAT_CRC OR ZIP_STAT_SIZE) \<noteq>
                      (ZIP_STAT_COMP_METHOD OR ZIP_STAT_CRC OR ZIP_STAT_SIZE)
              then (-1, snd (za_fail za ZIP_ER_INTERNAL), de)
              else case zip_dirent_write (ev_mem env) (ev_ext env) (za_writer za)
                          (add_data_dirent env st flags (word_of_int (offend - offdata)) compression_flags de) flags of
                (ret, w, de) \<Rightarrow>
                  let za = za_put_writer za w
                  in if ret < 0 then (-1, za, de)
                     else if is_zip64 \<noteq> ret then (-1, snd (za_fail za ZIP_ER_INTERNAL), de)
                     else case za_seek_write za offend of (r, za) \<Rightarrow> (if r < 0 then -1 else 0, za, de))"

definition add_data_finish ::
  "'d environment \<Rightarrow> u32 \<Rightarrow> int \<Rightarrow> int \<Rightarrow> int \<Rightarrow> int \<Rightarrow> nat \<Rightarrow> ('s, 'd) stack zip_archive \<Rightarrow> ('s, 'd) stack zip_source \<Rightarrow>
   zip_dirent \<Rightarrow> int \<times> ('s, 'd) stack zip_archive \<times> ('s, 'd) stack zip_source \<times> zip_dirent" where
  "add_data_finish env flags is_zip64 offstart offdata ret n za upper de =
     (case shared_stat env za upper of
        ((r, st), za, upper) \<Rightarrow>
          let (ret, za) = (if r < 0 then (-1, za_error_from za upper) else (ret, za))
          in case on_shared env zip_source_get_compression_flags za upper of
            (cf, za, upper) \<Rightarrow>
              let (ret, za) = (if cf < 0 then (-1, za_error_from za upper) else (ret, za))
              in case shared_release env za upper of
                (_, za, upper) \<Rightarrow>
                  let src = under_layers env n upper
                  in if ret < 0 then (-1, za, src, de)
                     else case add_data_rewrite env st flags is_zip64 offstart offdata cf za de of
                       (r, za, de) \<Rightarrow> (r, za, src, de))"

text \<open>The results are the archive, the source of the data and the entry.\<close>

definition add_data ::
  "'d environment \<Rightarrow> ('s, 'd) stack zip_archive \<Rightarrow> ('s, 'd) stack zip_source \<Rightarrow> zip_dirent \<Rightarrow>
   (int \<times> ('s, 'd) stack zip_archive \<times> ('s, 'd) stack zip_source \<times> zip_dirent) option" where
  "add_data env za src de =
     (case shared_stat env za src of
        ((r, st), za, src) \<Rightarrow>
          if r < 0 then Some (-1, za_error_from za src, src, de)
          else
          let (st, de) = add_data_stat st de; (flags, de) = add_data_flags st de
          in case za_tell_write za of
            (offstart, za) \<Rightarrow>
              if offstart < 0 then Some (-1, za_source_failed za, src, de)
              else case zip_dirent_write (ev_mem env) (ev_ext env) (za_writer za)
                          (de\<lparr>de_bitflags := de_bitflags de AND NOT ZIP_GPBF_DATA_DESCRIPTOR\<rparr>) flags of
                (is_zip64, w, de) \<Rightarrow>
                  let za = za_put_writer za w
                  in if is_zip64 < 0 then Some (-1, za, src, de)
                     else case add_data_layers env st de za src of
                       (ok, n, za, upper) \<Rightarrow>
                         if \<not> ok then Some (-1, za, under_layers env n upper, de)
                         else case za_tell_write za of
                           (offdata, za) \<Rightarrow>
                             if offdata < 0 then Some (-1, za_source_failed za, under_layers env n upper, de)
                             else map_option
                                    (\<lambda>(ret, za, upper). add_data_finish env flags is_zip64 offstart offdata ret n za upper de)
                                    (copy_source env za upper))"

section \<open>Closing\<close>

text \<open>An entry whose data stays as it is in the old file.\<close>

definition close_copy_entry ::
  "'d environment \<Rightarrow> 's zip_archive \<Rightarrow> nat \<Rightarrow> zip_dirent \<Rightarrow> bool \<times> 's zip_archive \<times> zip_dirent" where
  "close_copy_entry env za i de =
     (case zip_dirent_write (ev_mem env) (ev_ext env) (za_writer za)
             (de\<lparr>de_bitflags := de_bitflags de AND NOT ZIP_GPBF_DATA_DESCRIPTOR\<rparr>) ZIP_EF_LOCAL of
        (r, w, de) \<Rightarrow>
          let za = za_put_writer za w
          in if r < 0 then (False, za, de)
             else case zip_file_get_offset (ev_mem env) (map en_orig (za_entry za)) (the (za_src za)) (of_nat i) (za_error za) of
               (offset, src, err) \<Rightarrow>
                 let za = za\<lparr>za_src := Some src, za_error := err\<rparr>
                 in if offset = 0 then (False, za, de)
                    else case zip_source_seek (the (za_src za)) (sint offset) SEEK_SET of
                      (r, src) \<Rightarrow>
                        let za = za\<lparr>za_src := Some src\<rparr>
                        in if r < 0 then (False, za_source_failed za, de)
                           else case copy_data za (unat (de_comp_size de)) of (r, za) \<Rightarrow> (r \<ge> 0, za, de))"

text \<open>An entry with new data, from the source it was given or from the old file with other layers.\<close>

definition close_new_entry ::
  "'d environment \<Rightarrow> ('s, 'd) stack zip_archive \<Rightarrow> nat \<Rightarrow> zip_dirent \<Rightarrow>
   (bool \<times> ('s, 'd) stack zip_archive \<times> zip_dirent) option" where
  "close_new_entry env za i de =
     (case en_source (za_entry za ! i) of
        Some src \<Rightarrow>
          map_option (\<lambda>(r, za, src, de).
            (r \<ge> 0, za\<lparr>za_entry := (za_entry za)[i := (za_entry za ! i)\<lparr>en_source := Some src\<rparr>]\<rparr>, de))
            (add_data env za src de)
      | None \<Rightarrow>
          (case zip_source_zip_new env za (of_nat i) ZIP_FL_UNCHANGED 0 0 None of
             (None, za) \<Rightarrow> Some (False, za, de)
           | (Some zs, za) \<Rightarrow>
               map_option (\<lambda>(r, za, zs, de). (r \<ge> 0, fst (snd (shared_release env za zs)), de)) (add_data env za zs de)))"

text \<open>One entry; false is failure.\<close>

definition close_entry ::
  "'d environment \<Rightarrow> u64 \<Rightarrow> ('s, 'd) stack zip_archive \<Rightarrow> nat \<Rightarrow> (bool \<times> ('s, 'd) stack zip_archive) option" where
  "close_entry env unchanged za i =
     (let e = za_entry za ! i
      in if (case en_orig e of None \<Rightarrow> False | Some orig \<Rightarrow> de_offset orig < unchanged) then Some (True, za)
         else
         let new_data = (ZIP_ENTRY_DATA_CHANGED e \<or> ZIP_ENTRY_CHANGED e ZIP_DIRENT_COMP_METHOD \<or>
                         ZIP_ENTRY_CHANGED e ZIP_DIRENT_ENCRYPTION_METHOD)
         in case (if en_changes e = None then zip_dirent_clone (ev_mem env) (en_orig e) else en_changes e) of
              None \<Rightarrow> Some (False, snd (za_fail za ZIP_ER_MEMORY))
            | Some de \<Rightarrow>
                (case zip_read_local_ef (ev_mem env) (ev_errno env)
                        (za_put_entry za (of_nat i) (e\<lparr>en_changes := Some de\<rparr>)) (of_nat i) of
                   (r, za) \<Rightarrow>
                     if r < 0 then Some (False, za)
                     else case za_tell_write za of
                       (off, za) \<Rightarrow>
                         if off < 0 then Some (False, za)
                         else
                         let de = (the (en_changes (za_entry za ! i)))\<lparr>de_offset := word_of_int off\<rparr>;
                             put = (\<lambda>(ok, za, de). (ok, za\<lparr>za_entry := (za_entry za)[i :=
                                                  (za_entry za ! i)\<lparr>en_changes := Some de\<rparr>]\<rparr>))
                         in if new_data then map_option put (close_new_entry env za i de)
                            else Some (put (close_copy_entry env za i de))))"

fun close_entries ::
  "'d environment \<Rightarrow> u64 \<Rightarrow> nat list \<Rightarrow> ('s, 'd) stack zip_archive \<Rightarrow> (bool \<times> ('s, 'd) stack zip_archive) option" where
  "close_entries env unchanged [] za = Some (True, za)"
| "close_entries env unchanged (i # is) za =
     (case close_entry env unchanged za i of
        None \<Rightarrow> None
      | Some (ok, za) \<Rightarrow> if ok then close_entries env unchanged is za else Some (False, za))"

definition write_cdir :: "malloc \<Rightarrow> external \<Rightarrow> 's zip_archive \<Rightarrow> nat list \<Rightarrow> int \<times> 's zip_archive" where
  "write_cdir mem ext za filelist =
     (case za_tell_write za of
        (cd_start, za) \<Rightarrow>
          if cd_start < 0 then (-1, za)
          else case zip_cdir_write mem ext za filelist of
            (dir_size, za) \<Rightarrow>
              if dir_size < 0 then (-1, za)
              else case za_tell_write za of (cd_end, za) \<Rightarrow> (if cd_end < 0 then -1 else 0, za))"

text \<open>Everything that is written, from the prefix to the commit. After an error the write is rolled back, but not when
  writing the prefix fails.\<close>

definition close_commit :: "'s zip_archive \<Rightarrow> bool \<Rightarrow> bool \<times> 's zip_archive" where
  "close_commit za ok =
     (case (if ok then zip_source_commit_write (the (za_src za)) else (0, the (za_src za))) of
        (r, src) \<Rightarrow>
          let za = za\<lparr>za_src := Some src\<rparr>;
              (ok, za) = (if r \<noteq> 0 then (False, za_source_failed za) else (ok, za))
          in if ok then (True, za)
             else (False, za\<lparr>za_src := Some (zip_source_rollback_write (the (za_src za)))\<rparr>))"

definition close_write ::
  "'d environment \<Rightarrow> u64 \<Rightarrow> nat list \<Rightarrow> ('s, 'd) stack zip_archive \<Rightarrow> (bool \<times> ('s, 'd) stack zip_archive) option" where
  "close_write env unchanged filelist za =
     (case (case za_prefixdata za of None \<Rightarrow> (0, za) | Some p \<Rightarrow> za_write za p) of
        (r, za) \<Rightarrow>
          if r < 0 then Some (False, za)
          else case close_entries env unchanged filelist za of
            None \<Rightarrow> None
          | Some (ok, za) \<Rightarrow>
              (case (if ok then write_cdir (ev_mem env) (ev_ext env) za filelist else (-1, za)) of
                 (r, za) \<Rightarrow> Some (close_commit za (r \<ge> 0))))"

text \<open>After a failure the archive is left; after success it is gone, and what is left is its source, when somebody else
  keeps it. \<open>None\<close> is a copying that never ends.\<close>

definition zip_close ::
  "'d environment \<Rightarrow> ('s, 'd) stack zip_archive \<Rightarrow>
   (('s, 'd) stack zip_archive + ('s, 'd) stack zip_source option) option" where
  "zip_close env za =
     (case zip_changed za of
        (changed, survivors) \<Rightarrow>
          if survivors = 0
          then if za_open_flags za AND ZIP_TRUNCATE \<noteq> 0 \<or> changed
               then case zip_source_remove (the (za_src za)) of
                      (r, src) \<Rightarrow>
                        let za = za\<lparr>za_src := Some src\<rparr>
                        in if r < 0 then Some (Inl (za_source_failed za)) else Some (Inr (zip_discard za))
               else Some (Inr (zip_discard za))
          else if \<not> changed then Some (Inr (zip_discard za))
          else if survivors > length (za_entry za) then Some (Inl (snd (za_fail za ZIP_ER_INTERNAL)))
          else if \<not> ev_mem env A_filelist then Some (Inl za)
          else case close_filelist (za_entry za) survivors 0 ZIP_UINT64_MAX of
            None \<Rightarrow> Some (Inl (snd (za_fail za ZIP_ER_INTERNAL)))
          | Some (filelist, unchanged) \<Rightarrow>
              (case close_unchanged_offset (ev_mem env) za unchanged of
                 (None, za) \<Rightarrow> Some (Inl za)
               | (Some unchanged, za) \<Rightarrow>
                   (case close_begin_write za unchanged of
                      (None, za) \<Rightarrow> Some (Inl za)
                    | (Some unchanged, za) \<Rightarrow>
                        map_option (\<lambda>(ok, za). if ok then Inr (zip_discard za) else Inl za)
                          (close_write env unchanged filelist za))))"

end
