(* ===== verification/Zip_Close_Facts.thy ===== *)
theory Zip_Close_Facts
  imports Zip_Close
begin

text \<open>
  What saving an archive guarantees when it fails.
\<close>

section \<open>The state of a write\<close>

lemma call_write_state: "src_write_state (snd (zip_source_call src cmd)) = src_write_state src"
  by (auto simp: zip_source_call_def src_fetch_error_def src_set_error_def src_invoke_def Let_def split: prod.splits payload.splits)

lemma set_error_write_state [simp]: "src_write_state (src_set_error src a b) = src_write_state src"
  by (simp add: src_set_error_def)

lemma seek_write_state: "zip_source_seek src off wh = (r, src') \<Longrightarrow> src_write_state src' = src_write_state src"
  using call_write_state [of src "ZIP_SOURCE_SEEK off wh"]
  by (auto simp: zip_source_seek_def split: if_splits prod.splits)

lemma read_loop_write_state:
  "zip_source_read_loop src acc n len = (r, d, src') \<Longrightarrow> src_write_state src' = src_write_state src"
proof (induction src acc n len rule: zip_source_read_loop.induct)
  case (1 src acc n len)
  show ?case
  proof (cases "n < len")
    case True
    obtain m out src1 where call: "zip_source_call src (ZIP_SOURCE_READ (of_nat (len - n))) = ((m, out), src1)"
      by (metis prod.exhaust)
    then have "src_write_state src1 = src_write_state src"
      using call_write_state [of src "ZIP_SOURCE_READ (of_nat (len - n))"] by simp
    then show ?thesis
      using 1(2) 1(1) [OF True call [symmetric] refl] True call
      by (subst (asm) zip_source_read_loop.simps) (auto split: if_splits)
  next
    case False
    then show ?thesis using 1(2) by (subst (asm) zip_source_read_loop.simps) simp
  qed
qed

lemma read_write_state: "zip_source_read src len = (r, d, src') \<Longrightarrow> src_write_state src' = src_write_state src"
  by (auto simp: zip_source_read_def dest: read_loop_write_state split: if_splits)

lemma zip_read_write_state: "zip_read src len err = (r, d, src', err') \<Longrightarrow> src_write_state src' = src_write_state src"
  by (auto simp: zip_read_def dest: read_write_state split: if_splits prod.splits)

lemma from_source_write_state:
  "zip_buffer_new_from_source mem src sz buf err = (b, src', err') \<Longrightarrow> src_write_state src' = src_write_state src"
  by (auto simp: zip_buffer_new_from_source_def dest: zip_read_write_state split: if_splits prod.splits option.splits)

lemma dirent_size_write_state:
  "zip_dirent_size mem src flags err = (r, src', err') \<Longrightarrow> src_write_state src' = src_write_state src"
  by (auto simp: zip_dirent_size_def Let_def dest!: from_source_write_state seek_write_state
      split: if_splits prod.splits option.splits)

lemma get_offset_write_state:
  "zip_file_get_offset mem origs src i err = (r, src', err') \<Longrightarrow> src_write_state src' = src_write_state src"
  by (auto simp: zip_file_get_offset_def Let_def dest!: dirent_size_write_state seek_write_state
      split: if_splits prod.splits option.splits)

lemma get_end_write_state:
  "zip_file_get_end mem origs src i err = (r, src', err') \<Longrightarrow> src_write_state src' = src_write_state src"
  unfolding zip_file_get_end_def Let_def
  by (auto dest!: get_offset_write_state seek_write_state read_write_state split: if_splits prod.splits)

lemma close_write_state: "zip_source_close src = (r, src') \<Longrightarrow> src_write_state src' = src_write_state src"
  using call_write_state [of "src\<lparr>src_open_count := src_open_count src - 1\<rparr>" ZIP_SOURCE_CLOSE]
  by (auto simp: zip_source_close_def Let_def split: if_splits prod.splits option.splits)

section \<open>Nothing stays half written\<close>

lemma rollback_not_open: "\<not> ZIP_SOURCE_IS_OPEN_WRITING (zip_source_rollback_write src)"
  by (auto simp: zip_source_rollback_write_def ZIP_SOURCE_IS_OPEN_WRITING_def)

lemma remove_failed_not_open:
  assumes "zip_source_remove src = (r, src')" "r < 0"
  shows "\<not> ZIP_SOURCE_IS_OPEN_WRITING src' \<or> ZIP_SOURCE_IS_OPEN_WRITING src"
proof -
  obtain cr s1 where s1: "(if ZIP_SOURCE_IS_OPEN_READING src then zip_source_close src else (0, src)) = (cr, s1)"
    by fastforce
  then have state: "src_write_state s1 = src_write_state src" by (auto dest: close_write_state split: if_splits)
  let ?s2 = "if src_write_state s1 \<noteq> ZIP_SOURCE_WRITE_CLOSED then zip_source_rollback_write s1 else s1"
  have "\<not> ZIP_SOURCE_IS_OPEN_WRITING ?s2"
    using rollback_not_open [of s1] by (auto simp: ZIP_SOURCE_IS_OPEN_WRITING_def)
  moreover have "src_write_state (snd (zip_source_call ?s2 ZIP_SOURCE_REMOVE)) = src_write_state ?s2"
    by (rule call_write_state)
  ultimately show ?thesis
    using assms s1 state by (auto simp: zip_source_remove_def ZIP_SOURCE_IS_OPEN_WRITING_def Let_def split: if_splits prod.splits)
qed

lemma begin_write_failed: "zip_source_begin_write src = (r, src') \<Longrightarrow> r < 0 \<Longrightarrow> src_write_state src' = src_write_state src"
  using call_write_state [of src ZIP_SOURCE_BEGIN_WRITE] by (auto simp: zip_source_begin_write_def split: if_splits prod.splits)

lemma begin_cloning_failed:
  "zip_source_begin_write_cloning src n = (r, src') \<Longrightarrow> r < 0 \<Longrightarrow> src_write_state src' = src_write_state src"
  using call_write_state [of src "ZIP_SOURCE_BEGIN_WRITE_CLONING n"]
  by (auto simp: zip_source_begin_write_cloning_def split: if_splits prod.splits)

lemma close_begin_write_failed:
  assumes "close_begin_write za unchanged = (None, za')"
  shows "src_write_state (the (za_src za')) = src_write_state (the (za_src za)) \<and> za_prefixdata za' = za_prefixdata za"
proof -
  obtain r src where start: "(if unchanged > 0 then zip_source_begin_write_cloning (the (za_src za)) unchanged
      else (-1, the (za_src za))) = (r, src)" by fastforce
  obtain r' src' where again: "zip_source_begin_write src = (r', src')" by fastforce
  show ?thesis
    using assms start again begin_cloning_failed [of "the (za_src za)" unchanged r src] begin_write_failed [OF again]
    by (auto simp: close_begin_write_def za_source_failed_def Let_def split: if_splits)
qed

lemma unchanged_offset_write_state:
  "close_unchanged_offset mem za unchanged = (r, za') \<Longrightarrow> za_prefixdata za' = za_prefixdata za \<and>
   src_write_state (the (za_src za')) = src_write_state (the (za_src za))"
  by (auto simp: close_unchanged_offset_def dest: get_end_write_state split: if_splits prod.splits option.splits)

lemma close_commit_failed: "close_commit za ok = (False, za') \<Longrightarrow> \<not> ZIP_SOURCE_IS_OPEN_WRITING (the (za_src za'))"
  by (auto simp: close_commit_def Let_def rollback_not_open split: if_splits prod.splits)

lemma close_write_failed:
  "close_write env unchanged filelist za = Some (False, za') \<Longrightarrow> za_prefixdata za = None \<Longrightarrow>
   \<not> ZIP_SOURCE_IS_OPEN_WRITING (the (za_src za'))"
  by (auto simp: close_write_def dest: close_commit_failed split: option.splits prod.splits if_splits)

text \<open>C36. When an archive without a prefix cannot be saved, for whatever reason, no write is left open on its source: what
  was begun is rolled back, so that the archive can be saved again or discarded.\<close>

theorem zip_close_failed_rolled_back:
  assumes "zip_close env za = Some (Inl za')" and "za_prefixdata za = None"
    and "\<not> ZIP_SOURCE_IS_OPEN_WRITING (the (za_src za))"
  shows "\<not> ZIP_SOURCE_IS_OPEN_WRITING (the (za_src za'))"
proof -
  have open_src: "\<not> ZIP_SOURCE_IS_OPEN_WRITING s" if "src_write_state s = src_write_state (the (za_src za))" for s
    using that assms(3) by (simp add: ZIP_SOURCE_IS_OPEN_WRITING_def)
  obtain changed survivors where ch: "zip_changed za = (changed, survivors)" by fastforce
  show ?thesis
  proof (cases "survivors = 0")
    case True
    then show ?thesis
      using assms ch remove_failed_not_open [of "the (za_src za)"]
      by (auto simp: zip_close_def za_source_failed_def Let_def split: if_splits prod.splits)
  next
    case False
    show ?thesis
    proof (cases "close_filelist (za_entry za) survivors 0 ZIP_UINT64_MAX")
      case None
      then show ?thesis using assms ch False
        by (auto simp: zip_close_def za_fail_def split: if_splits)
    next
      case (Some p)
      obtain filelist unchanged where p: "p = (filelist, unchanged)" by (cases p)
      obtain u za1 where za1: "close_unchanged_offset (ev_mem env) za unchanged = (u, za1)" by fastforce
      note state1 = unchanged_offset_write_state [OF za1]
      show ?thesis
      proof (cases u)
        case None
        then show ?thesis using assms ch False Some p za1 open_src state1
          by (auto simp: zip_close_def za_fail_def split: if_splits)
      next
        case u: (Some u1)
        obtain v za2 where za2: "close_begin_write za1 u1 = (v, za2)" by fastforce
        show ?thesis
        proof (cases v)
          case None
          then show ?thesis using assms ch False Some p za1 u za2 open_src state1 close_begin_write_failed [of za1 u1 za2]
            by (auto simp: zip_close_def za_fail_def split: if_splits)
        next
          case v: (Some v1)
          have "za_prefixdata za2 = None"
            using za2 v state1 assms(2) by (auto simp: close_begin_write_def Let_def split: if_splits prod.splits)
          then show ?thesis using assms ch False Some p za1 u za2 v open_src close_write_failed [of env v1 filelist za2]
            by (auto simp: zip_close_def za_fail_def split: if_splits)
        qed
      qed
    qed
  qed
qed

text \<open>An archive with one new entry, over a source that begins a write and then cannot tell its position.\<close>

definition telling_fails :: "unit \<Rightarrow> zip_source_cmd \<Rightarrow> reply \<times> unit" where
  "telling_fails u cmd = ((if cmd = ZIP_SOURCE_TELL_WRITE then -1 else 0, No_data), u)"

definition plain_environment :: "unit environment" where
  "plain_environment = \<lparr>ev_mem = malloc_ok, ev_ext = fixed_external, ev_junk = 0,
     ev_algorithm = (\<lambda>_. \<lparr>al_allocate = (\<lambda>_ _ _. None), al_compression_flags = (\<lambda>_. 0), al_start = (\<lambda>d e. (True, d, e)),
       al_end = (\<lambda>d e. (True, d, e)), al_input = (\<lambda>d b e. (True, d, e)), al_end_of_input = (\<lambda>d. d),
       al_process = (\<lambda>d n e. (ZIP_COMPRESSION_END, 0, [], d, e))\<rparr>),
     ev_now = 0, ev_errno = 0\<rparr>"

definition telling_source :: "(unit, unit) stack zip_source" where
  "telling_source = stack_source plain_environment
     \<lparr>sf_error = zip_error_init, sf_supports = 0xbfff, sf_open_count = 0, sf_write_state = ZIP_SOURCE_WRITE_CLOSED,
      sf_source_closed = False, sf_source_archive = None, sf_refcount = 1, sf_eof = False, sf_had_read_error = False\<rparr>
     (Base telling_fails ())"

definition telling_archive :: "(unit, unit) stack zip_archive" where
  "telling_archive =
     \<lparr>za_src = Some telling_source, za_open_flags = 0, za_error = zip_error_init, za_flags = 0, za_ch_flags = 0,
      za_default_password = None, za_comment_orig = None, za_comment_changes = None, za_comment_changed = False,
      za_nentry_alloc = 1,
      za_entry = [\<lparr>en_orig = None, en_changes = Some zip_dirent_init, en_source = Some telling_source, en_deleted = False\<rparr>],
      za_names = \<lparr>hash_table_size = 0, hash_nentries = 0, hash_table = []\<rparr>, za_prefixdata = None\<rparr>"

lemma zip_close_failed_rolled_back_witness:
  "\<exists>za'. zip_close plain_environment telling_archive = Some (Inl za') \<and> \<not> ZIP_SOURCE_IS_OPEN_WRITING (the (za_src za'))"
proof -
  have "\<exists>za'. zip_close plain_environment telling_archive = Some (Inl za')"
    by (simp add: zip_close_def telling_archive_def zip_changed_def ZIP_ENTRY_HAS_CHANGES_def ZIP_ENTRY_DATA_CHANGED_def
        plain_environment_def close_unchanged_offset_def telling_source_def stack_source_def build_source_def
        zip_source_supports_def ZIP_SOURCE_MAKE_COMMAND_BITMASK_def close_begin_write_def zip_source_begin_write_def
        ZIP_SOURCE_IS_OPEN_WRITING_def zip_source_call_def src_can_def src_invoke_def telling_fails_def close_write_def
        close_entry_def za_put_entry_def zip_read_local_ef_def za_has_def za_entry_at_def za_tell_write_def
        zip_source_tell_write_def src_fetch_error_def close_commit_def Let_def src_set_error_def)
  then obtain za' where za': "zip_close plain_environment telling_archive = Some (Inl za')" by blast
  have "\<not> ZIP_SOURCE_IS_OPEN_WRITING telling_source" "za_src telling_archive = Some telling_source"
    "za_prefixdata telling_archive = None"
    by (simp_all add: telling_source_def telling_archive_def stack_source_def build_source_def ZIP_SOURCE_IS_OPEN_WRITING_def)
  then show ?thesis using zip_close_failed_rolled_back [OF za'] za' by simp
qed

end
