(* ===== verification/Spec2Isabelle.thy ===== *)
theory Spec2Isabelle
  imports Zip_Source_Protocol Zip_Open_Facts Zip_Crc_Facts Zip_Window_Facts Zip_Pkware_Facts Zip_Cdir_Facts
  Zip_Extra_Api_Facts Zip_Close_Facts
begin

text \<open>
  Verification of the archive library of allvm-tools.

  \<^bold>\<open>The program.\<close> allvm-tools keeps programs as LLVM bitcode in zip archives. The part of it that is C and
  its own is the archive library under \<open>src/libs/archive-rw\<close>, a trimmed libzip with an extension that writes a
  prefix before an archive. The rest is C++ over LLVM (containers, code generation, an object cache) and vendored
  runtime support; it is listed as not modelled in the manifest. The library reads and writes archives through
  sources (\<open>zip_source_*.c\<close>), keeps an opened archive as a table of entries with pending changes (\<open>zip_set_name.c\<close>,
  \<open>zip_delete.c\<close>, \<open>zip_unchange.c\<close> and others), finds entries by name through a hash table (\<open>zip_hash.c\<close>), and
  translates between directory entries and bytes (\<open>zip_dirent.c\<close>, \<open>zip_extra_field.c\<close>, \<open>zip_buffer.c\<close>).

  \<^bold>\<open>How the model is laid out.\<close> One theory for each component; the functions keep their C names without leading
  underscores.

  \<^item> \<open>Zip_Prelude\<close>: integer types, byte encodings, the allocation oracle; \<open>Zip_Error\<close>: error values and messages.
  \<^item> \<open>Zip_Buffer\<close>: the bounds-checked buffer; \<open>Zip_Utf8\<close>: guessing and converting encodings; \<open>Zip_Io\<close>: strings and
    the transfer of whole items, with the contract of a byte sink.
  \<^item> \<open>Zip_Source\<close>: the generic source operations over a callback and the contract of a byte source;
    \<open>Zip_Source_Protocol\<close>: the order in which a callback sees its commands; \<open>Zip_Source_Buffer\<close> and
    \<open>Zip_Source_Buffer_File\<close>: the in-memory source, over an explicit heap of blocks, as a flat file.
  \<^item> \<open>Zip_Source_Layers\<close>: the checksum, window, decryption and compression layers; \<open>Zip_Deflate\<close>: the deflate
    algorithm over zlib; \<open>Zip_Layers\<close>, \<open>Zip_Crc_Facts\<close>, \<open>Zip_Window_Facts\<close>, \<open>Zip_Pkware_Facts\<close>: what layers do over any
    lower source.
  \<^item> \<open>Zip_Extra_Field\<close>, \<open>Zip_Dirent\<close>, \<open>Zip_Dirent_Codec\<close>: extra fields, directory entries and the round trip of headers.
  \<^item> \<open>Zip_Hash\<close>: the name table as a map; \<open>Zip_Archive\<close>, \<open>Zip_Archive_Names\<close>: the archive in memory, its editing
    operations and the agreement of the name table with the entries; \<open>Zip_Attributes\<close>, \<open>Zip_Attributes_Facts\<close>:
    comments, times, attributes, flags and status.
  \<^item> \<open>Zip_Extra_Api\<close>, \<open>Zip_Extra_Api_Facts\<close>: the extra fields of an entry as a program sets and reads them.
  \<^item> \<open>Zip_Open\<close>, \<open>Zip_Open_Facts\<close>: finding and reading the directory, the consistency check, opening.
  \<^item> \<open>Zip_Cdir_Write\<close>, \<open>Zip_Cdir_Read\<close>, \<open>Zip_Cdir_Facts\<close>: writing the directory, and that it is found and read again.
  \<^item> \<open>Zip_Stack\<close>: chains of layers of any length as values of one type, sharing the source of an archive; \<open>Zip_Files\<close>: the
    files of an archive (\<open>zip_fopen\<close>, \<open>zip_fread\<close> and the like); \<open>Zip_Close\<close>, \<open>Zip_Close_Facts\<close>: saving an archive.

  \<^bold>\<open>Conventions.\<close> Pointers into data are indices, freed memory is not modelled except in the in-memory source. An
  operation that may fail to allocate takes an oracle. An error parameter is a value passed in and out. Integers are
  words of their width; signed results are integers. Functions of libc and zlib (\<open>crc32\<close>, \<open>mktime\<close>, \<open>localtime\<close>, the
  streams of zlib) are parameters with their documented laws as hypotheses.

  \<^bold>\<open>What is shown.\<close> Headers, dates, extra fields and strings survive writing and reading; parsers accept exactly what
  they should; no call sequence violates the protocol of a source; the in-memory source is a flat file, and undoing a
  write restores it; the name table is a map through growth, deletion and reverting, and agrees with the entries of an
  archive through every sequence of edits from the moment it is opened; setters and getters correspond; a directory
  that is read is inside the archive. Several properties show where the code does not do what it means to; the findings
  in the manifest point to the lines.

  \<^bold>\<open>Loops.\<close> Loops whose end is evident are recursive functions with a measure. The loop of \<open>compress_read\<close> can go on
  for ever with an algorithm that makes no progress, and that of \<open>copy_source\<close> with a source that never ends; they are
  partial functions, and not returning is \<open>None\<close>.

  \<^bold>\<open>Not modelled.\<close> The file source (\<open>zip_source_filep.c\<close>, \<open>zip_source_file.c\<close>) is stdio and operating system calls.
  Progress reports (\<open>zip_progress.c\<close>) are floating point numbers given to a callback, and nothing depends on them.
  \<open>_zip_filerange_crc\<close> is called by nothing. The list of open sources of an archive is left out, so closing an archive
  does not reach the files still open in it; a source made from another archive's entry is not covered. The tools, the
  containers, the code generator and the object cache are C++ over LLVM; the unwinder and the musl support are vendored.
\<close>

end
